(* ===== verification/Prelude.thy ===== *)
theory Prelude
  imports Main "HOL-Library.Word" "HOL-Library.Char_ord" "HOL-Library.List_Lexorder"
begin

text \<open>
  Shared vocabulary of the development: machine integers and byte buffers
  (\<open>uint8_t\<close> .. \<open>uint64_t\<close> as words, \<open>std::vector<uint8_t>\<close> as \<open>bytes\<close>,
  \<open>std::string\<close> as \<open>string\<close>), the shift-and-mask loops that put integers on the
  wire, \<open>std::map\<close> and \<open>std::set\<close> as strictly sorted lists, and the generic
  lemmas the components share.  The order on \<open>string\<close> is the lexicographic byte
  order of \<open>std::string::operator<\<close>.
\<close>

unbundle bit_operations_syntax

section \<open>Machine integers, bytes and strings\<close>

type_synonym u8 = "8 word"
type_synonym u16 = "16 word"
type_synonym u32 = "32 word"
type_synonym u64 = "64 word"
type_synonym bytes = "u8 list"
type_synonym PeerId = string

named_theorems wire_simps
named_theorems omap_simps

definition byte_of_char :: "char \<Rightarrow> u8" where
  "byte_of_char c = word_of_nat (of_char c)"

definition char_of_byte :: "u8 \<Rightarrow> char" where
  "char_of_byte b = char_of (unat b)"

definition to_bytes :: "string \<Rightarrow> bytes" where
  "to_bytes s = map byte_of_char s"

definition of_bytes :: "bytes \<Rightarrow> string" where
  "of_bytes bs = map char_of_byte bs"

lemma char_of_byte_of_char [simp]: "char_of_byte (byte_of_char c) = c"
  using nat_of_char_less_256 [of c]
  by (simp add: char_of_byte_def byte_of_char_def unat_of_nat)

lemma byte_of_char_of_byte [simp]: "byte_of_char (char_of_byte b) = b"
proof -
  have "unat b < 256" using unsigned_less [where ?'a = nat, of b] by simp
  then show ?thesis by (simp add: char_of_byte_def byte_of_char_def)
qed

lemma of_bytes_to_bytes [simp]: "of_bytes (to_bytes s) = s"
  by (simp add: of_bytes_def to_bytes_def map_idI)

lemma to_bytes_of_bytes [simp]: "to_bytes (of_bytes bs) = bs"
  by (simp add: of_bytes_def to_bytes_def map_idI)

lemma length_to_bytes [simp]: "length (to_bytes s) = length s"
  by (simp add: to_bytes_def)

lemma length_of_bytes [simp]: "length (of_bytes bs) = length bs"
  by (simp add: of_bytes_def)

lemma to_bytes_Nil_iff [simp]: "to_bytes s = [] \<longleftrightarrow> s = []"
  by (simp add: to_bytes_def)

lemma of_bytes_Nil_iff [simp]: "of_bytes bs = [] \<longleftrightarrow> bs = []"
  by (simp add: of_bytes_def)

lemma to_bytes_inject [simp]: "to_bytes s = to_bytes t \<longleftrightarrow> s = t"
  by (metis of_bytes_to_bytes)

lemma take_to_bytes: "take n (to_bytes s) = to_bytes (take n s)"
  by (simp add: to_bytes_def take_map)

section \<open>Big-endian and little-endian integers\<close>

text \<open>
  \<open>be_bytes n v\<close> is the loop \<open>for (i = n-1; i >= 0; --i) push_back((v >> 8*i) & 0xff)\<close>
  and \<open>be_value\<close> the loop \<open>v = (v << 8) | p[i]\<close> that reads it back;
  \<open>le_bytes\<close> and \<open>le_value\<close> are the little-endian loops (also the layout of a
  packed struct on the little-endian targets).
\<close>

definition be_bytes :: "nat \<Rightarrow> 'a::len word \<Rightarrow> bytes" where
  "be_bytes n v = map (\<lambda>i. ucast (drop_bit (8 * i) v AND 0xff)) (rev [0..<n])"

definition be_value :: "bytes \<Rightarrow> 'a::len word" where
  "be_value bs = foldl (\<lambda>v b. push_bit 8 v OR ucast b) 0 bs"

definition le_bytes :: "nat \<Rightarrow> 'a::len word \<Rightarrow> bytes" where
  "le_bytes n v = map (\<lambda>i. ucast (drop_bit (8 * i) v AND 0xff)) [0..<n]"

fun le_acc :: "nat \<Rightarrow> 'a::len word \<Rightarrow> bytes \<Rightarrow> 'a word" where
  "le_acc i v [] = v"
| "le_acc i v (b # bs) = le_acc (Suc i) (v OR push_bit (8 * i) (ucast b)) bs"

definition le_value :: "bytes \<Rightarrow> 'a::len word" where
  "le_value bs = le_acc 0 0 bs"

lemma length_be_bytes [simp]: "length (be_bytes n v) = n"
  by (simp add: be_bytes_def)

lemma length_le_bytes [simp]: "length (le_bytes n v) = n"
  by (simp add: le_bytes_def)

lemma be_bytes_0 [simp]: "be_bytes 0 v = []"
  by (simp add: be_bytes_def)

lemma byte_mask: "(ucast (w AND 0xff) :: u8) = ucast (w :: 'a::len word)"
proof -
  have "(0xff :: 'a word) = mask 8" by (simp add: mask_eq_exp_minus_1)
  then have "w AND 0xff = take_bit 8 w" by (simp only: take_bit_eq_mask)
  then show ?thesis
    by (simp only:) (intro bit_word_eqI; auto simp: bit_simps dest: bit_imp_le_length)
qed

lemma be_bytes_Suc:
  "be_bytes (Suc n) v = be_bytes n (drop_bit 8 v) @ [ucast (v :: 'a::len word)]"
proof -
  have "rev [0..<Suc n] = map Suc (rev [0..<n]) @ [0]"
    by (simp add: map_Suc_upt rev_map [symmetric] upt_conv_Cons del: upt_Suc)
  then show ?thesis
    by (simp add: be_bytes_def byte_mask drop_bit_drop_bit add.commute del: upt_Suc)
qed

lemma be_value_snoc: "be_value (bs @ [b]) = push_bit 8 (be_value bs) OR ucast b"
  by (simp add: be_value_def)

lemma push_take_or_byte:
  "push_bit 8 (take_bit k (drop_bit 8 v)) OR ucast (ucast v :: u8)
     = take_bit (8 + k) (v :: 'a::len word)"
  by (intro bit_word_eqI) (auto simp: bit_simps)

lemma be_value_be_bytes_take: "be_value (be_bytes n v) = take_bit (8 * n) (v :: 'a::len word)"
proof (induction n arbitrary: v)
  case 0
  show ?case by (simp add: be_value_def)
next
  case (Suc n)
  show ?case
    by (simp add: be_bytes_Suc be_value_snoc Suc push_take_or_byte add.commute)
qed

lemma take_bit_full: "LENGTH('a) \<le> k \<Longrightarrow> take_bit k (v :: 'a::len word) = v"
  by (intro bit_word_eqI) (auto simp: bit_simps)

lemma be_value_be_bytes [wire_simps]:
  "LENGTH('a) \<le> 8 * n \<Longrightarrow> be_value (be_bytes n v) = (v :: 'a::len word)"
  by (simp add: be_value_be_bytes_take take_bit_full)

lemma be_bytes_be_value:
  "length bs = n \<Longrightarrow> 8 * n \<le> LENGTH('a) \<Longrightarrow> be_bytes n (be_value bs :: 'a::len word) = bs"
proof (induction bs arbitrary: n rule: rev_induct)
  case Nil
  then show ?case by simp
next
  case (snoc b bs)
  then obtain m where n: "n = Suc m" and m: "length bs = m" by auto
  let ?v = "be_value bs :: 'a word"
  have len: "8 * m + 8 \<le> LENGTH('a)" using snoc.prems n by simp
  have IH: "be_bytes m ?v = bs" using snoc.IH [OF m] len by simp
  have low: "ucast (push_bit 8 ?v OR (ucast b :: 'a word)) = b"
    using len by (intro bit_word_eqI) (auto simp: bit_simps)
  have high: "be_bytes m (drop_bit 8 (push_bit 8 ?v OR (ucast b :: 'a word))) = be_bytes m ?v"
    unfolding be_bytes_def
  proof (rule map_cong [OF refl])
    fix i assume "i \<in> set (rev [0..<m])"
    then have "8 * i + 8 \<le> 8 * m" by simp
    then show "(ucast (drop_bit (8 * i) (drop_bit 8 (push_bit 8 ?v OR (ucast b :: 'a word))) AND 0xff) :: u8)
        = ucast (drop_bit (8 * i) ?v AND 0xff)"
      unfolding byte_mask using len
      by (intro bit_word_eqI) (auto simp: bit_simps dest: bit_imp_le_length)
  qed
  show ?case
    by (simp only: n be_bytes_Suc be_value_snoc low high IH)
qed

lemma le_bytes_Suc:
  "le_bytes (Suc n) v = ucast (v :: 'a::len word) # le_bytes n (drop_bit 8 v)"
  by (simp add: le_bytes_def byte_mask upt_conv_Cons map_Suc_upt [symmetric]
      drop_bit_drop_bit add.commute comp_def del: upt_Suc)

primrec le_digits :: "bytes \<Rightarrow> 'a::len word" where
  "le_digits [] = 0"
| "le_digits (b # bs) = ucast b OR push_bit 8 (le_digits bs)"

lemma le_acc_digits: "le_acc i v bs = v OR push_bit (8 * i) (le_digits bs)"
  by (induction bs arbitrary: i v)
    (simp_all add: push_bit_or push_bit_push_bit or.assoc add.commute)

lemma le_value_digits: "le_value bs = le_digits bs"
  by (simp add: le_value_def le_acc_digits)

lemma le_digits_le_bytes_take: "le_digits (le_bytes n v) = take_bit (8 * n) (v :: 'a::len word)"
proof (induction n arbitrary: v)
  case 0
  show ?case by (simp add: le_bytes_def)
next
  case (Suc n)
  show ?case
    by (simp add: le_bytes_Suc Suc push_take_or_byte [symmetric] or.commute)
qed

lemma le_value_le_bytes [wire_simps]:
  "LENGTH('a) \<le> 8 * n \<Longrightarrow> le_value (le_bytes n v) = (v :: 'a::len word)"
  by (simp add: le_value_digits le_digits_le_bytes_take take_bit_full)

lemma le_bytes_le_value:
  "length bs = n \<Longrightarrow> 8 * n \<le> LENGTH('a) \<Longrightarrow> le_bytes n (le_value bs :: 'a::len word) = bs"
  unfolding le_value_digits
proof (induction bs arbitrary: n)
  case Nil
  then show ?case by (simp add: le_bytes_def)
next
  case (Cons b bs)
  then obtain m where n: "n = Suc m" and m: "length bs = m" by auto
  let ?v = "le_digits bs :: 'a word"
  have len: "8 * m + 8 \<le> LENGTH('a)" using Cons.prems n by simp
  have IH: "le_bytes m ?v = bs" using Cons.IH [OF m] len by simp
  have low: "ucast ((ucast b :: 'a word) OR push_bit 8 ?v) = b"
    using len by (intro bit_word_eqI) (auto simp: bit_simps)
  have high: "le_bytes m (drop_bit 8 ((ucast b :: 'a word) OR push_bit 8 ?v)) = le_bytes m ?v"
    unfolding le_bytes_def
  proof (rule map_cong [OF refl])
    fix i assume "i \<in> set [0..<m]"
    then have "8 * i + 8 \<le> 8 * m" by simp
    then show "(ucast (drop_bit (8 * i) (drop_bit 8 ((ucast b :: 'a word) OR push_bit 8 ?v)) AND 0xff) :: u8)
        = ucast (drop_bit (8 * i) ?v AND 0xff)"
      unfolding byte_mask using len
      by (intro bit_word_eqI) (auto simp: bit_simps dest: bit_imp_le_length)
  qed
  show ?case
    by (simp only: n le_bytes_Suc le_digits.simps low high IH)
qed

lemma take_bit_small: "unat w < 2 ^ n \<Longrightarrow> take_bit n w = (w :: 'a::len word)"
  by (simp add: word_unat_eq_iff unsigned_take_bit_eq take_bit_nat_eq_self)

text \<open>Reading back one prefix of a buffer (the \<open>data + pos\<close> idiom of the decoders).\<close>

lemma take_append_exact [wire_simps]: "length xs = n \<Longrightarrow> take n (xs @ ys) = xs"
  by simp

lemma drop_append_exact [wire_simps]: "length xs = n \<Longrightarrow> drop n (xs @ ys) = ys"
  by simp

lemma unat_of_nat_fits: "n < 2 ^ LENGTH('a) \<Longrightarrow> unat (word_of_nat n :: 'a::len word) = n"
  by (simp add: unat_of_nat take_bit_nat_eq_self)

section \<open>\<open>std::map\<close> and \<open>std::set\<close>\<close>

text \<open>
  A \<open>std::map\<close> is the list of its entries in key order, which is the order the code's
  range-for loops visit.  \<open>map_of\<close> is \<open>find\<close>, \<open>omap_set\<close> is \<open>m[k] = v\<close>,
  \<open>omap_erase\<close> is \<open>erase(k)\<close>, \<open>omap_emplace\<close> is \<open>emplace\<close> (which keeps an existing
  entry).  \<open>omap_ok\<close> is the representation invariant.  A \<open>std::set\<close> is a strictly
  sorted list with \<open>oset_insert\<close> and \<open>oset_erase\<close>.
\<close>

type_synonym ('k, 'v) omap = "('k \<times> 'v) list"

definition omap_ok :: "('k::linorder, 'v) omap \<Rightarrow> bool" where
  "omap_ok m \<longleftrightarrow> sorted_wrt (<) (map fst m)"

fun omap_set :: "'k::linorder \<Rightarrow> 'v \<Rightarrow> ('k, 'v) omap \<Rightarrow> ('k, 'v) omap" where
  "omap_set k v [] = [(k, v)]"
| "omap_set k v ((k', v') # m) =
     (if k < k' then (k, v) # (k', v') # m
      else if k = k' then (k, v) # m
      else (k', v') # omap_set k v m)"

definition omap_erase :: "'k \<Rightarrow> ('k, 'v) omap \<Rightarrow> ('k, 'v) omap" where
  "omap_erase k m = filter (\<lambda>e. fst e \<noteq> k) m"

definition omap_emplace :: "'k::linorder \<Rightarrow> 'v \<Rightarrow> ('k, 'v) omap \<Rightarrow> ('k, 'v) omap" where
  "omap_emplace k v m = (if map_of m k = None then omap_set k v m else m)"

definition omap_keys :: "('k, 'v) omap \<Rightarrow> 'k list" where
  "omap_keys m = map fst m"

lemma omap_ok_Nil [simp]: "omap_ok []"
  by (simp add: omap_ok_def)

lemma omap_ok_Cons: "omap_ok ((k, v) # m) \<longleftrightarrow> omap_ok m \<and> (\<forall>e\<in>set m. k < fst e)"
  by (auto simp: omap_ok_def)

lemma omap_ok_distinct: "omap_ok m \<Longrightarrow> distinct (map fst m)"
  by (simp add: omap_ok_def strict_sorted_iff)

lemma fst_set_omap_set: "fst ` set (omap_set k v m) = insert k (fst ` set m)"
proof (induction m)
  case Nil
  show ?case by simp
next
  case (Cons e m)
  then show ?case by (cases e) (simp add: insert_commute)
qed

lemma omap_set_ok [intro, omap_simps]: "omap_ok m \<Longrightarrow> omap_ok (omap_set k v m)"
proof (induction m)
  case Nil
  then show ?case by (simp add: omap_ok_def)
next
  case (Cons e m)
  obtain k' v' where e: "e = (k', v')" by (cases e)
  have "\<forall>x \<in> fst ` set (omap_set k v m). k' < x" if "k' < k"
    using Cons.prems that by (auto simp: e omap_ok_Cons fst_set_omap_set)
  then show ?case
    using Cons by (auto simp: e omap_ok_Cons not_less le_less dest: order.strict_trans)
qed

lemma omap_erase_ok [intro, omap_simps]: "omap_ok m \<Longrightarrow> omap_ok (omap_erase k m)"
  by (induction m) (auto simp: omap_erase_def omap_ok_Cons)

lemma omap_emplace_ok [intro, omap_simps]: "omap_ok m \<Longrightarrow> omap_ok (omap_emplace k v m)"
  by (simp add: omap_emplace_def omap_set_ok)

lemma map_of_below: "\<forall>e\<in>set m. k < fst e \<Longrightarrow> map_of m (k :: 'k::linorder) = None"
  by (induction m) auto

lemma map_of_omap_set [omap_simps]:
  "omap_ok m \<Longrightarrow> map_of (omap_set k v m) = (map_of m)(k \<mapsto> v)"
proof (induction m)
  case Nil
  then show ?case by auto
next
  case (Cons e m)
  obtain k' v' where e: "e = (k', v')" by (cases e)
  show ?case
    using Cons by (auto simp: e omap_ok_Cons fun_eq_iff)
qed

lemma map_of_omap_erase [omap_simps]: "map_of (omap_erase k m) = (map_of m)(k := None)"
  by (induction m) (auto simp: omap_erase_def fun_eq_iff)

lemma map_of_omap_emplace [omap_simps]:
  "omap_ok m \<Longrightarrow> map_of (omap_emplace k v m) k' =
     (if k' = k then Some (case map_of m k of None \<Rightarrow> v | Some w \<Rightarrow> w) else map_of m k')"
  by (auto simp: omap_emplace_def map_of_omap_set split: option.splits)

lemma set_omap_keys: "set (omap_keys m) = dom (map_of m)"
  by (simp add: omap_keys_def dom_map_of_conv_image_fst)

lemma omap_mem_iff: "omap_ok m \<Longrightarrow> (k, v) \<in> set m \<longleftrightarrow> map_of m k = Some v"
  by (simp add: map_of_eq_Some_iff omap_ok_distinct)

lemma omap_filter_ok: "omap_ok m \<Longrightarrow> omap_ok (filter P m)"
  by (induction m) (auto simp: omap_ok_Cons)

text \<open>Two maps with the same lookups are the same list of entries.\<close>

lemma omap_eqI:
  assumes "omap_ok m" "omap_ok n" "map_of m = map_of n"
  shows "m = n"
  using assms
proof -
  have "set m = set n"
    using assms by (auto simp: omap_mem_iff)
  moreover have "inj_on fst (set m)"
    using omap_ok_distinct [OF assms(1)] by (simp add: distinct_map)
  ultimately show ?thesis
    using assms(1,2)
    by (intro map_sorted_distinct_set_unique [of fst m n]) (simp_all add: omap_ok_def strict_sorted_iff)
qed

definition oset_ok :: "'a::linorder list \<Rightarrow> bool" where
  "oset_ok s \<longleftrightarrow> sorted_wrt (<) s"

definition oset_insert :: "'a::linorder \<Rightarrow> 'a list \<Rightarrow> 'a list" where
  "oset_insert x s = insort_insert x s"

definition oset_erase :: "'a::linorder \<Rightarrow> 'a list \<Rightarrow> 'a list" where
  "oset_erase x s = filter (\<lambda>y. y \<noteq> x) s"

lemma oset_ok_iff: "oset_ok s \<longleftrightarrow> sorted s \<and> distinct s"
  by (simp add: oset_ok_def strict_sorted_iff)

lemma oset_insert_ok [intro, omap_simps]: "oset_ok s \<Longrightarrow> oset_ok (oset_insert x s)"
  by (simp add: oset_ok_iff oset_insert_def sorted_insort_insert distinct_insort_insert)

lemma oset_erase_ok [intro, omap_simps]: "oset_ok s \<Longrightarrow> oset_ok (oset_erase x s)"
  by (auto simp: oset_ok_iff oset_erase_def sorted_wrt_filter)

lemma set_oset_insert [omap_simps]: "set (oset_insert x s) = insert x (set s)"
  by (simp add: oset_insert_def set_insort_insert)

lemma set_oset_erase [omap_simps]: "set (oset_erase x s) = set s - {x}"
  by (auto simp: oset_erase_def)

lemma oset_ok_Nil [simp]: "oset_ok []"
  by (simp add: oset_ok_def)

section \<open>Sequences of steps that emit outputs\<close>

text \<open>A for loop whose body updates the state and makes calls out, in order.\<close>

fun run_steps :: "('a \<Rightarrow> 's \<Rightarrow> 's \<times> 'o list) \<Rightarrow> 'a list \<Rightarrow> 's \<Rightarrow> 's \<times> 'o list" where
  "run_steps f [] s = (s, [])"
| "run_steps f (x # xs) s =
     (let (s1, o1) = f x s; (s2, o2) = run_steps f xs s1 in (s2, o1 @ o2))"

lemma run_steps_inv:
  assumes "\<And>x s. x \<in> set xs \<Longrightarrow> I s \<Longrightarrow> I (fst (f x s))"
  shows "I s \<Longrightarrow> I (fst (run_steps f xs s))"
  using assms by (induction xs arbitrary: s) (auto simp: split_beta Let_def)

lemma run_steps_outs:
  assumes "\<And>x s. x \<in> set xs \<Longrightarrow> I s \<Longrightarrow> I (fst (f x s)) \<and> list_all P (snd (f x s))"
  shows "I s \<Longrightarrow> list_all P (snd (run_steps f xs s))"
  using assms by (induction xs arbitrary: s) (auto simp: split_beta Let_def)

lemma run_steps_append:
  "run_steps f (xs @ ys) s =
     (let (s1, o1) = run_steps f xs s; (s2, o2) = run_steps f ys s1 in (s2, o1 @ o2))"
  by (induction xs arbitrary: s) (auto simp: split_beta Let_def)

text \<open>
  A relation between the state before, the outputs and the state after that holds of no
  step, composes, and holds of every body, holds of the loop.
\<close>

lemma run_steps_rel:
  assumes refl: "\<And>s. R s [] s"
    and trans: "\<And>s a t b u. R s a t \<Longrightarrow> R t b u \<Longrightarrow> R s (a @ b) u"
    and step: "\<And>x s. x \<in> set xs \<Longrightarrow> I s \<Longrightarrow> I (fst (f x s)) \<and> R s (snd (f x s)) (fst (f x s))"
    and start: "I s"
  shows "I (fst (run_steps f xs s)) \<and> R s (snd (run_steps f xs s)) (fst (run_steps f xs s))"
  using step start
proof (induction xs arbitrary: s)
  case Nil
  then show ?case by (simp add: refl)
next
  case (Cons x xs)
  have "I (fst (f x s)) \<and> R s (snd (f x s)) (fst (f x s))" using Cons.prems by simp
  moreover from this have "I (fst (run_steps f xs (fst (f x s))))
      \<and> R (fst (f x s)) (snd (run_steps f xs (fst (f x s)))) (fst (run_steps f xs (fst (f x s))))"
    using Cons.prems by (intro Cons.IH) auto
  ultimately show ?case by (auto simp: split_beta Let_def intro: trans)
qed

end
