(* ===== verification/CryptoUtil.thy ===== *)
theory CryptoUtil
  imports Prelude
begin

text \<open>
  The portable crypto helpers: \<open>crypto/base64.cpp\<close>, \<open>crypto/hkdf.cpp\<close> and the certificate
  builder \<open>crypto/x509_selfsigned.cpp\<close>.  HMAC-SHA256 and the signature are platform code
  and are parameters.
\<close>

section \<open>Base64\<close>

definition b64_table :: string where
  "b64_table = ''ABCDEFGHIJKLMNOPQRSTUVWXYZabcdefghijklmnopqrstuvwxyz0123456789+/''"

definition b64_char :: "u32 \<Rightarrow> char" where
  "b64_char n = b64_table ! unat (n AND 63)"

fun base64Encode :: "bytes \<Rightarrow> string" where
  "base64Encode (a # b # c # r) =
     (let n = push_bit 16 (ucast a) OR push_bit 8 (ucast b) OR ucast c :: u32 in
      [b64_char (drop_bit 18 n), b64_char (drop_bit 12 n), b64_char (drop_bit 6 n), b64_char n] @ base64Encode r)"
| "base64Encode [a] =
     (let n = push_bit 16 (ucast a) :: u32 in [b64_char (drop_bit 18 n), b64_char (drop_bit 12 n), CHR ''='', CHR ''=''])"
| "base64Encode [a, b] =
     (let n = push_bit 16 (ucast a) OR push_bit 8 (ucast b) :: u32 in
      [b64_char (drop_bit 18 n), b64_char (drop_bit 12 n), b64_char (drop_bit 6 n), CHR ''=''])"
| "base64Encode [] = []"

text \<open>The decoder of RFC 4648, the specification of the encoding: four characters give three bytes.\<close>

fun index_of :: "'a \<Rightarrow> 'a list \<Rightarrow> nat option" where
  "index_of x [] = None"
| "index_of x (y # ys) = (if x = y then Some 0 else map_option Suc (index_of x ys))"

definition b64_value :: "char \<Rightarrow> u32 option" where
  "b64_value c = map_option word_of_nat (index_of c b64_table)"

definition b64_group :: "u32 \<Rightarrow> u32 \<Rightarrow> u32 \<Rightarrow> u32 \<Rightarrow> bytes" where
  "b64_group s0 s1 s2 s3 =
     (let n = push_bit 18 s0 OR push_bit 12 s1 OR push_bit 6 s2 OR s3 in
      [ucast (drop_bit 16 n), ucast (drop_bit 8 n), ucast n])"

fun b64_decode :: "string \<Rightarrow> bytes option" where
  "b64_decode [] = Some []"
| "b64_decode (c0 # c1 # c2 # c3 # r) =
     (case (b64_value c0, b64_value c1) of
        (Some s0, Some s1) \<Rightarrow>
          (if c2 = CHR ''='' \<and> c3 = CHR ''='' \<and> r = [] then Some (take 1 (b64_group s0 s1 0 0))
           else case b64_value c2 of None \<Rightarrow> None
             | Some s2 \<Rightarrow>
                 (if c3 = CHR ''='' \<and> r = [] then Some (take 2 (b64_group s0 s1 s2 0))
                  else case b64_value c3 of None \<Rightarrow> None
                    | Some s3 \<Rightarrow> map_option (\<lambda>d. b64_group s0 s1 s2 s3 @ d) (b64_decode r)))
      | _ \<Rightarrow> None)"
| "b64_decode _ = None"

lemma index_of_nth: "distinct xs \<Longrightarrow> i < length xs \<Longrightarrow> index_of (xs ! i) xs = Some i"
proof (induction xs arbitrary: i)
  case Nil
  then show ?case by simp
next
  case (Cons x xs)
  then show ?case by (cases i) auto
qed

lemma b64_table_facts: "distinct b64_table" "length b64_table = 64" "CHR ''='' \<notin> set b64_table"
  by (simp_all add: b64_table_def)

lemma mask6: "n AND 63 = take_bit 6 (n :: u32)"
  by (simp add: take_bit_eq_mask mask_eq_exp_minus_1)

lemma sextet: "unat (n AND 63 :: u32) < 64"
  using take_bit_nat_less_exp [of 6 "unat n"] by (simp add: mask6 unsigned_take_bit_eq)

lemma b64_value_char: "b64_value (b64_char n) = Some (n AND 63)"
  using index_of_nth [OF b64_table_facts(1), of "unat (n AND 63)"] sextet [of n] b64_table_facts(2)
  by (simp add: b64_value_def b64_char_def)

lemma b64_char_pad: "b64_char n \<noteq> CHR ''=''"
  unfolding b64_char_def using b64_table_facts(2,3) sextet [of n] by (metis nth_mem)

lemma b64_regroup:
  assumes "n = push_bit 16 (ucast a) OR push_bit 8 (ucast b) OR (ucast c :: u32)"
  shows "b64_group (drop_bit 18 n AND 63) (drop_bit 12 n AND 63) (drop_bit 6 n AND 63) (n AND 63) = [a, b, c]"
proof -
  have "push_bit 18 (take_bit 6 (drop_bit 18 n)) OR push_bit 12 (take_bit 6 (drop_bit 12 n))
      OR push_bit 6 (take_bit 6 (drop_bit 6 n)) OR take_bit 6 n = take_bit 24 n"
  proof (rule bit_word_eqI)
    fix i assume "i < LENGTH(32)"
    consider "i < 6" | "6 \<le> i" "i < 12" | "12 \<le> i" "i < 18" | "18 \<le> i" "i < 24" | "24 \<le> i" by linarith
    then show "bit (push_bit 18 (take_bit 6 (drop_bit 18 n)) OR push_bit 12 (take_bit 6 (drop_bit 12 n))
      OR push_bit 6 (take_bit 6 (drop_bit 6 n)) OR take_bit 6 n) i = bit (take_bit 24 n) i"
      using \<open>i < LENGTH(32)\<close> by cases (auto simp: bit_simps)
  qed
  moreover have "ucast (drop_bit 16 (take_bit 24 n)) = a" "ucast (drop_bit 8 (take_bit 24 n)) = b" "ucast (take_bit 24 n) = c"
    unfolding assms by (intro bit_word_eqI; auto simp: bit_simps dest: bit_imp_le_length)+
  ultimately show ?thesis by (simp add: b64_group_def mask6 Let_def)
qed

lemma b64_decode_encode: "b64_decode (base64Encode d) = Some d"
proof (induction d rule: base64Encode.induct)
  case (1 a b c r)
  then show ?case using b64_regroup [OF refl, of a b c] by (simp add: Let_def b64_value_char b64_char_pad)
next
  case (2 a)
  let ?n = "push_bit 16 (ucast a) :: u32"
  have "drop_bit 6 ?n AND 63 = 0" "?n AND 63 = 0" by (simp_all add: mask6) (intro bit_word_eqI; simp add: bit_simps)+
  then show ?case using b64_regroup [of ?n a 0 0] by (simp add: Let_def b64_value_char b64_char_pad)
next
  case (3 a b)
  let ?n = "push_bit 16 (ucast a) OR push_bit 8 (ucast b) :: u32"
  have "?n AND 63 = 0" by (simp add: mask6) (intro bit_word_eqI; simp add: bit_simps)+
  then show ?case using b64_regroup [of ?n a b 0] by (simp add: Let_def b64_value_char b64_char_pad)
qed simp

lemma length_base64Encode: "length (base64Encode d) = 4 * ((length d + 2) div 3)"
proof (induction d rule: base64Encode.induct)
  case (1 a b c r)
  have "(length (a # b # c # r) + 2) div 3 = Suc ((length r + 2) div 3)" by simp
  then show ?case using 1 by (simp add: Let_def)
qed (simp_all add: Let_def)

section \<open>HKDF-SHA256\<close>

text \<open>\<open>hmac key data\<close> is the platform's HMAC-SHA256.\<close>

type_synonym hmac_fun = "bytes \<Rightarrow> bytes \<Rightarrow> bytes"

function hkdf_expand :: "hmac_fun \<Rightarrow> bytes \<Rightarrow> bytes \<Rightarrow> nat \<Rightarrow> u8 \<Rightarrow> bytes \<Rightarrow> bytes \<Rightarrow> bytes" where
  "hkdf_expand hmac prk info okmLen counter t okm =
     (if length okm < okmLen \<and> counter \<noteq> 0 then
        let block = hmac prk (t @ info @ [counter]);
            n = (if length okm + length block \<le> okmLen then length block else okmLen - length okm) in
        hkdf_expand hmac prk info okmLen (counter + 1) block (okm @ take n block)
      else okm)"
  by pat_completeness auto
termination
proof (relation "measure (\<lambda>(hmac, prk, info, okmLen, counter, t, okm). if counter = 0 then 0 else 256 - unat counter)", simp)
  fix hmac :: hmac_fun and prk info t okm block :: bytes and okmLen n :: nat and counter :: u8
  assume "length okm < okmLen \<and> counter \<noteq> 0"
  moreover have "unat counter < 256" using unsigned_less [where ?'a = nat, of counter] by simp
  moreover have "counter + 1 \<noteq> 0 \<Longrightarrow> unat (counter + 1) = Suc (unat counter)"
    using unatSuc [of counter] by (simp add: add.commute)
  ultimately show "((hmac, prk, info, okmLen, counter + 1, block, okm @ take n block), hmac, prk, info, okmLen, counter, t, okm)
    \<in> measure (\<lambda>(hmac, prk, info, okmLen, counter, t, okm). if counter = 0 then 0 else 256 - unat counter)"
    by auto
qed

declare hkdf_expand.simps [simp del]

definition hkdfSha256 :: "hmac_fun \<Rightarrow> bytes \<Rightarrow> bytes \<Rightarrow> bytes \<Rightarrow> nat \<Rightarrow> bytes" where
  "hkdfSha256 hmac ikm salt info okmLen =
     hkdf_expand hmac (hmac (if salt = [] then replicate 32 0 else salt) ikm) info okmLen 1 [] []"

text \<open>The blocks of RFC 5869: \<open>T(0)\<close> is empty, \<open>T(i) = HMAC(PRK, T(i-1) | info | i)\<close>.\<close>

fun rfc_block :: "hmac_fun \<Rightarrow> bytes \<Rightarrow> bytes \<Rightarrow> nat \<Rightarrow> bytes" where
  "rfc_block hmac prk info 0 = []"
| "rfc_block hmac prk info (Suc i) = hmac prk (rfc_block hmac prk info i @ info @ [word_of_nat (Suc i)])"

definition rfc_okm :: "hmac_fun \<Rightarrow> bytes \<Rightarrow> bytes \<Rightarrow> nat \<Rightarrow> bytes" where
  "rfc_okm hmac prk info n = concat (map (\<lambda>i. rfc_block hmac prk info (Suc i)) [0..<n])"

definition hmac_ok :: "hmac_fun \<Rightarrow> bool" where
  "hmac_ok hmac \<longleftrightarrow> (\<forall>k d. length (hmac k d) = 32)"

lemma length_rfc_okm: "hmac_ok hmac \<Longrightarrow> length (rfc_okm hmac prk info n) = 32 * n"
  by (induction n) (simp_all add: rfc_okm_def hmac_ok_def)

lemma rfc_okm_Suc: "rfc_okm hmac prk info (Suc n) = rfc_okm hmac prk info n @ rfc_block hmac prk info (Suc n)"
  by (simp add: rfc_okm_def)

lemma rfc_okm_prefix: "hmac_ok hmac \<Longrightarrow> i \<le> n \<Longrightarrow> L \<le> 32 * i \<Longrightarrow> take L (rfc_okm hmac prk info n) = take L (rfc_okm hmac prk info i)"
proof (induction n)
  case 0
  then show ?case by simp
next
  case (Suc n)
  show ?case
  proof (cases "i = Suc n")
    case False
    then show ?thesis using Suc by (simp add: rfc_okm_Suc length_rfc_okm)
  qed simp
qed

lemma hkdf_step:
  "length okm < L \<Longrightarrow> counter \<noteq> 0 \<Longrightarrow> hkdf_expand hmac prk info L counter t okm
     = hkdf_expand hmac prk info L (counter + 1) (hmac prk (t @ info @ [counter]))
         (okm @ take (L - length okm) (hmac prk (t @ info @ [counter])))"
  by (subst hkdf_expand.simps) (simp add: Let_def)

lemma expand_blocks:
  assumes "hmac_ok hmac" "i \<le> 255"
  shows "hkdf_expand hmac prk info L (word_of_nat (Suc i)) (rfc_block hmac prk info i) (take L (rfc_okm hmac prk info i))
    = take L (rfc_okm hmac prk info 255)"
  using assms(2)
proof (induction "255 - i" arbitrary: i)
  case 0
  then have i: "i = 255" by simp
  have "(word_of_nat (Suc 255) :: u8) = 0" by simp
  then show ?case unfolding i by (subst hkdf_expand.simps) (simp only: simp_thms if_False)
next
  case (Suc k)
  then have "unat (word_of_nat (Suc i) :: u8) = Suc i" by (intro unat_of_nat_fits) simp
  then have nz: "(word_of_nat (Suc i) :: u8) \<noteq> 0" by (metis nat.distinct(1) unat_0)
  have len: "length (take L (rfc_okm hmac prk info i)) = min L (32 * i)" using length_rfc_okm [OF assms(1)] by simp
  let ?b = "rfc_block hmac prk info (Suc i)"
  have b: "length ?b = 32" "hmac prk (rfc_block hmac prk info i @ info @ [word_of_nat (Suc i)]) = ?b"
    using assms(1) by (simp_all add: hmac_ok_def)
  show ?case
  proof (cases "32 * i < L")
    case True
    have "take L (rfc_okm hmac prk info i) @ take (L - 32 * i) ?b = take L (rfc_okm hmac prk info (Suc i))"
      by (simp add: rfc_okm_Suc length_rfc_okm [OF assms(1)])
    moreover have "(word_of_nat (Suc i) + 1 :: u8) = word_of_nat (Suc (Suc i))" by simp
    moreover have "length (take L (rfc_okm hmac prk info i)) = 32 * i" "length (take L (rfc_okm hmac prk info i)) < L"
      using True len by simp_all
    ultimately have "hkdf_expand hmac prk info L (word_of_nat (Suc i)) (rfc_block hmac prk info i) (take L (rfc_okm hmac prk info i))
        = hkdf_expand hmac prk info L (word_of_nat (Suc (Suc i))) ?b (take L (rfc_okm hmac prk info (Suc i)))"
      using hkdf_step [of "take L (rfc_okm hmac prk info i)" L "word_of_nat (Suc i)" hmac prk info "rfc_block hmac prk info i"] nz
      unfolding b(2) by presburger
    moreover have "k = 255 - Suc i" "Suc i \<le> 255" using Suc.hyps(2) by simp_all
    ultimately show ?thesis using Suc.hyps(1) [of "Suc i"] by presburger
  next
    case False
    then show ?thesis
      using rfc_okm_prefix [OF assms(1), of i 255 L] Suc.prems len by (subst hkdf_expand.simps) simp
  qed
qed

lemma hkdf_blocks:
  "hmac_ok hmac \<Longrightarrow> hkdfSha256 hmac ikm salt info L
    = take L (rfc_okm hmac (hmac (if salt = [] then replicate 32 0 else salt) ikm) info 255)"
  using expand_blocks [of hmac 0] by (simp add: hkdfSha256_def rfc_okm_def)

lemma hkdf_length: "hmac_ok hmac \<Longrightarrow> length (hkdfSha256 hmac ikm salt info L) = min L 8160"
  by (simp add: hkdf_blocks length_rfc_okm)

section \<open>Self-signed certificates\<close>

text \<open>DER: the length loop pushes the low byte first and emits the bytes in reverse.\<close>

function len_bytes :: "nat \<Rightarrow> bytes" where
  "len_bytes n = (if n = 0 then [] else word_of_nat (n mod 256) # len_bytes (n div 256))"
  by pat_completeness auto
termination by (relation "measure id") auto

declare len_bytes.simps [simp del]

definition putLen :: "nat \<Rightarrow> bytes" where
  "putLen n =
     (if n < 0x80 then [word_of_nat n]
      else let tmp = len_bytes n in (0x80 OR word_of_nat (length tmp)) # rev tmp)"

definition tlv :: "u8 \<Rightarrow> bytes \<Rightarrow> bytes" where
  "tlv tag content = tag # putLen (length content) @ content"

definition oid :: "bytes \<Rightarrow> bytes" where
  "oid bs = tlv 0x06 bs"

definition der_concat :: "bytes list \<Rightarrow> bytes" where
  "der_concat parts = concat parts"

fun strip_zeros :: "bytes \<Rightarrow> bytes" where
  "strip_zeros (b # c # r) = (if b = 0 then strip_zeros (c # r) else b # c # r)"
| "strip_zeros bs = bs"

definition integerFromBE :: "bytes \<Rightarrow> bytes" where
  "integerFromBE be =
     (let v = strip_zeros be; v1 = (if v = [] then [0] else v);
          v2 = (if v1 ! 0 AND 0x80 \<noteq> 0 then 0 # v1 else v1) in
      tlv 0x02 v2)"

text \<open>\<open>utc\<close> is what \<open>strftime("%y%m%d%H%M%SZ")\<close> of the broken-down time gives.\<close>

definition utcTime :: "(int \<Rightarrow> string) \<Rightarrow> int \<Rightarrow> bytes" where
  "utcTime utc epoch = tlv 0x17 (to_bytes (utc epoch))"

definition alg_ecdsa :: bytes where
  "alg_ecdsa = tlv 0x30 (oid [0x2A, 0x86, 0x48, 0xCE, 0x3D, 0x04, 0x03, 0x02])"

definition cert_name :: bytes where
  "cert_name = tlv 0x30 (tlv 0x31 (tlv 0x30 (der_concat [oid [0x55, 0x04, 0x03], tlv 0x0C (to_bytes ''Skittermouse'')])))"

definition cert_spki :: "bytes \<Rightarrow> bytes" where
  "cert_spki point = tlv 0x30 (der_concat
     [tlv 0x30 (der_concat [oid [0x2A, 0x86, 0x48, 0xCE, 0x3D, 0x02, 0x01], oid [0x2A, 0x86, 0x48, 0xCE, 0x3D, 0x03, 0x01, 0x07]]),
      tlv 0x03 (0 # point)])"

definition cert_tbs :: "(int \<Rightarrow> string) \<Rightarrow> bytes \<Rightarrow> int \<Rightarrow> int \<Rightarrow> bytes" where
  "cert_tbs utc point notBefore notAfter = tlv 0x30 (der_concat
     [tlv 0xA0 (tlv 0x02 [0x02]), integerFromBE [0x01], alg_ecdsa, cert_name,
      tlv 0x30 (der_concat [utcTime utc notBefore, utcTime utc notAfter]), cert_name, cert_spki point])"

definition buildSelfSignedP256Cert ::
  "(int \<Rightarrow> string) \<Rightarrow> bytes \<Rightarrow> (bytes \<Rightarrow> bytes) option \<Rightarrow> int \<Rightarrow> int \<Rightarrow> bytes" where
  "buildSelfSignedP256Cert utc point sign notBefore notAfter =
     (if length point \<noteq> 65 \<or> point ! 0 \<noteq> 0x04 then []
      else case sign of None \<Rightarrow> []
        | Some f \<Rightarrow>
            let tbs = cert_tbs utc point notBefore notAfter; sig = f tbs in
            if sig = [] then [] else tlv 0x30 (der_concat [tbs, alg_ecdsa, tlv 0x03 (0 # sig)]))"

text \<open>A DER reader, the specification of the encoding: tag, length, content and what follows.\<close>

definition der_len :: "bytes \<Rightarrow> nat" where
  "der_len bs = foldl (\<lambda>n b. n * 256 + unat b) 0 bs"

definition der_read :: "bytes \<Rightarrow> (u8 \<times> bytes \<times> bytes) option" where
  "der_read bs =
     (case bs of
        tag # l # r \<Rightarrow>
          (let k = (if l < 0x80 then 0 else unat (l AND 0x7f)); n = (if l < 0x80 then unat l else der_len (take k r)) in
           if length r < k + n then None else Some (tag, take n (drop k r), drop (k + n) r))
      | _ \<Rightarrow> None)"

lemma der_len_rev: "der_len (rev (len_bytes n)) = n"
proof (induction n rule: len_bytes.induct)
  case (1 n)
  have "unat (word_of_nat (n mod 256) :: u8) = n mod 256" by (intro unat_of_nat_fits) simp
  then show ?case using 1 by (subst len_bytes.simps) (simp add: der_len_def)
qed

lemma length_len_bytes: "n < 256 ^ k \<Longrightarrow> length (len_bytes n) \<le> k"
proof (induction k arbitrary: n)
  case 0
  then show ?case by (subst len_bytes.simps) simp
next
  case (Suc k)
  then have "n div 256 < 256 ^ k" by (simp add: div_less_iff_less_mult mult.commute)
  then show ?case using Suc.IH by (subst len_bytes.simps) auto
qed

lemma der_read_tlv:
  assumes "length c < 2 ^ 64"
  shows "der_read (tlv tag c @ r) = Some (tag, c, r)"
proof (cases "length c < 0x80")
  case True
  then have "unat (word_of_nat (length c) :: u8) = length c" by (intro unat_of_nat_fits) simp
  moreover from this have "(word_of_nat (length c) :: u8) < 0x80" using True by (simp add: word_less_nat_alt)
  ultimately show ?thesis using True by (simp add: der_read_def tlv_def putLen_def Let_def)
next
  case False
  let ?k = "length (len_bytes (length c))"
  have k: "?k \<le> 8" using length_len_bytes [of "length c" 8] assms by simp
  let ?l = "0x80 OR word_of_nat ?k :: u8"
  have u: "unat (word_of_nat ?k :: u8) = ?k" using k by (intro unat_of_nat_fits) simp
  then have small: "take_bit 7 (word_of_nat ?k :: u8) = word_of_nat ?k" using k by (intro take_bit_small) simp
  have "?l AND 0x7f = take_bit 7 ?l" by (simp add: take_bit_eq_mask mask_eq_exp_minus_1)
  then have a: "unat (?l AND 0x7f) = ?k" using small u by simp
  have "bit ?l 7" by (simp add: bit_or_iff)
  have b: "\<not> ?l < 0x80"
  proof
    assume "?l < 0x80"
    then have "take_bit 7 ?l = ?l" by (intro take_bit_small) (simp add: word_less_nat_alt)
    then have "\<not> bit ?l 7" by (metis bit_take_bit_iff less_irrefl)
    then show False using \<open>bit ?l 7\<close> by simp
  qed
  show ?thesis using False a b der_len_rev [of "length c"]
    by (simp add: der_read_def tlv_def putLen_def Let_def)
qed

text \<open>A sequence of DER values, read to the end.\<close>

fun der_items :: "nat \<Rightarrow> bytes \<Rightarrow> (u8 \<times> bytes) list option" where
  "der_items 0 bs = (if bs = [] then Some [] else None)"
| "der_items (Suc n) bs =
     (case der_read bs of None \<Rightarrow> None
      | Some (tag, c, r) \<Rightarrow> map_option (\<lambda>xs. (tag, c) # xs) (der_items n r))"

lemma der_items_tlv: "length c < 2 ^ 64 \<Longrightarrow> der_items (Suc n) (tlv tag c @ r) = map_option (\<lambda>xs. (tag, c) # xs) (der_items n r)"
  by (simp add: der_read_tlv)

lemma der_items_last: "length c < 2 ^ 64 \<Longrightarrow> der_items (Suc 0) (tlv tag c) = Some [(tag, c)]"
  using der_items_tlv [of c 0 tag "[]"] by simp

lemma length_putLen: "n < 2 ^ 64 \<Longrightarrow> length (putLen n) \<le> 9"
  using length_len_bytes [of n 8] by (simp add: putLen_def Let_def)

lemma length_tlv: "length c < 2 ^ 64 \<Longrightarrow> length (tlv tag c) \<le> length c + 10"
  using length_putLen [of "length c"] by (simp add: tlv_def)

lemma strip_zeros_value: "der_len (strip_zeros bs) = der_len bs"
  by (induction bs rule: strip_zeros.induct) (simp_all add: der_len_def)

lemma strip_zeros_Nil: "strip_zeros bs = [] \<longleftrightarrow> bs = []"
  by (induction bs rule: strip_zeros.induct) auto

lemma integer_content:
  "\<exists>v. integerFromBE be = tlv 0x02 v \<and> v \<noteq> [] \<and> v ! 0 AND 0x80 = 0 \<and> der_len v = der_len be"
proof -
  let ?v = "strip_zeros be"
  define w where "w = (if ?v = [] then [0] else ?v)"
  have w: "w \<noteq> []" "der_len w = der_len be"
    using strip_zeros_value [of be] by (auto simp: w_def der_len_def)
  have "der_len (0 # w) = der_len w" by (simp add: der_len_def)
  then show ?thesis
    using w by (auto simp: integerFromBE_def Let_def w_def [symmetric])
qed

section \<open>Properties\<close>

text \<open>
  The WebSocket keys' Base64 is RFC 4648's: decoding gives back every byte string, and the
  text has four characters for every three bytes begun.
\<close>

theorem base64_roundtrip:
  "b64_decode (base64Encode d) = Some d \<and> length (base64Encode d) = 4 * ((length d + 2) div 3)"
  by (simp add: b64_decode_encode length_base64Encode)

text \<open>
  The key derivation computes RFC 5869: its loop ends, with the prefix of the requested
  length of the blocks \<open>T(1) | T(2) | ...\<close> over the extracted key; it returns the requested
  length up to 255 blocks and never more than 8160 bytes.
\<close>

theorem hkdf_rfc5869:
  assumes "hmac_ok hmac"
  shows "hkdfSha256 hmac ikm salt info L
      = take L (rfc_okm hmac (hmac (if salt = [] then replicate 32 0 else salt) ikm) info 255)
    \<and> length (hkdfSha256 hmac ikm salt info L) = min L 8160"
  using hkdf_blocks [OF assms] hkdf_length [OF assms] by (rule conjI)

text \<open>A stand-in for HMAC in concrete runs.\<close>

definition toy_hmac :: hmac_fun where
  "toy_hmac k d = map (\<lambda>i. sum_list k * 7 + sum_list d * 3 + word_of_nat (length d) * word_of_nat i + word_of_nat i) [0..<32]"

lemma toy_hmac_ok: "hmac_ok toy_hmac"
  by (simp add: hmac_ok_def toy_hmac_def)

theorem hkdf_rfc5869_witness: "length (hkdfSha256 toy_hmac [1, 2, 3] [] [9] 70) = 70 \<and> length (hkdfSha256 toy_hmac [1] [2] [] 9000) = 8160"
  using hkdf_rfc5869 [OF toy_hmac_ok, of "[1, 2, 3]" "[]" "[9]" 70, THEN conjunct2]
    hkdf_rfc5869 [OF toy_hmac_ok, of "[1]" "[2]" "[]" 9000, THEN conjunct2] by simp

text \<open>
  The certificate builder writes well-formed DER: for a 65-byte uncompressed point and a
  signature the result reads back as the three parts of a certificate, the to-be-signed part
  reads back as its seven fields with issuer and subject equal and the key's bit string
  holding the point, and the signature is over exactly that part.
\<close>

theorem certificate_der:
  assumes "length point = 65" "point ! 0 = 0x04" "f (cert_tbs utc point nb na) = sig" "sig \<noteq> []" "length sig < 2 ^ 32"
    and "length (utc nb) = 13" "length (utc na) = 13"
  shows "\<exists>body tb alg name validity ecalg.
      der_items 1 (buildSelfSignedP256Cert utc point (Some f) nb na) = Some [(0x30, body)]
    \<and> der_items 3 body = Some [(0x30, tb), (0x30, alg), (0x03, 0 # sig)] \<and> tlv 0x30 tb = cert_tbs utc point nb na
    \<and> (\<exists>spki. der_items 7 tb = Some [(0xA0, tlv 0x02 [2]), (0x02, [1]), (0x30, alg), (0x30, name), (0x30, validity), (0x30, name), (0x30, spki)]
        \<and> der_items 2 spki = Some [(0x30, ecalg), (0x03, 0 # point)])
    \<and> der_items 2 validity = Some [(0x17, to_bytes (utc nb)), (0x17, to_bytes (utc na))]"
proof -
  define alg where "alg = oid [0x2A, 0x86, 0x48, 0xCE, 0x3D, 0x04, 0x03, 0x02]"
  define name where "name = tlv 0x31 (tlv 0x30 (der_concat [oid [0x55, 0x04, 0x03], tlv 0x0C (to_bytes ''Skittermouse'')]))"
  define validity where "validity = tlv 0x17 (to_bytes (utc nb)) @ tlv 0x17 (to_bytes (utc na))"
  define ecalg where "ecalg = oid [0x2A, 0x86, 0x48, 0xCE, 0x3D, 0x02, 0x01] @ oid [0x2A, 0x86, 0x48, 0xCE, 0x3D, 0x03, 0x01, 0x07]"
  define spki where "spki = tlv 0x30 ecalg @ tlv 0x03 (0 # point)"
  define tb where "tb = tlv 0xA0 (tlv 0x02 [2]) @ tlv 0x02 [1] @ tlv 0x30 alg @ tlv 0x30 name @ tlv 0x30 validity @ tlv 0x30 name @ tlv 0x30 spki"
  define body where "body = tlv 0x30 tb @ tlv 0x30 alg @ tlv 0x03 (0 # sig)"
  have i1: "integerFromBE [0x01] = tlv 0x02 [1]" by (simp add: integerFromBE_def)
  have tbs: "cert_tbs utc point nb na = tlv 0x30 tb"
    by (simp add: cert_tbs_def tb_def i1 alg_ecdsa_def cert_name_def cert_spki_def utcTime_def der_concat_def
        alg_def name_def validity_def ecalg_def spki_def)
  have n7: "(7 :: nat) = Suc (Suc (Suc (Suc (Suc (Suc (Suc 0))))))" by simp
  have small: "length (tlv tag c) \<le> length c + 10" if "length c < 1000" for tag and c :: bytes
    using length_tlv [of c tag] that by simp
  have l1: "length alg \<le> 18" "length ecalg \<le> 50" unfolding alg_def ecalg_def oid_def
    by (simp_all add: tlv_def putLen_def)
  have "length name \<le> 100" unfolding name_def oid_def by (simp add: tlv_def putLen_def der_concat_def)
  moreover have "length validity \<le> 46" unfolding validity_def using small [of "to_bytes (utc nb)" "0x17"] small [of "to_bytes (utc na)" "0x17"] assms(6,7) by simp
  moreover have "length spki \<le> 140" unfolding spki_def using small [of ecalg "0x30"] small [of "0 # point" "0x03"] l1 assms(1) by simp
  ultimately have l2: "length name \<le> 100" "length validity \<le> 46" "length spki \<le> 140" by simp_all
  then have l3: "length tb \<le> 600" unfolding tb_def
    using small [of alg "0x30"] small [of name "0x30"] small [of validity "0x30"] small [of spki "0x30"] l1
    by (simp add: tlv_def putLen_def)
  have l4: "length body < 2 ^ 64" unfolding body_def
    using small [of tb "0x30"] small [of alg "0x30"] length_tlv [of "0 # sig" "0x03"] l1 l3 assms(5) by simp
  have "der_items 2 validity = Some [(0x17, to_bytes (utc nb)), (0x17, to_bytes (utc na))]"
    unfolding validity_def numeral_2_eq_2 using assms(6,7) by (simp add: der_items_tlv der_items_last del: der_items.simps)
  moreover have "der_items 2 spki = Some [(0x30, ecalg), (0x03, 0 # point)]"
    unfolding spki_def numeral_2_eq_2 using l1 assms(1) by (simp add: der_items_tlv der_items_last del: der_items.simps)
  moreover have "der_items 7 tb = Some [(0xA0, tlv 0x02 [2]), (0x02, [1]), (0x30, alg), (0x30, name), (0x30, validity), (0x30, name), (0x30, spki)]"
    unfolding tb_def n7 using l1 l2 small [of "[2]" 2]
    by (simp add: der_items_tlv der_items_last del: der_items.simps)
  moreover have "der_items 3 body = Some [(0x30, tb), (0x30, alg), (0x03, 0 # sig)]"
    unfolding body_def numeral_3_eq_3 using l1 l3 assms(5) by (simp add: der_items_tlv der_items_last del: der_items.simps)
  moreover have "buildSelfSignedP256Cert utc point (Some f) nb na = tlv 0x30 body"
    using assms(1-4) tbs by (simp add: buildSelfSignedP256Cert_def body_def der_concat_def alg_ecdsa_def alg_def Let_def)
  then have "der_items 1 (buildSelfSignedP256Cert utc point (Some f) nb na) = Some [(0x30, body)]"
    using l4 by (simp only: One_nat_def der_items_last)
  ultimately show ?thesis using tbs [symmetric]
    by (intro exI [of _ body] exI [of _ tb] exI [of _ alg] exI [of _ name] exI [of _ validity] exI [of _ ecalg]
        conjI exI [of _ spki])
qed

theorem certificate_der_witness:
  "\<exists>body. der_items 1 (buildSelfSignedP256Cert (\<lambda>t. ''250101000000Z'') (0x04 # replicate 64 9) (Some (\<lambda>d. [1, 2])) 0 1) = Some [(0x30, body)]"
  using certificate_der [of "0x04 # replicate 64 9" "\<lambda>d. [1, 2]" "\<lambda>t. ''250101000000Z''" 0 1 "[1, 2]"]
  by auto

end
