(* ===== verification/Texts.thy ===== *)
theory Texts
  imports Prelude
begin

text \<open>
  String utilities the configuration, hotkey, key-store and address parsers share:
  splitting at a separator the way the code's character loops do, decimal printing
  (\<open>std::to_string\<close>) and the digit loops that read numbers back.
\<close>

section \<open>Splitting\<close>

text \<open>\<open>for (char c : s) { if (c == sep) { push(cur); cur.clear(); } else cur += c; } push(cur);\<close>\<close>

fun split_acc :: "char \<Rightarrow> string \<Rightarrow> string \<Rightarrow> string list" where
  "split_acc sep cur [] = [cur]"
| "split_acc sep cur (c # s) =
     (if c = sep then cur # split_acc sep [] s else split_acc sep (cur @ [c]) s)"

lemma split_acc_plain: "sep \<notin> set s \<Longrightarrow> split_acc sep cur s = [cur @ s]"
  by (induction s arbitrary: cur) auto

lemma split_acc_step: "sep \<notin> set x \<Longrightarrow> split_acc sep cur (x @ sep # s) = (cur @ x) # split_acc sep [] s"
  by (induction x arbitrary: cur) auto

lemma split_acc_nonempty [simp]: "split_acc sep cur s \<noteq> []"
  by (induction s arbitrary: cur) auto

fun join_sep :: "char \<Rightarrow> string list \<Rightarrow> string" where
  "join_sep sep [] = []"
| "join_sep sep [x] = x"
| "join_sep sep (x # y # xs) = x @ sep # join_sep sep (y # xs)"

lemma split_join:
  "xs \<noteq> [] \<Longrightarrow> \<forall>x\<in>set xs. sep \<notin> set x \<Longrightarrow> split_acc sep [] (join_sep sep xs) = xs"
  by (induction sep xs rule: join_sep.induct) (auto simp: split_acc_plain split_acc_step)

lemma set_join_sep: "set (join_sep sep xs) \<subseteq> insert sep (\<Union>x\<in>set xs. set x)"
  by (induction sep xs rule: join_sep.induct) auto

lemma join_sep_Nil_iff: "join_sep sep xs = [] \<longleftrightarrow> xs = [] \<or> xs = [[]]"
  by (induction sep xs rule: join_sep.induct) auto

lemma split_acc_join: "join_sep sep (split_acc sep cur s) = cur @ s"
proof (induction s arbitrary: cur)
  case Nil
  show ?case by simp
next
  case (Cons c s)
  show ?case
  proof (cases "c = sep")
    case True
    then show ?thesis using Cons.IH [of "[]"]
      by (cases "split_acc sep [] s") auto
  next
    case False
    then show ?thesis using Cons.IH [of "cur @ [c]"] by simp
  qed
qed

section \<open>Decimal numbers\<close>

definition digit_char :: "nat \<Rightarrow> char" where
  "digit_char n = char_of (48 + n)"

definition isDigit :: "char \<Rightarrow> bool" where
  "isDigit c \<longleftrightarrow> (of_char c :: nat) \<ge> 48 \<and> (of_char c :: nat) \<le> 57"

definition digit_val :: "char \<Rightarrow> nat" where
  "digit_val c = of_char c - 48"

lemma of_char_digit: "n < 10 \<Longrightarrow> (of_char (digit_char n) :: nat) = 48 + n"
  by (simp add: digit_char_def)

lemma digit_char_simps [simp]:
  "n < 10 \<Longrightarrow> isDigit (digit_char n)" "n < 10 \<Longrightarrow> digit_val (digit_char n) = n"
  by (simp_all add: isDigit_def digit_val_def of_char_digit)

fun nat_to_string :: "nat \<Rightarrow> string" where
  "nat_to_string n =
     (if n < 10 then [digit_char n] else nat_to_string (n div 10) @ [digit_char (n mod 10)])"

declare nat_to_string.simps [simp del]

definition int_to_string :: "int \<Rightarrow> string" where
  "int_to_string i = (if i < 0 then CHR ''-'' # nat_to_string (nat (- i)) else nat_to_string (nat i))"

lemma nat_to_string_nonempty [simp]: "nat_to_string n \<noteq> []"
  by (subst nat_to_string.simps) simp

lemma nat_to_string_digits: "c \<in> set (nat_to_string n) \<Longrightarrow> isDigit c"
proof (induction n rule: nat_to_string.induct)
  case (1 n)
  show ?case
  proof (cases "n < 10")
    case True
    then show ?thesis using 1(2) by (subst (asm) nat_to_string.simps) simp
  next
    case False
    then have "c \<in> set (nat_to_string (n div 10)) \<or> c = digit_char (n mod 10)"
      using 1(2) by (subst (asm) nat_to_string.simps) auto
    then show ?thesis using 1(1) False by auto
  qed
qed

lemma nat_to_string_length: "n < 10 ^ Suc k \<Longrightarrow> length (nat_to_string n) \<le> Suc k"
proof (induction k arbitrary: n)
  case 0
  then show ?case by (subst nat_to_string.simps) simp
next
  case (Suc k)
  then have "n div 10 < 10 ^ Suc k" by (simp add: div_less_iff_less_mult mult.commute)
  then show ?case using Suc.IH by (subst nat_to_string.simps) simp
qed

text \<open>The value of a digit string, most significant digit first.\<close>

definition digits_value :: "nat \<Rightarrow> string \<Rightarrow> nat" where
  "digits_value v s = foldl (\<lambda>v c. v * 10 + digit_val c) v s"

lemma digits_value_simps [simp]:
  "digits_value v [] = v" "digits_value v (c # s) = digits_value (v * 10 + digit_val c) s"
  "digits_value v (s @ [c]) = digits_value v s * 10 + digit_val c"
  by (simp_all add: digits_value_def)

lemma digits_value_string: "digits_value 0 (nat_to_string n) = n"
proof (induction n rule: nat_to_string.induct)
  case (1 n)
  show ?case
  proof (cases "n < 10")
    case True
    then show ?thesis by (subst nat_to_string.simps) simp
  next
    case False
    then show ?thesis using 1 by (subst nat_to_string.simps) simp
  qed
qed

lemma digits_value_le: "v \<le> digits_value v s"
proof (induction s arbitrary: v)
  case Nil
  show ?case by simp
next
  case (Cons c s)
  have "v \<le> v * 10 + digit_val c" by simp
  then show ?case using Cons [of "v * 10 + digit_val c"] by simp
qed

lemma digits_value_bound: "list_all isDigit s \<Longrightarrow> digits_value v s < (v + 1) * 10 ^ length s"
proof (induction s arbitrary: v)
  case Nil
  show ?case by simp
next
  case (Cons c s)
  have "digit_val c \<le> 9" using Cons.prems by (auto simp: digit_val_def isDigit_def)
  then have "(v * 10 + digit_val c + 1) * 10 ^ length s \<le> ((v + 1) * 10) * 10 ^ length s"
    by (intro mult_right_mono) simp_all
  moreover have "digits_value (v * 10 + digit_val c) s < (v * 10 + digit_val c + 1) * 10 ^ length s"
    using Cons by simp
  ultimately have "digits_value (v * 10 + digit_val c) s < ((v + 1) * 10) * 10 ^ length s"
    by (rule less_le_trans [rotated])
  then show ?case by (simp only: digits_value_simps list.size power_Suc mult.assoc add_0_right add_Suc_right)
qed

lemma digit_chars_plain: "isDigit c \<Longrightarrow> c \<noteq> CHR ''-'' \<and> c \<noteq> CHR ''+'' \<and> c \<noteq> CHR ''|''
    \<and> c \<noteq> CHR 0x0A \<and> c \<noteq> CHR 0x0D \<and> c \<noteq> CHR 0x5C \<and> c \<noteq> CHR ''.''"
  by (auto simp: isDigit_def)

end
