(* ===== verification/Transport.thy ===== *)
theory Transport
  imports Prelude
begin

text \<open>
  The abstract transport of \<open>net/transport.h\<close> as its clients see it.  A message is a
  byte list; \<open>recv\<close> copies at most \<open>cap\<close> bytes and returns the length, 0 when nothing is
  available, -1 on an error.  The locale \<open>fifo_transport\<close> is the contract of a reliable,
  ordered, message-oriented transport: \<open>pending\<close> abstracts the messages in flight.  It
  is interpreted on the in-memory endpoint of \<open>tests/loopback_transport.h\<close> here and on
  the WebSocket byte stream in the theory \<open>WebSocket\<close>.
\<close>

datatype recv_result = RecvMsg bytes | RecvNone | RecvErr

text \<open>The integer protocol: a positive length is a message, 0 is "nothing".\<close>

definition recv_of_bytes :: "bytes \<Rightarrow> recv_result" where
  "recv_of_bytes bs = (if bs = [] then RecvNone else RecvMsg bs)"

lemma recv_of_bytes_simps [simp]:
  "recv_of_bytes [] = RecvNone" "bs \<noteq> [] \<Longrightarrow> recv_of_bytes bs = RecvMsg bs"
  by (simp_all add: recv_of_bytes_def)

text \<open>The messages \<open>k\<close> successive calls of \<open>recv\<close> return.\<close>

fun recv_polls :: "(nat \<Rightarrow> 't \<Rightarrow> recv_result \<times> 't) \<Rightarrow> nat \<Rightarrow> nat \<Rightarrow> 't \<Rightarrow> bytes list" where
  "recv_polls recv 0 cap t = []"
| "recv_polls recv (Suc k) cap t =
     (case recv cap t of (r, t') \<Rightarrow>
       (case r of RecvMsg m \<Rightarrow> m # recv_polls recv k cap t' | _ \<Rightarrow> recv_polls recv k cap t'))"

text \<open>
  The methods of a transport object whose state has type \<open>'t\<close>, for clients that hold
  several of them: \<open>send\<close>, \<open>recv\<close> with its buffer size, \<open>isConnected\<close>, and a bound on the
  messages that are waiting, which the drain loops use as their fuel.
\<close>

record 't transport_ops =
  op_send :: "bytes \<Rightarrow> 't \<Rightarrow> bool \<times> 't"
  op_recv :: "nat \<Rightarrow> 't \<Rightarrow> recv_result \<times> 't"
  op_up :: "'t \<Rightarrow> bool"
  op_waiting :: "'t \<Rightarrow> nat"

text \<open>
  A raw socket transport as its owner sees it: \<open>rl_in\<close> is what the next calls of \<open>recv\<close>
  find, a message, nothing, or a failure that takes the connection down; \<open>rl_out\<close> are the
  messages it sent.
\<close>

datatype link_event = Incoming bytes | Idle | Failure

record RawLink =
  rl_up :: bool
  rl_in :: "link_event list"
  rl_out :: "bytes list"

definition raw_send :: "bytes \<Rightarrow> RawLink \<Rightarrow> bool \<times> RawLink" where
  "raw_send m l = (if \<not> rl_up l then (False, l) else (True, l\<lparr>rl_out := rl_out l @ [m]\<rparr>))"

definition raw_recv :: "nat \<Rightarrow> RawLink \<Rightarrow> recv_result \<times> RawLink" where
  "raw_recv cap l =
     (if \<not> rl_up l then (RecvErr, l)
      else case rl_in l of [] \<Rightarrow> (RecvNone, l)
        | Incoming m # q \<Rightarrow> (recv_of_bytes (take cap m), l\<lparr>rl_in := q\<rparr>)
        | Idle # q \<Rightarrow> (RecvNone, l\<lparr>rl_in := q\<rparr>)
        | Failure # q \<Rightarrow> (RecvErr, l\<lparr>rl_in := q, rl_up := False\<rparr>))"

definition raw_ops :: "RawLink transport_ops" where
  "raw_ops = \<lparr>op_send = raw_send, op_recv = raw_recv, op_up = rl_up, op_waiting = (\<lambda>l. length (rl_in l))\<rparr>"

text \<open>
  \<open>pending\<close> are the messages sent and not yet received, \<open>room t n\<close> says that the transport
  can take \<open>n\<close> more messages.
\<close>

locale fifo_transport =
  fixes send :: "bytes \<Rightarrow> 't \<Rightarrow> bool \<times> 't"
    and recv :: "nat \<Rightarrow> 't \<Rightarrow> recv_result \<times> 't"
    and pending :: "'t \<Rightarrow> bytes list"
    and inv :: "'t \<Rightarrow> bool"
    and room :: "'t \<Rightarrow> nat \<Rightarrow> bool"
    and sendable :: "bytes \<Rightarrow> bool"
  assumes send_ok: "inv t \<Longrightarrow> sendable m \<Longrightarrow> room t (Suc n) \<Longrightarrow>
      fst (send m t) \<and> inv (snd (send m t)) \<and> room (snd (send m t)) n
      \<and> pending (snd (send m t)) = pending t @ [m]"
    and recv_some: "inv t \<Longrightarrow> pending t = m # q \<Longrightarrow> m \<noteq> [] \<Longrightarrow> length m \<le> cap \<Longrightarrow>
      fst (recv cap t) = RecvMsg m \<and> inv (snd (recv cap t)) \<and> pending (snd (recv cap t)) = q"
    and recv_none: "inv t \<Longrightarrow> pending t = [] \<Longrightarrow>
      fst (recv cap t) = RecvNone \<and> inv (snd (recv cap t)) \<and> pending (snd (recv cap t)) = []"
    and recv_room: "inv t \<Longrightarrow> room t n \<Longrightarrow> room (snd (recv cap t)) n"
begin

lemma recv_whole:
  assumes "inv t" "pending t = m # q" "m \<noteq> []" "length m \<le> cap"
  obtains t' where "recv cap t = (RecvMsg m, t')" "inv t'" "pending t' = q"
  using recv_some [OF assms] that by (cases "recv cap t") simp

lemma recv_idle:
  assumes "inv t" "pending t = []"
  obtains t' where "recv cap t = (RecvNone, t')" "inv t'" "pending t' = []"
  using recv_none [OF assms, of cap] that by (cases "recv cap t") simp

lemma send_whole:
  assumes "inv t" "sendable m" "room t (Suc n)"
  obtains t' where "send m t = (True, t')" "inv t'" "room t' n" "pending t' = pending t @ [m]"
  using send_ok [OF assms] that by (cases "send m t") simp

end

section \<open>The in-memory endpoint pair\<close>

text \<open>
  One direction of a \<open>LoopbackPair\<close>: the sender's \<open>peerInbox_\<close> is the receiver's
  \<open>inbox_\<close>, a deque of whole messages; both ends are connected.
\<close>

record loopback =
  lb_connected :: bool
  lb_inbox :: "bytes list"

definition lb_send :: "bytes \<Rightarrow> loopback \<Rightarrow> bool \<times> loopback" where
  "lb_send m l = (if \<not> lb_connected l then (False, l) else (True, l\<lparr>lb_inbox := lb_inbox l @ [m]\<rparr>))"

definition lb_recv :: "nat \<Rightarrow> loopback \<Rightarrow> recv_result \<times> loopback" where
  "lb_recv cap l =
     (case lb_inbox l of [] \<Rightarrow> (RecvNone, l)
      | m # q \<Rightarrow> (recv_of_bytes (take cap m), l\<lparr>lb_inbox := q\<rparr>))"

interpretation loop: fifo_transport lb_send lb_recv lb_inbox lb_connected "\<lambda>_ _. True" "\<lambda>_. True"
  by unfold_locales (auto simp: lb_send_def lb_recv_def)

end
