(* ===== verification/Pairing.thy ===== *)
theory Pairing
  imports CryptoUtil Texts Transport
begin

text \<open>
  Pairing two machines: the six-digit code \<open>pairing/verification_code.cpp\<close>, the key
  agreement \<open>pairing/ecdh_handshake.{h,cpp}\<close> and the exchange with commitments
  \<open>pairing/pairing_exchange.{h,cpp}\<close>.  SHA-256, HMAC and P-256 are platform code: the fields
  of \<open>pair_crypto\<close>.  The generated key pair and nonce are arguments of \<open>px_start\<close>.
\<close>

section \<open>The verification code\<close>

definition pad6 :: "string \<Rightarrow> string" where
  "pad6 s = replicate (6 - length s) (CHR ''0'') @ s"

definition truncate6 :: "bytes \<Rightarrow> string" where
  "truncate6 mac =
     (let v = push_bit 24 (ucast (mac ! 0)) OR push_bit 16 (ucast (mac ! 1)) OR push_bit 8 (ucast (mac ! 2)) OR ucast (mac ! 3) :: u32 in
      pad6 (nat_to_string (unat (v AND 0x7fffffff) mod 1000000)))"

fun memcmp :: "nat \<Rightarrow> bytes \<Rightarrow> bytes \<Rightarrow> int" where
  "memcmp (Suc m) (x # a) (y # b) = (if x < y then - 1 else if y < x then 1 else memcmp m a b)"
| "memcmp _ _ _ = 0"

definition sorted_nonces :: "bytes \<Rightarrow> bytes \<Rightarrow> bytes \<times> bytes" where
  "sorted_nonces a b =
     (let m = (if length a < length b then length a else length b);
          c = (if m > 0 then memcmp m a b else 0) in
      if c > 0 \<or> (c = 0 \<and> length a > length b) then (b, a) else (a, b))"

definition plainCode :: "hmac_fun \<Rightarrow> bytes \<Rightarrow> string" where
  "plainCode hmac shared = truncate6 (hmac shared (to_bytes ''pairing''))"

definition verificationCode :: "hmac_fun \<Rightarrow> bytes \<Rightarrow> bytes \<Rightarrow> bytes \<Rightarrow> string" where
  "verificationCode hmac shared nonceA nonceB =
     (let (lo, hi) = sorted_nonces nonceA nonceB in truncate6 (hmac shared (to_bytes ''pairing'' @ lo @ hi)))"

lemma memcmp_flip: "memcmp m b a = - memcmp m a b"
  by (induction m a b rule: memcmp.induct) auto

lemma memcmp_eq: "memcmp m a b = 0 \<Longrightarrow> length a = m \<Longrightarrow> length b = m \<Longrightarrow> a = b"
  by (induction m a b rule: memcmp.induct) (auto split: if_splits)

text \<open>Both sides sort the nonces the same way.\<close>

lemma sorted_nonces_memcmp:
  "sorted_nonces x y = (let c = memcmp (min (length x) (length y)) x y in
     if c > 0 \<or> (c = 0 \<and> length x > length y) then (y, x) else (x, y))"
proof (cases "min (length x) (length y) = 0")
  case True
  then have "x = [] \<or> y = []" by (simp add: min_def split: if_splits)
  then show ?thesis by (auto simp: sorted_nonces_def)
next
  case False
  then have "(if length x < length y then length x else length y) = min (length x) (length y)"
    by (simp add: min_def)
  then show ?thesis using False by (simp only: sorted_nonces_def Let_def) simp
qed

lemma sorted_nonces_sym: "sorted_nonces a b = sorted_nonces b a"
proof -
  define c where "c = memcmp (min (length a) (length b)) a b"
  have f: "memcmp (min (length b) (length a)) b a = - c" by (simp only: c_def memcmp_flip [of _ b a] min.commute)
  have eq: "a = b" if "c = 0" "length a = length b" using memcmp_eq [of _ a b] that by (simp add: c_def)
  have "sorted_nonces a b = (if c > 0 \<or> (c = 0 \<and> length a > length b) then (b, a) else (a, b))"
    by (simp only: sorted_nonces_memcmp Let_def c_def)
  moreover have "sorted_nonces b a = (if - c > 0 \<or> (- c = 0 \<and> length b > length a) then (a, b) else (b, a))"
    by (simp only: sorted_nonces_memcmp Let_def f)
  ultimately show ?thesis using eq by (auto simp: not_less)
qed

lemma code_sym: "verificationCode hmac s a b = verificationCode hmac s b a"
  by (simp add: verificationCode_def sorted_nonces_sym [of a b])

lemma pad6_digits:
  assumes "n < 1000000"
  shows "length (pad6 (nat_to_string n)) = 6 \<and> list_all isDigit (pad6 (nat_to_string n))"
proof -
  have "length (nat_to_string n) \<le> 6" using nat_to_string_length [of n 5] assms by simp
  moreover have "isDigit (CHR ''0'')" by (simp add: isDigit_def)
  ultimately show ?thesis using nat_to_string_digits [of _ n] by (auto simp: pad6_def list_all_iff)
qed

lemma six_digits: "length (truncate6 mac) = 6 \<and> list_all isDigit (truncate6 mac)"
  unfolding truncate6_def Let_def by (rule pad6_digits) simp

section \<open>The key agreement\<close>

record EcdhKeyPair =
  publicPoint :: bytes
  privateBlob :: bytes

record pair_crypto =
  pc_sha256 :: "bytes \<Rightarrow> bytes"
  pc_hmac :: hmac_fun
  pc_ecdh :: "EcdhKeyPair \<Rightarrow> bytes \<Rightarrow> bytes option"

record EcdhHandshake =
  eh_kp :: EcdhKeyPair
  eh_shared :: bytes

definition newHandshake :: EcdhHandshake where
  "newHandshake = \<lparr>eh_kp = \<lparr>publicPoint = [], privateBlob = []\<rparr>, eh_shared = []\<rparr>"

definition eh_begin :: "EcdhKeyPair option \<Rightarrow> EcdhHandshake \<Rightarrow> bool \<times> EcdhHandshake" where
  "eh_begin generated h = (case generated of None \<Rightarrow> (False, h) | Some kp \<Rightarrow> (True, h\<lparr>eh_kp := kp\<rparr>))"

definition computeShared :: "pair_crypto \<Rightarrow> bytes \<Rightarrow> EcdhHandshake \<Rightarrow> bool \<times> EcdhHandshake" where
  "computeShared pc peerPublicPoint h =
     (case pc_ecdh pc (eh_kp h) peerPublicPoint of None \<Rightarrow> (False, h) | Some s \<Rightarrow> (True, h\<lparr>eh_shared := s\<rparr>))"

definition hasShared :: "EcdhHandshake \<Rightarrow> bool" where
  "hasShared h \<longleftrightarrow> length (eh_shared h) = 32"

definition eh_code :: "pair_crypto \<Rightarrow> bytes \<Rightarrow> bytes \<Rightarrow> EcdhHandshake \<Rightarrow> string" where
  "eh_code pc saltA saltB h = (if \<not> hasShared h then [] else verificationCode (pc_hmac pc) (eh_shared h) saltA saltB)"

definition eh_plainCode :: "pair_crypto \<Rightarrow> EcdhHandshake \<Rightarrow> string" where
  "eh_plainCode pc h = (if \<not> hasShared h then [] else plainCode (pc_hmac pc) (eh_shared h))"

definition psk_salt :: "PeerId \<Rightarrow> PeerId \<Rightarrow> bytes" where
  "psk_salt idA idB = to_bytes ((if idA < idB then idA else idB) @ ''|'' @ (if idA < idB then idB else idA))"

definition derivePsk :: "pair_crypto \<Rightarrow> PeerId \<Rightarrow> PeerId \<Rightarrow> EcdhHandshake \<Rightarrow> bytes option" where
  "derivePsk pc idA idB h =
     (if \<not> hasShared h then None
      else let okm = hkdfSha256 (pc_hmac pc) (eh_shared h) (psk_salt idA idB) (to_bytes ''skittermouse-psk-v1'') 32 in
        if length okm \<noteq> 32 then None else Some okm)"

lemma psk_salt_sym: "psk_salt a b = psk_salt b a"
  by (auto simp: psk_salt_def)

section \<open>The exchange\<close>

datatype px_status = PxNeedMore | PxOk | PxError
datatype px_phase = AwaitCommit | AwaitReveal

record PairingExchange =
  px_self :: PeerId
  px_hs :: EcdhHandshake
  px_peerId :: PeerId
  px_code :: string
  px_psk :: bytes
  px_started :: bool
  px_status :: px_status
  px_phase :: px_phase
  px_nonce :: bytes
  px_peerCommit :: bytes

definition newExchange :: "PeerId \<Rightarrow> PairingExchange" where
  "newExchange self =
     \<lparr>px_self = self, px_hs = newHandshake, px_peerId = [], px_code = [], px_psk = replicate 32 0, px_started = False,
      px_status = PxNeedMore, px_phase = AwaitCommit, px_nonce = [], px_peerCommit = replicate 32 0\<rparr>"

definition kPubLen :: nat where "kPubLen = 64"
definition kPairNonceLen :: nat where "kPairNonceLen = 32"
definition kCommitLen :: nat where "kCommitLen = 32"

lemma pair_lengths [simp]: "kPubLen = 64" "kPairNonceLen = 32" "kCommitLen = 32"
  by (simp_all add: kPubLen_def kPairNonceLen_def kCommitLen_def)

definition commitment :: "pair_crypto \<Rightarrow> bytes \<Rightarrow> bytes \<Rightarrow> PeerId \<Rightarrow> bytes" where
  "commitment pc pub nonce peer = pc_sha256 pc (pub @ nonce @ to_bytes peer)"

definition px_start ::
  "pair_crypto \<Rightarrow> 't transport_ops \<Rightarrow> EcdhKeyPair option \<Rightarrow> bytes \<Rightarrow> PairingExchange \<times> 't \<Rightarrow> bool \<times> PairingExchange \<times> 't" where
  "px_start pc ops generated rnd s =
     (case s of (x, t) \<Rightarrow>
       if px_started x then (True, x, t)
       else case eh_begin generated (px_hs x) of (ok, hs) \<Rightarrow>
         let x1 = x\<lparr>px_hs := hs\<rparr>; pub = publicPoint (eh_kp hs) in
         if \<not> ok then (False, x1, t)
         else if length pub \<noteq> kPubLen \<or> length (px_self x) = 0 \<or> length (px_self x) > 255 then (False, x1, t)
         else let x2 = x1\<lparr>px_nonce := rnd\<rparr> in
           if length rnd \<noteq> kPairNonceLen then (False, x2, t)
           else case op_send ops (commitment pc pub rnd (px_self x)) t of
             (sent, t') \<Rightarrow> (sent, x2\<lparr>px_started := sent\<rparr>, t'))"

definition reveal :: "PeerId \<Rightarrow> bytes \<Rightarrow> bytes \<Rightarrow> bytes" where
  "reveal self pub nonce = word_of_nat (length self) # to_bytes self @ pub @ nonce"

definition px_fail :: "PairingExchange \<Rightarrow> PairingExchange" where
  "px_fail x = x\<lparr>px_status := PxError\<rparr>"

definition px_commit :: "'t transport_ops \<Rightarrow> bytes \<Rightarrow> PairingExchange \<Rightarrow> 't \<Rightarrow> PairingExchange \<times> 't" where
  "px_commit ops d x t =
     (if length d \<noteq> kCommitLen then (px_fail x, t)
      else let x1 = x\<lparr>px_peerCommit := d\<rparr> in
        case op_send ops (reveal (px_self x) (publicPoint (eh_kp (px_hs x))) (px_nonce x)) t of
          (sent, t') \<Rightarrow> (if \<not> sent then px_fail x1 else x1\<lparr>px_phase := AwaitReveal\<rparr>, t'))"

definition px_reveal :: "pair_crypto \<Rightarrow> bytes \<Rightarrow> PairingExchange \<Rightarrow> PairingExchange" where
  "px_reveal pc d x =
     (let idLen = unat (d ! 0) in
      if length d \<noteq> 1 + idLen + kPubLen + kPairNonceLen \<or> idLen = 0 then px_fail x
      else let peer = of_bytes (take idLen (drop 1 d)); x1 = x\<lparr>px_peerId := peer\<rparr> in
        if peer = px_self x then px_fail x1
        else let peerPub = take kPubLen (drop (1 + idLen) d); peerNonce = take kPairNonceLen (drop (1 + idLen + kPubLen) d) in
          if commitment pc peerPub peerNonce peer \<noteq> px_peerCommit x then px_fail x1
          else case computeShared pc peerPub (px_hs x) of (ok, hs) \<Rightarrow>
            let x2 = x1\<lparr>px_hs := hs\<rparr> in
            if \<not> ok then px_fail x2
            else let x3 = x2\<lparr>px_code := eh_code pc (px_nonce x) peerNonce hs\<rparr> in
              case derivePsk pc (px_self x) peer hs of
                None \<Rightarrow> px_fail x3
              | Some psk \<Rightarrow> x3\<lparr>px_psk := psk, px_status := PxOk\<rparr>)"

definition px_poll ::
  "pair_crypto \<Rightarrow> 't transport_ops \<Rightarrow> PairingExchange \<times> 't \<Rightarrow> px_status \<times> PairingExchange \<times> 't" where
  "px_poll pc ops s =
     (case s of (x, t) \<Rightarrow>
       if px_status x \<noteq> PxNeedMore then (px_status x, x, t)
       else case op_recv ops 512 t of
         (RecvNone, t') \<Rightarrow> (PxNeedMore, x, t')
       | (RecvErr, t') \<Rightarrow> (PxError, px_fail x, t')
       | (RecvMsg d, t') \<Rightarrow>
           (case (case px_phase x of AwaitCommit \<Rightarrow> px_commit ops d x t' | AwaitReveal \<Rightarrow> (px_reveal pc d x, t')) of
              (x1, t1) \<Rightarrow> (px_status x1, x1, t1)))"

section \<open>Steps of one side\<close>

text \<open>A side that has sent its commitment, one that has answered the peer's, and one that is done.\<close>

definition px_started_state :: "EcdhKeyPair \<Rightarrow> bytes \<Rightarrow> PeerId \<Rightarrow> PairingExchange" where
  "px_started_state kp rnd self =
     (newExchange self)\<lparr>px_hs := newHandshake\<lparr>eh_kp := kp\<rparr>, px_nonce := rnd, px_started := True\<rparr>"

definition px_waiting :: "EcdhKeyPair \<Rightarrow> bytes \<Rightarrow> PeerId \<Rightarrow> bytes \<Rightarrow> PairingExchange" where
  "px_waiting kp rnd self c = (px_started_state kp rnd self)\<lparr>px_peerCommit := c, px_phase := AwaitReveal\<rparr>"

definition session_psk :: "pair_crypto \<Rightarrow> bytes \<Rightarrow> PeerId \<Rightarrow> PeerId \<Rightarrow> bytes" where
  "session_psk pc s idA idB = hkdfSha256 (pc_hmac pc) s (psk_salt idA idB) (to_bytes ''skittermouse-psk-v1'') 32"

definition px_done ::
  "pair_crypto \<Rightarrow> EcdhKeyPair \<Rightarrow> bytes \<Rightarrow> PeerId \<Rightarrow> bytes \<Rightarrow> bytes \<Rightarrow> bytes \<Rightarrow> PeerId \<Rightarrow> PairingExchange" where
  "px_done pc kp rnd self c s nonce peer =
     (px_waiting kp rnd self c)\<lparr>px_hs := \<lparr>eh_kp = kp, eh_shared = s\<rparr>, px_peerId := peer,
        px_code := verificationCode (pc_hmac pc) s rnd nonce, px_psk := session_psk pc s self peer, px_status := PxOk\<rparr>"

lemmas px_states = px_done_def px_waiting_def px_started_state_def newExchange_def newHandshake_def

definition side_ok :: "EcdhKeyPair \<Rightarrow> bytes \<Rightarrow> PeerId \<Rightarrow> bool" where
  "side_ok kp rnd self \<longleftrightarrow> length (publicPoint kp) = 64 \<and> length rnd = 32 \<and> self \<noteq> [] \<and> length self \<le> 255"

lemma px_start_ok:
  assumes "side_ok kp rnd self" "op_send ops (commitment pc (publicPoint kp) rnd self) t = (True, t')"
  shows "px_start pc ops (Some kp) rnd (newExchange self, t) = (True, px_started_state kp rnd self, t')"
  using assms by (auto simp: px_start_def side_ok_def px_states eh_begin_def Let_def)

lemma px_poll_idle:
  "px_status x = PxNeedMore \<Longrightarrow> op_recv ops 512 t = (RecvNone, t') \<Longrightarrow> px_poll pc ops (x, t) = (PxNeedMore, x, t')"
  by (simp add: px_poll_def)

lemma px_poll_commit:
  assumes "op_recv ops 512 t = (RecvMsg c, t1)" "length c = 32"
    "op_send ops (reveal self (publicPoint kp) rnd) t1 = (True, t2)"
  shows "px_poll pc ops (px_started_state kp rnd self, t) = (PxNeedMore, px_waiting kp rnd self c, t2)"
  using assms by (simp add: px_poll_def px_commit_def px_states)

lemma reveal_parts:
  assumes "length pub = 64" "length nonce = 32" "peer \<noteq> []" "length peer \<le> 255" "d = reveal peer pub nonce"
  shows "unat (d ! 0) = length peer" "length d = 1 + length peer + 64 + 32" "of_bytes (take (length peer) (drop 1 d)) = peer"
    "take 64 (drop (1 + length peer) d) = pub" "take 32 (drop (1 + length peer + 64) d) = nonce"
  using assms by (simp_all add: reveal_def unat_of_nat drop_Cons')

lemma px_poll_reveal:
  assumes "op_recv ops 512 t = (RecvMsg (reveal peer pub nonce), t1)" "side_ok kp' nonce peer" "pub = publicPoint kp'"
    "peer \<noteq> self" "c = commitment pc pub nonce peer" "pc_ecdh pc kp pub = Some s" "length s = 32" "hmac_ok (pc_hmac pc)"
  shows "px_poll pc ops (px_waiting kp rnd self c, t) = (PxOk, px_done pc kp rnd self c s nonce peer, t1)"
proof -
  define d where "d = reveal peer pub nonce"
  have p: "length pub = 64" "length nonce = 32" "peer \<noteq> []" "length peer \<le> 255"
    using assms(2,3) by (auto simp: side_ok_def)
  note parts = reveal_parts [OF p d_def]
  have psk: "length (session_psk pc s self peer) = 32"
    using hkdf_length [OF assms(8)] by (simp add: session_psk_def)
  have "px_reveal pc d (px_waiting kp rnd self c) = px_done pc kp rnd self c s nonce peer"
    unfolding px_reveal_def pair_lengths parts(1) Let_def parts(3,4,5)
    using parts(2) p assms(4-7) psk
    by (simp add: computeShared_def px_states eh_code_def hasShared_def derivePsk_def session_psk_def Let_def)
  then show ?thesis using assms(1) by (simp add: px_poll_def d_def [symmetric] px_states)
qed

section \<open>Two honest sides\<close>

text \<open>
  The two ends of an in-memory connection: an end's state is its outgoing and its incoming
  direction.  A schedule says which side polls next.
\<close>

definition end_ops :: "(loopback \<times> loopback) transport_ops" where
  "end_ops = \<lparr>op_send = (\<lambda>m t. case lb_send m (fst t) of (ok, o') \<Rightarrow> (ok, o', snd t)),
     op_recv = (\<lambda>cap t. case lb_recv cap (snd t) of (r, i') \<Rightarrow> (r, fst t, i')),
     op_up = (\<lambda>t. lb_connected (snd t)), op_waiting = (\<lambda>t. length (lb_inbox (snd t)))\<rparr>"

type_synonym pair_state = "PairingExchange \<times> PairingExchange \<times> loopback \<times> loopback"

definition pair_poll :: "pair_crypto \<Rightarrow> pair_state \<Rightarrow> bool \<Rightarrow> pair_state" where
  "pair_poll pc s who = (case s of (xa, xb, ab, ba) \<Rightarrow>
     if who then (case px_poll pc end_ops (xa, ab, ba) of (_, xa', ab', ba') \<Rightarrow> (xa', xb, ab', ba'))
     else (case px_poll pc end_ops (xb, ba, ab) of (_, xb', ba', ab') \<Rightarrow> (xa, xb', ab', ba')))"

definition pair_begin ::
  "pair_crypto \<Rightarrow> EcdhKeyPair \<Rightarrow> bytes \<Rightarrow> PeerId \<Rightarrow> EcdhKeyPair \<Rightarrow> bytes \<Rightarrow> PeerId \<Rightarrow> pair_state" where
  "pair_begin pc kpA rA idA kpB rB idB =
     (let l = \<lparr>lb_connected = True, lb_inbox = []\<rparr> in
      case px_start pc end_ops (Some kpA) rA (newExchange idA, l, l) of (_, xa, ab, ba) \<Rightarrow>
      case px_start pc end_ops (Some kpB) rB (newExchange idB, ba, ab) of (_, xb, ba', ab') \<Rightarrow>
        (xa, xb, ab', ba'))"

text \<open>The parameters of one side and the messages it has sent when it is in phase \<open>i\<close>.\<close>

record pair_side =
  ps_kp :: EcdhKeyPair
  ps_rnd :: bytes
  ps_id :: PeerId

definition ps_commit :: "pair_crypto \<Rightarrow> pair_side \<Rightarrow> bytes" where
  "ps_commit pc a = commitment pc (publicPoint (ps_kp a)) (ps_rnd a) (ps_id a)"

definition ps_reveal :: "pair_side \<Rightarrow> bytes" where
  "ps_reveal a = reveal (ps_id a) (publicPoint (ps_kp a)) (ps_rnd a)"

definition sent :: "pair_crypto \<Rightarrow> pair_side \<Rightarrow> nat \<Rightarrow> bytes list" where
  "sent pc a i = (if i = 0 then [ps_commit pc a] else [ps_commit pc a, ps_reveal a])"

definition side_at :: "pair_crypto \<Rightarrow> bytes \<Rightarrow> pair_side \<Rightarrow> pair_side \<Rightarrow> nat \<Rightarrow> PairingExchange" where
  "side_at pc s a b i =
     (if i = 0 then px_started_state (ps_kp a) (ps_rnd a) (ps_id a)
      else if i = 1 then px_waiting (ps_kp a) (ps_rnd a) (ps_id a) (ps_commit pc b)
      else px_done pc (ps_kp a) (ps_rnd a) (ps_id a) (ps_commit pc b) s (ps_rnd b) (ps_id b))"

definition in_flight :: "pair_crypto \<Rightarrow> pair_side \<Rightarrow> nat \<Rightarrow> nat \<Rightarrow> loopback" where
  "in_flight pc a i j = \<lparr>lb_connected = True, lb_inbox = drop j (sent pc a i)\<rparr>"

definition advance :: "nat \<Rightarrow> nat \<Rightarrow> nat" where
  "advance i j = (if i = 0 then 1 else if i = 1 \<and> j \<ge> 1 then 2 else i)"

definition sides_ok :: "pair_crypto \<Rightarrow> bytes \<Rightarrow> pair_side \<Rightarrow> pair_side \<Rightarrow> bool" where
  "sides_ok pc s a b \<longleftrightarrow> side_ok (ps_kp a) (ps_rnd a) (ps_id a) \<and> side_ok (ps_kp b) (ps_rnd b) (ps_id b)
     \<and> ps_id a \<noteq> ps_id b \<and> pc_ecdh pc (ps_kp a) (publicPoint (ps_kp b)) = Some s
     \<and> pc_ecdh pc (ps_kp b) (publicPoint (ps_kp a)) = Some s \<and> length s = 32
     \<and> hmac_ok (pc_hmac pc) \<and> (\<forall>d. length (pc_sha256 pc d) = 32)"

lemma sides_ok_sym: "sides_ok pc s a b \<Longrightarrow> sides_ok pc s b a"
  by (auto simp: sides_ok_def)

lemma reveal_fits: "sides_ok pc s a b \<Longrightarrow> length (ps_reveal b) \<le> 512 \<and> ps_reveal b \<noteq> []"
  by (auto simp: sides_ok_def side_ok_def ps_reveal_def reveal_def)

lemma side_advances:
  assumes "sides_ok pc s a b" "i \<le> 2" "j \<le> 2" "i = 2 \<longrightarrow> j \<ge> 1" "j = 2 \<longrightarrow> i \<ge> 1"
  shows "snd (px_poll pc end_ops (side_at pc s a b i, in_flight pc a i j, in_flight pc b j i))
    = (side_at pc s a b (advance i j), in_flight pc a (advance i j) j, in_flight pc b j (advance i j))"
proof -
  have len: "length (ps_commit pc b) = 32" using assms(1) by (simp add: sides_ok_def ps_commit_def commitment_def)
  then have ne: "ps_commit pc b \<noteq> []" by auto
  consider "i = 0" | "i = 1" "j = 0" | "i = 1" "j \<ge> 1" | "i = 2" using assms(2) by linarith
  then show ?thesis
  proof cases
    case 1
    have r: "op_recv end_ops 512 (in_flight pc a 0 j, in_flight pc b j 0)
        = (RecvMsg (ps_commit pc b), in_flight pc a 0 j, in_flight pc b j 1)"
      using len ne by (auto simp: end_ops_def in_flight_def sent_def lb_recv_def)
    have "j \<le> 1" using 1 assms(3,5) by linarith
    then have "op_send end_ops (reveal (ps_id a) (publicPoint (ps_kp a)) (ps_rnd a)) (in_flight pc a 0 j, in_flight pc b j 1)
        = (True, in_flight pc a 1 j, in_flight pc b j 1)"
      by (auto simp: end_ops_def in_flight_def sent_def lb_send_def ps_reveal_def le_Suc_eq)
    then show ?thesis using px_poll_commit [OF r len] 1 by (simp add: side_at_def advance_def)
  next
    case 2
    then have "op_recv end_ops 512 (in_flight pc a 1 j, in_flight pc b j 1) = (RecvNone, in_flight pc a 1 j, in_flight pc b j 1)"
      by (simp add: end_ops_def in_flight_def sent_def lb_recv_def)
    then show ?thesis using 2 by (simp add: px_poll_idle side_at_def advance_def px_states)
  next
    case 3
    have "op_recv end_ops 512 (in_flight pc a 1 j, in_flight pc b j 1)
        = (RecvMsg (ps_reveal b), in_flight pc a 2 j, in_flight pc b j 2)"
      using 3 reveal_fits [OF assms(1)] by (simp add: end_ops_def in_flight_def sent_def lb_recv_def)
    from px_poll_reveal [OF this [unfolded ps_reveal_def], of "ps_kp b" "ps_id a" _ pc "ps_kp a" s "ps_rnd a"]
    moreover have "ps_id b \<noteq> ps_id a" using assms(1) by (auto simp: sides_ok_def)
    ultimately show ?thesis using 3 assms(1) by (simp add: sides_ok_def side_at_def advance_def ps_commit_def)
  next
    case 4
    then show ?thesis by (simp add: px_poll_def side_at_def advance_def px_states)
  qed
qed

text \<open>The two phases determine the whole system, and every poll advances them as far as it can.\<close>

definition pair_sys :: "pair_crypto \<Rightarrow> bytes \<Rightarrow> pair_side \<Rightarrow> pair_side \<Rightarrow> nat \<times> nat \<Rightarrow> pair_state" where
  "pair_sys pc s a b p = (side_at pc s a b (fst p), side_at pc s b a (snd p),
     in_flight pc a (fst p) (snd p), in_flight pc b (snd p) (fst p))"

definition phases_ok :: "nat \<times> nat \<Rightarrow> bool" where
  "phases_ok p \<longleftrightarrow> fst p \<le> 2 \<and> snd p \<le> 2 \<and> (fst p = 2 \<longrightarrow> snd p \<ge> 1) \<and> (snd p = 2 \<longrightarrow> fst p \<ge> 1)"

fun phase_step :: "nat \<times> nat \<Rightarrow> bool \<Rightarrow> nat \<times> nat" where
  "phase_step (i, j) who = (if who then (advance i j, j) else (i, advance j i))"

lemma phase_step_ok: "phases_ok p \<Longrightarrow> phases_ok (phase_step p who)"
  by (cases p) (auto simp: phases_ok_def advance_def)

lemma pair_poll_sys:
  assumes "sides_ok pc s a b" "phases_ok p"
  shows "pair_poll pc (pair_sys pc s a b p) who = pair_sys pc s a b (phase_step p who)"
proof (cases p)
  case (Pair i j)
  have ij: "i \<le> 2" "j \<le> 2" "i = 2 \<longrightarrow> j \<ge> 1" "j = 2 \<longrightarrow> i \<ge> 1" using assms(2) by (auto simp: phases_ok_def Pair)
  show ?thesis
    using side_advances [OF assms(1) ij] side_advances [OF sides_ok_sym [OF assms(1)] ij(2,1,4,3)]
    by (cases who) (auto simp: pair_poll_def pair_sys_def Pair split: prod.splits)
qed

lemma pair_run_sys:
  "sides_ok pc s a b \<Longrightarrow> phases_ok p \<Longrightarrow>
    foldl (pair_poll pc) (pair_sys pc s a b p) sch = pair_sys pc s a b (foldl phase_step p sch) \<and> phases_ok (foldl phase_step p sch)"
  by (induction sch arbitrary: p) (simp_all add: pair_poll_sys phase_step_ok)

lemma phases_grow:
  "fst p \<le> fst (phase_step p who)" "snd p \<le> snd (phase_step p who)"
  by (cases p; auto simp: advance_def)+

lemma phases_mono: "fst p \<le> fst (foldl phase_step p sch) \<and> snd p \<le> snd (foldl phase_step p sch)"
  by (induction sch arbitrary: p) (auto intro: order_trans [OF phases_grow(1)] order_trans [OF phases_grow(2)])

lemma first_round:
  "(True \<in> set sch \<longrightarrow> fst (foldl phase_step p sch) \<ge> 1) \<and> (False \<in> set sch \<longrightarrow> snd (foldl phase_step p sch) \<ge> 1)"
proof (induction sch arbitrary: p)
  case (Cons w sch)
  have "w \<Longrightarrow> fst (phase_step p w) \<ge> 1" "\<not> w \<Longrightarrow> snd (phase_step p w) \<ge> 1"
    by (cases p; auto simp: advance_def)+
  then show ?case using Cons.IH [of "phase_step p w"] phases_mono [of "phase_step p w" sch] by (cases w) auto
qed simp

lemma second_round:
  "fst p \<ge> 1 \<Longrightarrow> snd p \<ge> 1 \<Longrightarrow>
    (True \<in> set sch \<longrightarrow> fst (foldl phase_step p sch) \<ge> 2) \<and> (False \<in> set sch \<longrightarrow> snd (foldl phase_step p sch) \<ge> 2)"
proof (induction sch arbitrary: p)
  case (Cons w sch)
  have "w \<Longrightarrow> fst (phase_step p w) \<ge> 2" "\<not> w \<Longrightarrow> snd (phase_step p w) \<ge> 2"
    using Cons.prems by (cases p; auto simp: advance_def)+
  moreover have "fst (phase_step p w) \<ge> 1" "snd (phase_step p w) \<ge> 1"
    using Cons.prems phases_grow [of p w] by linarith+
  ultimately show ?case using Cons.IH [of "phase_step p w"] phases_mono [of "phase_step p w" sch] by (cases w) auto
qed simp

lemma pair_begin_sys:
  assumes "sides_ok pc s a b"
  shows "pair_begin pc (ps_kp a) (ps_rnd a) (ps_id a) (ps_kp b) (ps_rnd b) (ps_id b) = pair_sys pc s a b (0, 0)"
proof -
  let ?l = "\<lparr>lb_connected = True, lb_inbox = []\<rparr>"
  have a: "px_start pc end_ops (Some (ps_kp a)) (ps_rnd a) (newExchange (ps_id a), ?l, ?l)
      = (True, side_at pc s a b 0, in_flight pc a 0 0, ?l)"
    using assms px_start_ok [of "ps_kp a" "ps_rnd a" "ps_id a" end_ops pc "(?l, ?l)" "(in_flight pc a 0 0, ?l)"]
    by (simp add: sides_ok_def end_ops_def lb_send_def in_flight_def sent_def ps_commit_def side_at_def)
  have b: "px_start pc end_ops (Some (ps_kp b)) (ps_rnd b) (newExchange (ps_id b), ?l, in_flight pc a 0 0)
      = (True, side_at pc s b a 0, in_flight pc b 0 0, in_flight pc a 0 0)"
    using assms px_start_ok [of "ps_kp b" "ps_rnd b" "ps_id b" end_ops pc "(?l, in_flight pc a 0 0)" "(in_flight pc b 0 0, in_flight pc a 0 0)"]
    by (simp add: sides_ok_def end_ops_def lb_send_def in_flight_def sent_def ps_commit_def side_at_def)
  show ?thesis by (simp add: pair_begin_def a b pair_sys_def Let_def)
qed

text \<open>
  C14. Two honest machines whose exchanges run over a connection pair whatever the order in
  which they poll: after a stretch of the schedule in which each polled and another such
  stretch, both are done, with the same six-digit code, the same key, and each with the
  other's id.
\<close>

theorem pairing_agrees:
  assumes "sides_ok pc s a b" "True \<in> set s1" "False \<in> set s1" "True \<in> set s2" "False \<in> set s2"
  shows "\<exists>xa xb ab ba. foldl (pair_poll pc)
        (pair_begin pc (ps_kp a) (ps_rnd a) (ps_id a) (ps_kp b) (ps_rnd b) (ps_id b)) (s1 @ s2) = (xa, xb, ab, ba)
    \<and> px_status xa = PxOk \<and> px_status xb = PxOk \<and> px_peerId xa = ps_id b \<and> px_peerId xb = ps_id a
    \<and> px_psk xa = px_psk xb \<and> length (px_psk xa) = 32
    \<and> px_code xa = px_code xb \<and> length (px_code xa) = 6 \<and> list_all isDigit (px_code xa)"
proof -
  let ?p = "foldl phase_step (0, 0) (s1 @ s2)"
  have run: "foldl (pair_poll pc) (pair_sys pc s a b (0, 0)) (s1 @ s2) = pair_sys pc s a b ?p" "phases_ok ?p"
    using pair_run_sys [OF assms(1), of "(0, 0)" "s1 @ s2"] by (auto simp: phases_ok_def)
  have "fst (foldl phase_step (0, 0) s1) \<ge> 1" "snd (foldl phase_step (0, 0) s1) \<ge> 1"
    using first_round [of s1 "(0, 0)"] assms by auto
  then have "fst ?p \<ge> 2" "snd ?p \<ge> 2"
    using second_round [of "foldl phase_step (0, 0) s1" s2] assms by auto
  then have p: "?p = (2, 2)" using run(2) by (cases ?p) (simp add: phases_ok_def)
  have len: "length (px_psk (side_at pc s a b 2)) = 32" "length (px_psk (side_at pc s b a 2)) = 32"
    using hkdf_length assms(1) by (simp_all add: side_at_def px_done_def session_psk_def sides_ok_def)
  have six: "length (verificationCode h k x y) = 6 \<and> list_all isDigit (verificationCode h k x y)" for h k x y
    using six_digits by (simp add: verificationCode_def split: prod.splits)
  let ?a = "side_at pc s a b 2" and ?b = "side_at pc s b a 2"
  have facts: "px_status ?a = PxOk" "px_status ?b = PxOk" "px_peerId ?a = ps_id b" "px_peerId ?b = ps_id a"
    "px_code ?a = verificationCode (pc_hmac pc) s (ps_rnd a) (ps_rnd b)"
    "px_code ?b = verificationCode (pc_hmac pc) s (ps_rnd a) (ps_rnd b)" "px_psk ?a = px_psk ?b"
    by (simp_all add: side_at_def px_states session_psk_def psk_salt_sym [of "ps_id b" "ps_id a"]
        code_sym [of _ s "ps_rnd b" "ps_rnd a"])
  show ?thesis
    unfolding pair_begin_sys [OF assms(1)] run(1) p unfolding pair_sys_def fst_conv snd_conv
    by (intro exI [of _ ?a] exI [of _ ?b] exI conjI, rule refl) (simp_all add: facts len six)
qed

definition toy_pair_crypto :: pair_crypto where
  "toy_pair_crypto = \<lparr>pc_sha256 = toy_hmac [1], pc_hmac = toy_hmac,
     pc_ecdh = (\<lambda>kp pub. Some (take 32 (map2 (+) (publicPoint kp) pub)))\<rparr>"

definition toy_side :: "u8 \<Rightarrow> PeerId \<Rightarrow> pair_side" where
  "toy_side n i = \<lparr>ps_kp = \<lparr>publicPoint = replicate 64 n, privateBlob = []\<rparr>, ps_rnd = replicate 32 (n + 1), ps_id = i\<rparr>"

lemma toy_sides:
  "sides_ok toy_pair_crypto (replicate 32 7) (toy_side 3 ''alice'') (toy_side 4 ''bob'')"
  by (simp add: sides_ok_def side_ok_def toy_side_def toy_pair_crypto_def toy_hmac_ok toy_hmac_ok [unfolded hmac_ok_def] zip_replicate)

theorem pairing_agrees_witness:
  "\<exists>xa xb ab ba. foldl (pair_poll toy_pair_crypto)
      (pair_begin toy_pair_crypto \<lparr>publicPoint = replicate 64 3, privateBlob = []\<rparr> (replicate 32 4) ''alice''
        \<lparr>publicPoint = replicate 64 4, privateBlob = []\<rparr> (replicate 32 5) ''bob'') [True, False, False, True, False]
      = (xa, xb, ab, ba) \<and> px_peerId xa = ''bob'' \<and> px_code xa = px_code xb"
  using pairing_agrees [OF toy_sides, of "[True, False]" "[False, True, False]"]
  by (auto simp: toy_side_def)

section \<open>The commitment gate\<close>

text \<open>Whatever the peer sends: the socket delivers the events of its script, cut to 512 bytes.\<close>

fun px_polls :: "pair_crypto \<Rightarrow> 't transport_ops \<Rightarrow> nat \<Rightarrow> PairingExchange \<times> 't \<Rightarrow> PairingExchange \<times> 't" where
  "px_polls pc ops 0 s = s"
| "px_polls pc ops (Suc k) s = px_polls pc ops k (snd (px_poll pc ops s))"

fun arrived :: "link_event list \<Rightarrow> bytes list" where
  "arrived (Incoming m # q) = (if m = [] then arrived q else take 512 m # arrived q)"
| "arrived (_ # q) = arrived q"
| "arrived [] = []"

lemma arrived_append [simp]: "arrived (p @ q) = arrived p @ arrived q"
  by (induction p rule: arrived.induct) auto

text \<open>What holds of one side: \<open>us\<close> are the events it has consumed and \<open>out\<close> what it has sent.\<close>

definition opened :: "pair_crypto \<Rightarrow> EcdhKeyPair \<Rightarrow> bytes \<Rightarrow> PairingExchange \<Rightarrow> bytes list \<Rightarrow> bool" where
  "opened pc kp rnd x ms \<longleftrightarrow> (\<exists>pub nonce s. length pub = 64 \<and> length nonce = 32
     \<and> ms = [commitment pc pub nonce (px_peerId x), reveal (px_peerId x) pub nonce]
     \<and> px_peerId x \<noteq> px_self x \<and> pc_ecdh pc kp pub = Some s
     \<and> px_code x = verificationCode (pc_hmac pc) s rnd nonce \<and> px_psk x = session_psk pc s (px_self x) (px_peerId x))"

fun gate_inv :: "pair_crypto \<Rightarrow> EcdhKeyPair \<Rightarrow> bytes \<Rightarrow> PeerId \<Rightarrow> bytes list \<Rightarrow> bytes list \<Rightarrow> PairingExchange \<Rightarrow> bool" where
  "gate_inv pc kp rnd self ms out x \<longleftrightarrow> px_self x = self \<and> px_started x \<and>
     (case px_status x of
        PxNeedMore \<Rightarrow> eh_kp (px_hs x) = kp \<and> px_nonce x = rnd \<and>
          (case px_phase x of
             AwaitCommit \<Rightarrow> ms = [] \<and> out = [commitment pc (publicPoint kp) rnd self]
           | AwaitReveal \<Rightarrow> ms = [px_peerCommit x] \<and> length (px_peerCommit x) = 32
               \<and> out = [commitment pc (publicPoint kp) rnd self, reveal self (publicPoint kp) rnd])
      | PxOk \<Rightarrow> opened pc kp rnd x ms \<and> out = [commitment pc (publicPoint kp) rnd self, reveal self (publicPoint kp) rnd]
      | PxError \<Rightarrow> True)"

lemma three_parts: "length q = l + m + n \<Longrightarrow> take l q @ take m (drop l q) @ take n (drop (l + m) q) = q"
  by (metis append_take_drop_id add.commute drop_drop length_drop diff_add_inverse take_all_iff order_refl)

lemma px_reveal_cases:
  assumes "length d \<le> 512" "d \<noteq> []" "px_status x = PxNeedMore" "px_reveal pc d x = x'" "eh_kp (px_hs x) = kp" "px_nonce x = rnd"
  shows "px_self x' = px_self x \<and> px_started x' = px_started x
    \<and> (px_status x' = PxError \<or> px_status x' = PxOk \<and> opened pc kp rnd x' [px_peerCommit x, d])"
proof (cases "px_status x' = PxOk")
  case True
  let ?l = "unat (d ! 0)"
  let ?peer = "of_bytes (take ?l (drop 1 d))" and ?pub = "take 64 (drop (1 + ?l) d)" and ?nonce = "take 32 (drop (1 + ?l + 64) d)"
  from True assms(3,4) obtain hs psk where g: "length d = 1 + ?l + 64 + 32" "?peer \<noteq> px_self x"
    "commitment pc ?pub ?nonce ?peer = px_peerCommit x" "computeShared pc ?pub (px_hs x) = (True, hs)"
    "derivePsk pc (px_self x) ?peer hs = Some psk"
    "x' = x\<lparr>px_peerId := ?peer, px_hs := hs, px_code := eh_code pc (px_nonce x) ?nonce hs, px_psk := psk, px_status := PxOk\<rparr>"
    by (auto simp: px_reveal_def px_fail_def Let_def split: if_splits option.splits prod.splits)
  obtain b where b: "d = b # drop 1 d" using assms(2) by (cases d) auto
  obtain s where s: "pc_ecdh pc kp ?pub = Some s" "hs = (px_hs x)\<lparr>eh_shared := s\<rparr>" "length s = 32"
      "psk = session_psk pc s (px_self x) ?peer"
    using g(4,5) assms(5)
    by (auto simp: computeShared_def derivePsk_def hasShared_def session_psk_def Let_def split: option.splits if_splits)
  have "take ?l (drop 1 d) @ take 64 (drop ?l (drop 1 d)) @ take 32 (drop (?l + 64) (drop 1 d)) = drop 1 d"
    by (rule three_parts) (use g(1) in simp)
  then have "reveal ?peer ?pub ?nonce = d ! 0 # drop 1 d" using g(1) by (simp add: reveal_def add.commute)
  then have rv: "reveal ?peer ?pub ?nonce = d" using b by (metis nth_Cons_0)
  have "opened pc kp rnd x' [px_peerCommit x, d]"
    unfolding opened_def
    by (rule exI [of _ ?pub], rule exI [of _ ?nonce], rule exI [of _ s])
      (use g s rv assms(6) in \<open>auto simp: eh_code_def hasShared_def\<close>)
  then show ?thesis using g(6) by simp
next
  case False
  then show ?thesis using assms(3,4)
    by (auto simp: px_reveal_def px_fail_def Let_def split: if_splits option.splits prod.splits)
qed

lemma raw_recv_cases:
  assumes "raw_recv 512 l = (r, l')"
  obtains "r = RecvErr" | "r = RecvNone" "\<exists>us. rl_in l = us @ rl_in l' \<and> arrived us = []" "rl_out l' = rl_out l"
  | m where "r = RecvMsg (take 512 m)" "m \<noteq> []" "\<exists>us. rl_in l = us @ rl_in l' \<and> arrived us = [take 512 m]" "rl_out l' = rl_out l"
proof (cases "rl_up l")
  case True
  show ?thesis
  proof (cases "rl_in l")
    case Nil
    then show ?thesis using that(2) assms True by (auto simp: raw_recv_def)
  next
    case (Cons e q)
    then show ?thesis using that assms True
      by (cases e) (auto simp: raw_recv_def recv_of_bytes_def intro: exI [of _ "[e]"] split: if_splits)
  qed
next
  case False
  then show ?thesis using that(1) assms by (simp add: raw_recv_def)
qed

lemma px_commit_cases:
  assumes "px_commit raw_ops d x l = (x', l')"
  shows "px_self x' = px_self x \<and> px_started x' = px_started x
    \<and> (px_status x' = PxError \<or> length d = 32 \<and> x' = x\<lparr>px_peerCommit := d, px_phase := AwaitReveal\<rparr>
        \<and> l' = l\<lparr>rl_out := rl_out l @ [reveal (px_self x) (publicPoint (eh_kp (px_hs x))) (px_nonce x)]\<rparr>)"
  using assms by (auto simp: px_commit_def px_fail_def raw_ops_def raw_send_def Let_def split: if_splits)

lemma gate_step:
  assumes inv: "gate_inv pc kp rnd self ms (rl_out l) x" and poll: "px_poll pc raw_ops (x, l) = (st, x', l')"
  shows "\<exists>us. (px_status x' \<noteq> PxError \<longrightarrow> rl_in l = us @ rl_in l') \<and> gate_inv pc kp rnd self (ms @ arrived us) (rl_out l') x'"
proof (cases "px_status x = PxNeedMore")
  case False
  then have "x' = x" "l' = l" using poll by (auto simp: px_poll_def)
  then show ?thesis using inv by (intro exI [of _ "[]"]) simp
next
  case True
  note c = inv [simplified gate_inv.simps True px_status.case]
  have stop: ?thesis if "px_status x' = PxError" "px_self x' = px_self x" "px_started x'"
    using that c by (intro exI [of _ "[]"]) simp
  obtain r l1 where r: "raw_recv 512 l = (r, l1)" by fastforce
  have op: "op_recv raw_ops = raw_recv" by (simp add: raw_ops_def)
  from r show ?thesis
  proof (cases rule: raw_recv_cases)
    case 1
    then show ?thesis using poll r True c by (intro stop) (auto simp: px_poll_def op px_fail_def)
  next
    case 2
    then obtain us where us: "rl_in l = us @ rl_in l1" "arrived us = []" by blast
    have "x' = x" "l' = l1" using 2 poll r True by (auto simp: px_poll_def op)
    then show ?thesis using inv us 2 by (intro exI [of _ us]) simp
  next
    case (3 m)
    let ?d = "take 512 m"
    from 3 obtain us where us: "rl_in l = us @ rl_in l1" "arrived us = [?d]" by blast
    have d: "length ?d \<le> 512" "?d \<noteq> []" using 3 by auto
    show ?thesis
    proof (cases "px_phase x")
      case AwaitCommit
      then have "px_commit raw_ops ?d x l1 = (x', l')"
        using poll r True 3 by (auto simp: px_poll_def op split: prod.splits)
      note k = px_commit_cases [OF this]
      show ?thesis
      proof (cases "px_status x' = PxError")
        case True
        then show ?thesis using k c by (intro stop) auto
      next
        case False
        then show ?thesis using k c us 3 AwaitCommit True by (intro exI [of _ us]) simp
      qed
    next
      case AwaitReveal
      then have x': "px_reveal pc ?d x = x'" "l' = l1"
        using poll r True 3 by (auto simp: px_poll_def op split: prod.splits)
      have kr: "eh_kp (px_hs x) = kp" "px_nonce x = rnd" using c by auto
      note k = px_reveal_cases [OF d True x'(1) kr]
      show ?thesis
      proof (cases "px_status x' = PxError")
        case True
        then show ?thesis using k c by (intro stop) auto
      next
        case False
        then show ?thesis using k c us 3 AwaitReveal x'(2) by (intro exI [of _ us]) simp
      qed
    qed
  qed
qed

lemma error_absorbs: "px_status x = PxError \<Longrightarrow> px_poll pc ops (x, l) = (PxError, x, l)"
  by (simp add: px_poll_def)

lemma gate_polls:
  assumes "gate_inv pc kp rnd self (arrived us0) (rl_out l) x" "px_status x \<noteq> PxError \<longrightarrow> i0 = us0 @ rl_in l"
    "px_polls pc raw_ops k (x, l) = (x', l')"
  shows "\<exists>us. (px_status x' \<noteq> PxError \<longrightarrow> i0 = us @ rl_in l') \<and> gate_inv pc kp rnd self (arrived us) (rl_out l') x'"
  using assms
proof (induction k arbitrary: x l us0)
  case 0
  then show ?case by auto
next
  case (Suc k)
  obtain st x1 l1 where s: "px_poll pc raw_ops (x, l) = (st, x1, l1)" by (cases "px_poll pc raw_ops (x, l)")
  from gate_step [OF Suc.prems(1) s] obtain us where us:
    "px_status x1 \<noteq> PxError \<longrightarrow> rl_in l = us @ rl_in l1" "gate_inv pc kp rnd self (arrived us0 @ arrived us) (rl_out l1) x1" by blast
  have ne: "px_status x1 \<noteq> PxError \<Longrightarrow> px_status x \<noteq> PxError" using s error_absorbs [of x pc raw_ops l] by auto
  show ?case
    by (rule Suc.IH [of "us0 @ us" l1 x1]) (use us ne s Suc.prems in auto)
qed


definition px_run ::
  "pair_crypto \<Rightarrow> EcdhKeyPair \<Rightarrow> bytes \<Rightarrow> PeerId \<Rightarrow> link_event list \<Rightarrow> nat \<Rightarrow> PairingExchange \<times> RawLink" where
  "px_run pc kp rnd self script k = px_polls pc raw_ops k
     (snd (px_start pc raw_ops (Some kp) rnd (newExchange self, \<lparr>rl_up = True, rl_in = script, rl_out = []\<rparr>)))"

lemma px_start_raw:
  "side_ok kp rnd self \<Longrightarrow>
    px_start pc raw_ops (Some kp) rnd (newExchange self, \<lparr>rl_up = True, rl_in = script, rl_out = []\<rparr>)
    = (True, px_started_state kp rnd self, \<lparr>rl_up = True, rl_in = script, rl_out = [commitment pc (publicPoint kp) rnd self]\<rparr>)"
  by (rule px_start_ok) (simp_all add: raw_ops_def raw_send_def)

lemma px_session:
  assumes "side_ok kp rnd self" "side_ok kp' nonce peer" "peer \<noteq> self" "pc_ecdh pc kp (publicPoint kp') = Some s" "length s = 32"
    "hmac_ok (pc_hmac pc)" "\<forall>d. length (pc_sha256 pc d) = 32"
  shows "px_run pc kp rnd self [Incoming (commitment pc (publicPoint kp') nonce peer), Incoming (reveal peer (publicPoint kp') nonce)] 2
    = (px_done pc kp rnd self (commitment pc (publicPoint kp') nonce peer) s nonce peer,
       \<lparr>rl_up = True, rl_in = [], rl_out = [commitment pc (publicPoint kp) rnd self, reveal self (publicPoint kp) rnd]\<rparr>)"
proof -
  let ?c = "commitment pc (publicPoint kp') nonce peer" and ?r = "reveal peer (publicPoint kp') nonce"
  let ?own = "commitment pc (publicPoint kp) rnd self"
  have len: "length ?c = 32" using assms(7) by (simp add: commitment_def)
  then have ne: "?c \<noteq> []" by auto
  have rl: "length ?r \<le> 512" "?r \<noteq> []" using assms(2) by (simp_all add: side_ok_def reveal_def)
  have p1: "px_poll pc raw_ops (px_started_state kp rnd self, \<lparr>rl_up = True, rl_in = [Incoming ?c, Incoming ?r], rl_out = [?own]\<rparr>)
      = (PxNeedMore, px_waiting kp rnd self ?c, \<lparr>rl_up = True, rl_in = [Incoming ?r], rl_out = [?own, reveal self (publicPoint kp) rnd]\<rparr>)"
    by (rule px_poll_commit [OF _ len], simp add: raw_ops_def raw_recv_def len ne) (simp add: raw_ops_def raw_send_def)
  have p2: "px_poll pc raw_ops (px_waiting kp rnd self ?c, \<lparr>rl_up = True, rl_in = [Incoming ?r], rl_out = [?own, reveal self (publicPoint kp) rnd]\<rparr>)
      = (PxOk, px_done pc kp rnd self ?c s nonce peer, \<lparr>rl_up = True, rl_in = [], rl_out = [?own, reveal self (publicPoint kp) rnd]\<rparr>)"
    by (rule px_poll_reveal [OF _ assms(2) refl assms(3) refl assms(4-6)]) (simp_all add: raw_ops_def raw_recv_def rl)
  show ?thesis by (simp add: px_run_def px_start_raw [OF assms(1)] numeral_2_eq_2 p1 p2)
qed

lemma toy_run:
  "px_run toy_pair_crypto (ps_kp (toy_side 3 ''alice'')) (replicate 32 4) ''alice''
     [Incoming (commitment toy_pair_crypto (replicate 64 4) (replicate 32 5) ''bob''), Incoming (reveal ''bob'' (replicate 64 4) (replicate 32 5))] 2
   = (px_done toy_pair_crypto (ps_kp (toy_side 3 ''alice'')) (replicate 32 4) ''alice''
        (commitment toy_pair_crypto (replicate 64 4) (replicate 32 5) ''bob'') (replicate 32 7) (replicate 32 5) ''bob'',
      \<lparr>rl_up = True, rl_in = [], rl_out = [commitment toy_pair_crypto (replicate 64 3) (replicate 32 4) ''alice'',
         reveal ''alice'' (replicate 64 3) (replicate 32 4)]\<rparr>)"
  using px_session [of "ps_kp (toy_side 3 ''alice'')" "replicate 32 4" "''alice''" "ps_kp (toy_side 4 ''bob'')" "replicate 32 5" "''bob''"
      toy_pair_crypto "replicate 32 7"] toy_sides
  by (simp add: sides_ok_def toy_side_def)


text \<open>
  The code does not authenticate the ids.  A relay between two machines that only rewrites
  the id in the first one's messages, and recomputes the commitment over it, brings both
  exchanges to their end with the same code on both screens, while the second machine stores
  its key under an id of the relay's choosing.
\<close>

theorem code_ignores_ids:
  assumes "sides_ok pc s a b" "e \<noteq> []" "length e \<le> 255" "e \<noteq> ps_id b"
  shows "\<exists>xa la xb lb.
      px_run pc (ps_kp a) (ps_rnd a) (ps_id a) [Incoming (ps_commit pc b), Incoming (ps_reveal b)] 2 = (xa, la)
    \<and> rl_out la = [ps_commit pc a, ps_reveal a]
    \<and> px_run pc (ps_kp b) (ps_rnd b) (ps_id b) [Incoming (commitment pc (publicPoint (ps_kp a)) (ps_rnd a) e),
        Incoming (reveal e (publicPoint (ps_kp a)) (ps_rnd a))] 2 = (xb, lb)
    \<and> rl_out lb = [ps_commit pc b, ps_reveal b]
    \<and> px_status xa = PxOk \<and> px_status xb = PxOk \<and> px_code xa = px_code xb \<and> px_peerId xb = e"
proof -
  have a: "side_ok (ps_kp a) (ps_rnd a) (ps_id a)" "side_ok (ps_kp b) (ps_rnd b) (ps_id b)" "ps_id b \<noteq> ps_id a"
      "pc_ecdh pc (ps_kp a) (publicPoint (ps_kp b)) = Some s" "pc_ecdh pc (ps_kp b) (publicPoint (ps_kp a)) = Some s"
      "length s = 32" "hmac_ok (pc_hmac pc)" "\<forall>d. length (pc_sha256 pc d) = 32"
    using assms(1) by (auto simp: sides_ok_def)
  have e: "side_ok (ps_kp a) (ps_rnd a) e" using a(1) assms(2,3) by (auto simp: side_ok_def)
  show ?thesis
    unfolding ps_commit_def [of pc b] ps_reveal_def [of b] px_session [OF a(1,2,3,4,6,7,8)] px_session [OF a(2) e assms(4) a(5-8)]
    by (simp add: ps_commit_def ps_reveal_def px_states code_sym [of _ s "ps_rnd b" "ps_rnd a"])
qed

theorem code_ignores_ids_witness:
  "\<exists>xb lb. px_run toy_pair_crypto \<lparr>publicPoint = replicate 64 4, privateBlob = []\<rparr> (replicate 32 5) ''bob''
       [Incoming (commitment toy_pair_crypto (replicate 64 3) (replicate 32 4) ''mallory''),
        Incoming (reveal ''mallory'' (replicate 64 3) (replicate 32 4))] 2 = (xb, lb) \<and> px_peerId xb = ''mallory'' \<and> px_status xb = PxOk"
  using code_ignores_ids [OF toy_sides, of "''mallory''"] by (auto simp: toy_side_def)

end
