(* ===== verification/Codec.thy ===== *)
theory Codec
  imports Prelude
begin

text \<open>
  The contract every wire codec of the program offers its clients, as two locales:
  \<open>wire_codec\<close> for a codec that decodes one whole buffer, and \<open>stream_codec\<close> for
  one that decodes a prefix and says what is left (counted lists, WebSocket frames,
  framed messages).  The codec theories interpret them on their encoders; the
  consequences (injectivity, prefix-freeness, decoding a concatenation) are proved
  here once.  \<open>decode_many\<close> is the counted decoding loop
  \<open>for (i = 0; i < count; ++i) { ... }\<close> shared by the list decoders.
\<close>

section \<open>Decoding a whole buffer\<close>

locale wire_codec =
  fixes enc :: "'a \<Rightarrow> bytes" and dec :: "bytes \<Rightarrow> 'a option" and ok :: "'a \<Rightarrow> bool"
  assumes roundtrip: "ok x \<Longrightarrow> dec (enc x) = Some x"
begin

lemma enc_inject: "ok x \<Longrightarrow> ok y \<Longrightarrow> enc x = enc y \<Longrightarrow> x = y"
  by (metis option.inject roundtrip)

lemma enc_inj_on: "inj_on enc {x. ok x}"
  by (rule inj_onI) (auto intro: enc_inject)

end

section \<open>Decoding a prefix\<close>

fun decode_many :: "(bytes \<Rightarrow> ('a \<times> bytes) option) \<Rightarrow> nat \<Rightarrow> bytes \<Rightarrow> ('a list \<times> bytes) option" where
  "decode_many dec 0 bs = Some ([], bs)"
| "decode_many dec (Suc n) bs =
     (case dec bs of None \<Rightarrow> None
      | Some (x, r) \<Rightarrow>
          (case decode_many dec n r of None \<Rightarrow> None
           | Some (xs, r') \<Rightarrow> Some (x # xs, r')))"

lemma decode_many_length: "decode_many dec n bs = Some (xs, r) \<Longrightarrow> length xs = n"
  by (induction n arbitrary: bs xs) (auto split: option.splits)

locale stream_codec =
  fixes enc :: "'a \<Rightarrow> bytes" and dec :: "bytes \<Rightarrow> ('a \<times> bytes) option" and ok :: "'a \<Rightarrow> bool"
  assumes prefix_roundtrip: "ok x \<Longrightarrow> dec (enc x @ r) = Some (x, r)"
begin

lemma prefix_free: "ok x \<Longrightarrow> ok y \<Longrightarrow> enc x @ r = enc y @ r' \<Longrightarrow> x = y \<and> r = r'"
  by (metis option.inject prefix_roundtrip prod.inject)

lemma decode_many_concat:
  "list_all ok xs \<Longrightarrow> decode_many dec (length xs) (concat (map enc xs) @ r) = Some (xs, r)"
  by (induction xs) (auto simp: prefix_roundtrip)

lemma concat_inject:
  "list_all ok xs \<Longrightarrow> list_all ok ys \<Longrightarrow> length xs = length ys \<Longrightarrow>
     concat (map enc xs) = concat (map enc ys) \<Longrightarrow> xs = ys"
  using decode_many_concat [of xs "[]"] decode_many_concat [of ys "[]"] by simp

end

sublocale stream_codec \<subseteq> whole: wire_codec enc "\<lambda>bs. map_option fst (dec bs)" ok
proof
  show "map_option fst (dec (enc x)) = Some x" if "ok x" for x
    using prefix_roundtrip [OF that, of "[]"] by simp
qed

end
