(* ===== verification/Messages.thy ===== *)
theory Messages
  imports Codec
begin

text \<open>
  The wire protocol of \<open>core/event_types.h\<close> and its codec
  \<open>net/message_codec.cpp\<close>: message types, the fixed 12-byte \<open>InputEvent\<close>, the
  6-byte \<open>VarHeader\<close> with payload, and \<open>decodeMessage\<close> with its protocol-version
  gate, its type check and its payload bound.  The packed structs are laid out
  little-endian, as on the targets the header names.
\<close>

section \<open>Message types\<close>

definition kProtocolVersion :: u8 where
  "kProtocolVersion = 1"

datatype MessageType =
    MouseMove | MouseButton | KeyEvent | SwitchOwner | Heartbeat | ClipboardUpdate
  | FilePromiseMeta | FileChunk | PairingMsg | PeerHello | FilePromiseAnnounce

fun mt_code :: "MessageType \<Rightarrow> u8" where
  "mt_code MouseMove = 1"
| "mt_code MouseButton = 2"
| "mt_code KeyEvent = 3"
| "mt_code SwitchOwner = 4"
| "mt_code Heartbeat = 5"
| "mt_code ClipboardUpdate = 6"
| "mt_code FilePromiseMeta = 7"
| "mt_code FileChunk = 8"
| "mt_code PairingMsg = 9"
| "mt_code PeerHello = 10"
| "mt_code FilePromiseAnnounce = 11"

definition all_types :: "MessageType list" where
  "all_types = [MouseMove, MouseButton, KeyEvent, SwitchOwner, Heartbeat, ClipboardUpdate,
     FilePromiseMeta, FileChunk, PairingMsg, PeerHello, FilePromiseAnnounce]"

text \<open>\<open>static_cast<MessageType>(raw)\<close> of a raw byte that names an enumerator.\<close>

definition mt_of_code :: "u8 \<Rightarrow> MessageType option" where
  "mt_of_code b = find (\<lambda>t. mt_code t = b) all_types"

lemma mt_of_code_code [simp]: "mt_of_code (mt_code t) = Some t"
  by (cases t) (simp_all add: mt_of_code_def all_types_def)

lemma mt_of_code_SomeD: "mt_of_code b = Some t \<Longrightarrow> mt_code t = b"
  by (auto simp: mt_of_code_def find_Some_iff)

lemma mt_code_inject [simp]: "mt_code s = mt_code t \<longleftrightarrow> s = t"
  by (metis mt_of_code_code option.inject)

section \<open>The fixed event\<close>

record InputEvent =
  ev_version :: u8
  ev_type :: u8
  ev_dx :: u16
  ev_dy :: u16
  ev_code :: u8
  ev_down :: u8
  ev_ts :: u32

definition zero_event :: InputEvent where
  "zero_event = \<lparr>ev_version = 0, ev_type = 0, ev_dx = 0, ev_dy = 0, ev_code = 0, ev_down = 0,
     ev_ts = 0\<rparr>"

definition encodeInputEvent :: "InputEvent \<Rightarrow> bytes" where
  "encodeInputEvent e =
     [ev_version e, ev_type e] @ le_bytes 2 (ev_dx e) @ le_bytes 2 (ev_dy e)
       @ [ev_code e, ev_down e] @ le_bytes 4 (ev_ts e)"

text \<open>\<open>memcpy(&out.fixed, data, sizeof(InputEvent))\<close>.\<close>

definition event_of_bytes :: "bytes \<Rightarrow> InputEvent" where
  "event_of_bytes d =
     \<lparr>ev_version = d ! 0, ev_type = d ! 1,
      ev_dx = le_value (take 2 (drop 2 d)), ev_dy = le_value (take 2 (drop 4 d)),
      ev_code = d ! 6, ev_down = d ! 7, ev_ts = le_value (take 4 (drop 8 d))\<rparr>"

lemma length_encodeInputEvent [simp]: "length (encodeInputEvent e) = 12"
  by (simp add: encodeInputEvent_def)

lemma le_bytes_2: "le_bytes 2 v = [ucast v, ucast (drop_bit 8 (v :: u16))]"
  by (simp add: numeral_2_eq_2 le_bytes_Suc) (simp add: le_bytes_def)

lemma event_of_encode [wire_simps]: "event_of_bytes (encodeInputEvent e @ r) = e"
proof -
  have "le_value [ucast v, ucast (drop_bit 8 v)] = v" for v :: u16
    using le_value_le_bytes [of 2 v] by (simp add: le_bytes_2)
  moreover have "le_value (le_bytes 4 (ev_ts e)) = ev_ts e"
    by (rule le_value_le_bytes) simp
  ultimately show ?thesis
    by (simp add: event_of_bytes_def encodeInputEvent_def le_bytes_2)
qed

section \<open>Variable-length messages\<close>

record VarHeader =
  vh_version :: u8
  vh_type :: u8
  vh_length :: u32

definition header_bytes :: "VarHeader \<Rightarrow> bytes" where
  "header_bytes h = [vh_version h, vh_type h] @ le_bytes 4 (vh_length h)"

definition header_of_bytes :: "bytes \<Rightarrow> VarHeader" where
  "header_of_bytes d = \<lparr>vh_version = d ! 0, vh_type = d ! 1, vh_length = le_value (take 4 (drop 2 d))\<rparr>"

definition encodeVarMessage :: "MessageType \<Rightarrow> bytes \<Rightarrow> bytes" where
  "encodeVarMessage t payload =
     header_bytes \<lparr>vh_version = kProtocolVersion, vh_type = mt_code t,
                   vh_length = word_of_nat (length payload)\<rparr> @ payload"

lemma length_header_bytes [simp]: "length (header_bytes h) = 6"
  by (simp add: header_bytes_def)

lemma length_encodeVarMessage [simp]: "length (encodeVarMessage t p) = 6 + length p"
  by (simp add: encodeVarMessage_def)

lemma header_of_header_bytes [wire_simps]: "header_of_bytes (header_bytes h @ r) = h"
  by (simp add: header_of_bytes_def header_bytes_def wire_simps)

section \<open>Decoding\<close>

definition isFixedType :: "MessageType \<Rightarrow> bool" where
  "isFixedType t \<longleftrightarrow>
     (case t of MouseMove \<Rightarrow> True | MouseButton \<Rightarrow> True | KeyEvent \<Rightarrow> True | Heartbeat \<Rightarrow> True
      | _ \<Rightarrow> False)"

definition isKnownType :: "u8 \<Rightarrow> bool" where
  "isKnownType t \<longleftrightarrow> (t \<ge> 1 \<and> t \<le> 9) \<or> t = 11"

definition kMaxVarPayload :: u32 where
  "kMaxVarPayload = 64 * 1024 * 1024"

record DecodedMessage =
  dm_type :: MessageType
  dm_isFixed :: bool
  dm_fixed :: InputEvent
  dm_payload :: bytes

definition emptyMessage :: DecodedMessage where
  "emptyMessage = \<lparr>dm_type = Heartbeat, dm_isFixed = False, dm_fixed = zero_event, dm_payload = []\<rparr>"

text \<open>
  \<open>DecodeResult\<close> with the two output parameters: \<open>DecOk\<close> carries the filled \<open>out\<close> and
  \<open>consumed\<close>.  \<open>decodeMessage data out\<close> takes the \<open>out\<close> the caller passes in, of which
  the code overwrites only some fields.
\<close>

datatype DecodeResult = DecOk DecodedMessage nat | NeedMore | VersionMismatch | Malformed

definition decodeMessage :: "bytes \<Rightarrow> DecodedMessage \<Rightarrow> DecodeResult" where
  "decodeMessage data out =
     (if length data < 2 then NeedMore
      else if data ! 0 \<noteq> kProtocolVersion then VersionMismatch
      else if \<not> isKnownType (data ! 1) then Malformed
      else case mt_of_code (data ! 1) of
        None \<Rightarrow> Malformed
      | Some t \<Rightarrow>
          if isFixedType t then
            (if length data < 12 then NeedMore
             else DecOk (out\<lparr>dm_isFixed := True, dm_type := t, dm_fixed := event_of_bytes data\<rparr>) 12)
          else if length data < 6 then NeedMore
          else let h = header_of_bytes data in
            if vh_length h > kMaxVarPayload then Malformed
            else let total = 6 + unat (vh_length h) in
              if length data < total then NeedMore
              else DecOk (out\<lparr>dm_isFixed := False, dm_type := t,
                              dm_payload := take (unat (vh_length h)) (drop 6 data)\<rparr>) total)"

lemma isKnownType_code [simp]: "isKnownType (mt_code t) \<longleftrightarrow> t \<noteq> PeerHello"
  by (cases t) (simp_all add: isKnownType_def)

text \<open>The \<open>None\<close> branch of the cast is unreachable behind \<open>isKnownType\<close>.\<close>

lemma known_has_type: "isKnownType b \<Longrightarrow> \<exists>t. mt_of_code b = Some t"
proof -
  assume "isKnownType b"
  then have "b \<in> {1, 2, 3, 4, 5, 6, 7, 8, 9, 11}"
  proof -
    have "unat b \<in> {1, 2, 3, 4, 5, 6, 7, 8, 9, 11}"
      using \<open>isKnownType b\<close> by (auto simp: isKnownType_def word_le_nat_alt)
    then have "(word_of_nat (unat b) :: u8) \<in> word_of_nat ` {1, 2, 3, 4, 5, 6, 7, 8, 9, 11}"
      by (rule imageI)
    then show ?thesis by simp
  qed
  then show ?thesis by (auto simp: mt_of_code_def all_types_def)
qed

section \<open>Laws of the codec\<close>

lemma decode_fixed_event:
  assumes "ev_version e = kProtocolVersion" and "ev_type e = mt_code t" and "isFixedType t"
  shows "decodeMessage (encodeInputEvent e @ r) out =
    DecOk (out\<lparr>dm_isFixed := True, dm_type := t, dm_fixed := e\<rparr>) 12"
proof -
  have "t \<noteq> PeerHello" using assms(3) by (auto simp: isFixedType_def)
  moreover have "(encodeInputEvent e @ r) ! 0 = ev_version e" "(encodeInputEvent e @ r) ! 1 = ev_type e"
    by (simp_all add: encodeInputEvent_def)
  ultimately show ?thesis
    using assms by (simp add: decodeMessage_def event_of_encode)
qed

text \<open>The size a payload may have: the decoder's bound, 64 MiB.\<close>

definition payload_fits :: "bytes \<Rightarrow> bool" where
  "payload_fits p \<longleftrightarrow> length p \<le> unat kMaxVarPayload"

lemma payload_fits_length: "payload_fits p \<longleftrightarrow> length p \<le> 67108864"
  by (simp add: payload_fits_def kMaxVarPayload_def)

lemma payload_fits_word:
  assumes "payload_fits p"
  shows "unat (word_of_nat (length p) :: u32) = length p"
    and "\<not> (word_of_nat (length p) :: u32) > kMaxVarPayload"
proof -
  from assms show *: "unat (word_of_nat (length p) :: u32) = length p"
    by (intro unat_of_nat_fits) (simp add: payload_fits_length)
  show "\<not> (word_of_nat (length p) :: u32) > kMaxVarPayload"
    using assms unfolding word_less_nat_alt * by (simp add: payload_fits_def)
qed

lemma decode_var_message:
  assumes "t \<noteq> PeerHello" and "\<not> isFixedType t" and "payload_fits p"
  shows "decodeMessage (encodeVarMessage t p @ r) out =
    DecOk (out\<lparr>dm_isFixed := False, dm_type := t, dm_payload := p\<rparr>) (6 + length p)"
proof -
  let ?h = "\<lparr>vh_version = kProtocolVersion, vh_type = mt_code t,
             vh_length = word_of_nat (length p)\<rparr>"
  have enc: "encodeVarMessage t p @ r = header_bytes ?h @ (p @ r)"
    by (simp add: encodeVarMessage_def)
  have "(header_bytes ?h @ (p @ r)) ! 0 = kProtocolVersion"
    "(header_bytes ?h @ (p @ r)) ! 1 = mt_code t"
    by (simp_all add: header_bytes_def)
  then show ?thesis
    using assms payload_fits_word [OF assms(3)]
    by (simp add: enc decodeMessage_def header_of_header_bytes Let_def wire_simps)
qed

lemma decode_ok_bounds:
  "decodeMessage d out = DecOk m n \<Longrightarrow> 2 \<le> length d \<and> n \<le> length d \<and> 6 \<le> n"
  by (auto simp: decodeMessage_def Let_def split: if_splits option.splits)

lemma take_nth_append: "i < n \<Longrightarrow> n \<le> length d \<Longrightarrow> (take n d @ r) ! i = d ! i"
  by (simp add: nth_append)

lemma drop_take_prefix:
  "i + k \<le> n \<Longrightarrow> n \<le> length d \<Longrightarrow> take k (drop i (take n d @ r)) = take k (drop i d)"
  by (simp add: drop_take)

lemma event_of_bytes_prefix:
  "12 \<le> length d \<Longrightarrow> event_of_bytes (take 12 d @ r) = event_of_bytes d"
  by (simp add: event_of_bytes_def take_nth_append drop_take_prefix del: drop_append take_append)

lemma header_of_bytes_prefix:
  "6 \<le> n \<Longrightarrow> n \<le> length d \<Longrightarrow> header_of_bytes (take n d @ r) = header_of_bytes d"
  by (simp add: header_of_bytes_def take_nth_append drop_take_prefix del: drop_append take_append)

lemma decode_reads_only_consumed:
  assumes "decodeMessage d out = DecOk m n"
  shows "decodeMessage (take n d @ r) out = DecOk m n"
proof -
  have n: "2 \<le> length d" "n \<le> length d" "6 \<le> n"
    using decode_ok_bounds [OF assms] by auto
  have nth: "(take n d @ r) ! 0 = d ! 0" "(take n d @ r) ! 1 = d ! 1"
    using n by (simp_all add: take_nth_append)
  obtain t where t: "mt_of_code (d ! 1) = Some t" and known: "isKnownType (d ! 1)"
    and ver: "d ! 0 = kProtocolVersion"
    using assms n(1) by (auto simp: decodeMessage_def split: if_splits option.splits)
  show ?thesis
  proof (cases "isFixedType t")
    case True
    then have "n = 12" "12 \<le> length d"
      using assms n t known ver by (auto simp: decodeMessage_def split: if_splits)
    then show ?thesis
      using assms n t known ver True nth
      by (simp add: decodeMessage_def event_of_bytes_prefix)
  next
    case False
    let ?k = "unat (vh_length (header_of_bytes d))"
    have n6: "n = 6 + ?k" and bound: "\<not> vh_length (header_of_bytes d) > kMaxVarPayload"
      using assms n t known ver False by (auto simp: decodeMessage_def Let_def split: if_splits)
    have "take ?k (drop 6 (take n d @ r)) = take ?k (drop 6 d)"
      using n n6 by (intro drop_take_prefix) simp_all
    then show ?thesis
      using assms n t known ver False nth bound n6
      by (simp add: decodeMessage_def Let_def header_of_bytes_prefix)
  qed
qed

lemma version_gate:
  "2 \<le> length d \<Longrightarrow> d ! 0 \<noteq> kProtocolVersion \<Longrightarrow> decodeMessage d out = VersionMismatch"
  by (simp add: decodeMessage_def)

text \<open>The framed message codec as a prefix codec: every (type, payload) a sender may frame.\<close>

definition encodeVar :: "MessageType \<times> bytes \<Rightarrow> bytes" where
  "encodeVar tp = encodeVarMessage (fst tp) (snd tp)"

definition decodeVar :: "bytes \<Rightarrow> ((MessageType \<times> bytes) \<times> bytes) option" where
  "decodeVar d =
     (case decodeMessage d emptyMessage of
        DecOk m n \<Rightarrow> if dm_isFixed m then None else Some ((dm_type m, dm_payload m), drop n d)
      | _ \<Rightarrow> None)"

definition var_ok :: "MessageType \<times> bytes \<Rightarrow> bool" where
  "var_ok tp \<longleftrightarrow> fst tp \<noteq> PeerHello \<and> \<not> isFixedType (fst tp) \<and> payload_fits (snd tp)"

interpretation var_msg: stream_codec encodeVar decodeVar var_ok
  by unfold_locales
    (auto simp: encodeVar_def decodeVar_def var_ok_def decode_var_message)

definition encodeFixed :: "InputEvent \<Rightarrow> bytes" where
  "encodeFixed e = encodeInputEvent e"

definition fixed_ok :: "InputEvent \<Rightarrow> bool" where
  "fixed_ok e \<longleftrightarrow> ev_version e = kProtocolVersion
     \<and> ev_type e \<in> {mt_code MouseMove, mt_code MouseButton, mt_code KeyEvent, mt_code Heartbeat}"

definition decodeFixed :: "bytes \<Rightarrow> (InputEvent \<times> bytes) option" where
  "decodeFixed d =
     (case decodeMessage d emptyMessage of
        DecOk m n \<Rightarrow> if dm_isFixed m then Some (dm_fixed m, drop n d) else None
      | _ \<Rightarrow> None)"

lemma fixed_okD:
  "fixed_ok e \<Longrightarrow> \<exists>t. isFixedType t \<and> ev_type e = mt_code t \<and> ev_version e = kProtocolVersion"
  unfolding fixed_ok_def isFixedType_def
  by (elim conjE insertE emptyE) (force split: MessageType.splits)+

interpretation fixed_msg: stream_codec encodeFixed decodeFixed fixed_ok
proof
  fix e r assume "fixed_ok e"
  then obtain t where "isFixedType t" "ev_type e = mt_code t" "ev_version e = kProtocolVersion"
    using fixed_okD by blast
  then show "decodeFixed (encodeFixed e @ r) = Some (e, r)"
    by (simp add: decodeFixed_def encodeFixed_def decode_fixed_event)
qed

section \<open>Properties\<close>

text \<open>
  C36. Every message the program frames is decoded to itself, whatever bytes follow it and
  whatever the caller's output message held, and exactly its own bytes are consumed: the
  12-byte fixed events and the variable-length messages up to the 64 MiB bound.
\<close>

theorem message_roundtrip:
  assumes "fixed_ok e" "t \<noteq> PeerHello" "\<not> isFixedType t" "payload_fits p"
  shows "(\<exists>m. decodeMessage (encodeInputEvent e @ r) out = DecOk m 12
             \<and> dm_isFixed m \<and> dm_fixed m = e \<and> mt_code (dm_type m) = ev_type e)
    \<and> decodeMessage (encodeVarMessage t p @ r) out
        = DecOk (out\<lparr>dm_isFixed := False, dm_type := t, dm_payload := p\<rparr>) (6 + length p)"
proof -
  obtain u where "isFixedType u" "ev_type e = mt_code u" "ev_version e = kProtocolVersion"
    using fixed_okD [OF assms(1)] by blast
  then have "decodeMessage (encodeInputEvent e @ r) out
      = DecOk (out\<lparr>dm_isFixed := True, dm_type := u, dm_fixed := e\<rparr>) 12"
    by (intro decode_fixed_event)
  with decode_var_message [OF assms(2-4)] \<open>ev_type e = mt_code u\<close> show ?thesis by simp
qed

definition aClick :: InputEvent where
  "aClick = \<lparr>ev_version = 1, ev_type = 2, ev_dx = 0, ev_dy = 0, ev_code = 1, ev_down = 1, ev_ts = 77\<rparr>"

theorem message_roundtrip_witness:
  "decodeMessage (encodeVarMessage ClipboardUpdate [104, 105] @ [0]) emptyMessage
     = DecOk (emptyMessage\<lparr>dm_type := ClipboardUpdate, dm_payload := [104, 105]\<rparr>) 8
   \<and> (\<exists>m. decodeMessage (encodeInputEvent aClick) emptyMessage = DecOk m 12 \<and> dm_fixed m = aClick)"
  using message_roundtrip [of aClick ClipboardUpdate "[104, 105]" "[0]" emptyMessage]
    message_roundtrip [of aClick ClipboardUpdate "[104, 105]" "[]" emptyMessage]
  by (auto simp: fixed_ok_def aClick_def kProtocolVersion_def isFixedType_def payload_fits_length
      emptyMessage_def)

text \<open>
  Hostile input cannot get past the decoder's gates: a decoded message carries this
  program's protocol version, is one of the types decoded here (never \<open>PeerHello\<close>), consumes
  no more than it was given, has a payload of at most 64 MiB that is exactly the bytes after
  the header, and depends on no byte after the ones it consumes.
\<close>

theorem decode_gate:
  assumes "decodeMessage d out = DecOk m n"
  shows "d ! 0 = kProtocolVersion \<and> d ! 1 = mt_code (dm_type m) \<and> dm_type m \<noteq> PeerHello
    \<and> dm_isFixed m = isFixedType (dm_type m) \<and> n \<le> length d
    \<and> (dm_isFixed m \<or> n = 6 + length (dm_payload m) \<and> length (dm_payload m) \<le> 67108864
          \<and> dm_payload m = take (n - 6) (drop 6 d))
    \<and> decodeMessage (take n d @ r) out = DecOk m n"
proof -
  have len: "2 \<le> length d" "n \<le> length d" using decode_ok_bounds [OF assms] by auto
  then obtain t where t: "mt_of_code (d ! 1) = Some t" "isKnownType (d ! 1)" "d ! 0 = kProtocolVersion"
    using assms by (auto simp: decodeMessage_def split: if_splits option.splits)
  have code: "mt_code t = d ! 1" using mt_of_code_SomeD [OF t(1)] .
  then have "t \<noteq> PeerHello" using t(2) by (metis isKnownType_code)
  moreover have "dm_type m = t \<and> dm_isFixed m = isFixedType t"
    using assms t len by (auto simp: decodeMessage_def Let_def split: if_splits)
  moreover have "n = 6 + length (dm_payload m) \<and> length (dm_payload m) \<le> 67108864
        \<and> dm_payload m = take (n - 6) (drop 6 d)" if "\<not> isFixedType t"
  proof -
    let ?k = "unat (vh_length (header_of_bytes d))"
    have k: "6 + ?k \<le> length d" "n = 6 + ?k" "dm_payload m = take ?k (drop 6 d)"
      and le: "\<not> vh_length (header_of_bytes d) > kMaxVarPayload"
      using assms t len that by (auto simp: decodeMessage_def Let_def split: if_splits)
    have "?k \<le> 67108864" using le by (simp add: word_less_nat_alt kMaxVarPayload_def)
    with k show ?thesis by simp
  qed
  ultimately show ?thesis
    using t code len decode_reads_only_consumed [OF assms] by auto
qed

theorem decode_gate_witness:
  "decodeMessage (encodeVarMessage FileChunk [5] @ [1, 2]) emptyMessage
     = DecOk (emptyMessage\<lparr>dm_type := FileChunk, dm_payload := [5]\<rparr>) 7
   \<and> decodeMessage (take 7 (encodeVarMessage FileChunk [5] @ [1, 2]) @ [9]) emptyMessage
     = DecOk (emptyMessage\<lparr>dm_type := FileChunk, dm_payload := [5]\<rparr>) 7"
proof -
  have d: "decodeMessage (encodeVarMessage FileChunk [5] @ [1, 2]) emptyMessage
     = DecOk (emptyMessage\<lparr>dm_type := FileChunk, dm_payload := [5]\<rparr>) 7"
    using decode_var_message [of FileChunk "[5]" "[1, 2]" emptyMessage]
    by (simp add: isFixedType_def payload_fits_length emptyMessage_def)
  show ?thesis using d decode_gate [OF d, of "[9]"] by blast
qed

end
