(* ===== verification/Ownership.thy ===== *)
theory Ownership
  imports Prelude
begin

text \<open>
  The input-ownership state machine of \<open>core/ownership_state.{h,cpp}\<close>: claims, the
  order that arbitrates them, the per-machine state with its Lamport clock, and the
  mesh of machines that exchange claims as a step relation (any machine may issue,
  any issued claim may reach any machine, in any order, any number of times).  The
  locale \<open>strict_weak_order\<close> is the contract the arbitration relies on; the code's
  \<open>claimSupersedes\<close> is its interpretation.
\<close>

section \<open>Arbitration by a strict weak order\<close>

definition adopt :: "('c \<Rightarrow> 'c \<Rightarrow> bool) \<Rightarrow> 'c \<Rightarrow> 'c \<Rightarrow> 'c" where
  "adopt beats cur c = (if beats c cur then c else cur)"

locale strict_weak_order =
  fixes beats :: "'c \<Rightarrow> 'c \<Rightarrow> bool"
  assumes irrefl: "\<not> beats x x"
    and trans: "beats x y \<Longrightarrow> beats y z \<Longrightarrow> beats x z"
    and cotrans: "beats x z \<Longrightarrow> beats x y \<or> beats y z"
begin

lemma asym: "beats x y \<Longrightarrow> \<not> beats y x"
  using irrefl trans by blast

lemma adopt_mem: "foldl (adopt beats) x cs \<in> insert x (set cs)"
proof (induction cs arbitrary: x)
  case Nil
  show ?case by simp
next
  case (Cons c cs)
  then show ?case using Cons.IH [of "adopt beats x c"] by (auto simp: adopt_def split: if_splits)
qed

lemma adopt_maximal: "c \<in> insert x (set cs) \<Longrightarrow> \<not> beats c (foldl (adopt beats) x cs)"
proof (induction cs arbitrary: c x)
  case Nil
  then show ?case by (simp add: irrefl)
next
  case (Cons d cs)
  let ?y = "adopt beats x d"
  have top: "\<not> beats ?y (foldl (adopt beats) ?y cs)" by (rule Cons.IH [where c = ?y and x = ?y]) simp
  have "\<not> beats x ?y" and "\<not> beats d ?y"
    using irrefl asym by (auto simp: adopt_def)
  then have "\<not> beats x (foldl (adopt beats) ?y cs)" and "\<not> beats d (foldl (adopt beats) ?y cs)"
    using top cotrans by blast+
  then show ?case
    using Cons.prems Cons.IH [where c = c and x = ?y] by auto
qed

text \<open>Two machines that saw the same claims, in whatever order, hold equivalent ones.\<close>

lemma adopt_equivalent:
  assumes "x \<in> set ds \<or> (\<exists>d\<in>set ds. beats d x)" and "y \<in> set cs \<or> (\<exists>c\<in>set cs. beats c y)"
    and "set cs = set ds"
  shows "\<not> beats (foldl (adopt beats) x cs)
                (foldl (adopt beats) y ds)"
    (is "\<not> beats ?r ?q")
proof -
  have q: "\<not> beats c ?q" if "c \<in> set cs" for c
    using adopt_maximal [of c y ds] that assms(3) by simp
  show ?thesis
  proof (cases "?r \<in> set cs")
    case True
    then show ?thesis by (rule q)
  next
    case False
    then have r: "?r = x" using adopt_mem [of x cs] by auto
    with assms(1,3) False obtain d where "d \<in> set cs" "beats d x" by auto
    then show ?thesis using r adopt_maximal [of d x cs] by auto
  qed
qed

end

section \<open>Claims and their order\<close>

record OwnershipClaim =
  cl_target :: PeerId
  cl_origin :: PeerId
  cl_sequence :: u64

definition claimSupersedes :: "OwnershipClaim \<Rightarrow> OwnershipClaim \<Rightarrow> bool" where
  "claimSupersedes candidate current =
     (if cl_sequence candidate \<noteq> cl_sequence current
      then cl_sequence candidate > cl_sequence current
      else cl_origin candidate > cl_origin current)"

interpretation claims: strict_weak_order claimSupersedes
  by unfold_locales
    (auto simp: claimSupersedes_def split: if_splits dest: less_trans intro: less_trans)

lemma claims_tie:
  "\<not> claimSupersedes c d \<Longrightarrow> \<not> claimSupersedes d c \<Longrightarrow>
     cl_sequence c = cl_sequence d \<and> cl_origin c = cl_origin d"
  by (auto simp: claimSupersedes_def split: if_splits)

lemma supersedes_seq_le: "claimSupersedes c d \<Longrightarrow> cl_sequence d \<le> cl_sequence c"
  by (auto simp: claimSupersedes_def split: if_splits)

section \<open>The state of one machine\<close>

record OwnershipState =
  os_self :: PeerId
  os_current :: OwnershipClaim
  os_clock :: u64

definition ownershipInit :: "PeerId \<Rightarrow> OwnershipState" where
  "ownershipInit self =
     \<lparr>os_self = self,
      os_current = \<lparr>cl_target = self, cl_origin = self, cl_sequence = 0\<rparr>,
      os_clock = 0\<rparr>"

definition owner :: "OwnershipState \<Rightarrow> PeerId" where
  "owner s = cl_target (os_current s)"

definition isLocalOwner :: "OwnershipState \<Rightarrow> bool" where
  "isLocalOwner s \<longleftrightarrow> cl_target (os_current s) = os_self s"

datatype ApplyResult = Adopted | Superseded

definition applyClaim :: "OwnershipClaim \<Rightarrow> OwnershipState \<Rightarrow> ApplyResult \<times> OwnershipState" where
  "applyClaim claim s =
     (let s1 = (if cl_sequence claim > os_clock s then s\<lparr>os_clock := cl_sequence claim\<rparr> else s) in
      if claimSupersedes claim (os_current s1)
      then (Adopted, s1\<lparr>os_current := claim\<rparr>)
      else (Superseded, s1))"

definition requestSwitchTo :: "PeerId \<Rightarrow> OwnershipState \<Rightarrow> OwnershipClaim \<times> OwnershipState" where
  "requestSwitchTo target s =
     (let claim = \<lparr>cl_target = target, cl_origin = os_self s, cl_sequence = os_clock s + 1\<rparr> in
      (claim, snd (applyClaim claim s)))"

lemma applyClaim_self [simp]: "os_self (snd (applyClaim c s)) = os_self s"
  by (simp add: applyClaim_def Let_def)

lemma applyClaim_current:
  "os_current (snd (applyClaim c s)) =
     (if claimSupersedes c (os_current s) then c else os_current s)"
  by (simp add: applyClaim_def Let_def)

lemma applyClaim_clock [simp]:
  "os_clock (snd (applyClaim c s)) = max (os_clock s) (cl_sequence c)"
  by (auto simp: applyClaim_def Let_def max_def)

lemma applyClaim_result:
  "fst (applyClaim c s) = (if claimSupersedes c (os_current s) then Adopted else Superseded)"
  by (simp add: applyClaim_def Let_def)

lemma requestSwitchTo_self [simp]: "os_self (snd (requestSwitchTo t s)) = os_self s"
  by (simp add: requestSwitchTo_def Let_def)

text \<open>The machine never holds a claim newer than its clock.\<close>

definition clock_ok :: "OwnershipState \<Rightarrow> bool" where
  "clock_ok s \<longleftrightarrow> cl_sequence (os_current s) \<le> os_clock s"

lemma clock_ok_init [simp]: "clock_ok (ownershipInit self)"
  by (simp add: clock_ok_def ownershipInit_def)

lemma clock_ok_apply [intro]: "clock_ok s \<Longrightarrow> clock_ok (snd (applyClaim c s))"
  by (auto simp: clock_ok_def applyClaim_current max.coboundedI1)

lemma clock_ok_request [intro]: "clock_ok s \<Longrightarrow> clock_ok (snd (requestSwitchTo t s))"
  by (auto simp: requestSwitchTo_def Let_def)

lemma word_less_add_1: "(x :: u64) \<noteq> - 1 \<Longrightarrow> x < x + 1"
  using inc_less_eq_triv_imp linorder_not_less by blast

text \<open>A local request wins locally, as long as the 64-bit clock has not saturated.\<close>

lemma request_adopted:
  assumes "clock_ok s" "os_clock s \<noteq> - 1"
  shows "os_current (snd (requestSwitchTo t s)) = fst (requestSwitchTo t s)"
    and "owner (snd (requestSwitchTo t s)) = t"
    and "os_clock (snd (requestSwitchTo t s)) = os_clock s + 1"
proof -
  have lt: "os_clock s < os_clock s + 1" by (rule word_less_add_1 [OF assms(2)])
  then have "cl_sequence (os_current s) < os_clock s + 1"
    using assms(1) by (auto simp: clock_ok_def)
  moreover from this have "os_clock s + 1 \<noteq> cl_sequence (os_current s)" by auto
  ultimately show "os_current (snd (requestSwitchTo t s)) = fst (requestSwitchTo t s)"
    and "owner (snd (requestSwitchTo t s)) = t"
    by (simp_all add: requestSwitchTo_def Let_def applyClaim_current claimSupersedes_def owner_def)
  show "os_clock (snd (requestSwitchTo t s)) = os_clock s + 1"
    using lt by (simp add: requestSwitchTo_def Let_def max_def)
qed

section \<open>Runs of claims\<close>

definition applyAll :: "OwnershipClaim list \<Rightarrow> OwnershipState \<Rightarrow> OwnershipState" where
  "applyAll cs s = foldl (\<lambda>s c. snd (applyClaim c s)) s cs"

lemma applyAll_current:
  "os_current (applyAll cs s)
     = foldl (adopt claimSupersedes) (os_current s) cs"
  by (induction cs arbitrary: s) (simp_all add: applyAll_def applyClaim_current adopt_def)

lemma applyAll_clock: "os_clock s \<le> os_clock (applyAll cs s)"
proof (induction cs arbitrary: s)
  case Nil
  show ?case by (simp add: applyAll_def)
next
  case (Cons c cs)
  then show ?case using Cons.IH [of "snd (applyClaim c s)"] by (simp add: applyAll_def)
qed

text \<open>
  Two machines that saw the same set of claims, at least one of them issued (sequence
  above 0), hold claims with the same sequence number and the same origin.
\<close>

lemma applyAll_agree:
  assumes same: "set cs = set ds"
    and started: "\<exists>c\<in>set cs. cl_sequence c > 0"
    and x: "cl_sequence (os_current s) = 0" and y: "cl_sequence (os_current t) = 0"
  shows "cl_sequence (os_current (applyAll cs s)) = cl_sequence (os_current (applyAll ds t))
       \<and> cl_origin (os_current (applyAll cs s)) = cl_origin (os_current (applyAll ds t))"
proof -
  have beat: "\<exists>c\<in>set cs. claimSupersedes c u" if "cl_sequence u = 0" for u
    using started that by (force simp: claimSupersedes_def word_gt_0)
  have "\<not> claimSupersedes (os_current (applyAll cs s)) (os_current (applyAll ds t))"
    unfolding applyAll_current
    by (rule claims.adopt_equivalent) (use beat [OF x] beat [OF y] same in simp_all)
  moreover have "\<not> claimSupersedes (os_current (applyAll ds t)) (os_current (applyAll cs s))"
    unfolding applyAll_current
    by (rule claims.adopt_equivalent) (use beat [OF x] beat [OF y] same in simp_all)
  ultimately show ?thesis by (rule claims_tie)
qed

section \<open>A mesh of machines\<close>

text \<open>
  \<open>m_nodes\<close> is the state of every machine, \<open>m_issued\<close> the claims broadcast so far and
  \<open>m_seen i\<close> the claims machine \<open>i\<close> has applied, in order.  \<open>Issue\<close> is a user's switch
  on machine \<open>i\<close> (Section 11.2: the claim is broadcast to the whole mesh and already
  applied locally), \<open>Deliver\<close> is the arrival of any broadcast claim at any machine,
  possibly late, reordered or repeated.  A machine whose 64-bit clock is saturated does
  not issue.
\<close>

record mesh =
  m_nodes :: "PeerId \<Rightarrow> OwnershipState"
  m_issued :: "OwnershipClaim set"
  m_seen :: "PeerId \<Rightarrow> OwnershipClaim list"

definition mesh_init :: mesh where
  "mesh_init = \<lparr>m_nodes = ownershipInit, m_issued = {}, m_seen = (\<lambda>_. [])\<rparr>"

definition mesh_issue :: "PeerId \<Rightarrow> PeerId \<Rightarrow> mesh \<Rightarrow> mesh" where
  "mesh_issue i target m =
     (let r = requestSwitchTo target (m_nodes m i) in
      m\<lparr>m_nodes := (m_nodes m)(i := snd r), m_issued := insert (fst r) (m_issued m),
        m_seen := (m_seen m)(i := m_seen m i @ [fst r])\<rparr>)"

definition mesh_deliver :: "PeerId \<Rightarrow> OwnershipClaim \<Rightarrow> mesh \<Rightarrow> mesh" where
  "mesh_deliver i c m =
     m\<lparr>m_nodes := (m_nodes m)(i := snd (applyClaim c (m_nodes m i))),
       m_seen := (m_seen m)(i := m_seen m i @ [c])\<rparr>"

inductive mesh_step :: "mesh \<Rightarrow> mesh \<Rightarrow> bool" where
  Issue: "os_clock (m_nodes m i) \<noteq> - 1 \<Longrightarrow> mesh_step m (mesh_issue i target m)"
| Deliver: "c \<in> m_issued m \<Longrightarrow> mesh_step m (mesh_deliver i c m)"

inductive mesh_reachable :: "mesh \<Rightarrow> bool" where
  start: "mesh_reachable mesh_init"
| step: "mesh_reachable m \<Longrightarrow> mesh_step m m' \<Longrightarrow> mesh_reachable m'"

inductive_cases mesh_stepE: "mesh_step m m'"

text \<open>
  The invariant: a machine's state is what its own name and the claims it saw make it;
  every issued claim is dated between 1 and its origin's clock; and a sequence number
  and an origin identify a claim.
\<close>

definition mesh_inv :: "mesh \<Rightarrow> bool" where
  "mesh_inv m \<longleftrightarrow>
     (\<forall>i. m_nodes m i = applyAll (m_seen m i) (ownershipInit i))
   \<and> (\<forall>i. set (m_seen m i) \<subseteq> m_issued m)
   \<and> (\<forall>c\<in>m_issued m. 0 < cl_sequence c \<and> cl_sequence c \<le> os_clock (m_nodes m (cl_origin c)))
   \<and> (\<forall>c\<in>m_issued m. \<forall>d\<in>m_issued m.
        cl_sequence c = cl_sequence d \<and> cl_origin c = cl_origin d \<longrightarrow> c = d)"

lemma applyAll_snoc: "applyAll (cs @ [c]) s = snd (applyClaim c (applyAll cs s))"
  by (simp add: applyAll_def)

lemma applyAll_self [simp]: "os_self (applyAll cs s) = os_self s"
  by (induction cs arbitrary: s) (simp_all add: applyAll_def)

lemma mesh_inv_init: "mesh_inv mesh_init"
  by (simp add: mesh_inv_def mesh_init_def applyAll_def)

lemma mesh_inv_deliver:
  assumes "mesh_inv m" "c \<in> m_issued m"
  shows "mesh_inv (mesh_deliver i c m)"
  using assms by (auto simp: mesh_inv_def mesh_deliver_def applyAll_snoc max.coboundedI1)

lemma mesh_inv_issue:
  assumes inv: "mesh_inv m" and clock: "os_clock (m_nodes m i) \<noteq> - 1"
  shows "mesh_inv (mesh_issue i target m)"
proof -
  define s where "s = m_nodes m i"
  define c where "c = fst (requestSwitchTo target s)"
  have self: "os_self s = i"
    using inv by (simp add: mesh_inv_def ownershipInit_def s_def)
  have c: "cl_origin c = i" "cl_sequence c = os_clock s + 1"
    by (simp_all add: requestSwitchTo_def Let_def self c_def)
  have lt: "os_clock s < cl_sequence c"
    using word_less_add_1 [of "os_clock s"] clock by (simp add: c s_def)
  have new: "mesh_issue i target m =
      mesh_deliver i c (m\<lparr>m_issued := insert c (m_issued m)\<rparr>)"
    by (simp add: mesh_issue_def mesh_deliver_def Let_def c_def s_def requestSwitchTo_def)
  have fresh: "cl_sequence d < cl_sequence c" if "d \<in> m_issued m" "cl_origin d = i" for d
    using inv that lt by (auto simp: mesh_inv_def s_def intro: le_less_trans)
  have pos: "0 < cl_sequence c"
    using lt by (metis word_gt_0 word_not_simps(1))
  have uniq: "d = e" if "d \<in> m_issued m" "e \<in> m_issued m"
      "cl_sequence d = cl_sequence e" "cl_origin d = cl_origin e" for d e
    using inv that by (simp add: mesh_inv_def)
  have issued: "m_issued (mesh_deliver i c (m\<lparr>m_issued := insert c (m_issued m)\<rparr>))
      = insert c (m_issued m)"
    by (simp add: mesh_deliver_def)
  show ?thesis
    unfolding new
  proof (unfold mesh_inv_def, intro conjI)
    let ?m = "mesh_deliver i c (m\<lparr>m_issued := insert c (m_issued m)\<rparr>)"
    show "\<forall>j. m_nodes ?m j = applyAll (m_seen ?m j) (ownershipInit j)"
      using inv by (simp add: mesh_inv_def mesh_deliver_def applyAll_snoc)
    show "\<forall>j. set (m_seen ?m j) \<subseteq> m_issued ?m"
      using inv by (auto simp: mesh_inv_def mesh_deliver_def)
    show "\<forall>d\<in>m_issued ?m. 0 < cl_sequence d \<and> cl_sequence d \<le> os_clock (m_nodes ?m (cl_origin d))"
      using inv pos c(1) by (auto simp: mesh_inv_def mesh_deliver_def s_def max.coboundedI1)
    show "\<forall>d\<in>m_issued ?m. \<forall>e\<in>m_issued ?m.
        cl_sequence d = cl_sequence e \<and> cl_origin d = cl_origin e \<longrightarrow> d = e"
      using uniq fresh c(1) unfolding issued by (metis insertE less_irrefl)
  qed
qed

lemma mesh_reachable_inv: "mesh_reachable m \<Longrightarrow> mesh_inv m"
proof (induction rule: mesh_reachable.induct)
  case start
  show ?case by (rule mesh_inv_init)
next
  case (step m m')
  from step.hyps(2) show ?case
    by (rule mesh_stepE) (use step.IH in \<open>auto intro: mesh_inv_issue mesh_inv_deliver\<close>)
qed

section \<open>Properties\<close>

lemma later_supersedes: "0 < cl_sequence c \<Longrightarrow> cl_sequence d = 0 \<Longrightarrow> claimSupersedes c d"
  by (auto simp: claimSupersedes_def)

lemma init_seq [simp]: "cl_sequence (os_current (ownershipInit i)) = 0"
  by (simp add: ownershipInit_def)

text \<open>
  C1. Convergence without a coordinator (Section 11.3): in every reachable state of the
  mesh, two machines that have both seen every claim issued so far (at least one) hold
  the same claim, hence agree on the owner, whatever the order, the delays and the
  repetitions of delivery.
\<close>

theorem mesh_converges:
  assumes "mesh_reachable m" and "m_issued m \<noteq> {}"
    and "set (m_seen m i) = m_issued m" and "set (m_seen m j) = m_issued m"
  shows "os_current (m_nodes m i) = os_current (m_nodes m j)
       \<and> owner (m_nodes m i) = owner (m_nodes m j)"
proof -
  have inv: "mesh_inv m" by (rule mesh_reachable_inv [OF assms(1)])
  then have nodes: "m_nodes m k = applyAll (m_seen m k) (ownershipInit k)" for k
    by (simp add: mesh_inv_def)
  have started: "\<exists>c\<in>set (m_seen m i). 0 < cl_sequence c"
    using inv assms(2,3) by (auto simp: mesh_inv_def)
  have held: "os_current (m_nodes m k) \<in> m_issued m" if k: "set (m_seen m k) = m_issued m" for k
  proof -
    have "os_current (m_nodes m k) \<in> insert (os_current (ownershipInit k)) (m_issued m)"
      using claims.adopt_mem [of "os_current (ownershipInit k)" "m_seen m k"] k
      by (simp add: nodes applyAll_current)
    moreover obtain c where "c \<in> set (m_seen m k)" "claimSupersedes c (os_current (ownershipInit k))"
      using started assms(3) k later_supersedes [OF _ init_seq] by blast
    then have "os_current (m_nodes m k) \<noteq> os_current (ownershipInit k)"
      using claims.adopt_maximal [of c "os_current (ownershipInit k)" "m_seen m k"]
      by (auto simp: nodes applyAll_current)
    ultimately show ?thesis by simp
  qed
  have "cl_sequence (os_current (m_nodes m i)) = cl_sequence (os_current (m_nodes m j))
      \<and> cl_origin (os_current (m_nodes m i)) = cl_origin (os_current (m_nodes m j))"
    unfolding nodes by (rule applyAll_agree) (use assms(3,4) started in simp_all)
  then have "os_current (m_nodes m i) = os_current (m_nodes m j)"
    using inv held [OF assms(3)] held [OF assms(4)] by (simp add: mesh_inv_def)
  then show ?thesis by (simp add: owner_def)
qed

text \<open>Two machines claim at the same logical time; each then hears the other's claim.\<close>

definition claimA :: OwnershipClaim where
  "claimA = \<lparr>cl_target = ''A'', cl_origin = ''A'', cl_sequence = 1\<rparr>"

definition claimB :: OwnershipClaim where
  "claimB = \<lparr>cl_target = ''B'', cl_origin = ''B'', cl_sequence = 1\<rparr>"

definition race :: mesh where
  "race = mesh_deliver ''B'' claimA (mesh_deliver ''A'' claimB
     (mesh_issue ''B'' ''B'' (mesh_issue ''A'' ''A'' mesh_init)))"

lemma race_A: "fst (requestSwitchTo ''A'' (ownershipInit ''A'')) = claimA"
  by (simp add: requestSwitchTo_def ownershipInit_def Let_def claimA_def)

lemma race_B: "fst (requestSwitchTo ''B'' (ownershipInit ''B'')) = claimB"
  by (simp add: requestSwitchTo_def ownershipInit_def Let_def claimB_def)

lemmas race_simps = race_def mesh_issue_def mesh_deliver_def mesh_init_def race_A race_B Let_def

lemma race_issued: "m_issued race = {claimA, claimB}"
  by (simp add: race_simps insert_commute)

lemma race_seen: "m_seen race ''A'' = [claimA, claimB]" "m_seen race ''B'' = [claimB, claimA]"
  by (simp_all add: race_simps)

lemma race_reachable: "mesh_reachable race"
proof -
  have 1: "mesh_reachable (mesh_issue ''A'' ''A'' mesh_init)"
    by (rule mesh_reachable.step [OF mesh_reachable.start Issue])
      (simp add: mesh_init_def ownershipInit_def)
  have 2: "mesh_reachable (mesh_issue ''B'' ''B'' (mesh_issue ''A'' ''A'' mesh_init))"
    by (rule mesh_reachable.step [OF 1 Issue])
      (simp add: mesh_init_def ownershipInit_def mesh_issue_def Let_def)
  have 3: "mesh_reachable (mesh_deliver ''A'' claimB
      (mesh_issue ''B'' ''B'' (mesh_issue ''A'' ''A'' mesh_init)))"
    by (rule mesh_reachable.step [OF 2 Deliver]) (simp add: race_simps)
  show ?thesis
    unfolding race_def by (rule mesh_reachable.step [OF 3 Deliver]) (simp add: race_simps)
qed

lemma race_owner: "owner (m_nodes race ''A'') = ''B''"
proof -
  have "m_nodes race ''A'' = applyAll [claimA, claimB] (ownershipInit ''A'')"
    using mesh_reachable_inv [OF race_reachable] race_seen by (simp add: mesh_inv_def)
  then show ?thesis
    by (simp add: owner_def applyAll_current adopt_def claimSupersedes_def claimA_def claimB_def
        ownershipInit_def)
qed

theorem mesh_converges_witness:
  "os_current (m_nodes race ''A'') = os_current (m_nodes race ''B'')
     \<and> owner (m_nodes race ''A'') = owner (m_nodes race ''B'') \<and> owner (m_nodes race ''A'') = ''B''"
proof -
  have seen: "m_issued race \<noteq> {}" "set (m_seen race ''A'') = m_issued race"
    "set (m_seen race ''B'') = m_issued race"
    by (auto simp: race_seen race_issued)
  with mesh_converges [OF race_reachable seen] race_owner show ?thesis by simp
qed

text \<open>
  C2. A locally requested switch is adopted at once and supersedes whatever any machine
  with a clock no newer than ours holds, so the target owns input here and at every such
  machine the claim reaches.  The clock must not be saturated.
\<close>

theorem request_wins:
  assumes "clock_ok s" and "os_clock s \<noteq> - 1" and "clock_ok t" and "os_clock t \<le> os_clock s"
  shows "owner (snd (requestSwitchTo target s)) = target
    \<and> applyClaim (fst (requestSwitchTo target s)) t =
           (Adopted, t\<lparr>os_clock := os_clock s + 1, os_current := fst (requestSwitchTo target s)\<rparr>)"
proof
  show "owner (snd (requestSwitchTo target s)) = target"
    by (rule request_adopted [OF assms(1,2)])
  have lt: "os_clock t < os_clock s + 1"
    using word_less_add_1 [OF assms(2)] assms(4) by simp
  then have "cl_sequence (os_current t) < os_clock s + 1"
    using assms(3) by (auto simp: clock_ok_def)
  then show "applyClaim (fst (requestSwitchTo target s)) t =
           (Adopted, t\<lparr>os_clock := os_clock s + 1, os_current := fst (requestSwitchTo target s)\<rparr>)"
    using lt by (auto simp: requestSwitchTo_def Let_def applyClaim_def claimSupersedes_def)
qed

theorem request_wins_witness:
  "owner (snd (requestSwitchTo ''B'' (ownershipInit ''A''))) = ''B''
   \<and> owner (snd (applyClaim (fst (requestSwitchTo ''B'' (ownershipInit ''A'')))
        (ownershipInit ''C''))) = ''B''"
proof -
  have h: "os_clock (ownershipInit ''A'') \<noteq> - 1"
    "os_clock (ownershipInit ''C'') \<le> os_clock (ownershipInit ''A'')"
    by (simp_all add: ownershipInit_def)
  show ?thesis
    using request_wins [OF clock_ok_init h(1) clock_ok_init h(2), of "''B''"]
    by (simp add: owner_def requestSwitchTo_def Let_def)
qed

text \<open>
  Applying a claim is idempotent and monotone: re-delivery of a claim changes nothing
  and reports \<open>Superseded\<close>, the held claim never gets older, and the clock never runs
  backwards.
\<close>

theorem apply_idempotent:
  "applyClaim c (snd (applyClaim c s)) = (Superseded, snd (applyClaim c s))
   \<and> cl_sequence (os_current s) \<le> cl_sequence (os_current (snd (applyClaim c s)))
   \<and> os_clock s \<le> os_clock (snd (applyClaim c s))"
proof -
  have "\<not> claimSupersedes c (os_current (snd (applyClaim c s)))"
    by (simp add: applyClaim_current claims.irrefl)
  moreover have "cl_sequence c \<le> os_clock (snd (applyClaim c s))" by simp
  ultimately show ?thesis
    by (auto simp: applyClaim_def [of c "snd (applyClaim c s)"] applyClaim_current Let_def
        intro: supersedes_seq_le)
qed

end
