(* ===== verification/Election.thy ===== *)
theory Election
  imports Prelude
begin

text \<open>
  The elected coordinator of \<open>core/server_election.{h,cpp}\<close>: a priority list, an online
  list, and the first entry of the one that is in the other.  The vectors are lists; the
  three private helpers are modelled as the code has them.
\<close>

section \<open>The election state and its operations\<close>

record ServerElection =
  se_priority :: "PeerId list"
  se_online :: "PeerId list"

definition contains :: "PeerId list \<Rightarrow> PeerId \<Rightarrow> bool" where
  "contains v x \<longleftrightarrow> x \<in> set v"

definition addUnique :: "PeerId list \<Rightarrow> PeerId \<Rightarrow> PeerId list" where
  "addUnique v x = (if \<not> contains v x then v @ [x] else v)"

definition eraseValue :: "PeerId list \<Rightarrow> PeerId \<Rightarrow> PeerId list" where
  "eraseValue v x = filter (\<lambda>y. y \<noteq> x) v"

definition electionInit :: "PeerId list \<Rightarrow> ServerElection" where
  "electionInit priority = \<lparr>se_priority = priority, se_online = []\<rparr>"

definition setPriority :: "PeerId list \<Rightarrow> ServerElection \<Rightarrow> ServerElection" where
  "setPriority p e = e\<lparr>se_priority := p\<rparr>"

definition addToPriority :: "PeerId \<Rightarrow> ServerElection \<Rightarrow> ServerElection" where
  "addToPriority x e = e\<lparr>se_priority := addUnique (se_priority e) x\<rparr>"

definition removeFromPriority :: "PeerId \<Rightarrow> ServerElection \<Rightarrow> ServerElection" where
  "removeFromPriority x e = e\<lparr>se_priority := eraseValue (se_priority e) x\<rparr>"

definition isEligible :: "PeerId \<Rightarrow> ServerElection \<Rightarrow> bool" where
  "isEligible x e \<longleftrightarrow> contains (se_priority e) x"

definition setOnline :: "PeerId list \<Rightarrow> ServerElection \<Rightarrow> ServerElection" where
  "setOnline v e = e\<lparr>se_online := v\<rparr>"

definition markOnline :: "PeerId \<Rightarrow> ServerElection \<Rightarrow> ServerElection" where
  "markOnline x e = e\<lparr>se_online := addUnique (se_online e) x\<rparr>"

definition markOffline :: "PeerId \<Rightarrow> ServerElection \<Rightarrow> ServerElection" where
  "markOffline x e = e\<lparr>se_online := eraseValue (se_online e) x\<rparr>"

definition isOnline :: "PeerId \<Rightarrow> ServerElection \<Rightarrow> bool" where
  "isOnline x e \<longleftrightarrow> contains (se_online e) x"

fun firstOnline :: "PeerId list \<Rightarrow> PeerId list \<Rightarrow> PeerId option" where
  "firstOnline [] online = None"
| "firstOnline (x # xs) online = (if contains online x then Some x else firstOnline xs online)"

definition currentServer :: "ServerElection \<Rightarrow> PeerId option" where
  "currentServer e = firstOnline (se_priority e) (se_online e)"

definition isServer :: "PeerId \<Rightarrow> ServerElection \<Rightarrow> bool" where
  "isServer x e \<longleftrightarrow> (case currentServer e of None \<Rightarrow> False | Some s \<Rightarrow> s = x)"

lemma set_addUnique [simp]: "set (addUnique v x) = insert x (set v)"
  by (auto simp: addUnique_def contains_def)

lemma set_eraseValue [simp]: "set (eraseValue v x) = set v - {x}"
  by (auto simp: eraseValue_def)

lemma firstOnline_append: "set pre \<inter> set on = {} \<Longrightarrow> firstOnline (pre @ ps) on = firstOnline ps on"
  by (induction pre) (auto simp: contains_def)

lemma firstOnline_SomeD:
  "firstOnline ps on = Some x \<Longrightarrow>
     \<exists>pre post. ps = pre @ x # post \<and> x \<in> set on \<and> set pre \<inter> set on = {}"
proof (induction ps)
  case Nil
  then show ?case by simp
next
  case (Cons p ps)
  show ?case
  proof (cases "p \<in> set on")
    case True
    then have "p # ps = [] @ x # ps" "x \<in> set on" using Cons.prems by (auto simp: contains_def)
    then show ?thesis by (intro exI [of _ "[]"] exI [of _ ps]) simp
  next
    case False
    then obtain pre post where "ps = pre @ x # post" "x \<in> set on" "set pre \<inter> set on = {}"
      using Cons by (auto simp: contains_def)
    then show ?thesis using False by (intro exI [of _ "p # pre"] exI [of _ post]) simp
  qed
qed

lemma firstOnline_Some_iff:
  "firstOnline ps on = Some x \<longleftrightarrow>
     (\<exists>pre post. ps = pre @ x # post \<and> x \<in> set on \<and> set pre \<inter> set on = {})"
  by (auto dest!: firstOnline_SomeD simp: firstOnline_append contains_def)

lemma firstOnline_mem: "firstOnline ps on = Some x \<Longrightarrow> x \<in> set ps \<inter> set on"
  by (auto dest: firstOnline_SomeD)

lemma firstOnline_None_iff: "firstOnline ps on = None \<longleftrightarrow> set ps \<inter> set on = {}"
  by (induction ps) (auto simp: contains_def)

lemma firstOnline_cong: "set on = set on' \<Longrightarrow> firstOnline ps on = firstOnline ps on'"
  by (induction ps) (auto simp: contains_def)

section \<open>Properties\<close>

text \<open>
  The election is exactly Section 11.5's rule: a machine is the server iff it is online
  and every machine before some occurrence of it in the priority list is offline; there is
  none iff no eligible machine is online; and the result depends on the online machines as
  a set only, so machines with the same list and the same view elect the same server
  (no split brain).
\<close>

theorem election_rule:
  "(currentServer e = Some x \<longleftrightarrow>
      (\<exists>pre post. se_priority e = pre @ x # post \<and> isOnline x e \<and> (\<forall>y\<in>set pre. \<not> isOnline y e)))
   \<and> (currentServer e = None \<longleftrightarrow> (\<forall>y. isEligible y e \<longrightarrow> \<not> isOnline y e))
   \<and> (se_priority e' = se_priority e \<and> (\<forall>y. isOnline y e' = isOnline y e)
        \<longrightarrow> currentServer e' = currentServer e)"
proof (intro conjI impI)
  show "currentServer e = Some x \<longleftrightarrow>
      (\<exists>pre post. se_priority e = pre @ x # post \<and> isOnline x e \<and> (\<forall>y\<in>set pre. \<not> isOnline y e))"
    unfolding currentServer_def firstOnline_Some_iff isOnline_def contains_def by blast
  show "currentServer e = None \<longleftrightarrow> (\<forall>y. isEligible y e \<longrightarrow> \<not> isOnline y e)"
    unfolding currentServer_def firstOnline_None_iff isOnline_def isEligible_def contains_def
    by blast
next
  assume "se_priority e' = se_priority e \<and> (\<forall>y. isOnline y e' = isOnline y e)"
  then show "currentServer e' = currentServer e"
    unfolding currentServer_def isOnline_def contains_def
    by (auto intro: firstOnline_cong)
qed

definition threeMachines :: ServerElection where
  "threeMachines = \<lparr>se_priority = [''A'', ''B'', ''C''], se_online = [''C'', ''B'']\<rparr>"

theorem election_rule_witness:
  "currentServer threeMachines = Some ''B''
   \<and> currentServer (threeMachines\<lparr>se_online := [''B'', ''C'', ''B'']\<rparr>) = Some ''B''"
proof -
  have "currentServer threeMachines = Some ''B''"
    by (simp add: threeMachines_def currentServer_def contains_def)
  moreover have "se_priority (threeMachines\<lparr>se_online := [''B'', ''C'', ''B'']\<rparr>) = se_priority threeMachines
      \<and> (\<forall>y. isOnline y (threeMachines\<lparr>se_online := [''B'', ''C'', ''B'']\<rparr>) = isOnline y threeMachines)"
    by (auto simp: threeMachines_def isOnline_def contains_def)
  ultimately show ?thesis using election_rule by metis
qed

text \<open>
  Failover and failback are automatic: when a machine that precedes the current server
  in the priority list comes online it takes the role, when it goes offline again the role
  returns, and a machine removed from the list is never elected.
\<close>

theorem failback:
  assumes "se_priority e = pre @ x # post" and "\<forall>y\<in>set pre. y \<noteq> x \<and> \<not> isOnline y e"
    and "\<not> isOnline x e"
  shows "currentServer (markOnline x e) = Some x
       \<and> currentServer (markOffline x (markOnline x e)) = currentServer e
       \<and> currentServer (removeFromPriority x (markOnline x e)) \<noteq> Some x"
proof (intro conjI)
  have "set pre \<inter> set (se_online (markOnline x e)) = {}"
    using assms(2) by (auto simp: markOnline_def isOnline_def contains_def)
  then show "currentServer (markOnline x e) = Some x"
    unfolding currentServer_def firstOnline_Some_iff
    using assms(1) by (intro exI [of _ pre] exI [of _ post]) (simp add: markOnline_def)
  have "set (se_online (markOffline x (markOnline x e))) = set (se_online e)"
    using assms(3) by (auto simp: markOnline_def markOffline_def isOnline_def contains_def)
  then have "firstOnline (se_priority e) (se_online (markOffline x (markOnline x e)))
      = firstOnline (se_priority e) (se_online e)"
    by (rule firstOnline_cong)
  then show "currentServer (markOffline x (markOnline x e)) = currentServer e"
    unfolding currentServer_def by (simp add: markOnline_def markOffline_def)
  show "currentServer (removeFromPriority x (markOnline x e)) \<noteq> Some x"
    unfolding currentServer_def
    by (auto simp: removeFromPriority_def dest!: firstOnline_mem)
qed

theorem failback_witness:
  "currentServer (electionInit [''A'', ''B'']\<lparr>se_online := [''B'']\<rparr>) = Some ''B''
   \<and> currentServer (markOnline ''A'' (electionInit [''A'', ''B'']\<lparr>se_online := [''B'']\<rparr>)) = Some ''A''"
  using failback [of "electionInit [''A'', ''B'']\<lparr>se_online := [''B'']\<rparr>" "[]" "''A''" "[''B'']"]
  by (simp add: electionInit_def isOnline_def contains_def currentServer_def)

end
