(* ===== verification/PeerCodecs.thy ===== *)
theory PeerCodecs
  imports Codec Messages Ownership
begin

text \<open>
  The payload codecs of the peer protocol: the clear peer hello
  (\<open>net/peer_hello.cpp\<close>), the ownership claim (\<open>net/ownership_codec.cpp\<close>) and the
  LAN presence beacon (\<open>net/discovery_beacon.cpp\<close>).  A decoder's cursor \<open>data + pos\<close>
  is the list of the bytes that are left, so \<open>pos + k > len\<close> reads
  \<open>length bs < k\<close>.  Each codec interprets a locale of \<open>Codec\<close>.
\<close>

section \<open>Peer hello\<close>

definition encodePeerHello :: "PeerId \<Rightarrow> bytes" where
  "encodePeerHello self =
     (let n = (word_of_nat (length self) :: u32) in
      [kProtocolVersion, mt_code PeerHello,
       ucast (n AND 0xFF), ucast (drop_bit 8 n AND 0xFF),
       ucast (drop_bit 16 n AND 0xFF), ucast (drop_bit 24 n AND 0xFF)] @ to_bytes self)"

definition decodePeerHello :: "bytes \<Rightarrow> PeerId option" where
  "decodePeerHello d =
     (if length d < 6 then None
      else if d ! 0 \<noteq> kProtocolVersion then None
      else if d ! 1 \<noteq> mt_code PeerHello then None
      else let n = (ucast (d ! 2) OR push_bit 8 (ucast (d ! 3)) OR push_bit 16 (ucast (d ! 4))
                    OR push_bit 24 (ucast (d ! 5)) :: u32) in
        if length d - 6 \<noteq> unat n then None
        else Some (of_bytes (take (unat n) (drop 6 d))))"

lemma le_bytes_4: "le_bytes 4 (n :: u32) =
    [ucast (n AND 0xFF), ucast (drop_bit 8 n AND 0xFF),
     ucast (drop_bit 16 n AND 0xFF), ucast (drop_bit 24 n AND 0xFF)]"
  by (simp add: le_bytes_def upt_rec)

lemma le_value_4: "le_value [a, b, c, d] =
    (ucast a OR push_bit 8 (ucast b) OR push_bit 16 (ucast c) OR push_bit 24 (ucast d) :: u32)"
  by (simp add: le_value_def or.assoc)

lemma list_of_six:
  assumes "6 \<le> length (d :: 'a list)"
  shows "d = [d ! 0, d ! 1, d ! 2, d ! 3, d ! 4, d ! 5] @ drop 6 d"
proof -
  have "take 6 d = [d ! 0, d ! 1, d ! 2, d ! 3, d ! 4, d ! 5]"
    using assms by (simp add: list_eq_iff_nth_eq less_Suc_eq numeral_eq_Suc)
  then show ?thesis by (metis append_take_drop_id)
qed

lemma encodePeerHello_alt:
  "encodePeerHello self =
     [kProtocolVersion, mt_code PeerHello] @ le_bytes 4 (word_of_nat (length self) :: u32) @ to_bytes self"
  by (simp add: encodePeerHello_def le_bytes_4 Let_def)

lemma decodePeerHello_alt:
  "decodePeerHello d =
     (if 6 \<le> length d \<and> d ! 0 = kProtocolVersion \<and> d ! 1 = mt_code PeerHello
         \<and> length d - 6 = unat (le_value (take 4 (drop 2 d)) :: u32)
      then Some (of_bytes (drop 6 d)) else None)"
proof (cases "6 \<le> length d")
  case True
  have "take 4 (drop 2 d) = [d ! 2, d ! 3, d ! 4, d ! 5]"
    by (subst list_of_six [OF True]) simp
  then show ?thesis using True by (simp add: decodePeerHello_def Let_def le_value_4)
qed (simp add: decodePeerHello_def)

lemma decode_encode_hello: "length self < 2 ^ 32 \<Longrightarrow> decodePeerHello (encodePeerHello self) = Some self"
proof -
  assume len: "length self < 2 ^ 32"
  have "le_value (le_bytes 4 (word_of_nat (length self) :: u32)) = (word_of_nat (length self) :: u32)"
    by (rule le_value_le_bytes) simp
  moreover have "unat (word_of_nat (length self) :: u32) = length self"
    using len by (intro unat_of_nat_fits) simp
  ultimately show ?thesis
    by (simp add: decodePeerHello_alt encodePeerHello_alt)
qed

interpretation hello: wire_codec encodePeerHello decodePeerHello "\<lambda>s. length s < 2 ^ 32"
  by unfold_locales (rule decode_encode_hello)

lemma decode_hello_exact: "decodePeerHello d = Some self \<Longrightarrow> d = encodePeerHello self \<and> length self < 2 ^ 32"
proof -
  assume "decodePeerHello d = Some self"
  then have d: "6 \<le> length d" "d ! 0 = kProtocolVersion" "d ! 1 = mt_code PeerHello"
    and n: "length d - 6 = unat (le_value (take 4 (drop 2 d)) :: u32)"
    and self: "self = of_bytes (drop 6 d)"
    by (auto simp: decodePeerHello_alt split: if_splits)
  have "length self = unat (le_value (take 4 (drop 2 d)) :: u32)"
    by (simp add: self n)
  then have w: "(word_of_nat (length self) :: u32) = le_value (take 4 (drop 2 d))"
    and lt: "length self < 2 ^ 32"
    using unsigned_less [where ?'a = nat, of "le_value (take 4 (drop 2 d)) :: u32"] by simp_all
  have four: "take 4 (drop 2 d) = [d ! 2, d ! 3, d ! 4, d ! 5]"
    by (subst list_of_six [OF d(1)]) simp
  have "le_bytes 4 (word_of_nat (length self) :: u32) = take 4 (drop 2 d)"
    unfolding w using d(1) by (intro le_bytes_le_value) simp_all
  then show ?thesis
    using list_of_six [OF d(1)] d lt by (simp add: encodePeerHello_alt four self)
qed

section \<open>Ownership claims\<close>

definition putStr8 :: "string \<Rightarrow> bytes" where
  "putStr8 s =
     (let n = (if length s > 255 then 255 else length s) in
      word_of_nat n # take n (to_bytes s))"

definition getStr8 :: "bytes \<Rightarrow> (string \<times> bytes) option" where
  "getStr8 bs =
     (case bs of [] \<Rightarrow> None
      | b # r \<Rightarrow> if length r < unat b then None
                 else Some (of_bytes (take (unat b) r), drop (unat b) r))"

definition encodeOwnershipClaim :: "OwnershipClaim \<Rightarrow> bytes" where
  "encodeOwnershipClaim c =
     putStr8 (cl_target c) @ putStr8 (cl_origin c) @ be_bytes 8 (cl_sequence c)"

definition decodeOwnershipClaim :: "bytes \<Rightarrow> OwnershipClaim option" where
  "decodeOwnershipClaim d =
     (case getStr8 d of None \<Rightarrow> None
      | Some (t, d1) \<Rightarrow>
          (case getStr8 d1 of None \<Rightarrow> None
           | Some (g, d2) \<Rightarrow>
               if length d2 < 8 then None
               else Some \<lparr>cl_target = t, cl_origin = g, cl_sequence = be_value (take 8 d2)\<rparr>))"

lemma unat_of_small_u8: "n \<le> 255 \<Longrightarrow> unat (word_of_nat n :: u8) = n"
  by (rule unat_of_nat_fits) simp

lemma get_put_str8 [wire_simps]: "getStr8 (putStr8 s @ r) = Some (take 255 s, r)"
proof (cases "length s > 255")
  case True
  have u: "unat (word_of_nat 255 :: u8) = 255" by (rule unat_of_small_u8) simp
  have "take 255 (take 255 (to_bytes s) @ r) = to_bytes (take 255 s)"
    using True by (simp add: take_to_bytes)
  moreover have "drop 255 (take 255 (to_bytes s) @ r) = r"
    using True by simp
  moreover have "\<not> length (take 255 (to_bytes s) @ r) < 255" using True by simp
  ultimately show ?thesis
    using True u unfolding putStr8_def getStr8_def Let_def
    by (simp del: of_nat_numeral)
next
  case False
  then have u: "unat (word_of_nat (length s) :: u8) = length s" by (intro unat_of_small_u8) simp
  then show ?thesis
    using False by (simp add: putStr8_def getStr8_def)
qed

interpretation str8: stream_codec putStr8 getStr8 "\<lambda>s. length s \<le> 255"
  by unfold_locales (simp add: get_put_str8)

lemma decode_encode_claim:
  "decodeOwnershipClaim (encodeOwnershipClaim c @ r) =
     Some (c\<lparr>cl_target := take 255 (cl_target c), cl_origin := take 255 (cl_origin c)\<rparr>)"
proof -
  have "be_value (be_bytes 8 (cl_sequence c)) = cl_sequence c"
    by (rule be_value_be_bytes) simp
  then show ?thesis
    by (simp add: decodeOwnershipClaim_def encodeOwnershipClaim_def get_put_str8)
qed

definition claim_ok :: "OwnershipClaim \<Rightarrow> bool" where
  "claim_ok c \<longleftrightarrow> length (cl_target c) \<le> 255 \<and> length (cl_origin c) \<le> 255"

interpretation claim_codec: wire_codec encodeOwnershipClaim decodeOwnershipClaim claim_ok
proof
  fix c assume "claim_ok c"
  then show "decodeOwnershipClaim (encodeOwnershipClaim c) = Some c"
    using decode_encode_claim [of c "[]"] by (simp add: claim_ok_def)
qed

section \<open>Presence beacons\<close>

record Beacon =
  b_name :: string
  b_id :: string
  b_ip :: string
  b_port :: u16
  b_os :: u8
  b_wol :: u8

definition kMagic :: bytes where
  "kMagic = to_bytes ''SMB1''"

definition putStr16 :: "string \<Rightarrow> bytes" where
  "putStr16 s =
     (let n = (word_of_nat (min (length s) 0xFFFF) :: u16) in
      [ucast (drop_bit 8 n), ucast (n AND 0xff)] @ take (unat n) (to_bytes s))"

definition getStr16 :: "bytes \<Rightarrow> (string \<times> bytes) option" where
  "getStr16 bs =
     (if length bs < 2 then None
      else let n = (be_value (take 2 bs) :: u16); r = drop 2 bs in
        if length r < unat n then None
        else Some (of_bytes (take (unat n) r), drop (unat n) r))"

definition encodeBeacon :: "Beacon \<Rightarrow> bytes" where
  "encodeBeacon b =
     kMagic @ putStr16 (b_name b) @ putStr16 (b_id b) @ putStr16 (b_ip b)
       @ [ucast (drop_bit 8 (b_port b)), ucast (b_port b AND 0xff), b_os b, b_wol b]"

definition decodeBeacon :: "bytes \<Rightarrow> Beacon option" where
  "decodeBeacon d =
     (if length d < 4 \<or> take 4 d \<noteq> kMagic then None
      else case getStr16 (drop 4 d) of None \<Rightarrow> None
      | Some (nm, d1) \<Rightarrow>
        (case getStr16 d1 of None \<Rightarrow> None
         | Some (i, d2) \<Rightarrow>
           (case getStr16 d2 of None \<Rightarrow> None
            | Some (ip, d3) \<Rightarrow>
                if length d3 < 2 then None
                else if length (drop 2 d3) < 2 then None
                else Some \<lparr>b_name = nm, b_id = i, b_ip = ip, b_port = be_value (take 2 d3),
                           b_os = d3 ! 2, b_wol = d3 ! 3\<rparr>)))"

lemma be_bytes_2: "be_bytes 2 (n :: u16) = [ucast (drop_bit 8 n), ucast (n AND 0xff)]"
  by (simp add: numeral_2_eq_2 be_bytes_Suc byte_mask)

lemma be_value_2 [wire_simps]:
  "be_value [ucast (drop_bit 8 n), ucast (n AND 0xff)] = (n :: u16)"
  using be_value_be_bytes [of 2 n] by (simp add: be_bytes_2)

lemma get_put_str16 [wire_simps]: "getStr16 (putStr16 s @ r) = Some (take 0xFFFF s, r)"
proof -
  have u: "unat (word_of_nat (min (length s) 0xFFFF) :: u16) = min (length s) 0xFFFF"
    by (rule unat_of_nat_fits) simp
  have "take (min (length s) 65535) (take (min (length s) 65535) (to_bytes s) @ r) = to_bytes (take 65535 s)"
    by (simp add: take_to_bytes min_def)
  moreover have "drop (min (length s) 65535) (take (min (length s) 65535) (to_bytes s) @ r) = r"
    by simp
  ultimately show ?thesis
    using u unfolding putStr16_def getStr16_def Let_def
    by (simp add: be_value_2)
qed

lemma decode_encode_beacon:
  "decodeBeacon (encodeBeacon b @ r) =
     Some (b\<lparr>b_name := take 0xFFFF (b_name b), b_id := take 0xFFFF (b_id b),
             b_ip := take 0xFFFF (b_ip b)\<rparr>)"
  by (simp add: decodeBeacon_def encodeBeacon_def kMagic_def get_put_str16 be_value_2 to_bytes_def)

definition beacon_ok :: "Beacon \<Rightarrow> bool" where
  "beacon_ok b \<longleftrightarrow> length (b_name b) \<le> 0xFFFF \<and> length (b_id b) \<le> 0xFFFF \<and> length (b_ip b) \<le> 0xFFFF"

interpretation beacon_codec: wire_codec encodeBeacon decodeBeacon beacon_ok
proof
  fix b assume "beacon_ok b"
  then show "decodeBeacon (encodeBeacon b) = Some b"
    using decode_encode_beacon [of b "[]"] by (simp add: beacon_ok_def)
qed

section \<open>Properties\<close>

text \<open>
  The hello a fresh connection starts with identifies its sender exactly: a buffer is
  accepted as the hello of \<open>self\<close> iff it is the encoding of \<open>self\<close>, so a version mismatch,
  a wrong type, a short buffer or trailing bytes are all rejected.
\<close>

theorem hello_exact:
  "decodePeerHello d = Some self \<longleftrightarrow> d = encodePeerHello self \<and> length self < 2 ^ 32"
  using decode_hello_exact decode_encode_hello by blast

text \<open>
  An ownership claim survives the wire: its sequence always, its two machine ids up to
  the 255 bytes of their length byte, for any bytes after it.
\<close>

theorem claim_wire:
  "decodeOwnershipClaim (encodeOwnershipClaim c @ r)
     = Some \<lparr>cl_target = take 255 (cl_target c), cl_origin = take 255 (cl_origin c),
             cl_sequence = cl_sequence c\<rparr>"
  by (simp add: decode_encode_claim)

text \<open>
  A discovery beacon survives the wire, its three strings up to 65535 bytes each.
\<close>

theorem beacon_wire:
  "decodeBeacon (encodeBeacon b @ r)
     = Some (b\<lparr>b_name := take 0xFFFF (b_name b), b_id := take 0xFFFF (b_id b), b_ip := take 0xFFFF (b_ip b)\<rparr>)"
  by (rule decode_encode_beacon)

end
