(* ===== verification/FileCodecs.thy ===== *)
theory FileCodecs
  imports Codec PeerCodecs
begin

text \<open>
  The payloads of the file path: the promise metadata and the chunks of
  \<open>net/file_transfer.cpp\<close> (big-endian) and the announcement of
  \<open>net/file_promise_announce.cpp\<close> (little-endian).  The counted loops are
  \<open>decode_many\<close> over the per-file decoders, which interpret \<open>stream_codec\<close>.
\<close>

section \<open>Promise metadata\<close>

record FileEntry =
  fe_name :: string
  fe_size :: u64

definition putU16 :: "u16 \<Rightarrow> bytes" where
  "putU16 v = [ucast (drop_bit 8 v), ucast (v AND 0xff)]"

definition putU32 :: "u32 \<Rightarrow> bytes" where
  "putU32 v = be_bytes 4 v"

definition putU64 :: "u64 \<Rightarrow> bytes" where
  "putU64 v = be_bytes 8 v"

definition getU16 :: "bytes \<Rightarrow> u16" where
  "getU16 p = be_value (take 2 p)"

definition getU32 :: "bytes \<Rightarrow> u32" where
  "getU32 p = be_value (take 4 p)"

definition getU64 :: "bytes \<Rightarrow> u64" where
  "getU64 p = be_value (take 8 p)"

lemma length_putU [simp]: "length (putU16 v) = 2" "length (putU32 w) = 4" "length (putU64 x) = 8"
  by (simp_all add: putU16_def putU32_def putU64_def)

lemma get_putU16 [wire_simps, simp]: "getU16 (putU16 v @ r) = v"
  by (simp add: getU16_def putU16_def be_value_2)

lemma get_putU32 [wire_simps, simp]: "getU32 (putU32 w @ r) = w"
  by (simp add: getU32_def putU32_def be_value_be_bytes)

lemma get_putU64 [wire_simps, simp]: "getU64 (putU64 x @ r) = x"
  by (simp add: getU64_def putU64_def be_value_be_bytes)

definition putEntry :: "FileEntry \<Rightarrow> bytes" where
  "putEntry f = putU16 (word_of_nat (length (fe_name f))) @ to_bytes (fe_name f) @ putU64 (fe_size f)"

definition getEntry :: "bytes \<Rightarrow> (FileEntry \<times> bytes) option" where
  "getEntry bs =
     (if length bs < 2 then None
      else let nl = unat (getU16 bs); p = drop 2 bs in
        if length p < nl + 8 then None
        else Some (\<lparr>fe_name = of_bytes (take nl p), fe_size = getU64 (drop nl p)\<rparr>, drop 8 (drop nl p)))"

definition encodeFilePromiseMeta :: "FileEntry list \<Rightarrow> bytes" where
  "encodeFilePromiseMeta files =
     putU32 (word_of_nat (length files)) @ concat (map putEntry files)"

definition decodeFilePromiseMeta :: "bytes \<Rightarrow> FileEntry list option" where
  "decodeFilePromiseMeta d =
     (if length d < 4 then None
      else map_option fst (decode_many getEntry (unat (getU32 d)) (drop 4 d)))"

definition entry_ok :: "FileEntry \<Rightarrow> bool" where
  "entry_ok f \<longleftrightarrow> length (fe_name f) < 2 ^ 16"

interpretation entry: stream_codec putEntry getEntry entry_ok
proof
  fix f r assume "entry_ok f"
  then have u: "unat (word_of_nat (length (fe_name f)) :: u16) = length (fe_name f)"
    unfolding entry_ok_def by (intro unat_of_nat_fits) simp
  show "getEntry (putEntry f @ r) = Some (f, r)"
    using get_putU16 [of "word_of_nat (length (fe_name f))" "to_bytes (fe_name f) @ putU64 (fe_size f) @ r"]
    unfolding getEntry_def putEntry_def Let_def by (simp add: u)
qed

definition entries_ok :: "FileEntry list \<Rightarrow> bool" where
  "entries_ok files \<longleftrightarrow> length files < 2 ^ 32 \<and> list_all entry_ok files"

lemma decode_encode_meta:
  assumes "entries_ok files"
  shows "decodeFilePromiseMeta (encodeFilePromiseMeta files @ r) = Some files"
proof -
  have u: "unat (word_of_nat (length files) :: u32) = length files"
    using assms unfolding entries_ok_def by (intro unat_of_nat_fits) simp
  have "decode_many getEntry (length files) (concat (map putEntry files) @ r) = Some (files, r)"
    using assms entry.decode_many_concat by (simp add: entries_ok_def)
  then show ?thesis
    by (simp add: decodeFilePromiseMeta_def encodeFilePromiseMeta_def u)
qed

interpretation meta_codec: wire_codec encodeFilePromiseMeta decodeFilePromiseMeta entries_ok
  by unfold_locales (use decode_encode_meta [of _ "[]"] in simp)

section \<open>Chunks\<close>

definition encodeFileChunk :: "u32 \<Rightarrow> u64 \<Rightarrow> bytes \<Rightarrow> bytes" where
  "encodeFileChunk index offset data = putU32 index @ putU64 offset @ data"

definition decodeFileChunk :: "bytes \<Rightarrow> (u32 \<times> u64 \<times> bytes) option" where
  "decodeFileChunk d =
     (if length d < 12 then None
      else Some (getU32 d, getU64 (drop 4 d), drop 12 d))"

lemma length_encodeFileChunk [simp]: "length (encodeFileChunk i off d) = 12 + length d"
  by (simp add: encodeFileChunk_def)

lemma decode_encode_chunk [simp]:
  "decodeFileChunk (encodeFileChunk i off d) = Some (i, off, d)"
  by (simp add: decodeFileChunk_def encodeFileChunk_def)

interpretation chunk_codec: wire_codec "\<lambda>(i, off, d). encodeFileChunk i off d" decodeFileChunk "\<lambda>_. True"
  by unfold_locales auto

section \<open>Announcements\<close>

record FilePromiseItem =
  fi_name :: string
  fi_size :: u64

definition put16 :: "u16 \<Rightarrow> bytes" where
  "put16 v = [ucast (v AND 0xFF), ucast (drop_bit 8 v AND 0xFF)]"

definition put32 :: "u32 \<Rightarrow> bytes" where
  "put32 v = le_bytes 4 v"

definition put64 :: "u64 \<Rightarrow> bytes" where
  "put64 v = le_bytes 8 v"

definition putItem :: "FilePromiseItem \<Rightarrow> bytes" where
  "putItem f =
     (let nlen = (word_of_nat (if length (fi_name f) > 0xFFFF then 0xFFFF else length (fi_name f)) :: u16) in
      put16 nlen @ take (unat nlen) (to_bytes (fi_name f)) @ put64 (fi_size f))"

definition getItem :: "bytes \<Rightarrow> (FilePromiseItem \<times> bytes) option" where
  "getItem bs =
     (if length bs < 2 then None
      else let nlen = unat (le_value (take 2 bs) :: u16); p = drop 2 bs in
        if length p < nlen then None
        else let q = drop nlen p in
          if length q < 8 then None
          else Some (\<lparr>fi_name = of_bytes (take nlen p), fi_size = le_value (take 8 q)\<rparr>, drop 8 q))"

definition encodeFilePromiseAnnounce :: "FilePromiseItem list \<Rightarrow> bytes" where
  "encodeFilePromiseAnnounce files =
     put32 (word_of_nat (length files)) @ concat (map putItem files)"

definition decodeFilePromiseAnnounce :: "bytes \<Rightarrow> FilePromiseItem list option" where
  "decodeFilePromiseAnnounce d =
     (if length d < 4 then None
      else map_option fst (decode_many getItem (unat (le_value (take 4 d) :: u32)) (drop 4 d)))"

text \<open>What a name of any length becomes on the wire: its first 65535 bytes.\<close>

definition clip_item :: "FilePromiseItem \<Rightarrow> FilePromiseItem" where
  "clip_item f = f\<lparr>fi_name := take 0xFFFF (fi_name f)\<rparr>"

lemma put16_le: "put16 v = le_bytes 2 v"
  by (simp add: put16_def le_bytes_def upt_rec)

lemma length_put [simp]: "length (put16 v) = 2" "length (put32 w) = 4" "length (put64 x) = 8"
  by (simp_all add: put16_def put32_def put64_def)

lemma get_put_item: "getItem (putItem f @ r) = Some (clip_item f, r)"
proof -
  let ?k = "min (length (fi_name f)) 65535"
  have k: "(if length (fi_name f) > 0xFFFF then 0xFFFF else length (fi_name f)) = ?k"
    by simp
  have u: "unat (word_of_nat ?k :: u16) = ?k" by (rule unat_of_nat_fits) simp
  have le: "le_value (put16 (word_of_nat ?k)) = (word_of_nat ?k :: u16)"
    unfolding put16_le by (rule le_value_le_bytes) simp
  have sz: "le_value (put64 (fi_size f)) = fi_size f"
    unfolding put64_def by (rule le_value_le_bytes) simp
  have tk: "take ?k (take ?k (to_bytes (fi_name f)) @ x) = to_bytes (take 65535 (fi_name f))" for x
    by (simp add: take_to_bytes min_def)
  have dr: "drop ?k (take ?k (to_bytes (fi_name f)) @ x) = x" for x
    by simp
  show ?thesis
    unfolding getItem_def putItem_def Let_def k u append_assoc
    by (simp only: drop_append_exact [OF length_put(1)] take_append_exact [OF length_put(1)] le u tk dr
        drop_append_exact [OF length_put(3)] take_append_exact [OF length_put(3)] sz)
      (simp add: clip_item_def)
qed

definition item_ok :: "FilePromiseItem \<Rightarrow> bool" where
  "item_ok f \<longleftrightarrow> length (fi_name f) \<le> 0xFFFF"

interpretation item: stream_codec putItem getItem item_ok
  by unfold_locales (simp add: get_put_item clip_item_def item_ok_def)

lemma decode_many_items:
  "decode_many getItem (length fs) (concat (map putItem fs) @ r) = Some (map clip_item fs, r)"
  by (induction fs) (simp_all add: get_put_item)

lemma decode_encode_announce:
  assumes "length files < 2 ^ 32"
  shows "decodeFilePromiseAnnounce (encodeFilePromiseAnnounce files @ r) = Some (map clip_item files)"
proof -
  have u: "unat (word_of_nat (length files) :: u32) = length files"
    using assms by (intro unat_of_nat_fits) simp
  have "le_value (put32 (word_of_nat (length files))) = (word_of_nat (length files) :: u32)"
    unfolding put32_def by (rule le_value_le_bytes) simp
  then show ?thesis
    by (simp add: decodeFilePromiseAnnounce_def encodeFilePromiseAnnounce_def u decode_many_items)
qed

definition announce_ok :: "FilePromiseItem list \<Rightarrow> bool" where
  "announce_ok files \<longleftrightarrow> length files < 2 ^ 32 \<and> list_all item_ok files"

interpretation announce_codec: wire_codec encodeFilePromiseAnnounce decodeFilePromiseAnnounce announce_ok
proof
  fix files assume "announce_ok files"
  then have "length files < 2 ^ 32" "map clip_item files = files"
    by (auto simp: announce_ok_def item_ok_def clip_item_def list_all_iff intro!: map_idI)
  then show "decodeFilePromiseAnnounce (encodeFilePromiseAnnounce files) = Some files"
    using decode_encode_announce [of files "[]"] by simp
qed

section \<open>Properties\<close>

text \<open>
  The two list formats of the file path are read back entry for entry: the promise
  metadata for names below 64 KiB, the clipboard announcement for all names (longer ones
  clipped to 65535 bytes), for any number of files a 32-bit count holds.
\<close>

theorem file_lists_roundtrip:
  assumes "entries_ok es" "length items < 2 ^ 32"
  shows "decodeFilePromiseMeta (encodeFilePromiseMeta es @ r) = Some es
    \<and> decodeFilePromiseAnnounce (encodeFilePromiseAnnounce items @ r) = Some (map clip_item items)"
  using decode_encode_meta [OF assms(1)] decode_encode_announce [OF assms(2)] by simp

theorem file_lists_roundtrip_witness:
  "decodeFilePromiseMeta (encodeFilePromiseMeta [\<lparr>fe_name = ''a'', fe_size = 3\<rparr>, \<lparr>fe_name = '''', fe_size = 0\<rparr>])
     = Some [\<lparr>fe_name = ''a'', fe_size = 3\<rparr>, \<lparr>fe_name = '''', fe_size = 0\<rparr>]
   \<and> decodeFilePromiseAnnounce (encodeFilePromiseAnnounce [\<lparr>fi_name = ''b'', fi_size = 9\<rparr>])
     = Some [\<lparr>fi_name = ''b'', fi_size = 9\<rparr>]"
  using file_lists_roundtrip [of "[\<lparr>fe_name = ''a'', fe_size = 3\<rparr>, \<lparr>fe_name = '''', fe_size = 0\<rparr>]"
      "[\<lparr>fi_name = ''b'', fi_size = 9\<rparr>]" "[]"]
  by (simp add: entries_ok_def entry_ok_def clip_item_def)

end
