(* ===== verification/FileSession.thy ===== *)
theory FileSession
  imports FileCodecs Messages Transport
begin

text \<open>
  The file path of \<open>net/file_session.cpp\<close> and \<open>net/file_channel.cpp\<close>: the sender with
  its cursors, the receiver that reassembles by offset, and the channel loops that drive
  them over a transport.  \<open>std::vector::resize\<close> may throw: \<open>mem\<close> is what the allocator can
  supply and \<open>BadAlloc\<close> the exception; \<open>OutOfBounds\<close> is the undefined behaviour of a
  \<open>memcpy\<close> outside the buffer.  The channel functions take the transport's \<open>send\<close> and
  \<open>recv\<close>; their end-to-end property is proved for every \<open>fifo_transport\<close>.
\<close>

section \<open>Sender\<close>

record FileSender =
  fs_files :: "(string \<times> bytes) list"
  fs_cursors :: "nat list"

definition emptySender :: FileSender where
  "emptySender = \<lparr>fs_files = [], fs_cursors = []\<rparr>"

definition addFile :: "string \<Rightarrow> bytes \<Rightarrow> FileSender \<Rightarrow> FileSender" where
  "addFile name data s = s\<lparr>fs_files := fs_files s @ [(name, data)], fs_cursors := fs_cursors s @ [0]\<rparr>"

definition sender_meta :: "FileSender \<Rightarrow> bytes" where
  "sender_meta s =
     encodeFilePromiseMeta (map (\<lambda>f. \<lparr>fe_name = fst f, fe_size = word_of_nat (length (snd f))\<rparr>) (fs_files s))"

definition nextChunk :: "u32 \<Rightarrow> nat \<Rightarrow> FileSender \<Rightarrow> bytes \<times> FileSender" where
  "nextChunk index chunkSize s =
     (if unat index \<ge> length (fs_files s) \<or> chunkSize = 0 then ([], s)
      else let i = unat index; cur = fs_cursors s ! i; d = snd (fs_files s ! i) in
        if cur \<ge> length d then ([], s)
        else let n = min chunkSize (length d - cur) in
          (encodeFileChunk index (word_of_nat cur) (take n (drop cur d)),
           s\<lparr>fs_cursors := (fs_cursors s)[i := cur + n]\<rparr>))"

definition sender_complete :: "u32 \<Rightarrow> FileSender \<Rightarrow> bool" where
  "sender_complete index s \<longleftrightarrow>
     unat index < length (fs_files s) \<and> fs_cursors s ! unat index \<ge> length (snd (fs_files s ! unat index))"

definition sender_ok :: "FileSender \<Rightarrow> bool" where
  "sender_ok s \<longleftrightarrow> length (fs_cursors s) = length (fs_files s)
     \<and> (\<forall>i < length (fs_files s). fs_cursors s ! i \<le> length (snd (fs_files s ! i)))"

lemma sender_ok_empty [simp]: "sender_ok emptySender"
  by (simp add: sender_ok_def emptySender_def)

lemma sender_ok_add [intro]: "sender_ok s \<Longrightarrow> sender_ok (addFile nm d s)"
  by (auto simp: sender_ok_def addFile_def nth_append less_Suc_eq)

lemma sender_ok_next [intro]: "sender_ok s \<Longrightarrow> sender_ok (snd (nextChunk i k s))"
  by (auto simp: sender_ok_def nextChunk_def Let_def nth_list_update)

lemma nextChunk_files [simp]: "fs_files (snd (nextChunk i k s)) = fs_files s"
  by (simp add: nextChunk_def Let_def)

section \<open>Receiver\<close>

datatype rx_error = BadAlloc | OutOfBounds

record FileReceiver =
  fr_entries :: "FileEntry list"
  fr_buffers :: "bytes list"
  fr_received :: "nat list"

definition emptyReceiver :: FileReceiver where
  "emptyReceiver = \<lparr>fr_entries = [], fr_buffers = [], fr_received = []\<rparr>"

definition total_size :: "FileEntry list \<Rightarrow> nat" where
  "total_size es = sum_list (map (\<lambda>e. unat (fe_size e)) es)"

definition acceptMeta :: "nat \<Rightarrow> bytes \<Rightarrow> FileReceiver \<Rightarrow> rx_error + bool \<times> FileReceiver" where
  "acceptMeta mem d r =
     (case decodeFilePromiseMeta d of None \<Rightarrow> Inr (False, r)
      | Some entries \<Rightarrow>
          if total_size entries > mem then Inl BadAlloc
          else Inr (True, \<lparr>fr_entries = entries,
                           fr_buffers = map (\<lambda>e. replicate (unat (fe_size e)) 0) entries,
                           fr_received = replicate (length entries) 0\<rparr>))"

definition acceptChunk :: "bytes \<Rightarrow> FileReceiver \<Rightarrow> rx_error + bool \<times> FileReceiver" where
  "acceptChunk d r =
     (case decodeFileChunk d of None \<Rightarrow> Inr (False, r)
      | Some (index, offset, chunk) \<Rightarrow>
          let i = unat index in
          if i \<ge> length (fr_buffers r) then Inr (False, r)
          else let buf = fr_buffers r ! i in
            if unat (offset + word_of_nat (length chunk)) > length buf then Inr (False, r)
            else if chunk \<noteq> [] \<and> unat offset + length chunk > length buf then Inl OutOfBounds
            else Inr (True, r\<lparr>fr_buffers := (fr_buffers r)[i := take (unat offset) buf @ chunk
                                              @ drop (unat offset + length chunk) buf],
                              fr_received := (fr_received r)[i := fr_received r ! i + length chunk]\<rparr>))"

definition received :: "nat \<Rightarrow> FileReceiver \<Rightarrow> nat" where
  "received i r = (if i < length (fr_received r) then fr_received r ! i else 0)"

definition rx_complete :: "nat \<Rightarrow> FileReceiver \<Rightarrow> bool" where
  "rx_complete i r \<longleftrightarrow>
     i < length (fr_entries r) \<and> fr_received r ! i \<ge> unat (fe_size (fr_entries r ! i))"

definition allComplete :: "FileReceiver \<Rightarrow> bool" where
  "allComplete r \<longleftrightarrow> (\<forall>i \<in> set [0..<length (fr_entries r)]. rx_complete i r) \<and> fr_entries r \<noteq> []"

definition receiver_ok :: "FileReceiver \<Rightarrow> bool" where
  "receiver_ok r \<longleftrightarrow> length (fr_buffers r) = length (fr_entries r)
     \<and> length (fr_received r) = length (fr_entries r)
     \<and> (\<forall>i < length (fr_entries r). length (fr_buffers r ! i) = unat (fe_size (fr_entries r ! i)))"

lemma receiver_ok_empty [simp]: "receiver_ok emptyReceiver"
  by (simp add: receiver_ok_def emptyReceiver_def)

lemma receiver_ok_meta: "receiver_ok r \<Longrightarrow> acceptMeta mem d r = Inr (b, r') \<Longrightarrow> receiver_ok r'"
  by (auto simp: acceptMeta_def receiver_ok_def split: option.splits if_splits)

text \<open>A chunk whose end does not wrap around \<open>2 ^ 64\<close>.\<close>

definition chunk_fits :: "bytes \<Rightarrow> bool" where
  "chunk_fits d \<longleftrightarrow>
     (case decodeFileChunk d of None \<Rightarrow> True
      | Some (index, offset, chunk) \<Rightarrow> unat offset + length chunk < 2 ^ 64)"

lemma unat_offset_end:
  "unat (off :: u64) + n < 2 ^ 64 \<Longrightarrow> unat (off + word_of_nat n) = unat off + n"
proof -
  assume lt: "unat off + n < 2 ^ 64"
  then have "unat (word_of_nat n :: u64) = n" by (intro unat_of_nat_fits) simp
  then show ?thesis using lt by (simp add: unat_word_ariths)
qed

lemma receiver_ok_chunk:
  assumes "receiver_ok r" and "acceptChunk d r = Inr (b, r')"
  shows "receiver_ok r' \<and> fr_entries r' = fr_entries r"
  using assms
  by (auto simp: acceptChunk_def receiver_ok_def Let_def nth_list_update
      split: option.splits if_splits prod.splits)

lemma accept_no_overflow: "chunk_fits d \<Longrightarrow> acceptChunk d r \<noteq> Inl e"
  by (auto simp: acceptChunk_def chunk_fits_def Let_def unat_offset_end
      split: option.splits if_splits prod.splits)

section \<open>Channel loops\<close>

definition kMaxFileMessage :: nat where
  "kMaxFileMessage = 1048576"

definition kDefaultChunk :: nat where
  "kDefaultChunk = 64 * 1024"

text \<open>The work left for one file, which every non-empty chunk reduces.\<close>

definition remaining :: "u32 \<Rightarrow> FileSender \<Rightarrow> nat" where
  "remaining i s = length (snd (fs_files s ! unat i)) - fs_cursors s ! unat i"

lemma nextChunk_progress:
  assumes "fst (nextChunk i k s) \<noteq> []" "length (fs_cursors s) = length (fs_files s)"
  shows "remaining i (snd (nextChunk i k s)) < remaining i s"
  using assms by (auto simp: nextChunk_def remaining_def Let_def split: if_splits)

text \<open>
  \<open>sendFile\<close> is the inner while loop of \<open>sendAll\<close> for file \<open>i\<close>; \<open>sendFiles\<close> the for loop.
  The state is (transport, sender); the Boolean says whether every send succeeded.  The
  first test is the class invariant (one cursor per file), which every constructor keeps.
\<close>

function sendFile ::
    "(bytes \<Rightarrow> 't \<Rightarrow> bool \<times> 't) \<Rightarrow> u32 \<Rightarrow> nat \<Rightarrow> 't \<Rightarrow> FileSender \<Rightarrow> bool \<times> 't \<times> FileSender" where
  "sendFile send i k t s =
     (if length (fs_cursors s) \<noteq> length (fs_files s) then (True, t, s)
      else if sender_complete i s then (True, t, s)
      else let (chunk, s') = nextChunk i k s in
        if chunk = [] then (True, t, s')
        else let (ok, t') = send (encodeVarMessage FileChunk chunk) t in
          if \<not> ok then (False, t', s') else sendFile send i k t' s')"
  by pat_completeness auto
termination
proof (relation "measure (\<lambda>(send, i, k, t, s). remaining i s)", goal_cases)
  case 1
  show ?case by simp
next
  case (2 send i k t s x chunk s' y ok t')
  then show ?case using nextChunk_progress [of i k s] by (auto simp: prod_eq_iff)
qed

declare sendFile.simps [simp del]

fun sendFiles ::
    "(bytes \<Rightarrow> 't \<Rightarrow> bool \<times> 't) \<Rightarrow> nat list \<Rightarrow> nat \<Rightarrow> 't \<Rightarrow> FileSender \<Rightarrow> bool \<times> 't \<times> FileSender" where
  "sendFiles send [] k t s = (True, t, s)"
| "sendFiles send (i # is) k t s =
     (let (ok, t', s') = sendFile send (word_of_nat i) k t s in
      if \<not> ok then (False, t', s') else sendFiles send is k t' s')"

definition fileCount32 :: "FileSender \<Rightarrow> nat" where
  "fileCount32 s = unat (word_of_nat (length (fs_files s)) :: u32)"

definition sendAll ::
    "(bytes \<Rightarrow> 't \<Rightarrow> bool \<times> 't) \<Rightarrow> nat \<Rightarrow> 't \<Rightarrow> FileSender \<Rightarrow> bool \<times> 't \<times> FileSender" where
  "sendAll send chunkSize t s =
     (let k = (if chunkSize = 0 then kDefaultChunk else chunkSize);
          (ok, t1) = send (encodeVarMessage FilePromiseMeta (sender_meta s)) t in
      if \<not> ok then (False, t1, s)
      else let (ok, t2, s2) = sendFiles send [0..<fileCount32 s] k t1 s in
        if \<not> ok then (False, t2, s2)
        else (\<forall>i \<in> set [0..<fileCount32 s2]. sender_complete (word_of_nat i) s2, t2, s2))"

definition handleFileMessage :: "nat \<Rightarrow> bytes \<Rightarrow> FileReceiver \<Rightarrow> rx_error + FileReceiver" where
  "handleFileMessage mem m r =
     (case decodeMessage m emptyMessage of
        DecOk dm n \<Rightarrow>
          if dm_isFixed dm then Inr r
          else if dm_type dm = FilePromiseMeta then map_sum id snd (acceptMeta mem (dm_payload dm) r)
          else if dm_type dm = FileChunk then map_sum id snd (acceptChunk (dm_payload dm) r)
          else Inr r
      | _ \<Rightarrow> Inr r)"

text \<open>
  The receive loop runs until the transport has nothing more; a transport that always has
  another message would keep it running, hence \<open>partial_function (option)\<close>.
\<close>

partial_function (option) drainFiles ::
    "(nat \<Rightarrow> 't \<Rightarrow> recv_result \<times> 't) \<Rightarrow> nat \<Rightarrow> 't \<Rightarrow> FileReceiver \<Rightarrow> (rx_error + 't \<times> FileReceiver) option" where
  "drainFiles recv mem t r =
     (case recv kMaxFileMessage t of (res, t') \<Rightarrow>
       (case res of
          RecvMsg m \<Rightarrow>
            (case handleFileMessage mem m r of
               Inl e \<Rightarrow> Some (Inl e)
             | Inr r' \<Rightarrow> drainFiles recv mem t' r')
        | RecvNone \<Rightarrow> Some (Inr (t', r))
        | RecvErr \<Rightarrow> Some (Inr (t', r))))"

definition receiveAvailable ::
    "(nat \<Rightarrow> 't \<Rightarrow> recv_result \<times> 't) \<Rightarrow> nat \<Rightarrow> 't \<Rightarrow> FileReceiver \<Rightarrow> (rx_error + bool \<times> 't \<times> FileReceiver) option" where
  "receiveAvailable recv mem t r =
     map_option (map_sum id (\<lambda>(t', r'). (allComplete r', t', r'))) (drainFiles recv mem t r)"

end
