(* ===== verification/FileTransfer.thy ===== *)
theory FileTransfer
  imports FileSession
begin

text \<open>
  The file channel end to end: what \<open>sendAll\<close> puts on a reliable transport and what
  \<open>receiveAvailable\<close> makes of it on the other side, proved in the contract
  \<open>fifo_transport\<close> and instantiated on the loopback pair; and the receiver's behaviour on
  chunks an honest sender does not send.
\<close>

section \<open>The messages of a transfer\<close>

function chunk_msgs :: "nat \<Rightarrow> u32 \<Rightarrow> nat \<Rightarrow> bytes \<Rightarrow> bytes list" where
  "chunk_msgs k i off d =
     (if k = 0 \<or> off \<ge> length d then []
      else encodeVarMessage FileChunk (encodeFileChunk i (word_of_nat off) (take k (drop off d)))
           # chunk_msgs k i (off + min k (length d - off)) d)"
  by pat_completeness auto
termination by (relation "measure (\<lambda>(k, i, off, d). length d - off)") auto

declare chunk_msgs.simps [simp del]

lemma chunk_msgs_done: "length d \<le> off \<Longrightarrow> chunk_msgs k i off d = []"
  by (subst chunk_msgs.simps) simp

lemma chunk_msgs_more:
  "0 < k \<Longrightarrow> off < length d \<Longrightarrow>
     chunk_msgs k i off d =
       encodeVarMessage FileChunk (encodeFileChunk i (word_of_nat off) (take k (drop off d)))
         # chunk_msgs k i (off + min k (length d - off)) d"
  by (subst chunk_msgs.simps) simp

lemma chunk_msgs_bound: "m \<in> set (chunk_msgs k i off d) \<Longrightarrow> m \<noteq> [] \<and> length m \<le> k + 18"
proof (induction k i off d rule: chunk_msgs.induct)
  case (1 k i off d)
  show ?case
  proof (cases "k = 0 \<or> off \<ge> length d")
    case True
    then show ?thesis using 1 by (subst (asm) (2) chunk_msgs.simps) simp
  next
    case False
    then consider "m = encodeVarMessage FileChunk (encodeFileChunk i (word_of_nat off) (take k (drop off d)))"
      | "m \<in> set (chunk_msgs k i (off + min k (length d - off)) d)"
      using 1(2) by (auto simp: chunk_msgs_more)
    then show ?thesis
    proof cases
      case 1
      then have "length m \<le> k + 18" "length m > 0" by simp_all
      then show ?thesis by auto
    next
      case 2
      then show ?thesis using 1(1) False by simp
    qed
  qed
qed

definition file_msgs :: "nat \<Rightarrow> (string \<times> bytes) list \<Rightarrow> nat list \<Rightarrow> bytes list" where
  "file_msgs k fs js = concat (map (\<lambda>i. chunk_msgs k (word_of_nat i) 0 (snd (fs ! i))) js)"

definition new_sender :: "(string \<times> bytes) list \<Rightarrow> FileSender" where
  "new_sender fs = fold (\<lambda>f. addFile (fst f) (snd f)) fs emptySender"

definition transfer_msgs :: "nat \<Rightarrow> (string \<times> bytes) list \<Rightarrow> bytes list" where
  "transfer_msgs k fs =
     encodeVarMessage FilePromiseMeta (sender_meta (new_sender fs)) # file_msgs k fs [0..<length fs]"

text \<open>What a transfer needs of its input: the sizes the formats can express.\<close>

definition transfer_ok :: "nat \<Rightarrow> nat \<Rightarrow> (string \<times> bytes) list \<Rightarrow> bool" where
  "transfer_ok mem k fs \<longleftrightarrow>
     fs \<noteq> [] \<and> length fs < 2 ^ 32 \<and> 0 < k \<and> k + 18 \<le> kMaxFileMessage
     \<and> list_all (\<lambda>f. length (fst f) < 2 ^ 16 \<and> length (snd f) < 2 ^ 64) fs
     \<and> 6 + length (sender_meta (new_sender fs)) \<le> kMaxFileMessage
     \<and> sum_list (map (\<lambda>f. length (snd f)) fs) \<le> mem"

lemma new_sender_fields:
  "fs_files (new_sender fs) = fs \<and> fs_cursors (new_sender fs) = replicate (length fs) 0"
proof -
  have "fs_files (fold (\<lambda>f. addFile (fst f) (snd f)) fs s) = fs_files s @ fs
      \<and> fs_cursors (fold (\<lambda>f. addFile (fst f) (snd f)) fs s) = fs_cursors s @ replicate (length fs) 0" for s
    by (induction fs arbitrary: s) (simp_all add: addFile_def)
  then show ?thesis by (simp add: new_sender_def emptySender_def)
qed

section \<open>Sending\<close>

text \<open>Cursors of a sender that has finished the files of a set.\<close>

context fifo_transport
begin

lemma sendFile_pending:
  assumes "inv t" "room t (length (chunk_msgs k i off d) + n)" "0 < k" "unat i < length (fs_files s)" "length (fs_cursors s) = length (fs_files s)"
    and "fs_cursors s ! unat i = off" "snd (fs_files s ! unat i) = d" "off \<le> length d"
    and "\<And>m. m \<in> set (chunk_msgs k i off d) \<Longrightarrow> sendable m"
  shows "\<exists>t'. sendFile send i k t s
      = (True, t', s\<lparr>fs_cursors := (fs_cursors s)[unat i := length d]\<rparr>)
      \<and> inv t' \<and> room t' n \<and> pending t' = pending t @ chunk_msgs k i off d"
  using assms
proof (induction k i off d arbitrary: t s rule: chunk_msgs.induct)
  case (1 k i off d)
  show ?case
  proof (cases "off \<ge> length d")
    case True
    then have "sender_complete i s" "off = length d" using 1 by (auto simp: sender_complete_def)
    moreover have "s\<lparr>fs_cursors := (fs_cursors s)[unat i := length d]\<rparr> = s"
      using 1 \<open>off = length d\<close> by (metis FileSender.surjective FileSender.update_convs(2) list_update_id)
    ultimately show ?thesis
      using 1 by (subst sendFile.simps) (simp add: chunk_msgs_done)
  next
    case False
    define m where "m = encodeVarMessage FileChunk (encodeFileChunk i (word_of_nat off) (take k (drop off d)))"
    define off' where "off' = off + min k (length d - off)"
    define s' where "s' = s\<lparr>fs_cursors := (fs_cursors s)[unat i := off']\<rparr>"
    have msgs: "chunk_msgs k i off d = m # chunk_msgs k i off' d"
      using False 1 by (simp add: chunk_msgs_more m_def off'_def)
    have room: "room t (Suc (length (chunk_msgs k i off' d) + n))" using 1(3) by (simp add: msgs)
    obtain t1 where t1: "send m t = (True, t1)" "inv t1" "room t1 (length (chunk_msgs k i off' d) + n)"
      "pending t1 = pending t @ [m]"
      using send_whole [OF \<open>inv t\<close> _ room] 1(10) msgs by (metis list.set_intros(1))
    have next_chunk: "nextChunk i k s = (encodeFileChunk i (word_of_nat off) (take k (drop off d)), s')"
    proof -
      have "take (min k (length d - off)) (drop off d) = take k (drop off d)"
        by (cases "k \<le> length d - off") simp_all
      then show ?thesis
        using 1 False by (simp add: nextChunk_def Let_def s'_def off'_def)
    qed
    have nonempty: "encodeFileChunk i (word_of_nat off) (take k (drop off d)) \<noteq> []"
      by (metis Zero_neq_Suc add_eq_0_iff_both_eq_0 length_encodeFileChunk list.size(3) zero_neq_numeral)
    have step: "sendFile send i k t s = sendFile send i k t1 s'"
      using 1 False nonempty t1
      by (subst sendFile.simps) (simp add: sender_complete_def next_chunk m_def [symmetric])
    have "\<exists>t'. sendFile send i k t1 s' = (True, t', s'\<lparr>fs_cursors := (fs_cursors s')[unat i := length d]\<rparr>)
        \<and> inv t' \<and> room t' n \<and> pending t' = pending t1 @ chunk_msgs k i off' d"
      unfolding off'_def
    proof (rule 1(1))
      show "\<not> (k = 0 \<or> length d \<le> off)" using False 1 by simp
    qed (use 1 t1 msgs in \<open>auto simp: s'_def off'_def\<close>)
    then show ?thesis by (auto simp: step t1 msgs s'_def)
  qed
qed

lemma sendFiles_pending:
  assumes "inv t" "room t (length (file_msgs k (fs_files s) js) + n)" "0 < k" "distinct js" "\<forall>j \<in> set js. j < length (fs_files s)"
    and "length (fs_files s) < 2 ^ 32" "length (fs_cursors s) = length (fs_files s)"
    and "\<forall>j \<in> set js. fs_cursors s ! j = 0"
    and "\<And>m. m \<in> set (file_msgs k (fs_files s) js) \<Longrightarrow> sendable m"
  shows "\<exists>t' s'. sendFiles send js k t s = (True, t', s')
      \<and> inv t' \<and> room t' n \<and> pending t' = pending t @ file_msgs k (fs_files s) js
      \<and> fs_files s' = fs_files s \<and> length (fs_cursors s') = length (fs_files s)
      \<and> (\<forall>j < length (fs_files s). fs_cursors s' ! j
            = (if j \<in> set js then length (snd (fs_files s ! j)) else fs_cursors s ! j))"
  using assms
proof (induction js arbitrary: t s)
  case Nil
  then show ?case by (simp add: file_msgs_def)
next
  case (Cons j js)
  let ?d = "snd (fs_files s ! j)"
  let ?s1 = "s\<lparr>fs_cursors := (fs_cursors s)[j := length ?d]\<rparr>"
  have j: "unat (word_of_nat j :: u32) = j"
    using Cons.prems(5,6) by (intro unat_of_nat_fits) auto
  have msgs: "file_msgs k (fs_files s) (j # js)
      = chunk_msgs k (word_of_nat j) 0 ?d @ file_msgs k (fs_files s) js"
    by (simp add: file_msgs_def)
  have "\<exists>t1. sendFile send (word_of_nat j) k t s
      = (True, t1, s\<lparr>fs_cursors := (fs_cursors s)[unat (word_of_nat j :: u32) := length ?d]\<rparr>)
      \<and> inv t1 \<and> room t1 (length (file_msgs k (fs_files s) js) + n)
      \<and> pending t1 = pending t @ chunk_msgs k (word_of_nat j) 0 ?d"
    by (rule sendFile_pending) (use Cons.prems msgs in \<open>auto simp: j add.assoc\<close>)
  then obtain t1 where t1: "sendFile send (word_of_nat j) k t s = (True, t1, ?s1)"
    "inv t1" "room t1 (length (file_msgs k (fs_files s) js) + n)"
    "pending t1 = pending t @ chunk_msgs k (word_of_nat j) 0 ?d"
    by (auto simp: j)
  have "\<exists>t' s'. sendFiles send js k t1 ?s1 = (True, t', s')
      \<and> inv t' \<and> room t' n \<and> pending t' = pending t1 @ file_msgs k (fs_files ?s1) js
      \<and> fs_files s' = fs_files ?s1 \<and> length (fs_cursors s') = length (fs_files ?s1)
      \<and> (\<forall>j < length (fs_files ?s1). fs_cursors s' ! j
            = (if j \<in> set js then length (snd (fs_files ?s1 ! j)) else fs_cursors ?s1 ! j))"
    by (rule Cons.IH) (use Cons.prems t1 msgs in \<open>auto simp: nth_list_update\<close>)
  then obtain t' s' where r: "sendFiles send js k t1 ?s1 = (True, t', s')"
    "inv t'" "room t' n" "pending t' = pending t1 @ file_msgs k (fs_files s) js" "fs_files s' = fs_files s"
    "length (fs_cursors s') = length (fs_files s)"
    "\<forall>i < length (fs_files s). fs_cursors s' ! i
            = (if i \<in> set js then length (snd (fs_files s ! i)) else fs_cursors ?s1 ! i)"
    by auto
  show ?case
    by (rule exI [of _ t'], rule exI [of _ s'])
      (use r t1 Cons.prems in \<open>auto simp: msgs nth_list_update\<close>)
qed

lemma sendAll_pending:
  assumes "inv t" "transfer_ok mem k fs" "\<And>m. m \<in> set (transfer_msgs k fs) \<Longrightarrow> sendable m"
    and "room t (length (transfer_msgs k fs) + n)"
  shows "\<exists>t' s'. sendAll send k t (new_sender fs) = (True, t', s')
      \<and> inv t' \<and> room t' n \<and> pending t' = pending t @ transfer_msgs k fs"
proof -
  let ?s = "new_sender fs"
  have k: "0 < k" "length fs < 2 ^ 32" using assms(2) by (auto simp: transfer_ok_def)
  have cnt: "fileCount32 s = length fs" if "fs_files s = fs" for s
    unfolding fileCount32_def that using k by (intro unat_of_nat_fits) simp
  obtain t1 where t1: "send (encodeVarMessage FilePromiseMeta (sender_meta ?s)) t = (True, t1)" "inv t1"
    "room t1 (length (file_msgs k fs [0..<length fs]) + n)"
    "pending t1 = pending t @ [encodeVarMessage FilePromiseMeta (sender_meta ?s)]"
    using send_whole [OF assms(1), of "encodeVarMessage FilePromiseMeta (sender_meta ?s)"
        "length (file_msgs k fs [0..<length fs]) + n"] assms(3,4)
    by (auto simp: transfer_msgs_def)
  have "\<exists>t' s'. sendFiles send [0..<length fs] k t1 ?s = (True, t', s')
      \<and> inv t' \<and> room t' n \<and> pending t' = pending t1 @ file_msgs k (fs_files ?s) [0..<length fs]
      \<and> fs_files s' = fs_files ?s \<and> length (fs_cursors s') = length (fs_files ?s)
      \<and> (\<forall>j < length (fs_files ?s). fs_cursors s' ! j
            = (if j \<in> set [0..<length fs] then length (snd (fs_files ?s ! j)) else fs_cursors ?s ! j))"
    by (rule sendFiles_pending)
      (use assms(3) k t1 new_sender_fields [of fs] in \<open>auto simp: transfer_msgs_def\<close>)
  then obtain t' s' where r: "sendFiles send [0..<length fs] k t1 ?s = (True, t', s')" "inv t'" "room t' n"
    "pending t' = pending t1 @ file_msgs k fs [0..<length fs]" "fs_files s' = fs"
    "\<forall>j < length fs. fs_cursors s' ! j = length (snd (fs ! j))"
    using new_sender_fields [of fs] by auto
  have "sender_complete (word_of_nat i) s'" if "i < length fs" for i
  proof -
    have "unat (word_of_nat i :: u32) = i" using that k by (intro unat_of_nat_fits) auto
    then show ?thesis using r that by (simp add: sender_complete_def)
  qed
  then show ?thesis
    using t1 r k new_sender_fields [of fs] cnt [of ?s] cnt [OF r(5)]
    by (simp add: sendAll_def Let_def transfer_msgs_def)
qed

end

section \<open>Receiving\<close>

fun feed :: "nat \<Rightarrow> bytes list \<Rightarrow> FileReceiver \<Rightarrow> rx_error + FileReceiver" where
  "feed mem [] r = Inr r"
| "feed mem (m # ms) r =
     (case handleFileMessage mem m r of Inl e \<Rightarrow> Inl e | Inr r' \<Rightarrow> feed mem ms r')"

lemma feed_append:
  "feed mem (ms @ ns) r = (case feed mem ms r of Inl e \<Rightarrow> Inl e | Inr r' \<Rightarrow> feed mem ns r')"
  by (induction ms arbitrary: r) (auto split: sum.splits)

context fifo_transport
begin

lemma drain_feed:
  assumes "inv t" "pending t = ms" "\<forall>m \<in> set ms. m \<noteq> [] \<and> length m \<le> kMaxFileMessage"
    and "feed mem ms r = Inr r'"
  shows "\<exists>t'. drainFiles recv mem t r = Some (Inr (t', r')) \<and> inv t' \<and> pending t' = []"
  using assms
proof (induction ms arbitrary: t r)
  case Nil
  obtain t' where "recv kMaxFileMessage t = (RecvNone, t')" "inv t'" "pending t' = []"
    using recv_idle [OF Nil(1,2)] .
  then show ?case using Nil by (subst drainFiles.simps) simp
next
  case (Cons m ms)
  obtain t1 where t1: "recv kMaxFileMessage t = (RecvMsg m, t1)" "inv t1" "pending t1 = ms"
    using recv_whole [OF Cons.prems(1,2)] Cons.prems(3) by auto
  obtain r1 where r1: "handleFileMessage mem m r = Inr r1" "feed mem ms r1 = Inr r'"
    using Cons.prems(4) by (auto split: sum.splits)
  then show ?case
    using Cons.IH [OF t1(2,3) _ r1(2)] Cons.prems(3) t1 by (subst drainFiles.simps) simp
qed

end

lemma handle_chunk:
  assumes "length d \<le> kMaxFileMessage"
  shows "handleFileMessage mem (encodeVarMessage FileChunk (encodeFileChunk i off d)) r
    = map_sum id snd (acceptChunk (encodeFileChunk i off d) r)"
  using decode_var_message [of FileChunk "encodeFileChunk i off d" "[]" emptyMessage] assms
  by (simp add: handleFileMessage_def isFixedType_def payload_fits_length kMaxFileMessage_def)

lemma handle_meta:
  assumes "length d \<le> kMaxFileMessage"
  shows "handleFileMessage mem (encodeVarMessage FilePromiseMeta d) r = map_sum id snd (acceptMeta mem d r)"
  using decode_var_message [of FilePromiseMeta d "[]" emptyMessage] assms
  by (simp add: handleFileMessage_def isFixedType_def payload_fits_length kMaxFileMessage_def)

lemma accept_in_order:
  assumes "unat i < length (fr_buffers r)" "fr_buffers r ! unat i = take off d @ replicate (length d - off) 0"
    and "off < length d" "length d < 2 ^ 64" "0 < k"
  shows "acceptChunk (encodeFileChunk i (word_of_nat off) (take k (drop off d))) r
    = Inr (True, r\<lparr>fr_buffers := (fr_buffers r)[unat i :=
                       take (off + min k (length d - off)) d
                         @ replicate (length d - (off + min k (length d - off))) 0],
                    fr_received := (fr_received r)[unat i := fr_received r ! unat i + min k (length d - off)]\<rparr>)"
proof -
  have off: "unat (word_of_nat off :: u64) = off"
    using assms(3,4) by (intro unat_of_nat_fits) simp
  have tk: "take off d @ take k (drop off d) @ xs = take (off + min k (length d - off)) d @ xs" for xs
    by (cases "k \<le> length d - off") (simp_all add: take_add)
  have "unat (word_of_nat off + word_of_nat (min k (length d - off)) :: u64)
      = off + min k (length d - off)"
    using assms(3,4) off unat_offset_end [of "word_of_nat off" "min k (length d - off)"] by simp
  moreover have "length (take k (drop off d)) = min k (length d - off)" by simp
  moreover have "\<not> length d < off + min k (length d - off)" using assms(3) by simp
  moreover have "take off (take off d @ xs) = take off d" for xs using assms(3) by simp
  ultimately show ?thesis
    using assms by (simp add: acceptChunk_def Let_def off min.commute tk)
qed

lemma feed_chunks:
  assumes "unat i < length (fr_buffers r)" "length (fr_received r) = length (fr_buffers r)"
    and "fr_buffers r ! unat i = take off d @ replicate (length d - off) 0"
    and "off \<le> length d" "length d < 2 ^ 64" "0 < k" "k \<le> kMaxFileMessage"
  shows "feed mem (chunk_msgs k i off d) r
    = Inr (r\<lparr>fr_buffers := (fr_buffers r)[unat i := d],
             fr_received := (fr_received r)[unat i := fr_received r ! unat i + (length d - off)]\<rparr>)"
  using assms
proof (induction k i off d arbitrary: r rule: chunk_msgs.induct)
  case (1 k i off d)
  show ?case
  proof (cases "off \<ge> length d")
    case True
    then have buf: "(fr_buffers r)[unat i := d] = fr_buffers r" "off = length d"
      using 1 by (metis append.right_neutral diff_self_eq_0 le_antisym list_update_id replicate_0 take_all, simp)
    then show ?thesis by (simp add: chunk_msgs_done)
  next
    case False
    define n where "n = min k (length d - off)"
    define r1 where "r1 = r\<lparr>fr_buffers := (fr_buffers r)[unat i := take (off + n) d @ replicate (length d - (off + n)) 0],
                    fr_received := (fr_received r)[unat i := fr_received r ! unat i + n]\<rparr>"
    have acc: "acceptChunk (encodeFileChunk i (word_of_nat off) (take k (drop off d))) r = Inr (True, r1)"
      unfolding r1_def n_def using 1 False by (intro accept_in_order) simp_all
    have "length (take k (drop off d)) \<le> kMaxFileMessage" using 1 by simp
    then have "feed mem (chunk_msgs k i off d) r = feed mem (chunk_msgs k i (off + n) d) r1"
      using 1 False acc by (simp add: chunk_msgs_more handle_chunk n_def)
    also have "\<dots> = Inr (r1\<lparr>fr_buffers := (fr_buffers r1)[unat i := d],
             fr_received := (fr_received r1)[unat i := fr_received r1 ! unat i + (length d - (off + n))]\<rparr>)"
      unfolding n_def
    proof (rule 1(1))
      show "\<not> (k = 0 \<or> length d \<le> off)" using False 1 by simp
    qed (use 1 False in \<open>auto simp: r1_def n_def\<close>)
    also have "\<dots> = Inr (r\<lparr>fr_buffers := (fr_buffers r)[unat i := d],
             fr_received := (fr_received r)[unat i := fr_received r ! unat i + (length d - off)]\<rparr>)"
      using 1 False by (simp add: r1_def n_def)
    finally show ?thesis .
  qed
qed

text \<open>After the files below \<open>j\<close> have arrived.\<close>

definition partial_rx :: "(string \<times> bytes) list \<Rightarrow> nat \<Rightarrow> FileReceiver" where
  "partial_rx fs j =
     \<lparr>fr_entries = map (\<lambda>f. \<lparr>fe_name = fst f, fe_size = word_of_nat (length (snd f))\<rparr>) fs,
      fr_buffers = map snd (take j fs) @ map (\<lambda>f. replicate (length (snd f)) 0) (drop j fs),
      fr_received = map (length \<circ> snd) (take j fs) @ replicate (length fs - j) 0\<rparr>"

lemma partial_rx_step:
  assumes "j < length fs" "length fs < 2 ^ 32" "length (snd (fs ! j)) < 2 ^ 64" "0 < k" "k \<le> kMaxFileMessage"
  shows "feed mem (chunk_msgs k (word_of_nat j) 0 (snd (fs ! j))) (partial_rx fs j) = Inr (partial_rx fs (Suc j))"
proof -
  let ?d = "snd (fs ! j)"
  have j: "unat (word_of_nat j :: u32) = j" using assms by (intro unat_of_nat_fits) simp
  have sfx: "drop j fs = fs ! j # drop (Suc j) fs" "take (Suc j) fs = take j fs @ [fs ! j]"
    using assms(1) by (simp_all add: Cons_nth_drop_Suc take_Suc_conv_app_nth)
  have rep: "replicate (length fs - j) (0::nat) = 0 # replicate (length fs - Suc j) 0"
    using assms(1) by (metis Suc_diff_Suc replicate_Suc)
  have "fr_buffers (partial_rx fs j) ! j = replicate (length ?d) 0"
    using assms(1) by (simp add: partial_rx_def nth_append sfx(1))
  moreover have "fr_received (partial_rx fs j) ! j = 0"
    using assms(1) by (simp add: partial_rx_def nth_append)
  ultimately have "feed mem (chunk_msgs k (word_of_nat j) 0 ?d) (partial_rx fs j)
    = Inr ((partial_rx fs j)\<lparr>fr_buffers := (fr_buffers (partial_rx fs j))[j := ?d],
             fr_received := (fr_received (partial_rx fs j))[j := length ?d]\<rparr>)"
    using feed_chunks [of "word_of_nat j" "partial_rx fs j" 0 ?d k mem] assms
    by (simp add: j) (simp add: partial_rx_def)
  also have "(fr_buffers (partial_rx fs j))[j := ?d] = fr_buffers (partial_rx fs (Suc j))"
    using assms(1) by (simp add: partial_rx_def sfx list_update_append min_absorb2)
  also have "(fr_received (partial_rx fs j))[j := length ?d] = fr_received (partial_rx fs (Suc j))"
    using assms(1) by (simp add: partial_rx_def sfx list_update_append min_absorb2 rep)
  finally show ?thesis by (simp add: partial_rx_def)
qed

lemma feed_files:
  assumes "length fs < 2 ^ 32" "list_all (\<lambda>f. length (fst f) < 2 ^ 16 \<and> length (snd f) < 2 ^ 64) fs"
    and "0 < k" "k \<le> kMaxFileMessage" "j + n = length fs"
  shows "feed mem (file_msgs k fs [j..<length fs]) (partial_rx fs j) = Inr (partial_rx fs (length fs))"
  using assms(5)
proof (induction n arbitrary: j)
  case 0
  then show ?case by (simp add: file_msgs_def)
next
  case (Suc n)
  then have "j < length fs" by simp
  moreover from this have "length (snd (fs ! j)) < 2 ^ 64" using assms(2) by (simp add: list_all_length)
  ultimately have "feed mem (chunk_msgs k (word_of_nat j) 0 (snd (fs ! j))) (partial_rx fs j)
      = Inr (partial_rx fs (Suc j))"
    using assms by (intro partial_rx_step) simp_all
  moreover have "[j..<length fs] = j # [Suc j..<length fs]"
    using \<open>j < length fs\<close> by (simp add: upt_conv_Cons)
  ultimately show ?case
    using Suc.IH [of "Suc j"] Suc.prems by (simp add: file_msgs_def feed_append)
qed

lemma total_size_files:
  "list_all (\<lambda>f. length (fst f) < 2 ^ 16 \<and> length (snd f) < 2 ^ 64) fs \<Longrightarrow>
     total_size (map (\<lambda>f. \<lparr>fe_name = fst f, fe_size = word_of_nat (length (snd f))\<rparr>) fs)
       = sum_list (map (\<lambda>f. length (snd f)) fs)"
proof (induction fs)
  case Nil
  then show ?case by (simp add: total_size_def)
next
  case (Cons f fs)
  have "unat (word_of_nat (length (snd f)) :: u64) = length (snd f)"
    using Cons.prems by (intro unat_of_nat_fits) simp
  then show ?case using Cons by (simp add: total_size_def)
qed

lemma accept_transfer_meta:
  assumes "transfer_ok mem k fs"
  shows "acceptMeta mem (sender_meta (new_sender fs)) r = Inr (True, partial_rx fs 0)"
proof -
  let ?es = "map (\<lambda>f. \<lparr>fe_name = fst f, fe_size = word_of_nat (length (snd f))\<rparr> :: FileEntry) fs"
  have all: "list_all (\<lambda>f. length (fst f) < 2 ^ 16 \<and> length (snd f) < 2 ^ 64) fs"
    and n: "length fs < 2 ^ 32" and mem: "sum_list (map (\<lambda>f. length (snd f)) fs) \<le> mem"
    using assms by (auto simp: transfer_ok_def)
  have "entries_ok ?es" using all n by (simp add: entries_ok_def list_all_iff entry_ok_def)
  then have "decodeFilePromiseMeta (sender_meta (new_sender fs)) = Some ?es"
    using new_sender_fields [of fs] by (simp add: sender_meta_def meta_codec.roundtrip)
  moreover have "map ((\<lambda>e. replicate (unat (fe_size e)) 0) \<circ> (\<lambda>f. \<lparr>fe_name = fst f, fe_size = word_of_nat (length (snd f))\<rparr>)) fs
      = map (\<lambda>f. replicate (length (snd f)) (0 :: u8)) fs"
  proof (rule map_cong [OF refl])
    fix f assume "f \<in> set fs"
    then have "unat (word_of_nat (length (snd f)) :: u64) = length (snd f)"
      using all by (intro unat_of_nat_fits) (auto simp: list_all_iff)
    then show "((\<lambda>e. replicate (unat (fe_size e)) 0) \<circ> (\<lambda>f. \<lparr>fe_name = fst f, fe_size = word_of_nat (length (snd f))\<rparr>)) f
      = replicate (length (snd f)) (0 :: u8)" by simp
  qed
  ultimately show ?thesis
    using mem total_size_files [OF all] by (simp add: acceptMeta_def partial_rx_def)
qed

lemma complete_rx:
  assumes "transfer_ok mem k fs"
  shows "allComplete (partial_rx fs (length fs))"
proof -
  have "rx_complete i (partial_rx fs (length fs))" if "i < length fs" for i
  proof -
    have "unat (word_of_nat (length (snd (fs ! i))) :: u64) \<le> length (snd (fs ! i))"
      by (simp add: unat_of_nat take_bit_nat_less_eq_self)
    then show ?thesis using that by (simp add: rx_complete_def partial_rx_def)
  qed
  moreover have "fs \<noteq> []" using assms by (simp add: transfer_ok_def)
  ultimately show ?thesis by (simp add: allComplete_def partial_rx_def)
qed

lemma feed_transfer:
  assumes "transfer_ok mem k fs"
  shows "feed mem (transfer_msgs k fs) r = Inr (partial_rx fs (length fs))"
proof -
  have "feed mem (file_msgs k fs [0..<length fs]) (partial_rx fs 0) = Inr (partial_rx fs (length fs))"
    by (rule feed_files [where n = "length fs"])
      (use assms in \<open>auto simp: transfer_ok_def kMaxFileMessage_def\<close>)
  moreover have "length (sender_meta (new_sender fs)) \<le> kMaxFileMessage"
    using assms by (simp add: transfer_ok_def)
  ultimately show ?thesis
    using accept_transfer_meta [OF assms] by (simp add: transfer_msgs_def handle_meta)
qed

lemma transfer_msgs_bound:
  assumes "transfer_ok mem k fs" "m \<in> set (transfer_msgs k fs)"
  shows "m \<noteq> [] \<and> length m \<le> kMaxFileMessage"
proof (cases "m = encodeVarMessage FilePromiseMeta (sender_meta (new_sender fs))")
  case True
  then have "length m = 6 + length (sender_meta (new_sender fs))" by simp
  then show ?thesis using assms(1) by (auto simp: transfer_ok_def)
next
  case False
  then have "m \<noteq> [] \<and> length m \<le> k + 18"
    using assms(2) by (auto simp: transfer_msgs_def file_msgs_def dest: chunk_msgs_bound)
  then show ?thesis using assms(1) by (auto simp: transfer_ok_def)
qed

context fifo_transport
begin

lemma transfer_delivers:
  assumes "inv t" "pending t = []" "transfer_ok mem k fs"
    and "\<And>m. m \<noteq> [] \<Longrightarrow> length m \<le> kMaxFileMessage \<Longrightarrow> sendable m"
    and "room t (length (transfer_msgs k fs))"
  shows "\<exists>t1 s1 t2. sendAll send k t (new_sender fs) = (True, t1, s1)
      \<and> receiveAvailable recv mem t1 r = Some (Inr (True, t2, partial_rx fs (length fs)))"
proof -
  obtain t1 s1 where s: "sendAll send k t (new_sender fs) = (True, t1, s1)" "inv t1"
    "pending t1 = transfer_msgs k fs"
    using sendAll_pending [OF assms(1,3), of 0] assms(2,4,5) transfer_msgs_bound [OF assms(3)] by auto
  moreover obtain t2 where "drainFiles recv mem t1 r = Some (Inr (t2, partial_rx fs (length fs)))"
    using drain_feed [OF s(2,3)] transfer_msgs_bound [OF assms(3)] feed_transfer [OF assms(3)] by blast
  ultimately show ?thesis
    using complete_rx [OF assms(3)] by (simp add: receiveAvailable_def)
qed

end

section \<open>Properties\<close>

text \<open>
  C3. A file transfer over a reliable ordered transport is complete and exact: \<open>sendAll\<close>
  reports success, \<open>receiveAvailable\<close> on the other end returns and reports completion, and
  the receiver holds every file under its name with its bytes, whatever it held before and
  for every chunk size below the 1 MiB message bound.
\<close>

theorem file_transfer_exact:
  assumes "transfer_ok mem k fs"
  shows "\<exists>l1 s1 l2 rx.
      sendAll lb_send k \<lparr>lb_connected = True, lb_inbox = []\<rparr> (new_sender fs) = (True, l1, s1)
    \<and> receiveAvailable lb_recv mem l1 rx0 = Some (Inr (True, l2, rx))
    \<and> fr_buffers rx = map snd fs \<and> map fe_name (fr_entries rx) = map fst fs"
proof -
  obtain l1 s1 l2 where r: "sendAll lb_send k \<lparr>lb_connected = True, lb_inbox = []\<rparr> (new_sender fs) = (True, l1, s1)"
    "receiveAvailable lb_recv mem l1 rx0 = Some (Inr (True, l2, partial_rx fs (length fs)))"
    using loop.transfer_delivers [of "\<lparr>lb_connected = True, lb_inbox = []\<rparr>" mem k fs rx0] assms
    by auto
  moreover have "fr_buffers (partial_rx fs (length fs)) = map snd fs"
    "map fe_name (fr_entries (partial_rx fs (length fs))) = map fst fs"
    by (simp_all add: partial_rx_def)
  ultimately show ?thesis by blast
qed

definition two_files :: "(string \<times> bytes) list" where
  "two_files = [(''a.txt'', [1, 2, 3]), (''empty'', [])]"

lemma two_files_ok: "transfer_ok 100 2 two_files"
  by (simp add: transfer_ok_def two_files_def kMaxFileMessage_def sender_meta_def new_sender_def
      addFile_def emptySender_def encodeFilePromiseMeta_def putEntry_def putU16_def putU64_def putU32_def)

theorem file_transfer_exact_witness:
  "\<exists>l1 s1 l2 rx.
      sendAll lb_send 2 \<lparr>lb_connected = True, lb_inbox = []\<rparr> (new_sender two_files) = (True, l1, s1)
    \<and> receiveAvailable lb_recv 100 l1 emptyReceiver = Some (Inr (True, l2, rx))
    \<and> fr_buffers rx = [[1, 2, 3], []]"
  using file_transfer_exact [OF two_files_ok, of emptyReceiver] by (auto simp: two_files_def)

text \<open>
  C34. Receiver safety: a chunk whose end does not wrap around \<open>2 ^ 64\<close> never writes outside
  a buffer, whatever its index and offset; the buffers keep the promised sizes, and a
  rejected chunk changes nothing.
\<close>

theorem receiver_chunk_safe:
  assumes "receiver_ok r" "chunk_fits d"
  shows "\<exists>b r'. acceptChunk d r = Inr (b, r') \<and> receiver_ok r' \<and> fr_entries r' = fr_entries r
    \<and> (\<not> b \<longrightarrow> r' = r)"
proof -
  obtain b r' where acc: "acceptChunk d r = Inr (b, r')"
    using accept_no_overflow [OF assms(2)] by (cases "acceptChunk d r") auto
  moreover have "\<not> b \<longrightarrow> r' = r"
    using acc by (auto simp: acceptChunk_def Let_def split: option.splits prod.splits if_splits)
  ultimately show ?thesis using receiver_ok_chunk [OF assms(1) acc] by blast
qed

theorem receiver_chunk_safe_witness:
  "\<exists>b r'. acceptChunk (encodeFileChunk 7 5 [1]) emptyReceiver = Inr (b, r') \<and> receiver_ok r'"
  using receiver_chunk_safe [of emptyReceiver "encodeFileChunk 7 5 [1]"]
  by (auto simp: chunk_fits_def)

text \<open>
  C40. The bound check of \<open>acceptChunk\<close> wraps: a two-byte chunk at offset \<open>2 ^ 64 - 1\<close> passes
  it for every non-empty buffer and makes the \<open>memcpy\<close> write out of bounds.
\<close>

theorem offset_wrap_out_of_bounds:
  assumes "receiver_ok r" "unat i < length (fr_buffers r)" "fr_buffers r ! unat i \<noteq> []"
  shows "acceptChunk (encodeFileChunk i (- 1) [x, y]) r = Inl OutOfBounds"
proof -
  have "unat (- 1 + word_of_nat (length [x, y]) :: u64) = 1" by simp
  moreover have "1 \<le> length (fr_buffers r ! unat i)" using assms(3) by (cases "fr_buffers r ! unat i") auto
  moreover have "length (fr_buffers r ! unat i) < 2 ^ 64"
  proof -
    have "length (fr_buffers r ! unat i) = unat (fe_size (fr_entries r ! unat i))"
      using assms(1,2) by (simp add: receiver_ok_def)
    then show ?thesis using unsigned_less [where ?'a = nat, of "fe_size (fr_entries r ! unat i)"] by simp
  qed
  moreover have "unat (- 1 :: u64) = 2 ^ 64 - 1" by (simp add: unsigned_minus_1_eq_mask mask_eq_exp_minus_1)
  ultimately show ?thesis
    using assms(2,3) by (simp add: acceptChunk_def Let_def)
qed

theorem offset_wrap_out_of_bounds_witness:
  "acceptChunk (encodeFileChunk 0 (- 1) [7, 8])
     \<lparr>fr_entries = [\<lparr>fe_name = ''a'', fe_size = 1\<rparr>], fr_buffers = [[0]], fr_received = [0]\<rparr>
   = Inl OutOfBounds"
  by (rule offset_wrap_out_of_bounds) (simp_all add: receiver_ok_def)

text \<open>
  Completion counts bytes, not coverage: once a chunk has been accepted, the same chunk
  delivered again is accepted again and counts again, while the buffers stay as they were,
  so \<open>complete\<close> can hold for a file with bytes that never arrived.
\<close>

theorem duplicate_chunk_counts:
  assumes "receiver_ok r" "chunk_fits d" "decodeFileChunk d = Some (i, off, c)"
    and "acceptChunk d r = Inr (True, r1)"
  shows "\<exists>r2. acceptChunk d r1 = Inr (True, r2) \<and> fr_buffers r2 = fr_buffers r1
    \<and> received (unat i) r2 = received (unat i) r1 + length c"
proof -
  let ?i = "unat i" and ?o = "unat off" and ?buf = "fr_buffers r ! unat i"
  have fit: "?o + length c < 2 ^ 64" using assms(2,3) by (simp add: chunk_fits_def)
  have e: "unat (off + word_of_nat (length c)) = ?o + length c"
    by (rule unat_offset_end [OF fit])
  have i: "?i < length (fr_buffers r)" and le: "?o + length c \<le> length ?buf"
    and r1: "r1 = r\<lparr>fr_buffers := (fr_buffers r)[?i := take ?o ?buf @ c @ drop (?o + length c) ?buf],
                    fr_received := (fr_received r)[?i := fr_received r ! ?i + length c]\<rparr>"
    using assms(3,4) by (auto simp: acceptChunk_def Let_def e split: if_splits)
  have len: "length (fr_received r) = length (fr_buffers r)" using assms(1) by (simp add: receiver_ok_def)
  let ?new = "take ?o ?buf @ c @ drop (?o + length c) ?buf"
  have new_len: "length ?new = length ?buf" using le by simp
  have same: "take ?o ?new @ c @ drop (?o + length c) ?new = ?new" using le by simp
  let ?r2 = "r1\<lparr>fr_received := (fr_received r1)[?i := fr_received r1 ! ?i + length c]\<rparr>"
  have "acceptChunk d r1 = Inr (True, r1\<lparr>fr_buffers := (fr_buffers r1)[?i := take ?o ?new @ c @ drop (?o + length c) ?new],
      fr_received := (fr_received r1)[?i := fr_received r1 ! ?i + length c]\<rparr>)"
    using assms(3) i le new_len by (simp add: acceptChunk_def Let_def e r1 del: take_append drop_append)
  then have "acceptChunk d r1 = Inr (True, ?r2)"
    unfolding same using i by (simp add: r1)
  then show ?thesis using i len by (auto simp: received_def r1)
qed

theorem duplicate_chunk_counts_witness:
  "\<exists>r2. acceptChunk (encodeFileChunk 0 0 [9])
      \<lparr>fr_entries = [\<lparr>fe_name = ''a'', fe_size = 2\<rparr>], fr_buffers = [[9, 0]], fr_received = [1]\<rparr>
      = Inr (True, r2) \<and> fr_buffers r2 = [[9, 0]] \<and> received 0 r2 = 2"
proof -
  let ?r0 = "\<lparr>fr_entries = [\<lparr>fe_name = ''a'', fe_size = 2\<rparr>], fr_buffers = [[0, 0]], fr_received = [0]\<rparr>"
  let ?r1 = "\<lparr>fr_entries = [\<lparr>fe_name = ''a'', fe_size = 2\<rparr>], fr_buffers = [[9, 0]], fr_received = [1]\<rparr>"
  have "receiver_ok ?r0" "chunk_fits (encodeFileChunk 0 0 [9])"
    by (simp_all add: receiver_ok_def chunk_fits_def)
  moreover have "acceptChunk (encodeFileChunk 0 0 [9]) ?r0 = Inr (True, ?r1)"
    by (simp add: acceptChunk_def)
  ultimately show ?thesis
    using duplicate_chunk_counts [of ?r0 "encodeFileChunk 0 0 [9]" 0 0 "[9]" ?r1] by (simp add: received_def numeral_2_eq_2)
qed

end
