(* ===== verification/Liveness.thy ===== *)
theory Liveness
  imports PeerCodecs
begin

text \<open>
  The two "last seen" tables of the program, \<open>core/heartbeat.{h,cpp}\<close> and
  \<open>net/discovery_table.{h,cpp}\<close>, with the clock passed in as in the code.  Ages are 64-bit
  differences \<open>now - last\<close> that wrap.  Both provide the contract \<open>last_seen\<close>, in which what a
  history of sightings makes of the table is proved once.
\<close>

section \<open>The contract\<close>

locale last_seen =
  fixes sight :: "'a \<Rightarrow> u64 \<Rightarrow> 's \<Rightarrow> 's"
    and key :: "'a \<Rightarrow> PeerId"
    and val :: "'a \<Rightarrow> u64 \<Rightarrow> 'v"
    and seen :: "'s \<Rightarrow> PeerId \<Rightarrow> 'v option"
    and ok :: "'s \<Rightarrow> bool"
    and start :: 's
  assumes ok_start: "ok start"
    and seen_start: "seen start k = None"
    and ok_sight: "ok s \<Longrightarrow> ok (sight a t s)"
    and seen_sight: "ok s \<Longrightarrow> seen (sight a t s) = (seen s)(key a \<mapsto> val a t)"
begin

definition run :: "('a \<times> u64) list \<Rightarrow> 's \<Rightarrow> 's" where
  "run evs s = fold (\<lambda>(a, t). sight a t) evs s"

lemma run_seen:
  "ok s \<Longrightarrow> ok (run evs s) \<and> seen (run evs s) = seen s ++ map_of (rev (map (\<lambda>(a, t). (key a, val a t)) evs))"
proof (induction evs arbitrary: s)
  case Nil
  then show ?case by (simp add: run_def)
next
  case (Cons e evs)
  obtain a t where e: "e = (a, t)" by (cases e)
  have "run (e # evs) s = run evs (sight a t s)" by (simp add: run_def e)
  then show ?case
    using Cons.IH [OF ok_sight [OF Cons.prems, of a t]] Cons.prems
    by (auto simp: e seen_sight map_add_def fun_eq_iff split: option.splits)
qed

lemma run_start:
  "ok (run evs start)" "seen (run evs start) k = map_of (rev (map (\<lambda>(a, t). (key a, val a t)) evs)) k"
  using run_seen [OF ok_start, of evs] by (auto simp: map_add_def seen_start split: option.splits)

end

section \<open>Heartbeat watchdog\<close>

record Heartbeat =
  hb_last :: "(PeerId, u64) omap"

definition heartbeatInit :: Heartbeat where
  "heartbeatInit = \<lparr>hb_last = []\<rparr>"

definition onHeartbeat :: "PeerId \<Rightarrow> u64 \<Rightarrow> Heartbeat \<Rightarrow> Heartbeat" where
  "onHeartbeat peer now h = h\<lparr>hb_last := omap_set peer now (hb_last h)\<rparr>"

definition isAlive :: "PeerId \<Rightarrow> u64 \<Rightarrow> u64 \<Rightarrow> Heartbeat \<Rightarrow> bool" where
  "isAlive peer now timeout h \<longleftrightarrow>
     (case map_of (hb_last h) peer of None \<Rightarrow> False | Some t \<Rightarrow> now - t < timeout)"

definition timedOut :: "u64 \<Rightarrow> u64 \<Rightarrow> Heartbeat \<Rightarrow> PeerId list" where
  "timedOut now timeout h = map fst (filter (\<lambda>kv. now - snd kv \<ge> timeout) (hb_last h))"

definition forget :: "PeerId \<Rightarrow> Heartbeat \<Rightarrow> Heartbeat" where
  "forget peer h = h\<lparr>hb_last := omap_erase peer (hb_last h)\<rparr>"

definition known :: "PeerId \<Rightarrow> Heartbeat \<Rightarrow> bool" where
  "known peer h \<longleftrightarrow> map_of (hb_last h) peer \<noteq> None"

definition heartbeat_ok :: "Heartbeat \<Rightarrow> bool" where
  "heartbeat_ok h \<longleftrightarrow> omap_ok (hb_last h)"

lemma heartbeat_ok_simps [simp]:
  "heartbeat_ok heartbeatInit"
  "heartbeat_ok h \<Longrightarrow> heartbeat_ok (onHeartbeat p t h)"
  "heartbeat_ok h \<Longrightarrow> heartbeat_ok (forget p h)"
  by (simp_all add: heartbeat_ok_def heartbeatInit_def onHeartbeat_def forget_def omap_simps)

interpretation hb: last_seen onHeartbeat "\<lambda>p. p" "\<lambda>p t. t" "\<lambda>h. map_of (hb_last h)" heartbeat_ok heartbeatInit
  by unfold_locales
    (auto simp: heartbeat_ok_def heartbeatInit_def onHeartbeat_def omap_simps)

lemma known_forget [simp]: "known p (forget q h) \<longleftrightarrow> p \<noteq> q \<and> known p h"
  by (simp add: known_def forget_def omap_simps)

lemma timedOut_iff:
  assumes "heartbeat_ok h"
  shows "p \<in> set (timedOut now timeout h) \<longleftrightarrow> known p h \<and> \<not> isAlive p now timeout h"
proof -
  have "p \<in> set (timedOut now timeout h) \<longleftrightarrow> (\<exists>t. (p, t) \<in> set (hb_last h) \<and> now - t \<ge> timeout)"
    by (force simp: timedOut_def)
  also have "\<dots> \<longleftrightarrow> known p h \<and> \<not> isAlive p now timeout h"
    using assms by (auto simp: heartbeat_ok_def omap_mem_iff known_def isAlive_def not_less)
  finally show ?thesis .
qed

lemma isAlive_known: "isAlive p now timeout h \<Longrightarrow> known p h"
  by (auto simp: isAlive_def known_def split: option.splits)

lemma alive_window:
  assumes "map_of (hb_last h) p = Some t" "t \<le> now"
  shows "isAlive p now timeout h \<longleftrightarrow> unat now < unat t + unat timeout"
proof -
  have "unat (now - t) = unat now - unat t" "unat t \<le> unat now"
    using assms(2) by (simp_all add: unat_sub word_le_nat_alt)
  then show ?thesis using assms(1) by (auto simp: isAlive_def word_less_nat_alt)
qed

lemma clock_backwards:
  assumes "map_of (hb_last h) p = Some t" "now < t" "unat timeout + (unat t - unat now) \<le> 2 ^ 64"
  shows "\<not> isAlive p now timeout h"
proof -
  have "unat (now - t) = unat now + 2 ^ 64 - unat t"
    using assms(2) by (simp add: unat_sub_if' word_less_nat_alt)
  then show ?thesis
    using assms by (simp add: isAlive_def word_less_nat_alt)
qed

section \<open>Discovery table\<close>

record DiscoveryTable =
  dt_entries :: "(string, Beacon \<times> u64) omap"

definition discoveryInit :: DiscoveryTable where
  "discoveryInit = \<lparr>dt_entries = []\<rparr>"

definition onBeacon :: "Beacon \<Rightarrow> u64 \<Rightarrow> DiscoveryTable \<Rightarrow> DiscoveryTable" where
  "onBeacon b now d = d\<lparr>dt_entries := omap_set (b_id b) (b, now) (dt_entries d)\<rparr>"

definition live :: "u64 \<Rightarrow> u64 \<Rightarrow> DiscoveryTable \<Rightarrow> Beacon list" where
  "live now timeout d = map (fst \<circ> snd) (filter (\<lambda>kv. now - snd (snd kv) < timeout) (dt_entries d))"

text \<open>The erase loop of \<open>purge\<close>, entry by entry.\<close>

fun purge_loop :: "u64 \<Rightarrow> u64 \<Rightarrow> (string, Beacon \<times> u64) omap \<Rightarrow> (string, Beacon \<times> u64) omap" where
  "purge_loop now timeout [] = []"
| "purge_loop now timeout (kv # es) =
     (if now - snd (snd kv) \<ge> timeout then purge_loop now timeout es
      else kv # purge_loop now timeout es)"

definition purge :: "u64 \<Rightarrow> u64 \<Rightarrow> DiscoveryTable \<Rightarrow> DiscoveryTable" where
  "purge now timeout d = d\<lparr>dt_entries := purge_loop now timeout (dt_entries d)\<rparr>"

definition table_size :: "DiscoveryTable \<Rightarrow> nat" where
  "table_size d = length (dt_entries d)"

lemma purge_loop_filter: "purge_loop now timeout es = filter (\<lambda>kv. now - snd (snd kv) < timeout) es"
  by (induction es) (auto simp: not_less)

definition discovery_ok :: "DiscoveryTable \<Rightarrow> bool" where
  "discovery_ok d \<longleftrightarrow> omap_ok (dt_entries d) \<and> (\<forall>(k, b, t) \<in> set (dt_entries d). b_id b = k)"

lemma discovery_ok_purge [simp]: "discovery_ok d \<Longrightarrow> discovery_ok (purge now timeout d)"
  by (auto simp: discovery_ok_def purge_def purge_loop_filter omap_filter_ok)

lemma set_omap_set: "omap_ok m \<Longrightarrow> set (omap_set k v m) = insert (k, v) {e \<in> set m. fst e \<noteq> k}"
  by (auto simp: omap_mem_iff omap_set_ok map_of_omap_set split: if_splits)

lemma discovery_ok_beacon: "discovery_ok d \<Longrightarrow> discovery_ok (onBeacon b t d)"
  by (auto simp: discovery_ok_def onBeacon_def omap_set_ok set_omap_set)

interpretation disc: last_seen onBeacon b_id Pair "\<lambda>d. map_of (dt_entries d)" discovery_ok discoveryInit
proof
  show "discovery_ok discoveryInit" by (simp add: discovery_ok_def discoveryInit_def)
  show "map_of (dt_entries discoveryInit) k = None" for k by (simp add: discoveryInit_def)
  show "discovery_ok (onBeacon b t d)" if "discovery_ok d" for b t d
    using that by (rule discovery_ok_beacon)
  show "map_of (dt_entries (onBeacon b t d)) = (map_of (dt_entries d))(b_id b \<mapsto> (b, t))"
    if "discovery_ok d" for b t d
    using that by (simp add: discovery_ok_def onBeacon_def map_of_omap_set)
qed

lemma live_iff:
  assumes "discovery_ok d"
  shows "b \<in> set (live now timeout d) \<longleftrightarrow>
    (\<exists>t. map_of (dt_entries d) (b_id b) = Some (b, t) \<and> now - t < timeout)"
proof -
  have "b \<in> set (live now timeout d) \<longleftrightarrow> (\<exists>k t. (k, b, t) \<in> set (dt_entries d) \<and> now - t < timeout)"
    by (force simp: live_def)
  moreover have "k = b_id b" if "(k, b, t) \<in> set (dt_entries d)" for k t
    using assms that by (auto simp: discovery_ok_def)
  ultimately have "b \<in> set (live now timeout d) \<longleftrightarrow> (\<exists>t. (b_id b, b, t) \<in> set (dt_entries d) \<and> now - t < timeout)"
    by blast
  then show ?thesis using assms by (simp add: discovery_ok_def omap_mem_iff)
qed

lemma live_purge [simp]: "live now timeout (purge now timeout d) = live now timeout d"
  by (simp add: live_def purge_def purge_loop_filter)

lemma size_purge: "table_size (purge now timeout d) = length (live now timeout d)"
  by (simp add: table_size_def live_def purge_def purge_loop_filter)

section \<open>Properties\<close>

text \<open>
  The watchdog judges a peer by its last heartbeat only: after any history of heartbeats
  a peer is alive iff its most recent one is younger than the timeout, the timed-out peers
  are exactly the known ones that are not alive, and forgetting a peer removes it alone.
\<close>

theorem heartbeat_history:
  "(isAlive p now timeout (fold (\<lambda>(q, t). onHeartbeat q t) evs heartbeatInit) \<longleftrightarrow>
      (\<exists>t. map_of (rev evs) p = Some t \<and> now - t < timeout))
   \<and> (p \<in> set (timedOut now timeout (fold (\<lambda>(q, t). onHeartbeat q t) evs heartbeatInit)) \<longleftrightarrow>
      (\<exists>t. map_of (rev evs) p = Some t \<and> timeout \<le> now - t))
   \<and> (known p (forget q (fold (\<lambda>(q, t). onHeartbeat q t) evs heartbeatInit)) \<longleftrightarrow>
      p \<noteq> q \<and> p \<in> fst ` set evs)"
proof -
  let ?h = "fold (\<lambda>(q, t). onHeartbeat q t) evs heartbeatInit"
  have run: "hb.run evs heartbeatInit = ?h" by (simp add: hb.run_def)
  have seen: "map_of (hb_last ?h) k = map_of (rev evs) k" for k
    using hb.run_start(2) [of evs k] by (simp add: run)
  have "heartbeat_ok ?h" using hb.run_start(1) [of evs] by (simp add: run)
  moreover have "known k ?h \<longleftrightarrow> k \<in> fst ` set evs" for k
    by (metis known_def seen map_of_eq_None_iff set_rev)
  moreover have "isAlive p now timeout ?h \<longleftrightarrow> (\<exists>t. map_of (rev evs) p = Some t \<and> now - t < timeout)"
    by (auto simp: isAlive_def seen split: option.splits)
  moreover have "known p ?h \<and> \<not> isAlive p now timeout ?h \<longleftrightarrow>
      (\<exists>t. map_of (rev evs) p = Some t \<and> timeout \<le> now - t)"
    by (auto simp: isAlive_def known_def seen not_less split: option.splits)
  ultimately show ?thesis by (simp only: timedOut_iff known_forget)
qed

text \<open>
  The discovery list holds exactly the machines whose latest beacon is younger than the
  timeout, each with that latest beacon, and purging drops exactly the others.
\<close>

theorem discovery_history:
  "(b \<in> set (live now timeout (fold (\<lambda>(b, t). onBeacon b t) evs discoveryInit)) \<longleftrightarrow>
      (\<exists>t. map_of (rev (map (\<lambda>(b, t). (b_id b, (b, t))) evs)) (b_id b) = Some (b, t) \<and> now - t < timeout))
   \<and> live now timeout (purge now timeout d) = live now timeout d
   \<and> table_size (purge now timeout d) = length (live now timeout d)"
proof -
  let ?d = "fold (\<lambda>(b, t). onBeacon b t) evs discoveryInit"
  have run: "disc.run evs discoveryInit = ?d" by (simp add: disc.run_def)
  have "discovery_ok ?d" using disc.run_start(1) [of evs] by (simp add: run)
  moreover have "map_of (dt_entries ?d) k = map_of (rev (map (\<lambda>(b, t). (b_id b, (b, t))) evs)) k" for k
    using disc.run_start(2) [of evs k] by (simp add: run)
  ultimately show ?thesis by (simp add: live_iff size_purge)
qed

end
