(* ===== verification/WakeFlow.thy ===== *)
theory WakeFlow
  imports Prelude
begin

text \<open>
  The "Waking..." state machine of \<open>core/wake_flow.{h,cpp}\<close>: a bounded wait for a machine
  that was sent a Wake-on-LAN packet.
\<close>

datatype WakeStatus = WakeIdle | Waking | WakeConnected | WakeTimedOut

record WakeFlow =
  wf_status :: WakeStatus
  wf_target :: PeerId
  wf_start :: u64
  wf_timeout :: u64

definition wakeInit :: WakeFlow where
  "wakeInit = \<lparr>wf_status = WakeIdle, wf_target = [], wf_start = 0, wf_timeout = 0\<rparr>"

definition wake_start :: "PeerId \<Rightarrow> u64 \<Rightarrow> u64 \<Rightarrow> WakeFlow \<Rightarrow> WakeFlow" where
  "wake_start target now timeout w =
     \<lparr>wf_status = Waking, wf_target = target, wf_start = now, wf_timeout = timeout\<rparr>"

definition wake_update :: "u64 \<Rightarrow> bool \<Rightarrow> WakeFlow \<Rightarrow> WakeStatus \<times> WakeFlow" where
  "wake_update now targetOnline w =
     (if wf_status w \<noteq> Waking then (wf_status w, w)
      else let w1 = (if targetOnline then w\<lparr>wf_status := WakeConnected\<rparr>
                     else if now \<ge> wf_start w \<and> now - wf_start w \<ge> wf_timeout w
                     then w\<lparr>wf_status := WakeTimedOut\<rparr> else w) in
        (wf_status w1, w1))"

definition isWaking :: "WakeFlow \<Rightarrow> bool" where
  "isWaking w \<longleftrightarrow> wf_status w = Waking"

definition wake_reset :: "WakeFlow \<Rightarrow> WakeFlow" where
  "wake_reset w = w\<lparr>wf_status := WakeIdle, wf_target := [], wf_start := 0, wf_timeout := 0\<rparr>"

section \<open>Runs of the flow\<close>

definition wake_run :: "(u64 \<times> bool) list \<Rightarrow> WakeFlow \<Rightarrow> WakeFlow" where
  "wake_run evs w = fold (\<lambda>(now, on) w. snd (wake_update now on w)) evs w"

text \<open>The first poll at which the target is online or the window has elapsed.\<close>

definition deciding :: "u64 \<Rightarrow> u64 \<Rightarrow> u64 \<times> bool \<Rightarrow> bool" where
  "deciding start timeout e \<longleftrightarrow> snd e \<or> unat start + unat timeout \<le> unat (fst e)"

lemma window_elapsed:
  "now \<ge> st \<and> now - st \<ge> timeout \<longleftrightarrow> unat st + unat timeout \<le> unat (now :: u64)"
proof (cases "st \<le> now")
  case True
  then have "unat (now - st) = unat now - unat st" "unat st \<le> unat now"
    by (simp_all add: unat_sub word_le_nat_alt)
  then show ?thesis using True by (auto simp: word_le_nat_alt)
next
  case False
  then show ?thesis by (auto simp: word_le_nat_alt)
qed

lemma wake_run_sticky: "wf_status w \<noteq> Waking \<Longrightarrow> wake_run evs w = w"
proof (induction evs)
  case Nil
  then show ?case by (simp add: wake_run_def)
next
  case (Cons e evs)
  then show ?case by (cases e) (simp add: wake_run_def wake_update_def)
qed

lemma wake_run_waking:
  "wf_status w = Waking \<Longrightarrow> wf_start w = t0 \<Longrightarrow> wf_timeout w = tmo \<Longrightarrow>
     wake_run evs w = w\<lparr>wf_status := (case find (deciding t0 tmo) evs of None \<Rightarrow> Waking
        | Some e \<Rightarrow> if snd e then WakeConnected else WakeTimedOut)\<rparr>"
proof (induction evs arbitrary: w)
  case Nil
  then show ?case by (simp add: wake_run_def)
next
  case (Cons e evs)
  obtain now on where e: "e = (now, on)" by (cases e)
  have step: "wake_run (e # evs) w = wake_run evs (snd (wake_update now on w))"
    by (simp add: wake_run_def e)
  show ?case
  proof (cases "deciding t0 tmo e")
    case True
    then have "snd (wake_update now on w) = w\<lparr>wf_status := (if on then WakeConnected else WakeTimedOut)\<rparr>"
      using Cons.prems window_elapsed [of t0 now tmo] by (auto simp: wake_update_def deciding_def e)
    then show ?thesis using True by (simp add: step wake_run_sticky) (simp add: e)
  next
    case False
    then have "snd (wake_update now on w) = w"
      using Cons.prems window_elapsed [of t0 now tmo] by (auto simp: wake_update_def deciding_def e)
    then show ?thesis using False Cons by (simp add: step)
  qed
qed

section \<open>Properties\<close>

text \<open>
  A wake attempt resolves exactly once, at the first poll that sees the target online
  (Connected, even at the deadline itself) or the whole window elapsed (TimedOut); until
  then it stays Waking, afterwards nothing but a reset or a new start changes it, and the
  target is kept throughout.
\<close>

theorem wake_resolves:
  "wf_status (wake_run evs (wake_start target t0 tmo w)) =
     (case find (\<lambda>(now, on). on \<or> unat t0 + unat tmo \<le> unat now) evs of None \<Rightarrow> Waking
      | Some (now, on) \<Rightarrow> if on then WakeConnected else WakeTimedOut)
   \<and> wf_target (wake_run evs (wake_start target t0 tmo w)) = target"
proof -
  have "deciding t0 tmo = (\<lambda>(now, on). on \<or> unat t0 + unat tmo \<le> unat now)"
    by (auto simp: deciding_def fun_eq_iff)
  then show ?thesis
    using wake_run_waking [of "wake_start target t0 tmo w" t0 tmo evs]
    by (auto simp: wake_start_def split: option.splits prod.splits)
qed

end
