(* ===== verification/Clipboard.thy ===== *)
theory Clipboard
  imports Prelude
begin

text \<open>
  The echo guard of \<open>core/clipboard_sync.{h,cpp}\<close>: the hash of the text last applied from a
  peer, and the decision whether a local clipboard change is to be broadcast.
\<close>

definition fnv_prime :: u64 where
  "fnv_prime = 1099511628211"

definition clip_hash :: "string \<Rightarrow> u64" where
  "clip_hash s = fold (\<lambda>c h. (h XOR ucast (byte_of_char c)) * fnv_prime) s 1469598103934665603"

record ClipboardSync =
  cs_pendingRemoteHash :: u64
  cs_hasPending :: bool

definition clipboardInit :: ClipboardSync where
  "clipboardInit = \<lparr>cs_pendingRemoteHash = 0, cs_hasPending = False\<rparr>"

definition noteAppliedRemote :: "string \<Rightarrow> ClipboardSync \<Rightarrow> ClipboardSync" where
  "noteAppliedRemote text c = c\<lparr>cs_pendingRemoteHash := clip_hash text, cs_hasPending := True\<rparr>"

definition shouldBroadcastLocalChange :: "string \<Rightarrow> ClipboardSync \<Rightarrow> bool \<times> ClipboardSync" where
  "shouldBroadcastLocalChange text c =
     (let h = clip_hash text in
      if cs_hasPending c \<and> h = cs_pendingRemoteHash c then (False, c\<lparr>cs_hasPending := False\<rparr>)
      else (True, c\<lparr>cs_hasPending := False\<rparr>))"

section \<open>The hash separates near texts\<close>

text \<open>The multiplier is odd, so each round of the hash is a bijection of the state.\<close>

lemma fnv_prime_inverse: "fnv_prime * 14886173955864302971 = 1"
  by (simp add: fnv_prime_def)

lemma fnv_round_inject: "a * fnv_prime = b * fnv_prime \<longleftrightarrow> a = b"
proof
  assume "a * fnv_prime = b * fnv_prime"
  then have "a * (fnv_prime * 14886173955864302971) = b * (fnv_prime * 14886173955864302971)"
    by (simp only: mult.assoc [symmetric])
  then show "a = b" by (simp only: fnv_prime_inverse mult_1_right)
qed simp

definition clip_round :: "char \<Rightarrow> u64 \<Rightarrow> u64" where
  "clip_round c h = (h XOR ucast (byte_of_char c)) * fnv_prime"

lemma clip_round_state: "clip_round c h = clip_round c h' \<longleftrightarrow> h = h'"
proof
  assume "clip_round c h = clip_round c h'"
  then have "(h XOR ucast (byte_of_char c)) XOR ucast (byte_of_char c)
      = (h' XOR ucast (byte_of_char c)) XOR ucast (byte_of_char c)"
    by (simp add: clip_round_def fnv_round_inject)
  then show "h = h'" by (simp add: xor.assoc)
qed simp

lemma clip_round_char: "clip_round c h = clip_round d h \<longleftrightarrow> c = d"
proof
  assume "clip_round c h = clip_round d h"
  then have "h XOR (h XOR ucast (byte_of_char c)) = h XOR (h XOR (ucast (byte_of_char d) :: u64))"
    by (simp add: clip_round_def fnv_round_inject)
  then have "(ucast (byte_of_char c) :: u64) = ucast (byte_of_char d)"
    by (simp add: xor.assoc [symmetric])
  moreover have "ucast (ucast x :: u64) = x" for x :: u8
    by (intro bit_word_eqI) (auto simp: bit_simps dest: bit_imp_le_length)
  ultimately have "byte_of_char c = byte_of_char d" by metis
  then show "c = d" by (metis char_of_byte_of_char)
qed simp

lemma fold_round_inject: "fold clip_round s h = fold clip_round s h' \<longleftrightarrow> h = h'"
  by (induction s arbitrary: h h') (simp_all add: clip_round_state)

lemma clip_hash_round: "clip_hash s = fold clip_round s 1469598103934665603"
  by (simp add: clip_hash_def clip_round_def [abs_def])

lemma clip_hash_one_char: "c \<noteq> d \<Longrightarrow> clip_hash (pre @ c # post) \<noteq> clip_hash (pre @ d # post)"
  by (simp add: clip_hash_round fold_round_inject clip_round_char)

text \<open>
  The start value is a digit short of FNV-1a's 64-bit offset basis 14695981039346656037.
\<close>

lemma hash_recurrence:
  "clip_hash '''' = 1469598103934665603 \<and> clip_hash '''' \<noteq> 14695981039346656037
   \<and> clip_hash (s @ [x]) = (clip_hash s XOR ucast (byte_of_char x)) * 1099511628211"
  by (simp add: clip_hash_def fnv_prime_def)

section \<open>Properties\<close>

text \<open>
  The guard suppresses exactly one change, and only one with the hash of the text just
  applied: the echo is not broadcast, the same text changed again is, and any change after
  that, or a change whose hash differs, is broadcast and clears the guard.
\<close>

theorem echo_suppressed_once:
  "fst (shouldBroadcastLocalChange s (noteAppliedRemote t c)) = (clip_hash s \<noteq> clip_hash t)
   \<and> fst (shouldBroadcastLocalChange t (noteAppliedRemote t c)) = False
   \<and> fst (shouldBroadcastLocalChange u (snd (shouldBroadcastLocalChange s c)))
   \<and> fst (shouldBroadcastLocalChange s clipboardInit)"
  by (simp add: shouldBroadcastLocalChange_def noteAppliedRemote_def clipboardInit_def Let_def)

text \<open>
  A genuine edit that replaces one character of the text just applied always gets
  through: two texts that differ in exactly one position never have the same hash.
\<close>

theorem single_edit_broadcast:
  assumes "a \<noteq> b"
  shows "clip_hash (pre @ a # post) \<noteq> clip_hash (pre @ b # post)
   \<and> fst (shouldBroadcastLocalChange (pre @ b # post) (noteAppliedRemote (pre @ a # post) c))"
  using clip_hash_one_char [OF assms, of pre post]
  by (auto simp: shouldBroadcastLocalChange_def noteAppliedRemote_def Let_def)

theorem single_edit_broadcast_witness:
  "fst (shouldBroadcastLocalChange ''cat'' (noteAppliedRemote ''cut'' clipboardInit))"
  using single_edit_broadcast [of "CHR ''u''" "CHR ''a''" "''c''" "''t''" clipboardInit] by simp

end
