(* ===== verification/Input.thy ===== *)
theory Input
  imports Messages
begin

text \<open>
  The owner's input path: \<open>core/input_tracker.{h,cpp}\<close>, which keys and buttons are down, and
  \<open>core/input_pipeline.{h,cpp}\<close>, which turns captured input into wire events; and the sink
  that applies such events to its own keyboard and mouse state, as the injection callback
  of the tray does.  The \<open>std::set<uint8_t>\<close>s are strictly sorted lists.
\<close>

section \<open>Tracker\<close>

record InputTracker =
  it_keysDown :: "u8 list"
  it_buttonsDown :: "u8 list"

record Release =
  rel_code :: u8
  rel_isButton :: bool

definition trackerInit :: InputTracker where
  "trackerInit = \<lparr>it_keysDown = [], it_buttonsDown = []\<rparr>"

definition tracker_onKey :: "u8 \<Rightarrow> bool \<Rightarrow> InputTracker \<Rightarrow> InputTracker" where
  "tracker_onKey code down t =
     (if down then t\<lparr>it_keysDown := oset_insert code (it_keysDown t)\<rparr>
      else t\<lparr>it_keysDown := oset_erase code (it_keysDown t)\<rparr>)"

definition tracker_onButton :: "u8 \<Rightarrow> bool \<Rightarrow> InputTracker \<Rightarrow> InputTracker" where
  "tracker_onButton code down t =
     (if down then t\<lparr>it_buttonsDown := oset_insert code (it_buttonsDown t)\<rparr>
      else t\<lparr>it_buttonsDown := oset_erase code (it_buttonsDown t)\<rparr>)"

definition isKeyDown :: "u8 \<Rightarrow> InputTracker \<Rightarrow> bool" where
  "isKeyDown code t \<longleftrightarrow> code \<in> set (it_keysDown t)"

definition isButtonDown :: "u8 \<Rightarrow> InputTracker \<Rightarrow> bool" where
  "isButtonDown code t \<longleftrightarrow> code \<in> set (it_buttonsDown t)"

definition downCount :: "InputTracker \<Rightarrow> nat" where
  "downCount t = length (it_keysDown t) + length (it_buttonsDown t)"

definition tracker_clear :: "InputTracker \<Rightarrow> InputTracker" where
  "tracker_clear t = t\<lparr>it_keysDown := [], it_buttonsDown := []\<rparr>"

definition drainReleases :: "InputTracker \<Rightarrow> Release list \<times> InputTracker" where
  "drainReleases t =
     (map (\<lambda>c. \<lparr>rel_code = c, rel_isButton = True\<rparr>) (it_buttonsDown t)
        @ map (\<lambda>c. \<lparr>rel_code = c, rel_isButton = False\<rparr>) (it_keysDown t),
      tracker_clear t)"

definition tracker_ok :: "InputTracker \<Rightarrow> bool" where
  "tracker_ok t \<longleftrightarrow> oset_ok (it_keysDown t) \<and> oset_ok (it_buttonsDown t)"

lemma tracker_ok_simps [simp]:
  "tracker_ok trackerInit"
  "tracker_ok t \<Longrightarrow> tracker_ok (tracker_onKey k d t)"
  "tracker_ok t \<Longrightarrow> tracker_ok (tracker_onButton k d t)"
  "tracker_ok (tracker_clear t)"
  by (simp_all add: tracker_ok_def trackerInit_def tracker_onKey_def tracker_onButton_def
      tracker_clear_def oset_insert_ok oset_erase_ok)

section \<open>Pipeline\<close>

definition make_event :: "MessageType \<Rightarrow> u16 \<Rightarrow> u16 \<Rightarrow> u8 \<Rightarrow> u8 \<Rightarrow> u32 \<Rightarrow> InputEvent" where
  "make_event t dx dy code down ts =
     zero_event\<lparr>ev_version := kProtocolVersion, ev_type := mt_code t, ev_dx := dx, ev_dy := dy,
       ev_code := code, ev_down := down, ev_ts := ts\<rparr>"

definition make_msg :: "MessageType \<Rightarrow> u16 \<Rightarrow> u16 \<Rightarrow> u8 \<Rightarrow> u8 \<Rightarrow> u32 \<Rightarrow> bytes" where
  "make_msg t dx dy code down ts = encodeInputEvent (make_event t dx dy code down ts)"

definition pipe_onMouseMove :: "u16 \<Rightarrow> u16 \<Rightarrow> u32 \<Rightarrow> InputTracker \<Rightarrow> bytes \<times> InputTracker" where
  "pipe_onMouseMove dx dy ts t = (make_msg MouseMove dx dy 0 0 ts, t)"

definition pipe_onMouseButton :: "u8 \<Rightarrow> bool \<Rightarrow> u32 \<Rightarrow> InputTracker \<Rightarrow> bytes \<times> InputTracker" where
  "pipe_onMouseButton button down ts t =
     (make_msg MouseButton 0 0 button (if down then 1 else 0) ts, tracker_onButton button down t)"

definition pipe_onKey :: "u8 \<Rightarrow> bool \<Rightarrow> u32 \<Rightarrow> InputTracker \<Rightarrow> bytes \<times> InputTracker" where
  "pipe_onKey code down ts t =
     (make_msg KeyEvent 0 0 code (if down then 1 else 0) ts, tracker_onKey code down t)"

definition pipe_releaseAll :: "u32 \<Rightarrow> InputTracker \<Rightarrow> bytes list \<times> InputTracker" where
  "pipe_releaseAll ts t =
     (let (rs, t') = drainReleases t in
      (map (\<lambda>r. make_msg (if rel_isButton r then MouseButton else KeyEvent) 0 0 (rel_code r) 0 ts) rs, t'))"

lemma make_msg_simps [simp]: "length (make_msg ty dx dy c d ts) = 12" "make_msg ty dx dy c d ts \<noteq> []"
  by (simp add: make_msg_def, metis length_encodeInputEvent list.size(3) make_msg_def zero_neq_numeral)

lemma decode_make_msg:
  "isFixedType ty \<Longrightarrow> decodeMessage (make_msg ty dx dy c d ts) out =
     DecOk (out\<lparr>dm_isFixed := True, dm_type := ty, dm_fixed := make_event ty dx dy c d ts\<rparr>) 12"
  using decode_fixed_event [of "make_event ty dx dy c d ts" ty "[]" out]
  by (simp add: make_msg_def make_event_def)

section \<open>A captured history and a sink\<close>

datatype capture_event = CapMove u16 u16 u32 | CapButton u8 bool u32 | CapKey u8 bool u32

fun pipe_step :: "capture_event \<Rightarrow> InputTracker \<Rightarrow> bytes \<times> InputTracker" where
  "pipe_step (CapMove dx dy ts) t = pipe_onMouseMove dx dy ts t"
| "pipe_step (CapButton b d ts) t = pipe_onMouseButton b d ts t"
| "pipe_step (CapKey k d ts) t = pipe_onKey k d ts t"

fun pipe_run :: "capture_event list \<Rightarrow> InputTracker \<Rightarrow> bytes list \<times> InputTracker" where
  "pipe_run [] t = ([], t)"
| "pipe_run (e # es) t =
     (let (m, t1) = pipe_step e t; (ms, t2) = pipe_run es t1 in (m # ms, t2))"

text \<open>
  A sink's keyboard and buttons, as the sets of codes its OS believes to be down, and its
  handling of one received message: decode, and press or release by \<open>type\<close> and \<open>down\<close>.
\<close>

record sink =
  sk_keys :: "u8 set"
  sk_buttons :: "u8 set"

definition sink_inject :: "InputEvent \<Rightarrow> sink \<Rightarrow> sink" where
  "sink_inject e s =
     (if ev_type e = mt_code KeyEvent then
        s\<lparr>sk_keys := (if ev_down e \<noteq> 0 then insert (ev_code e) (sk_keys s) else sk_keys s - {ev_code e})\<rparr>
      else if ev_type e = mt_code MouseButton then
        s\<lparr>sk_buttons := (if ev_down e \<noteq> 0 then insert (ev_code e) (sk_buttons s)
                         else sk_buttons s - {ev_code e})\<rparr>
      else s)"

definition sink_recv :: "bytes \<Rightarrow> sink \<Rightarrow> sink" where
  "sink_recv m s =
     (case decodeMessage m emptyMessage of
        DecOk d n \<Rightarrow> if dm_isFixed d then sink_inject (dm_fixed d) s else s
      | _ \<Rightarrow> s)"

definition sink_of :: "InputTracker \<Rightarrow> sink" where
  "sink_of t = \<lparr>sk_keys = set (it_keysDown t), sk_buttons = set (it_buttonsDown t)\<rparr>"

lemma sink_make_msg:
  "sink_recv (make_msg KeyEvent dx dy c d ts) s =
     s\<lparr>sk_keys := (if d \<noteq> 0 then insert c (sk_keys s) else sk_keys s - {c})\<rparr>"
  "sink_recv (make_msg MouseButton dx dy c d ts) s =
     s\<lparr>sk_buttons := (if d \<noteq> 0 then insert c (sk_buttons s) else sk_buttons s - {c})\<rparr>"
  "sink_recv (make_msg MouseMove dx dy c d ts) s = s"
  using decode_make_msg [of KeyEvent dx dy c d ts emptyMessage]
    decode_make_msg [of MouseButton dx dy c d ts emptyMessage]
    decode_make_msg [of MouseMove dx dy c d ts emptyMessage]
  by (simp_all add: sink_recv_def isFixedType_def sink_inject_def make_event_def)

lemma sink_step:
  "sink_recv (fst (pipe_step e t)) (sink_of t) = sink_of (snd (pipe_step e t))"
  by (cases e) (auto simp: pipe_onMouseMove_def pipe_onMouseButton_def pipe_onKey_def sink_make_msg
      sink_of_def tracker_onKey_def tracker_onButton_def set_oset_insert set_oset_erase)

lemma sink_follows:
  "fold sink_recv (fst (pipe_run es t)) (sink_of t) = sink_of (snd (pipe_run es t))"
proof (induction es arbitrary: t)
  case Nil
  then show ?case by simp
next
  case (Cons e es)
  then show ?case
    using sink_step [of e t] by (cases "pipe_step e t") (auto simp: split_beta)
qed

lemma fold_release_buttons:
  "fold (\<lambda>c. sink_recv (make_msg MouseButton 0 0 c 0 ts)) cs s = s\<lparr>sk_buttons := sk_buttons s - set cs\<rparr>"
  by (induction cs arbitrary: s) (simp_all add: sink_make_msg Diff_insert2 [symmetric])

lemma fold_release_keys:
  "fold (\<lambda>c. sink_recv (make_msg KeyEvent 0 0 c 0 ts)) cs s = s\<lparr>sk_keys := sk_keys s - set cs\<rparr>"
  by (induction cs arbitrary: s) (simp_all add: sink_make_msg Diff_insert2 [symmetric])

lemma release_all_sink:
  "fold sink_recv (fst (pipe_releaseAll ts t)) s
     = s\<lparr>sk_buttons := sk_buttons s - set (it_buttonsDown t), sk_keys := sk_keys s - set (it_keysDown t)\<rparr>"
  using fold_release_buttons [of ts "it_buttonsDown t" s]
    fold_release_keys [of ts "it_keysDown t" "s\<lparr>sk_buttons := sk_buttons s - set (it_buttonsDown t)\<rparr>"]
  by (simp add: pipe_releaseAll_def drainReleases_def fold_map comp_def)

section \<open>Properties\<close>


end
