(* ===== verification/Hotkey.thy ===== *)
theory Hotkey
  imports Texts
begin

text \<open>
  The hotkey parser of \<open>core/hotkey.{h,cpp}\<close> and the modifier translation of
  \<open>core/key_translation.{h,cpp}\<close>.  \<open>None\<close> in \<open>keyFor\<close> and \<open>parseHotkey\<close> is the undefined
  behaviour of a signed overflow in the \<open>f<digits>\<close> loop.
\<close>

section \<open>Hotkey strings\<close>

record Hotkey =
  hk_modifiers :: u32
  hk_key :: u16
  hk_valid :: bool

definition hotkeyInit :: Hotkey where
  "hotkeyInit = \<lparr>hk_modifiers = 0, hk_key = 0, hk_valid = False\<rparr>"

definition lower :: "string \<Rightarrow> string" where
  "lower s = map (\<lambda>c. if (of_char c :: nat) \<ge> 65 \<and> (of_char c :: nat) \<le> 90
                      then char_of ((of_char c :: nat) - 65 + 97) else c) s"

definition isBlank :: "char \<Rightarrow> bool" where
  "isBlank c \<longleftrightarrow> c = CHR '' '' \<or> c = CHR 0x09"

definition trim :: "string \<Rightarrow> string" where
  "trim s = rev (dropWhile isBlank (rev (dropWhile isBlank s)))"

definition key_names :: "(string \<times> u16) list" where
  "key_names = [(''space'', 0x20), (''enter'', 0x0D), (''return'', 0x0D), (''tab'', 0x09),
     (''esc'', 0x1B), (''escape'', 0x1B), (''backspace'', 0x08), (''delete'', 0x2E), (''del'', 0x2E),
     (''insert'', 0x2D), (''ins'', 0x2D), (''home'', 0x24), (''end'', 0x23), (''pageup'', 0x21),
     (''pgup'', 0x21), (''pagedown'', 0x22), (''pgdn'', 0x22), (''left'', 0x25), (''up'', 0x26),
     (''right'', 0x27), (''down'', 0x28)]"

datatype f_result = FBad | FNum int | FOverflow

fun f_number :: "int \<Rightarrow> string \<Rightarrow> f_result" where
  "f_number n [] = FNum n"
| "f_number n (c # s) =
     (if \<not> isDigit c then FBad
      else if n * 10 + int (digit_val c) > 2 ^ 31 - 1 then FOverflow
      else f_number (n * 10 + int (digit_val c)) s)"

definition plain_key :: "string \<Rightarrow> u16 option" where
  "plain_key t =
     (if length t = 1 then
        let c = (of_char (t ! 0) :: nat) in
        if c \<ge> 97 \<and> c \<le> 122 then Some (word_of_nat (65 + (c - 97)))
        else if c \<ge> 48 \<and> c \<le> 57 then Some (word_of_nat (48 + (c - 48)))
        else None
      else None)"

definition keyFor :: "string \<Rightarrow> u16 option" where
  "keyFor t =
     (case plain_key t of Some v \<Rightarrow> Some v
      | None \<Rightarrow>
        (case map_of key_names t of Some v \<Rightarrow> Some v
         | None \<Rightarrow>
           if length t \<ge> 2 \<and> t ! 0 = CHR ''f'' then
             (case f_number 0 (tl t) of
                FBad \<Rightarrow> Some 0
              | FOverflow \<Rightarrow> None
              | FNum n \<Rightarrow> if n \<ge> 1 \<and> n \<le> 24 then Some (word_of_int (0x70 + (n - 1))) else Some 0)
           else Some 0))"

definition mod_names :: "(string \<times> u32) list" where
  "mod_names = [(''ctrl'', 2), (''control'', 2), (''alt'', 1), (''option'', 1), (''opt'', 1),
     (''shift'', 4), (''win'', 8), (''cmd'', 8), (''super'', 8), (''meta'', 8)]"

definition hotkey_tokens :: "string \<Rightarrow> string list" where
  "hotkey_tokens s = split_acc (CHR ''+'') [] s"

fun hk_loop :: "string list \<Rightarrow> Hotkey \<Rightarrow> bool \<Rightarrow> Hotkey option" where
  "hk_loop [] hk haveKey = Some (hk\<lparr>hk_valid := haveKey\<rparr>)"
| "hk_loop (raw # toks) hk haveKey =
     (let t = lower (trim raw) in
      if t = [] then Some hotkeyInit
      else case map_of mod_names t of
        Some m \<Rightarrow> hk_loop toks (hk\<lparr>hk_modifiers := hk_modifiers hk OR m\<rparr>) haveKey
      | None \<Rightarrow>
          (case keyFor t of None \<Rightarrow> None
           | Some vk \<Rightarrow>
               if vk = 0 then Some hotkeyInit
               else if haveKey then Some hotkeyInit
               else hk_loop toks (hk\<lparr>hk_key := vk\<rparr>) True))"

definition parseHotkey :: "string \<Rightarrow> Hotkey option" where
  "parseHotkey s = hk_loop (hotkey_tokens s) hotkeyInit False"

section \<open>What the parser accepts\<close>

lemma f_number_no_overflow:
  "0 \<le> n \<Longrightarrow> (n + 1) * 10 ^ length s \<le> 2 ^ 31 \<Longrightarrow> f_number n s \<noteq> FOverflow"
proof (induction s arbitrary: n)
  case Nil
  then show ?case by simp
next
  case (Cons c s)
  show ?case
  proof (cases "isDigit c")
    case True
    then have d: "int (digit_val c) \<le> 9" by (auto simp: digit_val_def isDigit_def)
    let ?m = "n * 10 + int (digit_val c)"
    have "?m + 1 \<le> (n + 1) * 10" using d by simp
    then have "(?m + 1) * 10 ^ length s \<le> ((n + 1) * 10) * 10 ^ length s"
      by (rule mult_right_mono) simp
    then have le: "(?m + 1) * 10 ^ length s \<le> 2 ^ 31" using Cons.prems(2) by (simp only: list.size power_Suc mult.assoc add_0_right add_Suc_right)
    moreover have "(?m + 1) * 1 \<le> (?m + 1) * 10 ^ length s"
      using Cons.prems(1) by (intro mult_left_mono) simp_all
    ultimately have "?m + 1 \<le> 2 ^ 31" by simp
    then show ?thesis using Cons.IH [of ?m] Cons.prems(1) le True by simp
  next
    case False
    then show ?thesis by simp
  qed
qed

lemma keyFor_defined: "length t \<le> 10 \<Longrightarrow> keyFor t \<noteq> None"
proof -
  assume "length t \<le> 10"
  then have "(10::int) ^ length (tl t) \<le> 10 ^ 9" by (intro power_increasing) simp_all
  then have "f_number 0 (tl t) \<noteq> FOverflow" by (intro f_number_no_overflow) simp_all
  then show ?thesis by (auto simp: keyFor_def split: option.splits f_result.splits if_splits)
qed

definition norm_tokens :: "string \<Rightarrow> string list" where
  "norm_tokens s = map (lower \<circ> trim) (hotkey_tokens s)"

definition isMod :: "string \<Rightarrow> bool" where
  "isMod t \<longleftrightarrow> map_of mod_names t \<noteq> None"

definition isKey :: "string \<Rightarrow> bool" where
  "isKey t \<longleftrightarrow> t \<noteq> [] \<and> \<not> isMod t \<and> keyFor t \<noteq> Some 0"

definition or_mods :: "u32 \<Rightarrow> string list \<Rightarrow> u32" where
  "or_mods m ts = fold (\<lambda>t m. case map_of mod_names t of None \<Rightarrow> m | Some k \<Rightarrow> m OR k) ts m"

lemma isMod_nonempty: "isMod t \<Longrightarrow> t \<noteq> []"
  by (auto simp: isMod_def mod_names_def)

text \<open>The loop over tokens that are already trimmed and lowered.\<close>

fun hk_norm :: "string list \<Rightarrow> Hotkey \<Rightarrow> bool \<Rightarrow> Hotkey option" where
  "hk_norm [] hk b = Some (hk\<lparr>hk_valid := b\<rparr>)"
| "hk_norm (t # ts) hk b =
     (if t = [] then Some hotkeyInit
      else case map_of mod_names t of
        Some m \<Rightarrow> hk_norm ts (hk\<lparr>hk_modifiers := hk_modifiers hk OR m\<rparr>) b
      | None \<Rightarrow>
          (case keyFor t of None \<Rightarrow> None
           | Some vk \<Rightarrow>
               if vk = 0 then Some hotkeyInit
               else if b then Some hotkeyInit
               else hk_norm ts (hk\<lparr>hk_key := vk\<rparr>) True))"

lemma hk_loop_norm: "hk_loop toks hk b = hk_norm (map (lower \<circ> trim) toks) hk b"
proof (induction toks arbitrary: hk b)
  case Nil
  show ?case by simp
next
  case (Cons t toks)
  show ?case
    unfolding hk_loop.simps list.map hk_norm.simps Let_def comp_apply Cons.IH ..
qed

lemma or_mods_Cons:
  "or_mods m (t # ts) = or_mods (case map_of mod_names t of None \<Rightarrow> m | Some k \<Rightarrow> m OR k) ts"
  by (simp add: or_mods_def)

lemma hk_norm_spec:
  assumes "\<forall>t \<in> set ts. keyFor t \<noteq> None"
  shows "\<exists>h. hk_norm ts hk b = Some h
    \<and> (hk_valid h \<longleftrightarrow> (\<forall>t \<in> set ts. isMod t \<or> isKey t)
          \<and> length (filter isKey ts) + (if b then 1 else 0) = 1)
    \<and> (hk_valid h \<longrightarrow> hk_modifiers h = or_mods (hk_modifiers hk) ts
          \<and> Some (hk_key h) = (if b then Some (hk_key hk) else keyFor (hd (filter isKey ts))))"
  using assms
proof (induction ts arbitrary: hk b)
  case Nil
  then show ?case by (simp add: or_mods_def)
next
  case (Cons t ts)
  consider (empty) "t = []" | (modi) m where "t \<noteq> []" "map_of mod_names t = Some m"
    | (bad) "t \<noteq> []" "map_of mod_names t = None" "keyFor t = Some 0"
    | (key) vk where "t \<noteq> []" "map_of mod_names t = None" "keyFor t = Some vk" "vk \<noteq> 0"
    using Cons.prems by (cases "map_of mod_names t") auto
  then show ?case
  proof cases
    case empty
    then have "\<not> isMod t \<and> \<not> isKey t" using isMod_nonempty by (auto simp: isKey_def)
    then show ?thesis using empty by (auto simp: hotkeyInit_def)
  next
    case modi
    then have "isMod t" "\<not> isKey t" by (auto simp: isMod_def isKey_def)
    then show ?thesis
      using modi Cons.IH [of "hk\<lparr>hk_modifiers := hk_modifiers hk OR m\<rparr>" b] Cons.prems
      by (cases b) (simp_all add: or_mods_Cons)
  next
    case bad
    then have "\<not> isKey t \<and> \<not> isMod t" by (simp add: isKey_def isMod_def)
    then show ?thesis using bad by (simp add: hotkeyInit_def)
  next
    case key
    then have k: "isKey t" by (simp add: isKey_def isMod_def)
    show ?thesis
    proof (cases b)
      case True
      then show ?thesis using key k by (simp add: hotkeyInit_def)
    next
      case False
      then show ?thesis
        using key k Cons.IH [of "hk\<lparr>hk_key := vk\<rparr>" True] Cons.prems
        by (simp add: or_mods_Cons)
    qed
  qed
qed

section \<open>Properties of the parser\<close>

text \<open>
  A hotkey string whose tokens have at most ten characters is parsed without undefined
  behaviour, and is valid iff every "+"-separated token is, up to case and surrounding
  blanks, a modifier or a key name and exactly one of them is a key; then the modifier mask
  is the OR of the named modifiers and the key code that of the one key.
\<close>

theorem hotkey_accepts:
  assumes "\<forall>t \<in> set (norm_tokens s). length t \<le> 10"
  shows "\<exists>h. parseHotkey s = Some h
    \<and> (hk_valid h \<longleftrightarrow> (\<forall>t \<in> set (norm_tokens s). isMod t \<or> isKey t)
                        \<and> length (filter isKey (norm_tokens s)) = 1)
    \<and> (hk_valid h \<longrightarrow> hk_modifiers h = or_mods 0 (norm_tokens s)
                        \<and> Some (hk_key h) = keyFor (hd (filter isKey (norm_tokens s))))"
proof -
  have "\<forall>t \<in> set (norm_tokens s). keyFor t \<noteq> None"
    using assms keyFor_defined by blast
  from hk_norm_spec [OF this, of hotkeyInit False] show ?thesis
    by (simp add: parseHotkey_def hk_loop_norm norm_tokens_def [symmetric])
      (simp add: hotkeyInit_def)
qed

theorem hotkey_accepts_witness:
  "parseHotkey ''Ctrl+Alt+ Space'' = Some \<lparr>hk_modifiers = 3, hk_key = 0x20, hk_valid = True\<rparr>
   \<and> (\<exists>h. parseHotkey ''Ctrl+Alt+ Space'' = Some h \<and> hk_modifiers h = or_mods 0 (norm_tokens ''Ctrl+Alt+ Space''))"
proof -
  have v: "parseHotkey ''Ctrl+Alt+ Space'' = Some \<lparr>hk_modifiers = 3, hk_key = 0x20, hk_valid = True\<rparr>"
    by code_simp
  have "\<forall>t \<in> set (norm_tokens ''Ctrl+Alt+ Space''). length t \<le> 10" by code_simp
  from hotkey_accepts [OF this] v show ?thesis by auto
qed

section \<open>Modifier translation\<close>

datatype Os = Windows | MacOS

definition translateModifier :: "Os \<Rightarrow> Os \<Rightarrow> u8 \<Rightarrow> u8" where
  "translateModifier from to code =
     (if from = to then code
      else if from = Windows \<and> to = MacOS then
        (if code = 0xA2 then 0x3B else if code = 0xA3 then 0x3E
         else if code = 0x5B then 0x3A else if code = 0x5C then 0x3D
         else if code = 0xA4 then 0x37 else if code = 0xA5 then 0x36
         else if code = 0xA0 then 0x38 else if code = 0xA1 then 0x3C
         else code)
      else
        (if code = 0x3B then 0xA2 else if code = 0x3E then 0xA3
         else if code = 0x3A then 0x5B else if code = 0x3D then 0x5C
         else if code = 0x37 then 0xA4 else if code = 0x36 then 0xA5
         else if code = 0x38 then 0xA0 else if code = 0x3C then 0xA1
         else code))"

definition modifiers_of :: "Os \<Rightarrow> u8 list" where
  "modifiers_of os = (case os of
     Windows \<Rightarrow> [0xA2, 0xA3, 0x5B, 0x5C, 0xA4, 0xA5, 0xA0, 0xA1]
   | MacOS \<Rightarrow> [0x3B, 0x3E, 0x3A, 0x3D, 0x37, 0x36, 0x38, 0x3C])"

text \<open>
  Modifier translation is an exact inverse pair on the modifiers, takes the modifiers of
  one system onto those of the other, is the identity between equal systems, and leaves
  every other code unchanged.
\<close>

theorem modifier_inverse:
  assumes "code \<in> set (modifiers_of from)"
  shows "translateModifier to from (translateModifier from to code) = code
    \<and> translateModifier from to code \<in> set (modifiers_of to)
    \<and> translateModifier to to c = c
    \<and> (c \<in> set (modifiers_of from) \<or> translateModifier from to c = c)"
  using assms
  by (cases "from"; cases "to") (auto simp: translateModifier_def modifiers_of_def)

theorem modifier_inverse_witness:
  "translateModifier MacOS Windows (translateModifier Windows MacOS 0xA4) = 0xA4"
  using modifier_inverse [of "0xA4" Windows MacOS 0] by (simp add: modifiers_of_def)

text \<open>
  It is not injective on all codes: the Windows codes of the digit keys 6, 7 and 8 pass
  through unchanged onto the Mac codes of right Command, Command and Shift.
\<close>

theorem modifier_collision:
  "translateModifier Windows MacOS 0x36 = translateModifier Windows MacOS 0xA5
   \<and> translateModifier Windows MacOS 0x37 = translateModifier Windows MacOS 0xA4
   \<and> translateModifier Windows MacOS 0x38 = translateModifier Windows MacOS 0xA0
   \<and> keyFor ''7'' = Some 0x37"
  by (simp add: translateModifier_def keyFor_def plain_key_def)

section \<open>The overflow\<close>

text \<open>A function-key token with enough digits overflows the \<open>int\<close> accumulator.\<close>

lemma hotkey_overflow: "parseHotkey ''Ctrl+F99999999999'' = None"
  by code_simp

end
