(* ===== verification/Config.thy ===== *)
theory Config
  imports Texts
begin

text \<open>
  The flat configuration file of \<open>core/config.{h,cpp}\<close>: escaping, the field and line
  splitters, the number readers, \<open>serialize\<close> and \<open>parse\<close>, and the device operations.
  \<open>lw\<close> is the width of the platform's \<open>long\<close> (32 on 64-bit Windows, 64 on macOS), whose
  overflow in \<open>toI32\<close> is undefined behaviour: there \<open>toI32\<close> and \<open>parse\<close> are \<open>None\<close>.
\<close>

section \<open>Escaping\<close>

definition nl :: char where "nl = CHR 0x0A"
definition cr :: char where "cr = CHR 0x0D"
definition bs :: char where "bs = CHR 0x5C"

fun esc :: "string \<Rightarrow> string" where
  "esc [] = []"
| "esc (c # s) =
     (if c = bs then [bs, bs] else if c = CHR ''|'' then [bs, CHR ''p'']
      else if c = nl then [bs, CHR ''n''] else if c = cr then [bs, CHR ''r'']
      else [c]) @ esc s"

definition unesc_char :: "char \<Rightarrow> char" where
  "unesc_char n = (if n = bs then bs else if n = CHR ''p'' then CHR ''|''
     else if n = CHR ''n'' then nl else if n = CHR ''r'' then cr else n)"

fun unesc :: "string \<Rightarrow> string" where
  "unesc [] = []"
| "unesc [c] = [c]"
| "unesc (c # n # s) = (if c = bs then unesc_char n # unesc s else c # unesc (n # s))"

lemma unesc_plain: "c \<noteq> bs \<Longrightarrow> unesc (c # s) = c # unesc s"
  by (cases s) auto

lemma unesc_esc [simp]: "unesc (esc s) = s"
  by (induction s) (auto simp: unesc_char_def unesc_plain bs_def nl_def cr_def)

lemma esc_chars: "c \<in> set (esc s) \<Longrightarrow> c \<noteq> nl \<and> c \<noteq> cr \<and> c \<noteq> CHR ''|''"
  by (induction s) (auto simp: bs_def nl_def cr_def split: if_splits)

lemma esc_Nil_iff [simp]: "esc s = [] \<longleftrightarrow> s = []"
  by (cases s) auto

section \<open>Fields and lines\<close>

definition joinFields :: "string list \<Rightarrow> string" where
  "joinFields fields = join_sep (CHR ''|'') (map esc fields)"

definition splitFields :: "string \<Rightarrow> string list" where
  "splitFields s = (if s = [] then [] else map unesc (split_acc (CHR ''|'') [] s))"

definition pop_cr :: "string \<Rightarrow> string" where
  "pop_cr cur = (if cur \<noteq> [] \<and> last cur = cr then butlast cur else cur)"

fun splitLines_acc :: "string \<Rightarrow> string \<Rightarrow> string list" where
  "splitLines_acc cur [] = (if cur = [] then [] else [pop_cr cur])"
| "splitLines_acc cur (c # s) =
     (if c = nl then pop_cr cur # splitLines_acc [] s else splitLines_acc (cur @ [c]) s)"

definition splitLines :: "string \<Rightarrow> string list" where
  "splitLines text = splitLines_acc [] text"

lemma split_join_fields: "fs \<noteq> [[]] \<Longrightarrow> splitFields (joinFields fs) = fs"
proof (cases "fs = []")
  case True
  then show ?thesis by (simp add: splitFields_def joinFields_def)
next
  case False
  assume ne: "fs \<noteq> [[]]"
  have "split_acc (CHR ''|'') [] (joinFields fs) = map esc fs"
    unfolding joinFields_def using False by (intro split_join) (auto dest: esc_chars)
  moreover have "joinFields fs \<noteq> []"
    using False ne by (auto simp: joinFields_def join_sep_Nil_iff map_eq_Cons_conv)
  ultimately show ?thesis by (simp add: splitFields_def map_idI comp_def)
qed

lemma joinFields_chars: "c \<in> set (joinFields fs) \<Longrightarrow> c \<noteq> nl \<and> c \<noteq> cr"
proof -
  assume "c \<in> set (joinFields fs)"
  then have "c = CHR ''|'' \<or> (\<exists>f \<in> set fs. c \<in> set (esc f))"
    using set_join_sep [of "CHR ''|''" "map esc fs"] by (auto simp: joinFields_def)
  then show ?thesis using esc_chars by (auto simp: nl_def cr_def)
qed

lemma splitLines_acc_step:
  "nl \<notin> set l \<Longrightarrow> splitLines_acc cur (l @ nl # s) = pop_cr (cur @ l) # splitLines_acc [] s"
  by (induction l arbitrary: cur) auto

definition line_ok :: "string \<Rightarrow> bool" where
  "line_ok l \<longleftrightarrow> nl \<notin> set l \<and> cr \<notin> set l"

lemma line_ok_append [simp]: "line_ok (a @ b) \<longleftrightarrow> line_ok a \<and> line_ok b"
  by (auto simp: line_ok_def)

lemma line_ok_join [simp]: "line_ok (joinFields fs)" "line_ok (esc s)"
  by (auto simp: line_ok_def dest: joinFields_chars esc_chars)

lemma pop_cr_ok: "cr \<notin> set l \<Longrightarrow> pop_cr l = l"
  by (metis last_in_set pop_cr_def)

lemma splitLines_step:
  "line_ok l \<Longrightarrow> splitLines (l @ nl # s) = l # splitLines s"
  using splitLines_acc_step [of l "[]" s] by (simp add: splitLines_def line_ok_def pop_cr_ok)

lemma splitLines_lines:
  "list_all line_ok ls \<Longrightarrow> splitLines (concat (map (\<lambda>l. l @ [nl]) ls)) = ls"
  by (induction ls) (simp_all add: splitLines_step, simp add: splitLines_def)

section \<open>Numbers\<close>

fun toU16_loop :: "nat \<Rightarrow> string \<Rightarrow> nat" where
  "toU16_loop v [] = v"
| "toU16_loop v (c # s) =
     (if \<not> isDigit c then v
      else if v * 10 + digit_val c > 65535 then 65535
      else toU16_loop (v * 10 + digit_val c) s)"

definition toU16 :: "string \<Rightarrow> u16" where
  "toU16 s = word_of_nat (toU16_loop 0 s)"

text \<open>\<open>v * 10\<close> and the addition are two operations of type \<open>long\<close>; both must fit.\<close>

definition long_fits :: "nat \<Rightarrow> int \<Rightarrow> bool" where
  "long_fits lw v \<longleftrightarrow> - (2 ^ (lw - 1)) \<le> v \<and> v < 2 ^ (lw - 1)"

fun toI32_loop :: "nat \<Rightarrow> int \<Rightarrow> string \<Rightarrow> int option" where
  "toI32_loop lw v [] = Some v"
| "toI32_loop lw v (c # s) =
     (if \<not> isDigit c then Some v
      else if \<not> long_fits lw (v * 10) \<or> \<not> long_fits lw (v * 10 + int (digit_val c)) then None
      else toI32_loop lw (v * 10 + int (digit_val c)) s)"

definition toI32 :: "nat \<Rightarrow> string \<Rightarrow> u32 option" where
  "toI32 lw s =
     (let signed = s \<noteq> [] \<and> (s ! 0 = CHR ''-'' \<or> s ! 0 = CHR ''+'');
          neg = (signed \<and> s ! 0 = CHR ''-'') in
      map_option (\<lambda>v. word_of_int (if neg then - v else v)) (toI32_loop lw 0 (if signed then tl s else s)))"

lemma toU16_loop_digits:
  "list_all isDigit s \<Longrightarrow> digits_value v s \<le> 65535 \<Longrightarrow> toU16_loop v s = digits_value v s"
proof (induction s arbitrary: v)
  case Nil
  then show ?case by simp
next
  case (Cons c s)
  then show ?case using digits_value_le [of "v * 10 + digit_val c" s] by simp
qed

lemma toU16_string [simp]: "toU16 (nat_to_string (unat (p :: u16))) = p"
proof -
  have "unat p \<le> 65535" using unsigned_less [where ?'a = nat, of p] by simp
  then have "toU16_loop 0 (nat_to_string (unat p)) = unat p"
    using toU16_loop_digits [of "nat_to_string (unat p)" 0] nat_to_string_digits
    by (simp add: digits_value_string list_all_iff)
  then show ?thesis by (simp add: toU16_def)
qed

lemma long_fits_mono: "long_fits lw b \<Longrightarrow> 0 \<le> a \<Longrightarrow> a \<le> b \<Longrightarrow> long_fits lw a"
proof -
  assume "long_fits lw b" "0 \<le> a" "a \<le> b"
  moreover have "- (2 ^ (lw - 1)) \<le> (0::int)" by simp
  ultimately show "long_fits lw a" unfolding long_fits_def by linarith
qed

lemma toI32_loop_digits:
  "list_all isDigit s \<Longrightarrow> long_fits lw (int (digits_value v s)) \<Longrightarrow>
     toI32_loop lw (int v) s = Some (int (digits_value v s))"
proof (induction s arbitrary: v)
  case Nil
  then show ?case by simp
next
  case (Cons c s)
  have le: "v * 10 + digit_val c \<le> digits_value (v * 10 + digit_val c) s" by (rule digits_value_le)
  have "long_fits lw (int v * 10)" "long_fits lw (int v * 10 + int (digit_val c))"
    using Cons.prems le by (auto intro: long_fits_mono)
  then show ?case using Cons.IH [of "v * 10 + digit_val c"] Cons.prems by simp
qed

text \<open>Every 32-bit value is read back where \<open>long\<close> holds its magnitude.\<close>

definition i32_string :: "u32 \<Rightarrow> string" where
  "i32_string x = int_to_string (sint x)"

definition i32_ok :: "nat \<Rightarrow> u32 \<Rightarrow> bool" where
  "i32_ok lw x \<longleftrightarrow> long_fits lw \<bar>sint x\<bar>"

lemma nat_string_hd: "nat_to_string n ! 0 \<noteq> CHR ''-'' \<and> nat_to_string n ! 0 \<noteq> CHR ''+''"
proof -
  have "nat_to_string n ! 0 \<in> set (nat_to_string n)" by simp
  then show ?thesis using nat_to_string_digits digit_chars_plain by blast
qed

lemma toI32_string: "i32_ok lw x \<Longrightarrow> toI32 lw (i32_string x) = Some x"
proof -
  assume ok: "i32_ok lw x"
  have dig: "list_all isDigit (nat_to_string n)" for n
    using nat_to_string_digits by (auto simp: list_all_iff)
  have loop: "toI32_loop lw 0 (nat_to_string n) = Some (int n)" if "long_fits lw (int n)" for n
    using toI32_loop_digits [OF dig, of lw 0] that by (simp add: digits_value_string)
  show ?thesis
  proof (cases "sint x < 0")
    case True
    then have "toI32_loop lw 0 (nat_to_string (nat (- sint x))) = Some (- sint x)"
      using ok loop [of "nat (- sint x)"] by (simp add: i32_ok_def)
    then show ?thesis using True by (simp add: toI32_def i32_string_def int_to_string_def)
  next
    case False
    then have "toI32_loop lw 0 (nat_to_string (nat (sint x))) = Some (sint x)"
      using ok loop [of "nat (sint x)"] by (simp add: i32_ok_def)
    then show ?thesis
      using False nat_string_hd [of "nat (sint x)"]
      by (simp add: toI32_def i32_string_def int_to_string_def)
  qed
qed

lemma i32_ok_long: "33 \<le> lw \<Longrightarrow> i32_ok lw x"
proof -
  assume "33 \<le> lw"
  then have "(2::int) ^ 32 \<le> 2 ^ (lw - 1)" by (intro power_increasing) simp_all
  moreover have "\<bar>sint x\<bar> \<le> 2 ^ 31"
    using sint_ge [of x] sint_lt [of x] by (simp add: abs_le_iff)
  ultimately show ?thesis by (simp add: i32_ok_def long_fits_def)
qed

section \<open>The configuration\<close>

record PairedDevice =
  pd_id :: PeerId
  pd_name :: string
  pd_last_ip :: string
  pd_port :: u16
  pd_os :: string
  pd_wol :: bool
  pd_mac :: string

record LayoutMonitor =
  lm_machine :: PeerId
  lm_index :: u32
  lm_x :: u32
  lm_y :: u32
  lm_w :: u32
  lm_h :: u32

record Settings =
  st_hotkey :: string
  st_broadcast :: bool
  st_lock_optin :: bool
  st_run_on_startup :: bool

record Config =
  cfg_settings :: Settings
  cfg_devices :: "PairedDevice list"
  cfg_priority :: "PeerId list"
  cfg_ineligible :: "PeerId list"
  cfg_monitors :: "LayoutMonitor list"

definition defaultSettings :: Settings where
  "defaultSettings = \<lparr>st_hotkey = ''Ctrl+Alt+Space'', st_broadcast = True, st_lock_optin = False,
     st_run_on_startup = False\<rparr>"

definition defaultConfig :: Config where
  "defaultConfig = \<lparr>cfg_settings = defaultSettings, cfg_devices = [], cfg_priority = [],
     cfg_ineligible = [], cfg_monitors = []\<rparr>"

definition defaultDevice :: PairedDevice where
  "defaultDevice = \<lparr>pd_id = [], pd_name = [], pd_last_ip = [], pd_port = 0, pd_os = [], pd_wol = False,
     pd_mac = []\<rparr>"

definition defaultMonitor :: LayoutMonitor where
  "defaultMonitor = \<lparr>lm_machine = [], lm_index = 0, lm_x = 0, lm_y = 0, lm_w = 0, lm_h = 0\<rparr>"

definition flag_text :: "bool \<Rightarrow> string" where
  "flag_text b = (if b then ''1'' else ''0'')"

definition device_fields :: "PairedDevice \<Rightarrow> string list" where
  "device_fields d = [pd_id d, pd_name d, pd_last_ip d, nat_to_string (unat (pd_port d)), pd_os d,
     flag_text (pd_wol d), pd_mac d]"

definition monitor_fields :: "LayoutMonitor \<Rightarrow> string list" where
  "monitor_fields m = [lm_machine m, i32_string (lm_index m), i32_string (lm_x m), i32_string (lm_y m),
     i32_string (lm_w m), i32_string (lm_h m)]"

definition config_lines :: "Config \<Rightarrow> string list" where
  "config_lines c =
     [''# Skittermouse config'', ''version=1'',
      ''setting.hotkey='' @ esc (st_hotkey (cfg_settings c)),
      ''setting.broadcast='' @ flag_text (st_broadcast (cfg_settings c)),
      ''setting.lock_optin='' @ flag_text (st_lock_optin (cfg_settings c)),
      ''setting.run_on_startup='' @ flag_text (st_run_on_startup (cfg_settings c))]
     @ map (\<lambda>d. ''device='' @ joinFields (device_fields d)) (cfg_devices c)
     @ [''priority='' @ joinFields (cfg_priority c), ''ineligible='' @ joinFields (cfg_ineligible c)]
     @ map (\<lambda>m. ''monitor='' @ joinFields (monitor_fields m)) (cfg_monitors c)"

definition serialize :: "Config \<Rightarrow> string" where
  "serialize c = concat (map (\<lambda>l. l @ [nl]) (config_lines c))"

text \<open>\<open>if (f.size() > i) x = f[i];\<close>: a field that is absent leaves the default.\<close>

definition field :: "nat \<Rightarrow> string list \<Rightarrow> string option" where
  "field i f = (if length f > i then Some (f ! i) else None)"

definition parse_device :: "string \<Rightarrow> PairedDevice" where
  "parse_device val =
     (let f = splitFields val in
      \<lparr>pd_id = case_option (pd_id defaultDevice) id (field 0 f),
       pd_name = case_option (pd_name defaultDevice) id (field 1 f),
       pd_last_ip = case_option (pd_last_ip defaultDevice) id (field 2 f),
       pd_port = case_option (pd_port defaultDevice) toU16 (field 3 f),
       pd_os = case_option (pd_os defaultDevice) id (field 4 f),
       pd_wol = case_option (pd_wol defaultDevice) (\<lambda>x. x = ''1'') (field 5 f),
       pd_mac = case_option (pd_mac defaultDevice) id (field 6 f)\<rparr>)"

text \<open>The five \<open>toI32\<close> reads in order; any of them may overflow.\<close>

definition parse_monitor :: "nat \<Rightarrow> string \<Rightarrow> LayoutMonitor option" where
  "parse_monitor lw val =
     (let f = splitFields val; rd = (\<lambda>i. case field i f of None \<Rightarrow> Some 0 | Some x \<Rightarrow> toI32 lw x) in
      case (rd 1, rd 2, rd 3, rd 4, rd 5) of
        (Some i, Some x, Some y, Some w, Some h) \<Rightarrow>
          Some \<lparr>lm_machine = case_option [] id (field 0 f), lm_index = i, lm_x = x, lm_y = y, lm_w = w, lm_h = h\<rparr>
      | _ \<Rightarrow> None)"

definition apply_key :: "nat \<Rightarrow> string \<Rightarrow> string \<Rightarrow> Config \<Rightarrow> Config option" where
  "apply_key lw key val c =
     (if key = ''setting.hotkey'' then
        Some (c\<lparr>cfg_settings := (cfg_settings c)\<lparr>st_hotkey := unesc val\<rparr>\<rparr>)
      else if key = ''setting.broadcast'' then
        Some (c\<lparr>cfg_settings := (cfg_settings c)\<lparr>st_broadcast := (val = ''1'')\<rparr>\<rparr>)
      else if key = ''setting.lock_optin'' then
        Some (c\<lparr>cfg_settings := (cfg_settings c)\<lparr>st_lock_optin := (val = ''1'')\<rparr>\<rparr>)
      else if key = ''setting.run_on_startup'' then
        Some (c\<lparr>cfg_settings := (cfg_settings c)\<lparr>st_run_on_startup := (val = ''1'')\<rparr>\<rparr>)
      else if key = ''device'' then Some (c\<lparr>cfg_devices := cfg_devices c @ [parse_device val]\<rparr>)
      else if key = ''priority'' then Some (c\<lparr>cfg_priority := splitFields val\<rparr>)
      else if key = ''ineligible'' then Some (c\<lparr>cfg_ineligible := splitFields val\<rparr>)
      else if key = ''monitor'' then
        map_option (\<lambda>m. c\<lparr>cfg_monitors := cfg_monitors c @ [m]\<rparr>) (parse_monitor lw val)
      else Some c)"

definition parse_line :: "nat \<Rightarrow> string \<Rightarrow> Config \<Rightarrow> Config option" where
  "parse_line lw line c =
     (if line = [] \<or> line ! 0 = CHR ''#'' then Some c
      else if CHR ''='' \<notin> set line then Some c
      else apply_key lw (takeWhile (\<lambda>x. x \<noteq> CHR ''='') line) (tl (dropWhile (\<lambda>x. x \<noteq> CHR ''='') line)) c)"

fun parse_lines :: "nat \<Rightarrow> string list \<Rightarrow> Config \<Rightarrow> Config option" where
  "parse_lines lw [] c = Some c"
| "parse_lines lw (l # ls) c =
     (case parse_line lw l c of None \<Rightarrow> None | Some c' \<Rightarrow> parse_lines lw ls c')"

definition parse :: "nat \<Rightarrow> string \<Rightarrow> Config option" where
  "parse lw text = parse_lines lw (splitLines text) defaultConfig"

text \<open>The file is \<open>None\<close> when it cannot be opened.\<close>

definition loadFromFile :: "nat \<Rightarrow> string option \<Rightarrow> Config option" where
  "loadFromFile lw file = (case file of None \<Rightarrow> Some defaultConfig | Some text \<Rightarrow> parse lw text)"

fun replace_first :: "PairedDevice \<Rightarrow> PairedDevice list \<Rightarrow> PairedDevice list option" where
  "replace_first d [] = None"
| "replace_first d (e # es) =
     (if pd_id e = pd_id d then Some (d # es) else map_option ((#) e) (replace_first d es))"

definition addDevice :: "PairedDevice \<Rightarrow> Config \<Rightarrow> Config" where
  "addDevice d c =
     (let c1 = c\<lparr>cfg_devices := (case replace_first d (cfg_devices c) of None \<Rightarrow> cfg_devices c @ [d] | Some ds \<Rightarrow> ds)\<rparr>;
          inPriority = (pd_id d \<in> set (cfg_priority c));
          removed = (pd_id d \<in> set (cfg_ineligible c)) in
      if \<not> inPriority \<and> \<not> removed then c1\<lparr>cfg_priority := cfg_priority c @ [pd_id d]\<rparr> else c1)"

definition findDevice :: "PeerId \<Rightarrow> Config \<Rightarrow> PairedDevice option" where
  "findDevice i c = find (\<lambda>d. pd_id d = i) (cfg_devices c)"

section \<open>Round trip\<close>

lemma flag_text_1 [simp]: "flag_text b = ''1'' \<longleftrightarrow> b"
  by (simp add: flag_text_def)

lemma parse_device_fields [simp]: "parse_device (joinFields (device_fields d)) = d"
proof -
  have "splitFields (joinFields (device_fields d)) = device_fields d"
    by (rule split_join_fields) (simp add: device_fields_def)
  then show ?thesis
    unfolding parse_device_def Let_def by (simp add: device_fields_def field_def)
qed

definition monitor_ok :: "nat \<Rightarrow> LayoutMonitor \<Rightarrow> bool" where
  "monitor_ok lw m \<longleftrightarrow> list_all (i32_ok lw) [lm_index m, lm_x m, lm_y m, lm_w m, lm_h m]"

lemma parse_monitor_fields: "monitor_ok lw m \<Longrightarrow> parse_monitor lw (joinFields (monitor_fields m)) = Some m"
proof -
  assume ok: "monitor_ok lw m"
  have "splitFields (joinFields (monitor_fields m)) = monitor_fields m"
    by (rule split_join_fields) (simp add: monitor_fields_def)
  then show ?thesis
    using ok unfolding parse_monitor_def Let_def
    by (simp add: monitor_fields_def field_def monitor_ok_def toI32_string)
qed

lemma span_key:
  "x \<notin> set key \<Longrightarrow> takeWhile (\<lambda>c. c \<noteq> x) (key @ x # v) = key \<and> dropWhile (\<lambda>c. c \<noteq> x) (key @ x # v) = x # v"
  by (induction key) auto

lemma parse_key_line:
  assumes "CHR ''='' \<notin> set key" "key \<noteq> []" "key ! 0 \<noteq> CHR ''#''"
  shows "parse_line lw (key @ CHR ''='' # val) c = apply_key lw key val c"
proof -
  note span_key [OF assms(1), of val]
  then show ?thesis using assms by (simp add: parse_line_def nth_append)
qed

lemma parse_lines_append:
  "parse_lines lw (ls @ ms) c = (case parse_lines lw ls c of None \<Rightarrow> None | Some c' \<Rightarrow> parse_lines lw ms c')"
  by (induction ls arbitrary: c) (auto split: option.splits)

lemma parse_device_lines:
  "parse_lines lw (map (\<lambda>d. ''device='' @ joinFields (device_fields d)) ds) c
     = Some (c\<lparr>cfg_devices := cfg_devices c @ ds\<rparr>)"
proof (induction ds arbitrary: c)
  case Nil
  then show ?case by simp
next
  case (Cons d ds)
  have "parse_line lw (''device'' @ CHR ''='' # joinFields (device_fields d)) c
      = Some (c\<lparr>cfg_devices := cfg_devices c @ [d]\<rparr>)"
    by (subst parse_key_line) (simp_all add: apply_key_def)
  then show ?case using Cons by simp
qed

lemma parse_monitor_lines:
  "list_all (monitor_ok lw) ms \<Longrightarrow>
     parse_lines lw (map (\<lambda>m. ''monitor='' @ joinFields (monitor_fields m)) ms) c
       = Some (c\<lparr>cfg_monitors := cfg_monitors c @ ms\<rparr>)"
proof (induction ms arbitrary: c)
  case Nil
  then show ?case by simp
next
  case (Cons m ms)
  have "parse_line lw (''monitor'' @ CHR ''='' # joinFields (monitor_fields m)) c
      = Some (c\<lparr>cfg_monitors := cfg_monitors c @ [m]\<rparr>)"
    using Cons.prems by (subst parse_key_line) (simp_all add: apply_key_def parse_monitor_fields)
  then show ?case using Cons by simp
qed

lemma config_lines_ok: "list_all line_ok (config_lines c)"
proof -
  have lit: "line_ok ''# Skittermouse config''" "line_ok ''version=1''" "line_ok ''setting.hotkey=''"
    "line_ok ''setting.broadcast=''" "line_ok ''setting.lock_optin=''" "line_ok ''setting.run_on_startup=''"
    "line_ok ''device=''" "line_ok ''priority=''" "line_ok ''ineligible=''" "line_ok ''monitor=''"
    "line_ok (flag_text b)" for b
    by (simp_all add: line_ok_def nl_def cr_def flag_text_def)
  show ?thesis
    unfolding config_lines_def list_all_append list.pred_inject list.pred_map comp_def
    by (simp only: line_ok_append lit line_ok_join simp_thms list.pred_True list.pred_inject)
qed

definition config_ok :: "nat \<Rightarrow> Config \<Rightarrow> bool" where
  "config_ok lw c \<longleftrightarrow> cfg_priority c \<noteq> [[]] \<and> cfg_ineligible c \<noteq> [[]]
     \<and> list_all (monitor_ok lw) (cfg_monitors c)"

lemma splitLines_serialize: "splitLines (serialize c) = config_lines c"
  unfolding serialize_def by (rule splitLines_lines [OF config_lines_ok])

lemma parse_setting_lines:
  "parse_lines lw [''# Skittermouse config'', ''version=1'', ''setting.hotkey='' @ esc h,
      ''setting.broadcast='' @ flag_text b1, ''setting.lock_optin='' @ flag_text b2,
      ''setting.run_on_startup='' @ flag_text b3] c
   = Some (c\<lparr>cfg_settings := \<lparr>st_hotkey = h, st_broadcast = b1, st_lock_optin = b2, st_run_on_startup = b3\<rparr>\<rparr>)"
proof -
  have 1: "parse_line lw ''# Skittermouse config'' c = Some c" for c
    by (simp add: parse_line_def)
  have 2: "parse_line lw (''version'' @ CHR ''='' # ''1'') c = Some c" for c
    by (subst parse_key_line) (simp_all add: apply_key_def)
  have 3: "parse_line lw (''setting.hotkey'' @ CHR ''='' # esc h) c
      = Some (c\<lparr>cfg_settings := (cfg_settings c)\<lparr>st_hotkey := h\<rparr>\<rparr>)" for c
    by (subst parse_key_line) (simp_all add: apply_key_def)
  have 4: "parse_line lw (''setting.broadcast'' @ CHR ''='' # flag_text b1) c
      = Some (c\<lparr>cfg_settings := (cfg_settings c)\<lparr>st_broadcast := b1\<rparr>\<rparr>)" for c
    by (subst parse_key_line) (simp_all add: apply_key_def)
  have 5: "parse_line lw (''setting.lock_optin'' @ CHR ''='' # flag_text b2) c
      = Some (c\<lparr>cfg_settings := (cfg_settings c)\<lparr>st_lock_optin := b2\<rparr>\<rparr>)" for c
    by (subst parse_key_line) (simp_all add: apply_key_def)
  have 6: "parse_line lw (''setting.run_on_startup'' @ CHR ''='' # flag_text b3) c
      = Some (c\<lparr>cfg_settings := (cfg_settings c)\<lparr>st_run_on_startup := b3\<rparr>\<rparr>)" for c
    by (subst parse_key_line) (simp_all add: apply_key_def)
  show ?thesis
    using 1 2 3 4 5 6 by simp
qed

lemma parse_list_lines:
  assumes "p \<noteq> [[]]" "i \<noteq> [[]]"
  shows "parse_lines lw [''priority='' @ joinFields p, ''ineligible='' @ joinFields i] c
   = Some (c\<lparr>cfg_priority := p, cfg_ineligible := i\<rparr>)"
proof -
  have "parse_line lw (''priority'' @ CHR ''='' # joinFields p) c = Some (c\<lparr>cfg_priority := p\<rparr>)" for c
    by (subst parse_key_line) (simp_all add: apply_key_def split_join_fields assms)
  moreover have "parse_line lw (''ineligible'' @ CHR ''='' # joinFields i) c = Some (c\<lparr>cfg_ineligible := i\<rparr>)" for c
    by (subst parse_key_line) (simp_all add: apply_key_def split_join_fields assms)
  ultimately show ?thesis by simp
qed

lemma find_replace: "replace_first d ds = Some ds' \<Longrightarrow>
    find (\<lambda>e. pd_id e = i) ds' = (if i = pd_id d then Some d else find (\<lambda>e. pd_id e = i) ds)"
  by (induction ds arbitrary: ds') (auto split: if_splits)

lemma find_no_replace: "replace_first d ds = None \<Longrightarrow> find (\<lambda>e. pd_id e = pd_id d) ds = None"
  by (induction ds) (auto split: if_splits)

lemma find_append: "find P (xs @ ys) = (case find P xs of None \<Rightarrow> find P ys | Some x \<Rightarrow> Some x)"
  by (induction xs) auto

section \<open>Properties\<close>

lemma parse_serialize:
  assumes "config_ok lw c"
  shows "parse lw (serialize c) = Some c"
proof -
  have lines: "config_lines c =
     [''# Skittermouse config'', ''version=1'', ''setting.hotkey='' @ esc (st_hotkey (cfg_settings c)),
      ''setting.broadcast='' @ flag_text (st_broadcast (cfg_settings c)),
      ''setting.lock_optin='' @ flag_text (st_lock_optin (cfg_settings c)),
      ''setting.run_on_startup='' @ flag_text (st_run_on_startup (cfg_settings c))]
     @ (map (\<lambda>d. ''device='' @ joinFields (device_fields d)) (cfg_devices c)
     @ ([''priority='' @ joinFields (cfg_priority c), ''ineligible='' @ joinFields (cfg_ineligible c)]
     @ map (\<lambda>m. ''monitor='' @ joinFields (monitor_fields m)) (cfg_monitors c)))"
    by (simp only: config_lines_def append_assoc)
  have ok: "cfg_priority c \<noteq> [[]]" "cfg_ineligible c \<noteq> [[]]" "list_all (monitor_ok lw) (cfg_monitors c)"
    using assms by (simp_all add: config_ok_def)
  show ?thesis
    unfolding parse_def splitLines_serialize lines parse_lines_append parse_setting_lines
      parse_device_lines parse_list_lines [OF ok(1,2)] parse_monitor_lines [OF ok(3)] option.case
    by (simp add: defaultConfig_def)
qed

text \<open>
  The configuration survives being written and read back: \<open>parse\<close> of \<open>serialize\<close> is the
  same configuration, for device names, ids and hotkeys with any characters, provided neither id list is the single empty id and the monitor
  coordinates fit the platform's \<open>long\<close> (all do when it has more than 32 bits).
\<close>

theorem config_roundtrip:
  assumes "config_ok lw c"
  shows "parse lw (serialize c) = Some c"
  using parse_serialize [OF assms] .

definition sampleConfig :: Config where
  "sampleConfig = defaultConfig\<lparr>cfg_devices := [defaultDevice\<lparr>pd_id := ''a|b'', pd_port := 47800\<rparr>],
     cfg_priority := [''a|b'', ''''], cfg_monitors := [defaultMonitor\<lparr>lm_x := - 5\<rparr>]\<rparr>"

theorem config_roundtrip_witness: "parse 64 (serialize sampleConfig) = Some sampleConfig"
proof -
  have "config_ok 64 sampleConfig"
    by (simp add: config_ok_def sampleConfig_def monitor_ok_def i32_ok_long defaultConfig_def)
  then show ?thesis by (rule config_roundtrip)
qed

text \<open>
  The parser is forward compatible: a comment, a blank line, a line without "=" and a
  line with a key this version does not know leave the result of the whole file unchanged,
  wherever they stand.
\<close>

definition known_keys :: "string list" where
  "known_keys = [''setting.hotkey'', ''setting.broadcast'', ''setting.lock_optin'',
     ''setting.run_on_startup'', ''device'', ''priority'', ''ineligible'', ''monitor'']"

theorem parse_ignores:
  assumes "line_ok l" "list_all line_ok ls"
    and "l = [] \<or> l ! 0 = CHR ''#'' \<or> CHR ''='' \<notin> set l \<or> takeWhile (\<lambda>x. x \<noteq> CHR ''='') l \<notin> set known_keys"
  shows "parse lw (concat (map (\<lambda>l. l @ [nl]) ls) @ l @ nl # rest)
    = parse lw (concat (map (\<lambda>l. l @ [nl]) ls) @ rest)"
proof -
  have lines: "splitLines (concat (map (\<lambda>l. l @ [nl]) ls) @ s) = ls @ splitLines s" for s
    using assms(2) by (induction ls) (simp_all add: splitLines_step)
  have "parse_line lw l c = Some c" for c
    using assms(3) by (auto simp: parse_line_def apply_key_def known_keys_def)
  then have "parse_lines lw (ls @ l # splitLines rest) c = parse_lines lw (ls @ splitLines rest) c" for c
    by (simp add: parse_lines_append split: option.splits)
  then show ?thesis
    using lines [of "l @ nl # rest"] lines [of rest] by (simp add: parse_def splitLines_step assms(1))
qed

theorem parse_ignores_witness:
  "parse 32 (''theme=dark'' @ [nl] @ ''priority=a|b'') = parse 32 ''priority=a|b''"
  using parse_ignores [of "''theme=dark''" "[]" 32 "''priority=a|b''"]
  by (simp add: line_ok_def known_keys_def nl_def cr_def)

text \<open>
  Pairing stores or updates exactly one device, finds it again under its id and leaves
  all others; the new machine is appended at lowest priority unless it is already listed or
  the user removed it from election.
\<close>

theorem add_device:
  "findDevice (pd_id d) (addDevice d c) = Some d
   \<and> (i \<noteq> pd_id d \<longrightarrow> findDevice i (addDevice d c) = findDevice i c)
   \<and> cfg_priority (addDevice d c) =
       (if pd_id d \<in> set (cfg_priority c) \<or> pd_id d \<in> set (cfg_ineligible c) then cfg_priority c
        else cfg_priority c @ [pd_id d])
   \<and> cfg_ineligible (addDevice d c) = cfg_ineligible c"
proof -
  have "find (\<lambda>e. pd_id e = j) (case replace_first d (cfg_devices c) of None \<Rightarrow> cfg_devices c @ [d] | Some ds \<Rightarrow> ds)
      = (if j = pd_id d then Some d else find (\<lambda>e. pd_id e = j) (cfg_devices c))" for j
  proof (cases "replace_first d (cfg_devices c)")
    case None
    then show ?thesis using find_no_replace [OF None]
      by (auto simp: find_append split: option.splits)
  next
    case (Some ds)
    then show ?thesis using find_replace [OF Some, of j] by simp
  qed
  then show ?thesis by (auto simp: addDevice_def findDevice_def Let_def)
qed

theorem add_device_witness:
  "findDevice ''x'' (addDevice (defaultDevice\<lparr>pd_id := ''y''\<rparr>) sampleConfig) = findDevice ''x'' sampleConfig"
  using add_device [of "defaultDevice\<lparr>pd_id := ''y''\<rparr>" sampleConfig "''x''"] by simp

section \<open>Two limits of the format\<close>

text \<open>The list with the single empty id is read back as the empty list.\<close>

lemma single_empty_id_lost:
  "splitFields (joinFields [[]]) = []"
  by (simp add: splitFields_def joinFields_def)

text \<open>With a 32-bit \<open>long\<close> the smallest coordinate, written by \<open>serialize\<close>, overflows on reading.\<close>

lemma min_coordinate_overflow: "toI32 32 (i32_string 0x80000000) = None"
proof -
  have "sint (0x80000000 :: u32) = - 2147483648" by simp
  moreover have "nat_to_string 2147483648 = ''2147483648''"
    by (simp add: nat_to_string.simps digit_char_def char_of_def bit_0)
  ultimately have "i32_string 0x80000000 = ''-2147483648''"
    by (simp add: i32_string_def int_to_string_def)
  moreover have "toI32_loop 32 0 ''2147483648'' = None"
    by (simp add: isDigit_def digit_val_def long_fits_def)
  ultimately show ?thesis by (simp add: toI32_def)
qed

section \<open>Saving\<close>

text \<open>The file is truncated when it is opened; a write can then fail after some characters.\<close>

datatype disk_result = CannotOpen | WriteFails nat | WriteDone

definition config_saveToFile :: "disk_result \<Rightarrow> Config \<Rightarrow> string option \<Rightarrow> bool \<times> string option" where
  "config_saveToFile disk c file =
     (case disk of
        CannotOpen \<Rightarrow> (False, file)
      | WriteFails n \<Rightarrow> (False, Some (take n (serialize c)))
      | WriteDone \<Rightarrow> (True, Some (serialize c)))"

lemma parse_empty: "parse lw [] = Some defaultConfig"
  by code_simp

text \<open>
  What a save leaves to be loaded: the configuration when it succeeds, the old file when it
  cannot be opened; but as the file is truncated first, a write that fails at once loses every
  setting and paired device, and the next start has the defaults.
\<close>

theorem save_then_load:
  assumes "config_ok lw c"
  shows "loadFromFile lw (snd (config_saveToFile WriteDone c file)) = Some c
    \<and> config_saveToFile CannotOpen c file = (False, file)
    \<and> loadFromFile lw (snd (config_saveToFile (WriteFails 0) c file)) = Some defaultConfig"
  using parse_serialize [OF assms] by (simp add: config_saveToFile_def loadFromFile_def parse_empty)

theorem save_then_load_witness:
  "loadFromFile 64 (snd (config_saveToFile WriteDone sampleConfig None)) = Some sampleConfig"
proof -
  have "config_ok 64 sampleConfig"
    by (simp add: config_ok_def sampleConfig_def monitor_ok_def i32_ok_long defaultConfig_def)
  from save_then_load [OF this] show ?thesis by blast
qed

end
