(* ===== verification/MeshNode.thy ===== *)
theory MeshNode
  imports Ownership Election Liveness Clipboard Input PeerCodecs FileCodecs Transport
begin

text \<open>
  The application logic of one machine, \<open>app/mesh_node.{h,cpp}\<close>.  The node's state is the
  record of the class's members; an operation returns the new state and the calls it makes
  out, in order: \<open>SendTo h m\<close> is \<open>send\<close> on transport \<open>h\<close>, the others are the callbacks (a
  callback the OS layer left unset makes no call).  A transport pointer is \<open>Some\<close> handle, or
  \<open>None\<close> for the null pointer.  \<open>poll\<close> is given what each transport's \<open>recv\<close> yields: the
  messages of successive calls with the 8 KiB buffer, before the first one that returns 0
  or an error.
\<close>

section \<open>State and outputs\<close>

record MeshNode =
  mn_self :: PeerId
  mn_peers :: "(PeerId, nat option) omap"
  mn_peerOnline :: "(PeerId, bool) omap"
  mn_versionWarned :: "PeerId list"
  mn_ownership :: OwnershipState
  mn_election :: ServerElection
  mn_heartbeat :: Heartbeat
  mn_clipboard :: ClipboardSync
  mn_pipeline :: InputTracker
  mn_now :: u64
  mn_lastHeartbeatSent :: u64
  mn_timeoutMs :: u64
  mn_intervalMs :: u64

datatype mesh_out =
    SendTo nat bytes
  | Inject InputEvent
  | RemoteClipboard string
  | OwnerChanged PeerId
  | RemoteFilePromise PeerId "FilePromiseItem list"
  | PeerOnline PeerId
  | PeerOffline PeerId
  | SwitchUnavailable PeerId
  | VersionMismatchWarning PeerId

definition meshInit :: "PeerId \<Rightarrow> MeshNode" where
  "meshInit self =
     \<lparr>mn_self = self, mn_peers = [], mn_peerOnline = [], mn_versionWarned = [],
      mn_ownership = ownershipInit self, mn_election = addToPriority self (electionInit []),
      mn_heartbeat = heartbeatInit, mn_clipboard = clipboardInit, mn_pipeline = trackerInit,
      mn_now = 0, mn_lastHeartbeatSent = 0, mn_timeoutMs = 2000, mn_intervalMs = 500\<rparr>"

section \<open>Operations\<close>

definition mesh_setPriority :: "PeerId list \<Rightarrow> MeshNode \<Rightarrow> MeshNode" where
  "mesh_setPriority priority n = n\<lparr>mn_election := setPriority priority (mn_election n)\<rparr>"

definition mesh_primary :: "MeshNode \<Rightarrow> PeerId option" where
  "mesh_primary n = currentServer (mn_election n)"

definition mesh_addPeer :: "PeerId \<Rightarrow> nat option \<Rightarrow> MeshNode \<Rightarrow> MeshNode" where
  "mesh_addPeer peer transport n =
     n\<lparr>mn_peers := omap_set peer transport (mn_peers n),
       mn_election := addToPriority peer (mn_election n)\<rparr>"

definition mesh_alive :: "PeerId \<Rightarrow> u64 \<Rightarrow> MeshNode \<Rightarrow> bool" where
  "mesh_alive peer now n = isAlive peer now (mn_timeoutMs n) (mn_heartbeat n)"

definition isPeerOnline :: "PeerId \<Rightarrow> MeshNode \<Rightarrow> bool" where
  "isPeerOnline peer n = (if peer = mn_self n then True else mesh_alive peer (mn_now n) n)"

definition mesh_owner :: "MeshNode \<Rightarrow> PeerId" where
  "mesh_owner n = owner (mn_ownership n)"

definition mesh_isLocalOwner :: "MeshNode \<Rightarrow> bool" where
  "mesh_isLocalOwner n = isLocalOwner (mn_ownership n)"

definition broadcast :: "bytes \<Rightarrow> MeshNode \<Rightarrow> mesh_out list" where
  "broadcast msg n = concat (map (\<lambda>kv. case snd kv of None \<Rightarrow> [] | Some h \<Rightarrow> [SendTo h msg]) (mn_peers n))"

text \<open>The online list and the transition callbacks of one pass over the peers.\<close>

definition refresh_peer :: "u64 \<Rightarrow> PeerId \<Rightarrow> MeshNode \<Rightarrow> MeshNode \<times> mesh_out list" where
  "refresh_peer now peer n =
     (let alive = mesh_alive peer now n;
          prev = (map_of (mn_peerOnline n) peer = Some True) in
      if alive \<noteq> prev
      then (n\<lparr>mn_peerOnline := omap_set peer alive (mn_peerOnline n)\<rparr>,
            [if alive then PeerOnline peer else PeerOffline peer])
      else (n, []))"

definition online_list :: "u64 \<Rightarrow> MeshNode \<Rightarrow> PeerId list" where
  "online_list now n = mn_self n # filter (\<lambda>p. mesh_alive p now n) (omap_keys (mn_peers n))"

definition failSafe :: "u64 \<Rightarrow> MeshNode \<Rightarrow> MeshNode \<times> mesh_out list" where
  "failSafe now n =
     (if \<not> mesh_isLocalOwner n \<and> \<not> mesh_alive (mesh_owner n) now n
      then (n\<lparr>mn_ownership := snd (requestSwitchTo (mn_self n) (mn_ownership n))\<rparr>, [OwnerChanged (mn_self n)])
      else (n, []))"

definition refreshOnlineAndFailSafe :: "u64 \<Rightarrow> MeshNode \<Rightarrow> MeshNode \<times> mesh_out list" where
  "refreshOnlineAndFailSafe now n =
     (let (n1, o1) = run_steps (refresh_peer now) (omap_keys (mn_peers n)) n;
          n2 = n1\<lparr>mn_election := setOnline (online_list now n) (mn_election n1)\<rparr>;
          (n3, o2) = failSafe now n2 in
      (n3, o1 @ o2))"

definition mesh_removePeer :: "PeerId \<Rightarrow> MeshNode \<Rightarrow> MeshNode \<times> mesh_out list" where
  "mesh_removePeer peer n =
     (let n1 = n\<lparr>mn_peers := omap_erase peer (mn_peers n), mn_heartbeat := forget peer (mn_heartbeat n)\<rparr>;
          (n2, o1) = (case map_of (mn_peerOnline n1) peer of
              None \<Rightarrow> (n1, [])
            | Some wasOnline \<Rightarrow>
                (n1\<lparr>mn_peerOnline := omap_erase peer (mn_peerOnline n1)\<rparr>,
                 if wasOnline then [PeerOffline peer] else []));
          n3 = n2\<lparr>mn_versionWarned := oset_erase peer (mn_versionWarned n2)\<rparr>;
          (n4, o2) = refreshOnlineAndFailSafe (mn_now n3) n3 in
      (n4, o1 @ o2))"

definition mesh_requestSwitchTo :: "PeerId \<Rightarrow> MeshNode \<Rightarrow> MeshNode \<times> mesh_out list" where
  "mesh_requestSwitchTo target n =
     (if target \<noteq> mn_self n \<and> \<not> isPeerOnline target n then (n, [SwitchUnavailable target])
      else
        let before = mesh_owner n;
            (claim, s) = requestSwitchTo target (mn_ownership n);
            n1 = n\<lparr>mn_ownership := s\<rparr> in
        (n1, broadcast (encodeVarMessage SwitchOwner (encodeOwnershipClaim claim)) n1
             @ (if mesh_owner n1 \<noteq> before then [OwnerChanged (mesh_owner n1)] else [])))"

definition forwardMouseMove :: "u16 \<Rightarrow> u16 \<Rightarrow> u32 \<Rightarrow> MeshNode \<Rightarrow> MeshNode \<times> mesh_out list" where
  "forwardMouseMove dx dy ts n =
     (if \<not> mesh_isLocalOwner n then (n, [])
      else let (m, t) = pipe_onMouseMove dx dy ts (mn_pipeline n) in
        (n\<lparr>mn_pipeline := t\<rparr>, broadcast m n))"

definition forwardMouseButton :: "u8 \<Rightarrow> bool \<Rightarrow> u32 \<Rightarrow> MeshNode \<Rightarrow> MeshNode \<times> mesh_out list" where
  "forwardMouseButton button down ts n =
     (if \<not> mesh_isLocalOwner n then (n, [])
      else let (m, t) = pipe_onMouseButton button down ts (mn_pipeline n) in
        (n\<lparr>mn_pipeline := t\<rparr>, broadcast m n))"

definition forwardKey :: "u8 \<Rightarrow> bool \<Rightarrow> u32 \<Rightarrow> MeshNode \<Rightarrow> MeshNode \<times> mesh_out list" where
  "forwardKey code down ts n =
     (if \<not> mesh_isLocalOwner n then (n, [])
      else let (m, t) = pipe_onKey code down ts (mn_pipeline n) in
        (n\<lparr>mn_pipeline := t\<rparr>, broadcast m n))"

definition releaseHeldKeys :: "u32 \<Rightarrow> MeshNode \<Rightarrow> MeshNode \<times> mesh_out list" where
  "releaseHeldKeys ts n =
     (let (ms, t) = pipe_releaseAll ts (mn_pipeline n) in
      (n\<lparr>mn_pipeline := t\<rparr>, concat (map (\<lambda>m. broadcast m n) ms)))"

definition onLocalClipboardChange :: "string \<Rightarrow> MeshNode \<Rightarrow> MeshNode \<times> mesh_out list" where
  "onLocalClipboardChange text n =
     (let (b, c) = shouldBroadcastLocalChange text (mn_clipboard n); n1 = n\<lparr>mn_clipboard := c\<rparr> in
      if \<not> b then (n1, []) else (n1, broadcast (encodeVarMessage ClipboardUpdate (to_bytes text)) n1))"

definition announceFilePromise :: "FilePromiseItem list \<Rightarrow> MeshNode \<Rightarrow> MeshNode \<times> mesh_out list" where
  "announceFilePromise files n =
     (if files = [] then (n, [])
      else (n, broadcast (encodeVarMessage FilePromiseAnnounce (encodeFilePromiseAnnounce files)) n))"

definition heartbeat_event :: "u64 \<Rightarrow> InputEvent" where
  "heartbeat_event now =
     zero_event\<lparr>ev_version := kProtocolVersion, ev_type := mt_code Heartbeat, ev_ts := ucast now\<rparr>"

definition sendHeartbeats :: "u64 \<Rightarrow> MeshNode \<Rightarrow> MeshNode \<times> mesh_out list" where
  "sendHeartbeats now n =
     (let n1 = n\<lparr>mn_now := now\<rparr> in
      if mn_lastHeartbeatSent n1 \<noteq> 0 \<and> now - mn_lastHeartbeatSent n1 < mn_intervalMs n1 then (n1, [])
      else (n1\<lparr>mn_lastHeartbeatSent := now\<rparr>, broadcast (encodeInputEvent (heartbeat_event now)) n1))"

section \<open>Receiving\<close>

definition handle_fixed :: "DecodedMessage \<Rightarrow> MeshNode \<Rightarrow> MeshNode \<times> mesh_out list" where
  "handle_fixed m n =
     (case dm_type m of
        MouseMove \<Rightarrow> (n, if \<not> mesh_isLocalOwner n then [Inject (dm_fixed m)] else [])
      | MouseButton \<Rightarrow> (n, if \<not> mesh_isLocalOwner n then [Inject (dm_fixed m)] else [])
      | KeyEvent \<Rightarrow> (n, if \<not> mesh_isLocalOwner n then [Inject (dm_fixed m)] else [])
      | _ \<Rightarrow> (n, []))"

definition handle_claim :: "bytes \<Rightarrow> MeshNode \<Rightarrow> MeshNode \<times> mesh_out list" where
  "handle_claim payload n =
     (case decodeOwnershipClaim payload of
        None \<Rightarrow> (n, [])
      | Some claim \<Rightarrow>
          let before = mesh_owner n;
              n1 = n\<lparr>mn_ownership := snd (applyClaim claim (mn_ownership n))\<rparr> in
          (n1, if mesh_owner n1 \<noteq> before then [OwnerChanged (mesh_owner n1)] else []))"

definition handle_var :: "PeerId \<Rightarrow> DecodedMessage \<Rightarrow> MeshNode \<Rightarrow> MeshNode \<times> mesh_out list" where
  "handle_var from m n =
     (case dm_type m of
        SwitchOwner \<Rightarrow> handle_claim (dm_payload m) n
      | ClipboardUpdate \<Rightarrow>
          let text = of_bytes (dm_payload m) in
          (n\<lparr>mn_clipboard := noteAppliedRemote text (mn_clipboard n)\<rparr>, [RemoteClipboard text])
      | FilePromiseAnnounce \<Rightarrow>
          (case decodeFilePromiseAnnounce (dm_payload m) of
             None \<Rightarrow> (n, [])
           | Some files \<Rightarrow> (n, [RemoteFilePromise from files]))
      | _ \<Rightarrow> (n, []))"

definition handle :: "u64 \<Rightarrow> PeerId \<Rightarrow> bytes \<Rightarrow> MeshNode \<Rightarrow> MeshNode \<times> mesh_out list" where
  "handle now from data n =
     (let n1 = n\<lparr>mn_heartbeat := onHeartbeat from now (mn_heartbeat n)\<rparr> in
      case decodeMessage data emptyMessage of
        VersionMismatch \<Rightarrow>
          if from \<notin> set (mn_versionWarned n1)
          then (n1\<lparr>mn_versionWarned := oset_insert from (mn_versionWarned n1)\<rparr>, [VersionMismatchWarning from])
          else (n1, [])
      | NeedMore \<Rightarrow> (n1, [])
      | Malformed \<Rightarrow> (n1, [])
      | DecOk m k \<Rightarrow> if dm_isFixed m then handle_fixed m n1 else handle_var from m n1)"

definition kPollBuffer :: nat where
  "kPollBuffer = 8192"

definition poll_peer ::
    "(nat \<Rightarrow> nat \<Rightarrow> bytes list) \<Rightarrow> u64 \<Rightarrow> PeerId \<times> nat option \<Rightarrow> MeshNode \<Rightarrow> MeshNode \<times> mesh_out list" where
  "poll_peer rx now kv n =
     (case snd kv of None \<Rightarrow> (n, [])
      | Some h \<Rightarrow> run_steps (handle now (fst kv)) (rx h kPollBuffer) n)"

definition mesh_poll :: "(nat \<Rightarrow> nat \<Rightarrow> bytes list) \<Rightarrow> u64 \<Rightarrow> MeshNode \<Rightarrow> MeshNode \<times> mesh_out list" where
  "mesh_poll rx now n =
     (let n0 = n\<lparr>mn_now := now\<rparr>;
          (n1, o1) = run_steps (poll_peer rx now) (mn_peers n0) n0;
          (n2, o2) = refreshOnlineAndFailSafe now n1 in
      (n2, o1 @ o2))"

end
