(* ===== verification/MeshProps.thy ===== *)
theory MeshProps
  imports MeshNode
begin

text \<open>
  The laws of a mesh node: the class invariant, what its callbacks report over any history
  of operations, the fail-safe, the guards of switching and forwarding, and what two nodes
  do to each other over the wire.
\<close>

section \<open>Histories of operations\<close>

datatype mesh_op =
    OpSetPriority "PeerId list"
  | OpAddPeer PeerId "nat option"
  | OpRemovePeer PeerId
  | OpSwitch PeerId
  | OpMouseMove u16 u16 u32
  | OpMouseButton u8 bool u32
  | OpKey u8 bool u32
  | OpRelease u32
  | OpClipboard string
  | OpAnnounce "FilePromiseItem list"
  | OpHeartbeats u64
  | OpPoll "nat \<Rightarrow> nat \<Rightarrow> bytes list" u64

fun mesh_do :: "mesh_op \<Rightarrow> MeshNode \<Rightarrow> MeshNode \<times> mesh_out list" where
  "mesh_do (OpSetPriority ps) n = (mesh_setPriority ps n, [])"
| "mesh_do (OpAddPeer p t) n = (mesh_addPeer p t n, [])"
| "mesh_do (OpRemovePeer p) n = mesh_removePeer p n"
| "mesh_do (OpSwitch p) n = mesh_requestSwitchTo p n"
| "mesh_do (OpMouseMove dx dy ts) n = forwardMouseMove dx dy ts n"
| "mesh_do (OpMouseButton b d ts) n = forwardMouseButton b d ts n"
| "mesh_do (OpKey k d ts) n = forwardKey k d ts n"
| "mesh_do (OpRelease ts) n = releaseHeldKeys ts n"
| "mesh_do (OpClipboard text) n = onLocalClipboardChange text n"
| "mesh_do (OpAnnounce files) n = announceFilePromise files n"
| "mesh_do (OpHeartbeats now) n = sendHeartbeats now n"
| "mesh_do (OpPoll rx now) n = mesh_poll rx now n"

definition mesh_history :: "PeerId \<Rightarrow> mesh_op list \<Rightarrow> MeshNode \<times> mesh_out list" where
  "mesh_history self ops = run_steps mesh_do ops (meshInit self)"

section \<open>The class invariant\<close>

definition mesh_ok :: "MeshNode \<Rightarrow> bool" where
  "mesh_ok n \<longleftrightarrow> omap_ok (mn_peers n) \<and> omap_ok (mn_peerOnline n) \<and> oset_ok (mn_versionWarned n)
     \<and> heartbeat_ok (mn_heartbeat n) \<and> tracker_ok (mn_pipeline n) \<and> clock_ok (mn_ownership n)
     \<and> os_self (mn_ownership n) = mn_self n"

lemma mesh_ok_init: "mesh_ok (meshInit self)"
  by (simp add: mesh_ok_def meshInit_def ownershipInit_def) (simp add: clock_ok_def)

lemma mesh_ok_refresh_peer: "mesh_ok n \<Longrightarrow> mesh_ok (fst (refresh_peer now p n))"
  by (auto simp: mesh_ok_def refresh_peer_def Let_def)

lemma mesh_ok_failSafe: "mesh_ok n \<Longrightarrow> mesh_ok (fst (failSafe now n))"
  by (auto simp: mesh_ok_def failSafe_def)

lemma mesh_ok_refresh: "mesh_ok n \<Longrightarrow> mesh_ok (fst (refreshOnlineAndFailSafe now n))"
proof -
  assume ok: "mesh_ok n"
  have "mesh_ok (fst (run_steps (refresh_peer now) (omap_keys (mn_peers n)) n))"
    by (rule run_steps_inv [where I = mesh_ok]) (use ok mesh_ok_refresh_peer in auto)
  then show ?thesis
    unfolding refreshOnlineAndFailSafe_def Let_def split_beta fst_conv
    by (intro mesh_ok_failSafe) (auto simp: mesh_ok_def)
qed

lemma mesh_ok_handle: "mesh_ok n \<Longrightarrow> mesh_ok (fst (handle now from d n))"
proof -
  assume ok: "mesh_ok n"
  define n1 where "n1 = n\<lparr>mn_heartbeat := onHeartbeat from now (mn_heartbeat n)\<rparr>"
  have ok1: "mesh_ok n1" using ok by (simp add: mesh_ok_def n1_def)
  have fixed: "fst (handle_fixed m n1) = n1" for m
    by (simp add: handle_fixed_def split: MessageType.splits)
  have claim: "mesh_ok (fst (handle_claim p n1))" for p
    using ok1 by (auto simp: handle_claim_def mesh_ok_def Let_def split: option.splits)
  have var: "mesh_ok (fst (handle_var from m n1))" for m
    using ok1 claim by (auto simp: handle_var_def Let_def mesh_ok_def split: MessageType.splits option.splits)
  show ?thesis
    unfolding handle_def Let_def n1_def [symmetric]
    using ok1 fixed var by (auto simp: mesh_ok_def split: DecodeResult.splits)
qed

lemma mesh_ok_poll: "mesh_ok n \<Longrightarrow> mesh_ok (fst (mesh_poll rx now n))"
proof -
  assume ok: "mesh_ok n"
  define n0 where "n0 = n\<lparr>mn_now := now\<rparr>"
  have "mesh_ok n0" using ok by (simp add: mesh_ok_def n0_def)
  moreover have "mesh_ok (fst (poll_peer rx now kv m))" if "mesh_ok m" for kv m
    using that mesh_ok_handle
    by (auto simp: poll_peer_def intro!: run_steps_inv [where I = mesh_ok] split: option.splits)
  ultimately have "mesh_ok (fst (run_steps (poll_peer rx now) (mn_peers n0) n0))"
    by (intro run_steps_inv [where I = mesh_ok]) auto
  then show ?thesis
    unfolding mesh_poll_def Let_def split_beta fst_conv n0_def [symmetric]
    by (rule mesh_ok_refresh)
qed

lemma mesh_ok_remove: "mesh_ok n \<Longrightarrow> mesh_ok (fst (mesh_removePeer p n))"
  unfolding mesh_removePeer_def Let_def split_beta fst_conv
  by (rule mesh_ok_refresh) (auto simp: mesh_ok_def split: option.splits)

lemma mesh_ok_do: "mesh_ok n \<Longrightarrow> mesh_ok (fst (mesh_do op n))"
proof (cases op)
  case (OpRemovePeer p)
  then show "mesh_ok n \<Longrightarrow> ?thesis" by (simp add: mesh_ok_remove)
next
  case (OpPoll rx now)
  then show "mesh_ok n \<Longrightarrow> ?thesis" by (simp add: mesh_ok_poll)
qed (auto simp: mesh_ok_def mesh_setPriority_def mesh_addPeer_def mesh_requestSwitchTo_def
      forwardMouseMove_def forwardMouseButton_def forwardKey_def releaseHeldKeys_def
      onLocalClipboardChange_def announceFilePromise_def sendHeartbeats_def Let_def split_beta
      pipe_onMouseMove_def pipe_onMouseButton_def pipe_onKey_def pipe_releaseAll_def drainReleases_def)

lemma mesh_ok_history: "mesh_ok (fst (mesh_history self ops))"
  unfolding mesh_history_def
  by (rule run_steps_inv [where I = mesh_ok]) (auto simp: mesh_ok_do mesh_ok_init)

section \<open>What the callbacks report\<close>

text \<open>
  Three relations between a node before, the calls it made and the node after: the
  online/offline callbacks for \<open>p\<close> alternate, the last reported owner is the owner, and a
  version warning is given once.
\<close>

definition online_bit :: "PeerId \<Rightarrow> MeshNode \<Rightarrow> int" where
  "online_bit p n = (if map_of (mn_peerOnline n) p = Some True then 1 else 0)"

definition transitions :: "PeerId \<Rightarrow> mesh_out list \<Rightarrow> int" where
  "transitions p o1 = int (count_list o1 (PeerOnline p)) - int (count_list o1 (PeerOffline p))"

definition online_rel :: "PeerId \<Rightarrow> MeshNode \<Rightarrow> mesh_out list \<Rightarrow> MeshNode \<Rightarrow> bool" where
  "online_rel p n o1 n' \<longleftrightarrow> online_bit p n' = online_bit p n + transitions p o1"

definition last_owner :: "PeerId \<Rightarrow> mesh_out list \<Rightarrow> PeerId" where
  "last_owner d o1 = foldl (\<lambda>w x. case x of OwnerChanged q \<Rightarrow> q | _ \<Rightarrow> w) d o1"

definition owner_rel :: "MeshNode \<Rightarrow> mesh_out list \<Rightarrow> MeshNode \<Rightarrow> bool" where
  "owner_rel n o1 n' \<longleftrightarrow> os_clock (mn_ownership n) \<le> os_clock (mn_ownership n')
     \<and> (os_clock (mn_ownership n') = - 1 \<or> last_owner (mesh_owner n) o1 = mesh_owner n')"

definition fresh_bit :: "PeerId \<Rightarrow> MeshNode \<Rightarrow> nat" where
  "fresh_bit p n = (if p \<in> set (mn_versionWarned n) then 0 else 1)"

definition warn_rel :: "PeerId \<Rightarrow> MeshNode \<Rightarrow> mesh_out list \<Rightarrow> MeshNode \<Rightarrow> bool" where
  "warn_rel p n o1 n' \<longleftrightarrow> count_list o1 (VersionMismatchWarning p) + fresh_bit p n' = fresh_bit p n"

lemma count_list_none: "x \<notin> set xs \<Longrightarrow> count_list xs x = 0"
  by (simp add: count_list_0_iff)

lemma count_list_append: "count_list (xs @ ys) x = count_list xs x + count_list ys x"
  by (induction xs) auto

lemma online_rel_refl: "online_rel p n [] n"
  by (simp add: online_rel_def transitions_def)

lemma online_rel_trans: "online_rel p s a t \<Longrightarrow> online_rel p t b u \<Longrightarrow> online_rel p s (a @ b) u"
  by (simp add: online_rel_def transitions_def count_list_append)

lemma owner_rel_refl: "owner_rel n [] n"
  by (simp add: owner_rel_def last_owner_def)

lemma owner_rel_trans: "owner_rel s a t \<Longrightarrow> owner_rel t b u \<Longrightarrow> owner_rel s (a @ b) u"
proof -
  assume a: "owner_rel s a t" "owner_rel t b u"
  have "os_clock (mn_ownership u) = - 1" if "os_clock (mn_ownership t) = - 1"
    using a that by (auto simp: owner_rel_def dest: word_order.extremum_uniqueI)
  moreover have "last_owner d (a @ b) = last_owner (last_owner d a) b" for d
    by (simp add: last_owner_def)
  ultimately show ?thesis using a unfolding owner_rel_def by auto
qed

lemma warn_rel_refl: "warn_rel p n [] n"
  by (simp add: warn_rel_def)

lemma warn_rel_trans: "warn_rel p s a t \<Longrightarrow> warn_rel p t b u \<Longrightarrow> warn_rel p s (a @ b) u"
  by (simp add: warn_rel_def count_list_append)

text \<open>All three at once, as the loops need them together with the class invariant.\<close>

definition reports :: "PeerId \<Rightarrow> MeshNode \<Rightarrow> mesh_out list \<Rightarrow> MeshNode \<Rightarrow> bool" where
  "reports p n o1 n' \<longleftrightarrow> online_rel p n o1 n' \<and> owner_rel n o1 n' \<and> warn_rel p n o1 n'"

lemma reports_refl: "reports p n [] n"
  by (simp add: reports_def online_rel_refl owner_rel_refl warn_rel_refl)

lemma reports_trans: "reports p s a t \<Longrightarrow> reports p t b u \<Longrightarrow> reports p s (a @ b) u"
  unfolding reports_def using online_rel_trans owner_rel_trans warn_rel_trans by blast

lemma reports_steps:
  assumes "\<And>x m. x \<in> set xs \<Longrightarrow> mesh_ok m \<Longrightarrow> mesh_ok (fst (f x m)) \<and> reports p m (snd (f x m)) (fst (f x m))"
    and "mesh_ok n"
  shows "mesh_ok (fst (run_steps f xs n)) \<and> reports p n (snd (run_steps f xs n)) (fst (run_steps f xs n))"
  by (rule run_steps_rel [where R = "reports p" and I = mesh_ok])
    (use assms reports_refl reports_trans in blast)+

text \<open>An operation that makes only sends, and changes neither of the three, reports nothing.\<close>

lemma broadcast_sends: "x \<in> set (broadcast m n) \<Longrightarrow> \<exists>h. x = SendTo h m \<and> Some h \<in> snd ` set (mn_peers n)"
  by (force simp: broadcast_def split: option.splits)

definition quiet :: "mesh_out \<Rightarrow> bool" where
  "quiet x \<longleftrightarrow> (case x of PeerOnline p \<Rightarrow> False | PeerOffline p \<Rightarrow> False | OwnerChanged p \<Rightarrow> False
     | VersionMismatchWarning p \<Rightarrow> False | _ \<Rightarrow> True)"

lemma quiet_counts:
  assumes "list_all quiet o1"
  shows "transitions p o1 = 0" "last_owner d o1 = d" "count_list o1 (VersionMismatchWarning p) = 0"
proof -
  have "PeerOnline p \<notin> set o1" "PeerOffline p \<notin> set o1" "VersionMismatchWarning p \<notin> set o1"
    using assms by (auto simp: list_all_iff quiet_def)
  then show "transitions p o1 = 0" "count_list o1 (VersionMismatchWarning p) = 0"
    by (simp_all add: transitions_def count_list_none)
  show "last_owner d o1 = d"
    using assms by (induction o1 arbitrary: d) (auto simp: last_owner_def quiet_def split: mesh_out.splits)
qed

lemma quiet_broadcast [simp]: "list_all quiet (broadcast m n)"
  using broadcast_sends by (fastforce simp: list_all_iff quiet_def)

lemma quiet_broadcasts [simp]: "list_all quiet (concat (map (\<lambda>m. broadcast m n) ms))"
  by (induction ms) simp_all

lemma reports_quiet:
  assumes "list_all quiet o1" "mn_peerOnline n' = mn_peerOnline n" "mn_ownership n' = mn_ownership n"
    "mn_versionWarned n' = mn_versionWarned n"
  shows "reports p n o1 n'"
  using assms quiet_counts [OF assms(1)]
  by (simp add: reports_def online_rel_def owner_rel_def warn_rel_def online_bit_def fresh_bit_def mesh_owner_def)

section \<open>The operations report truthfully\<close>

lemma reports_refresh_peer:
  assumes "mesh_ok n"
  shows "reports p n (snd (refresh_peer now q n)) (fst (refresh_peer now q n))"
proof -
  have "omap_ok (mn_peerOnline n)" using assms by (simp add: mesh_ok_def)
  then show ?thesis
    by (auto simp: refresh_peer_def Let_def reports_def online_rel_def owner_rel_def warn_rel_def
        online_bit_def fresh_bit_def mesh_owner_def transitions_def last_owner_def map_of_omap_set)
qed

lemma reports_failSafe:
  assumes "mesh_ok n"
  shows "reports p n (snd (failSafe now n)) (fst (failSafe now n))"
proof (cases "\<not> mesh_isLocalOwner n \<and> \<not> mesh_alive (mesh_owner n) now n")
  case False
  then show ?thesis by (auto simp: failSafe_def reports_refl)
next
  case True
  let ?s = "snd (requestSwitchTo (mn_self n) (mn_ownership n))"
  have mono: "os_clock (mn_ownership n) \<le> os_clock ?s"
    by (simp add: requestSwitchTo_def Let_def)
  have "os_clock ?s = - 1 \<or> owner ?s = mn_self n"
  proof (cases "os_clock (mn_ownership n) = - 1")
    case True
    then show ?thesis using mono by (auto dest: word_order.extremum_uniqueI)
  next
    case False
    then show ?thesis using assms request_adopted(2) by (simp add: mesh_ok_def)
  qed
  then show ?thesis
    using True mono
    by (auto simp: failSafe_def reports_def online_rel_def owner_rel_def warn_rel_def online_bit_def
        fresh_bit_def mesh_owner_def transitions_def last_owner_def)
qed

lemma reports_refresh:
  assumes "mesh_ok n"
  shows "reports p n (snd (refreshOnlineAndFailSafe now n)) (fst (refreshOnlineAndFailSafe now n))"
proof -
  let ?r = "run_steps (refresh_peer now) (omap_keys (mn_peers n)) n"
  let ?n2 = "(fst ?r)\<lparr>mn_election := setOnline (online_list now n) (mn_election (fst ?r))\<rparr>"
  have r: "mesh_ok (fst ?r) \<and> reports p n (snd ?r) (fst ?r)"
    by (rule reports_steps) (use assms mesh_ok_refresh_peer reports_refresh_peer in auto)
  then have ok2: "mesh_ok ?n2" by (simp add: mesh_ok_def)
  have "reports p (fst ?r) [] ?n2" by (rule reports_quiet) simp_all
  then have "reports p n (snd ?r @ [] @ snd (failSafe now ?n2)) (fst (failSafe now ?n2))"
    using r reports_failSafe [OF ok2] by (intro reports_trans) auto
  then show ?thesis by (simp add: refreshOnlineAndFailSafe_def Let_def split_beta)
qed

lemma reports_claim: "reports p n (snd (handle_claim d n)) (fst (handle_claim d n))"
  by (auto simp: handle_claim_def Let_def reports_refl split: option.splits)
    (auto simp: reports_def online_rel_def owner_rel_def warn_rel_def online_bit_def fresh_bit_def
      mesh_owner_def transitions_def last_owner_def)

lemma reports_fixed: "reports p n (snd (handle_fixed m n)) (fst (handle_fixed m n))"
  by (rule reports_quiet) (auto simp: handle_fixed_def quiet_def split: MessageType.splits)

lemma reports_var: "reports p n (snd (handle_var from m n)) (fst (handle_var from m n))"
proof (cases "dm_type m = SwitchOwner")
  case True
  then show ?thesis by (simp add: handle_var_def reports_claim)
next
  case False
  then show ?thesis
    by (intro reports_quiet)
      (auto simp: handle_var_def quiet_def Let_def split: MessageType.splits option.splits)
qed

lemma reports_heartbeat: "reports p n [] (n\<lparr>mn_heartbeat := h\<rparr>)"
  by (rule reports_quiet) simp_all

lemma reports_handle: "reports p n (snd (handle now from d n)) (fst (handle now from d n))"
proof -
  define n1 where "n1 = n\<lparr>mn_heartbeat := onHeartbeat from now (mn_heartbeat n)\<rparr>"
  have warned: "reports p n1 [VersionMismatchWarning from] (n1\<lparr>mn_versionWarned := oset_insert from (mn_versionWarned n1)\<rparr>)"
    if "from \<notin> set (mn_versionWarned n1)"
    using that by (auto simp: reports_def online_rel_def owner_rel_def warn_rel_def online_bit_def
        fresh_bit_def mesh_owner_def transitions_def last_owner_def set_oset_insert)
  have step: "reports p n1 (snd (handle now from d n)) (fst (handle now from d n))"
    unfolding handle_def Let_def n1_def [symmetric]
    by (simp add: reports_refl warned reports_fixed reports_var split: DecodeResult.splits)
  have "reports p n ([] @ snd (handle now from d n)) (fst (handle now from d n))"
    by (rule reports_trans [OF _ step]) (simp add: n1_def reports_heartbeat)
  then show ?thesis by simp
qed

lemma reports_poll:
  assumes "mesh_ok n"
  shows "reports p n (snd (mesh_poll rx now n)) (fst (mesh_poll rx now n))"
proof -
  define n0 where "n0 = n\<lparr>mn_now := now\<rparr>"
  have ok0: "mesh_ok n0" using assms by (simp add: mesh_ok_def n0_def)
  have peer: "mesh_ok (fst (poll_peer rx now kv m)) \<and> reports p m (snd (poll_peer rx now kv m)) (fst (poll_peer rx now kv m))"
    if "mesh_ok m" for kv m
    using that reports_steps [of _ "handle now (fst kv)" p m] mesh_ok_handle reports_handle
    by (auto simp: poll_peer_def reports_refl split: option.splits)
  let ?r = "run_steps (poll_peer rx now) (mn_peers n0) n0"
  have r: "mesh_ok (fst ?r) \<and> reports p n0 (snd ?r) (fst ?r)"
    by (rule reports_steps) (use peer ok0 in auto)
  have 1: "reports p n [] n0" unfolding n0_def by (rule reports_quiet) simp_all
  have 2: "reports p n ([] @ snd ?r) (fst ?r)" by (rule reports_trans [OF 1]) (use r in simp)
  have "reports p n (([] @ snd ?r) @ snd (refreshOnlineAndFailSafe now (fst ?r)))
      (fst (refreshOnlineAndFailSafe now (fst ?r)))"
    by (rule reports_trans [OF 2]) (use r reports_refresh in simp)
  then show ?thesis by (simp add: mesh_poll_def Let_def split_beta n0_def)
qed

lemma reports_switch:
  "reports p n (snd (mesh_requestSwitchTo t n)) (fst (mesh_requestSwitchTo t n))"
proof (cases "t \<noteq> mn_self n \<and> \<not> isPeerOnline t n")
  case True
  then have "mesh_requestSwitchTo t n = (n, [SwitchUnavailable t])"
    by (simp add: mesh_requestSwitchTo_def)
  then show ?thesis by (auto intro!: reports_quiet simp: quiet_def)
next
  case False
  let ?s = "snd (requestSwitchTo t (mn_ownership n))"
  let ?n1 = "n\<lparr>mn_ownership := ?s\<rparr>"
  let ?b = "broadcast (encodeVarMessage SwitchOwner (encodeOwnershipClaim (fst (requestSwitchTo t (mn_ownership n))))) ?n1"
  have eq: "mesh_requestSwitchTo t n = (?n1, ?b @ (if mesh_owner ?n1 \<noteq> mesh_owner n then [OwnerChanged (mesh_owner ?n1)] else []))"
    using False by (auto simp: mesh_requestSwitchTo_def Let_def split_beta)
  have "reports p n ?b n" by (rule reports_quiet) simp_all
  moreover have "reports p n (if mesh_owner ?n1 \<noteq> mesh_owner n then [OwnerChanged (mesh_owner ?n1)] else []) ?n1"
    by (auto simp: reports_def online_rel_def owner_rel_def warn_rel_def online_bit_def
        fresh_bit_def mesh_owner_def transitions_def last_owner_def requestSwitchTo_def Let_def)
  ultimately show ?thesis unfolding eq fst_conv snd_conv by (rule reports_trans)
qed

text \<open>Removing a peer re-arms its warning; otherwise it reports like the rest.\<close>

lemma reports_remove:
  assumes "mesh_ok n"
  shows "online_rel p n (snd (mesh_removePeer q n)) (fst (mesh_removePeer q n))
    \<and> owner_rel n (snd (mesh_removePeer q n)) (fst (mesh_removePeer q n))
    \<and> count_list (snd (mesh_removePeer q n)) (VersionMismatchWarning p) + fresh_bit p (fst (mesh_removePeer q n))
        = (if p = q then 1 else fresh_bit p n)"
proof -
  define n1 where "n1 = n\<lparr>mn_peers := omap_erase q (mn_peers n), mn_heartbeat := forget q (mn_heartbeat n)\<rparr>"
  define r where "r = (case map_of (mn_peerOnline n1) q of
              None \<Rightarrow> (n1, [])
            | Some wasOnline \<Rightarrow>
                (n1\<lparr>mn_peerOnline := omap_erase q (mn_peerOnline n1)\<rparr>,
                 if wasOnline then [PeerOffline q] else []))"
  define n3 where "n3 = (fst r)\<lparr>mn_versionWarned := oset_erase q (mn_versionWarned (fst r))\<rparr>"
  have eq: "mesh_removePeer q n = (fst (refreshOnlineAndFailSafe (mn_now n3) n3),
      snd r @ snd (refreshOnlineAndFailSafe (mn_now n3) n3))"
    by (simp add: mesh_removePeer_def Let_def split_beta n1_def [symmetric] r_def [symmetric] n3_def)
  have ok3: "mesh_ok n3"
    using assms by (auto simp: mesh_ok_def n3_def r_def n1_def split: option.splits)
  have frame: "mn_ownership n3 = mn_ownership n"
    by (auto simp: n3_def r_def n1_def split: option.splits)
  have on: "online_rel p n (snd r) n3"
    using assms by (auto simp: online_rel_def online_bit_def transitions_def n3_def r_def n1_def
        map_of_omap_erase mesh_ok_def split: option.splits)
  have ow: "owner_rel n (snd r) n3"
    by (auto simp: owner_rel_def mesh_owner_def frame last_owner_def r_def split: option.splits)
  have w: "count_list (snd r) (VersionMismatchWarning p) = 0"
    by (auto simp: r_def split: option.splits)
  have fr: "fresh_bit p n3 = (if p = q then 1 else fresh_bit p n)"
    by (auto simp: fresh_bit_def n3_def r_def n1_def set_oset_erase split: option.splits)
  note rep = reports_refresh [OF ok3, of p "mn_now n3"]
  show ?thesis
    unfolding eq fst_conv snd_conv
    using online_rel_trans [OF on] owner_rel_trans [OF ow] rep w fr
    by (simp add: reports_def warn_rel_def count_list_append)
qed

definition removals :: "PeerId \<Rightarrow> mesh_op list \<Rightarrow> nat" where
  "removals p ops = count_list ops (OpRemovePeer p)"

lemma do_reports:
  assumes "mesh_ok n"
  shows "online_rel p n (snd (mesh_do op n)) (fst (mesh_do op n))
    \<and> owner_rel n (snd (mesh_do op n)) (fst (mesh_do op n))
    \<and> count_list (snd (mesh_do op n)) (VersionMismatchWarning p) + fresh_bit p (fst (mesh_do op n))
        \<le> fresh_bit p n + (if op = OpRemovePeer p then 1 else 0)"
proof -
  have *: "?thesis" if "reports p n (snd (mesh_do op n)) (fst (mesh_do op n))"
    using that by (simp add: reports_def warn_rel_def)
  show ?thesis
  proof (cases op)
    case (OpRemovePeer q)
    then show ?thesis using reports_remove [OF assms, of p q] by (auto simp: fresh_bit_def)
  next
    case (OpSwitch t)
    then show ?thesis by (intro *) (simp add: reports_switch)
  next
    case (OpPoll rx now)
    then show ?thesis by (intro *) (simp add: reports_poll assms)
  qed (intro *; rule reports_quiet;
      auto simp: mesh_setPriority_def mesh_addPeer_def forwardMouseMove_def forwardMouseButton_def
      forwardKey_def releaseHeldKeys_def onLocalClipboardChange_def announceFilePromise_def
      sendHeartbeats_def Let_def split_beta)+
qed

lemma history_reports:
  assumes "mesh_ok n"
  shows "online_rel p n (snd (run_steps mesh_do ops n)) (fst (run_steps mesh_do ops n))
    \<and> owner_rel n (snd (run_steps mesh_do ops n)) (fst (run_steps mesh_do ops n))"
proof -
  have "mesh_ok (fst (run_steps mesh_do ops n)) \<and>
      (online_rel p n (snd (run_steps mesh_do ops n)) (fst (run_steps mesh_do ops n))
        \<and> owner_rel n (snd (run_steps mesh_do ops n)) (fst (run_steps mesh_do ops n)))"
    by (rule run_steps_rel [where I = mesh_ok and R = "\<lambda>n o1 n'. online_rel p n o1 n' \<and> owner_rel n o1 n'"])
      (use assms do_reports mesh_ok_do online_rel_refl owner_rel_refl online_rel_trans owner_rel_trans in blast)+
  then show ?thesis by blast
qed

lemma history_warnings:
  assumes "mesh_ok n"
  shows "count_list (snd (run_steps mesh_do ops n)) (VersionMismatchWarning p)
      + fresh_bit p (fst (run_steps mesh_do ops n)) \<le> fresh_bit p n + removals p ops"
  using assms
proof (induction ops arbitrary: n)
  case Nil
  then show ?case by (simp add: removals_def)
next
  case (Cons op ops)
  let ?n1 = "fst (mesh_do op n)"
  have "count_list (snd (run_steps mesh_do ops ?n1)) (VersionMismatchWarning p)
      + fresh_bit p (fst (run_steps mesh_do ops ?n1)) \<le> fresh_bit p ?n1 + removals p ops"
    by (rule Cons.IH [OF mesh_ok_do [OF Cons.prems]])
  moreover have "removals p (op # ops) = (if op = OpRemovePeer p then 1 else 0) + removals p ops"
    by (simp add: removals_def)
  ultimately show ?case
    using do_reports [OF Cons.prems, of p op]
    by (auto simp: split_beta Let_def count_list_append)
qed

section \<open>Liveness and the fail-safe\<close>

lemma refresh_peer_frame [simp]:
  "mn_heartbeat (fst (refresh_peer now p n)) = mn_heartbeat n"
  "mn_timeoutMs (fst (refresh_peer now p n)) = mn_timeoutMs n"
  "mn_peers (fst (refresh_peer now p n)) = mn_peers n"
  "mn_self (fst (refresh_peer now p n)) = mn_self n"
  "mn_ownership (fst (refresh_peer now p n)) = mn_ownership n"
  by (simp_all add: refresh_peer_def Let_def)

lemma refresh_loop_frame:
  "mn_heartbeat (fst (run_steps (refresh_peer now) ps n)) = mn_heartbeat n
   \<and> mn_timeoutMs (fst (run_steps (refresh_peer now) ps n)) = mn_timeoutMs n
   \<and> mn_peers (fst (run_steps (refresh_peer now) ps n)) = mn_peers n
   \<and> mn_self (fst (run_steps (refresh_peer now) ps n)) = mn_self n
   \<and> mn_ownership (fst (run_steps (refresh_peer now) ps n)) = mn_ownership n"
  by (rule run_steps_inv [where I = "\<lambda>m. mn_heartbeat m = mn_heartbeat n \<and> mn_timeoutMs m = mn_timeoutMs n
        \<and> mn_peers m = mn_peers n \<and> mn_self m = mn_self n \<and> mn_ownership m = mn_ownership n"]) auto

lemma failSafe_frame [simp]:
  "mn_heartbeat (fst (failSafe now n)) = mn_heartbeat n"
  "mn_timeoutMs (fst (failSafe now n)) = mn_timeoutMs n"
  "mn_peers (fst (failSafe now n)) = mn_peers n"
  "mn_self (fst (failSafe now n)) = mn_self n"
  "mn_peerOnline (fst (failSafe now n)) = mn_peerOnline n"
  "mn_election (fst (failSafe now n)) = mn_election n"
  by (simp_all add: failSafe_def)

lemma failSafe_owner:
  assumes "mesh_ok n"
  shows "mesh_isLocalOwner (fst (failSafe now n)) \<or> mesh_alive (mesh_owner (fst (failSafe now n))) now n
    \<or> os_clock (mn_ownership n) = - 1"
  using assms request_adopted(2) [of "mn_ownership n" "mn_self n"]
  by (auto simp: failSafe_def mesh_ok_def mesh_isLocalOwner_def isLocalOwner_def mesh_owner_def owner_def)

lemma refresh_records:
  "omap_ok (mn_peerOnline n) \<Longrightarrow> q \<in> set ps \<Longrightarrow>
     (map_of (mn_peerOnline (fst (run_steps (refresh_peer now) ps n))) q = Some True) = mesh_alive q now n"
proof (induction ps arbitrary: n)
  case Nil
  then show ?case by simp
next
  case (Cons p ps)
  let ?n1 = "fst (refresh_peer now p n)"
  have ok1: "omap_ok (mn_peerOnline ?n1)"
    using Cons.prems by (auto simp: refresh_peer_def Let_def)
  have same: "mesh_alive r now ?n1 = mesh_alive r now n" for r
    by (simp add: mesh_alive_def)
  have rest: "map_of (mn_peerOnline (fst (run_steps (refresh_peer now) qs m))) r = map_of (mn_peerOnline m) r"
    if "omap_ok (mn_peerOnline m)" "r \<notin> set qs" for qs m r
    using that
  proof (induction qs arbitrary: m)
    case (Cons a qs)
    have "map_of (mn_peerOnline (fst (refresh_peer now a m))) r = map_of (mn_peerOnline m) r"
      "omap_ok (mn_peerOnline (fst (refresh_peer now a m)))"
      using Cons.prems by (auto simp: refresh_peer_def Let_def map_of_omap_set)
    then show ?case using Cons by (simp add: split_beta Let_def)
  qed simp
  show ?case
  proof (cases "q \<in> set ps")
    case True
    then show ?thesis using Cons.IH [OF ok1 True] same by (simp add: split_beta Let_def)
  next
    case False
    then have "q = p" using Cons.prems by simp
    moreover have "(map_of (mn_peerOnline ?n1) p = Some True) = mesh_alive p now n"
      using Cons.prems by (auto simp: refresh_peer_def Let_def map_of_omap_set)
    ultimately show ?thesis
      using rest [OF ok1 False] by (simp add: split_beta Let_def)
  qed
qed

lemma poll_is_refresh:
  assumes "mesh_ok n"
  obtains m where "mesh_ok m" "fst (mesh_poll rx now n) = fst (refreshOnlineAndFailSafe now m)"
    "os_clock (mn_ownership m) \<le> os_clock (mn_ownership (fst (mesh_poll rx now n)))"
proof -
  define n0 where "n0 = n\<lparr>mn_now := now\<rparr>"
  have ok0: "mesh_ok n0" using assms by (simp add: mesh_ok_def n0_def)
  have "mesh_ok (fst (poll_peer rx now kv m))" if "mesh_ok m" for kv m
    using that mesh_ok_handle
    by (auto simp: poll_peer_def intro!: run_steps_inv [where I = mesh_ok] split: option.splits)
  then have ok: "mesh_ok (fst (run_steps (poll_peer rx now) (mn_peers n0) n0))"
    using ok0 by (intro run_steps_inv [where I = mesh_ok]) auto
  have eq: "fst (mesh_poll rx now n) = fst (refreshOnlineAndFailSafe now (fst (run_steps (poll_peer rx now) (mn_peers n0) n0)))"
    by (simp add: mesh_poll_def Let_def split_beta n0_def)
  show thesis
    by (rule that [OF ok eq]) (use reports_refresh [OF ok, of "[]" now] in \<open>simp add: eq reports_def owner_rel_def\<close>)
qed

section \<open>Messages between two nodes\<close>

lemma broadcast_reaches: "Some h \<in> snd ` set (mn_peers n) \<Longrightarrow> SendTo h m \<in> set (broadcast m n)"
  by (force simp: broadcast_def)

lemma handle_input_event:
  assumes "fixed_ok e" "ev_type e \<noteq> mt_code Heartbeat"
  shows "snd (handle now from (encodeInputEvent e) n) = (if mesh_isLocalOwner n then [] else [Inject e])"
proof -
  obtain t where t: "isFixedType t" "ev_type e = mt_code t" "ev_version e = kProtocolVersion"
    using fixed_okD [OF assms(1)] by blast
  then have dec: "decodeMessage (encodeInputEvent e) emptyMessage
      = DecOk (emptyMessage\<lparr>dm_isFixed := True, dm_type := t, dm_fixed := e\<rparr>) 12"
    using decode_fixed_event [of e t "[]" emptyMessage] by simp
  have "t \<in> {MouseMove, MouseButton, KeyEvent}"
    using t assms(2) by (auto simp: isFixedType_def split: MessageType.splits)
  then show ?thesis
    by (auto simp: handle_def Let_def dec handle_fixed_def mesh_isLocalOwner_def)
qed

lemma handle_var_message:
  assumes "t \<noteq> PeerHello" "\<not> isFixedType t" "payload_fits p"
  shows "handle now from (encodeVarMessage t p) n =
    handle_var from (emptyMessage\<lparr>dm_type := t, dm_payload := p\<rparr>)
      (n\<lparr>mn_heartbeat := onHeartbeat from now (mn_heartbeat n)\<rparr>)"
  using decode_var_message [OF assms, of "[]" emptyMessage]
  by (simp add: handle_def Let_def emptyMessage_def)

lemma putStr8_length: "length (putStr8 s) \<le> 256"
  by (simp add: putStr8_def Let_def)

lemma claim_payload_fits: "payload_fits (encodeOwnershipClaim c)"
  using putStr8_length [of "cl_target c"] putStr8_length [of "cl_origin c"]
  by (simp add: payload_fits_length encodeOwnershipClaim_def)

lemma handle_claim_message:
  assumes "claim_ok c"
  shows "mn_ownership (fst (handle now from (encodeVarMessage SwitchOwner (encodeOwnershipClaim c)) n))
      = snd (applyClaim c (mn_ownership n))"
proof -
  have "handle now from (encodeVarMessage SwitchOwner (encodeOwnershipClaim c)) n =
    handle_var from (emptyMessage\<lparr>dm_type := SwitchOwner, dm_payload := encodeOwnershipClaim c\<rparr>)
      (n\<lparr>mn_heartbeat := onHeartbeat from now (mn_heartbeat n)\<rparr>)"
    by (rule handle_var_message) (simp_all add: isFixedType_def claim_payload_fits)
  then show ?thesis
    by (simp add: handle_var_def handle_claim_def claim_codec.roundtrip [OF assms] Let_def)
qed

lemma switch_sends:
  assumes "target = mn_self n \<or> isPeerOnline target n"
  shows "mesh_requestSwitchTo target n =
     (n\<lparr>mn_ownership := snd (requestSwitchTo target (mn_ownership n))\<rparr>,
      broadcast (encodeVarMessage SwitchOwner (encodeOwnershipClaim (fst (requestSwitchTo target (mn_ownership n))))) n
      @ (if owner (snd (requestSwitchTo target (mn_ownership n))) \<noteq> mesh_owner n
         then [OwnerChanged (owner (snd (requestSwitchTo target (mn_ownership n))))] else []))"
  using assms by (auto simp: mesh_requestSwitchTo_def Let_def split_beta mesh_owner_def broadcast_def)

section \<open>Properties\<close>

text \<open>
  C5. Fail-safe: after any history of operations, one \<open>poll\<close> later the input owner is this
  machine itself or a machine that has been heard from within the timeout, unless the
  64-bit claim clock is saturated; and the coordinator is the first machine of the priority
  list among this one and the peers that are alive.
\<close>

theorem failsafe_after_poll:
  "let m = fst (mesh_poll rx now (fst (mesh_history self ops))) in
     (mesh_isLocalOwner m \<or> mesh_alive (mesh_owner m) now m \<or> os_clock (mn_ownership m) = - 1)
     \<and> mesh_primary m = firstOnline (se_priority (mn_election m))
         (mn_self m # filter (\<lambda>p. mesh_alive p now m) (omap_keys (mn_peers m)))"
proof -
  obtain k where ok: "mesh_ok k" and m: "fst (mesh_poll rx now (fst (mesh_history self ops))) = fst (refreshOnlineAndFailSafe now k)"
    and mono: "os_clock (mn_ownership k) \<le> os_clock (mn_ownership (fst (mesh_poll rx now (fst (mesh_history self ops)))))"
    using poll_is_refresh [OF mesh_ok_history] by blast
  let ?k2 = "(fst (run_steps (refresh_peer now) (omap_keys (mn_peers k)) k))
      \<lparr>mn_election := setOnline (online_list now k) (mn_election (fst (run_steps (refresh_peer now) (omap_keys (mn_peers k)) k)))\<rparr>"
  have frame: "mn_heartbeat ?k2 = mn_heartbeat k" "mn_timeoutMs ?k2 = mn_timeoutMs k"
    "mn_peers ?k2 = mn_peers k" "mn_self ?k2 = mn_self k" "mn_ownership ?k2 = mn_ownership k"
    using refresh_loop_frame [of now "omap_keys (mn_peers k)" k] by simp_all
  have "mesh_ok (fst (run_steps (refresh_peer now) (omap_keys (mn_peers k)) k))"
    by (rule run_steps_inv [where I = mesh_ok]) (use ok mesh_ok_refresh_peer in auto)
  then have ok2: "mesh_ok ?k2" by (simp add: mesh_ok_def)
  have m2: "fst (refreshOnlineAndFailSafe now k) = fst (failSafe now ?k2)"
    by (simp add: refreshOnlineAndFailSafe_def Let_def split_beta)
  have alive: "mesh_alive p now (fst (failSafe now ?k2)) = mesh_alive p now k" for p
    by (simp add: mesh_alive_def frame)
  have "mesh_isLocalOwner (fst (failSafe now ?k2)) \<or> mesh_alive (mesh_owner (fst (failSafe now ?k2))) now (fst (failSafe now ?k2))
      \<or> os_clock (mn_ownership (fst (failSafe now ?k2))) = - 1"
    using failSafe_owner [OF ok2, of now] mono m m2 frame(5)
    by (auto simp: alive mesh_alive_def frame dest: word_order.extremum_uniqueI)
  moreover have "mesh_primary (fst (failSafe now ?k2)) = firstOnline (se_priority (mn_election (fst (failSafe now ?k2))))
         (mn_self (fst (failSafe now ?k2)) # filter (\<lambda>p. mesh_alive p now (fst (failSafe now ?k2))) (omap_keys (mn_peers (fst (failSafe now ?k2)))))"
    unfolding alive failSafe_frame frame
    by (simp add: mesh_primary_def currentServer_def setOnline_def online_list_def)
  ultimately show ?thesis by (simp add: Let_def m m2)
qed

text \<open>
  The online and offline callbacks of a peer alternate over every history, each exactly
  once per change: their difference is the recorded state, which a \<open>poll\<close> sets to the
  peer's liveness.
\<close>

theorem transitions_alternate:
  "int (count_list (snd (mesh_history self ops)) (PeerOnline p))
      = int (count_list (snd (mesh_history self ops)) (PeerOffline p))
        + (if map_of (mn_peerOnline (fst (mesh_history self ops))) p = Some True then 1 else 0)"
  using history_reports [OF mesh_ok_init [of self], of p ops]
  by (simp add: mesh_history_def online_rel_def transitions_def online_bit_def) (simp add: meshInit_def)

text \<open>
  The owner callback never lies by omission: over every history the last reported owner
  (or the machine itself, if none was reported) is the current owner, unless the claim clock
  is saturated.
\<close>

theorem owner_reported:
  "os_clock (mn_ownership (fst (mesh_history self ops))) = - 1
   \<or> last_owner self (snd (mesh_history self ops)) = mesh_owner (fst (mesh_history self ops))"
  using history_reports [OF mesh_ok_init [of self], of "[]" ops]
  by (simp add: mesh_history_def owner_rel_def) (simp add: meshInit_def mesh_owner_def owner_def ownershipInit_def)

text \<open>
  A peer with another protocol version is reported once, not per message: over every
  history the warnings for a peer are at most one more than the times it was removed.
\<close>

theorem warned_once:
  "count_list (snd (mesh_history self ops)) (VersionMismatchWarning p) \<le> 1 + count_list ops (OpRemovePeer p)"
  using history_warnings [OF mesh_ok_init [of self], of ops p]
  by (simp add: mesh_history_def removals_def fresh_bit_def meshInit_def split: if_splits)


definition nodeA :: MeshNode where
  "nodeA = (meshInit ''A'')\<lparr>mn_peers := [(''B'', Some 1)], mn_heartbeat := onHeartbeat ''B'' 5 heartbeatInit, mn_now := 6\<rparr>"

definition nodeB :: MeshNode where
  "nodeB = (meshInit ''B'')\<lparr>mn_peers := [(''A'', Some 2)]\<rparr>"

lemma nodes_ok: "mesh_ok nodeA" "mesh_ok nodeB"
  by (auto simp: mesh_ok_def nodeA_def nodeB_def meshInit_def ownershipInit_def clock_ok_def omap_ok_def)

lemma nodeA_simps [simp]:
  "mn_self nodeA = ''A''" "mn_peers nodeA = [(''B'', Some 1)]" "mn_self nodeB = ''B''"
  "mn_ownership nodeA = ownershipInit ''A''" "mn_ownership nodeB = ownershipInit ''B''"
  "isPeerOnline ''B'' nodeA"
  by (simp_all add: nodeA_def nodeB_def meshInit_def isPeerOnline_def mesh_alive_def isAlive_def
      onHeartbeat_def heartbeatInit_def)


text \<open>
  Captured input reaches the sink exactly: an owner sends a key or button event to every
  connected peer, where a node that is not an owner injects that very code and direction,
  and an owner injects nothing; a node that does not own input forwards nothing.
\<close>

theorem forwarded_input:
  "(mesh_isLocalOwner a \<longrightarrow>
      (\<forall>h. Some h \<in> snd ` set (mn_peers a) \<longrightarrow> (\<exists>m. SendTo h m \<in> set (snd (forwardKey code down ts a))
        \<and> snd (handle now from m b) = (if mesh_isLocalOwner b then []
             else [Inject (make_event KeyEvent 0 0 code (if down then 1 else 0) ts)]))))
   \<and> (mesh_isLocalOwner a \<longrightarrow>
      (\<forall>h. Some h \<in> snd ` set (mn_peers a) \<longrightarrow> (\<exists>m. SendTo h m \<in> set (snd (forwardMouseMove dx dy ts a))
        \<and> snd (handle now from m b) = (if mesh_isLocalOwner b then []
             else [Inject (make_event MouseMove dx dy 0 0 ts)]))))
   \<and> (\<not> mesh_isLocalOwner a \<longrightarrow>
      forwardKey code down ts a = (a, []) \<and> forwardMouseButton code down ts a = (a, [])
      \<and> forwardMouseMove dx dy ts a = (a, []))"
proof -
  let ?e = "make_event KeyEvent 0 0 code (if down then 1 else 0) ts"
  let ?v = "make_event MouseMove dx dy 0 0 ts"
  have e: "fixed_ok ?e" "ev_type ?e \<noteq> mt_code Heartbeat" "fixed_ok ?v" "ev_type ?v \<noteq> mt_code Heartbeat"
    by (simp_all add: fixed_ok_def make_event_def)
  have k: "snd (forwardKey code down ts a) = broadcast (encodeInputEvent ?e) a" if "mesh_isLocalOwner a"
    using that by (simp add: forwardKey_def pipe_onKey_def make_msg_def)
  have v: "snd (forwardMouseMove dx dy ts a) = broadcast (encodeInputEvent ?v) a" if "mesh_isLocalOwner a"
    using that by (simp add: forwardMouseMove_def pipe_onMouseMove_def make_msg_def)
  have key: "\<exists>m. SendTo h m \<in> set (snd (forwardKey code down ts a))
        \<and> snd (handle now from m b) = (if mesh_isLocalOwner b then [] else [Inject ?e])"
    if "mesh_isLocalOwner a" "Some h \<in> snd ` set (mn_peers a)" for h
    using broadcast_reaches [OF that(2)] handle_input_event [OF e(1,2)] by (simp only: k [OF that(1)]) blast
  have move: "\<exists>m. SendTo h m \<in> set (snd (forwardMouseMove dx dy ts a))
        \<and> snd (handle now from m b) = (if mesh_isLocalOwner b then [] else [Inject ?v])"
    if "mesh_isLocalOwner a" "Some h \<in> snd ` set (mn_peers a)" for h
    using broadcast_reaches [OF that(2)] handle_input_event [OF e(3,4)] by (simp only: v [OF that(1)]) blast
  show ?thesis
  proof (intro conjI impI allI)
    show "forwardKey code down ts a = (a, [])" "forwardMouseButton code down ts a = (a, [])"
      "forwardMouseMove dx dy ts a = (a, [])" if "\<not> mesh_isLocalOwner a"
      using that by (simp_all add: forwardKey_def forwardMouseButton_def forwardMouseMove_def)
  qed (use key move in blast)+
qed

theorem forwarded_input_witness:
  "\<exists>m. SendTo 1 m \<in> set (snd (forwardKey 65 True 9 nodeA))
     \<and> snd (handle 7 ''A'' m (nodeB\<lparr>mn_ownership := snd (requestSwitchTo ''A'' (ownershipInit ''B''))\<rparr>))
         = [Inject (make_event KeyEvent 0 0 65 1 9)]"
proof -
  have "mesh_isLocalOwner nodeA" "Some 1 \<in> snd ` set (mn_peers nodeA)"
    by (simp_all add: mesh_isLocalOwner_def isLocalOwner_def ownershipInit_def)
  moreover have "\<not> mesh_isLocalOwner (nodeB\<lparr>mn_ownership := snd (requestSwitchTo ''A'' (ownershipInit ''B''))\<rparr>)"
    by (simp add: mesh_isLocalOwner_def isLocalOwner_def requestSwitchTo_def ownershipInit_def Let_def
        applyClaim_def claimSupersedes_def)
  ultimately show ?thesis
    using forwarded_input [of nodeA 65 True 9 7 "''A''"
        "nodeB\<lparr>mn_ownership := snd (requestSwitchTo ''A'' (ownershipInit ''B''))\<rparr>"] by auto
qed

text \<open>
  The clipboard does not ping-pong: a clipboard text that arrives from a peer is handed
  to the OS exactly once, and the change notification the OS then raises for it is not sent
  on to anyone, while a later change of the clipboard is sent to every connected peer.
\<close>

theorem clipboard_no_echo:
  assumes "length text \<le> 67108864"
  shows "let (n1, o1) = handle now from (encodeVarMessage ClipboardUpdate (to_bytes text)) n;
             (n2, o2) = onLocalClipboardChange text n1 in
      o1 = [RemoteClipboard text] \<and> o2 = []
      \<and> (\<forall>h. Some h \<in> snd ` set (mn_peers n) \<longrightarrow>
            SendTo h (encodeVarMessage ClipboardUpdate (to_bytes other)) \<in> set (snd (onLocalClipboardChange other n2)))"
proof -
  have fits: "payload_fits (to_bytes text)" using assms by (simp add: payload_fits_length)
  define n1 where "n1 = n\<lparr>mn_heartbeat := onHeartbeat from now (mn_heartbeat n),
      mn_clipboard := noteAppliedRemote text (mn_clipboard n)\<rparr>"
  have h: "handle now from (encodeVarMessage ClipboardUpdate (to_bytes text)) n = (n1, [RemoteClipboard text])"
    using handle_var_message [OF _ _ fits, of ClipboardUpdate now "from" n]
    by (simp add: isFixedType_def handle_var_def n1_def)
  define n2 where "n2 = n1\<lparr>mn_clipboard := (mn_clipboard n1)\<lparr>cs_hasPending := False\<rparr>\<rparr>"
  have c: "onLocalClipboardChange text n1 = (n2, [])"
    by (simp add: onLocalClipboardChange_def shouldBroadcastLocalChange_def Let_def n1_def n2_def noteAppliedRemote_def)
  have "snd (onLocalClipboardChange other n2) = broadcast (encodeVarMessage ClipboardUpdate (to_bytes other))
      (n2\<lparr>mn_clipboard := snd (shouldBroadcastLocalChange other (mn_clipboard n2))\<rparr>)"
    by (simp add: onLocalClipboardChange_def shouldBroadcastLocalChange_def Let_def n2_def)
  moreover have "mn_peers (n2\<lparr>mn_clipboard := snd (shouldBroadcastLocalChange other (mn_clipboard n2))\<rparr>) = mn_peers n"
    by (simp add: n2_def n1_def)
  ultimately show ?thesis using broadcast_reaches by (simp add: h c)
qed

theorem clipboard_no_echo_witness:
  "snd (onLocalClipboardChange ''hi'' (fst (handle 7 ''A'' (encodeVarMessage ClipboardUpdate (to_bytes ''hi'')) nodeB))) = []"
  using clipboard_no_echo [of "''hi''" 7 "''A''" nodeB "''x''"] by (simp add: split_beta Let_def)

section \<open>Where the node falls short\<close>

text \<open>
  A fail-safe revert can shadow the next switch: a node that reverted bumps its clock
  alone, so when the old controller, at the clock they shared, switches to a machine and its
  id is the smaller one, the reverted node rejects the claim and keeps owning itself while
  the controller has the target as owner.
\<close>

theorem revert_shadows_switch:
  assumes "mesh_ok a" "mesh_ok b" "os_clock (mn_ownership a) = os_clock (mn_ownership b)"
    and "os_clock (mn_ownership b) \<noteq> - 1" "mn_self a < mn_self b"
    and "\<not> mesh_isLocalOwner b" "\<not> mesh_alive (mesh_owner b) now b"
    and "target \<noteq> mn_self b" "claim_ok (fst (requestSwitchTo target (mn_ownership a)))"
  shows "let b1 = fst (failSafe now b); c = fst (requestSwitchTo target (mn_ownership a));
             m = encodeVarMessage SwitchOwner (encodeOwnershipClaim c) in
      mesh_owner b1 = mn_self b \<and> mesh_owner (fst (handle later from m b1)) = mn_self b
      \<and> owner (snd (requestSwitchTo target (mn_ownership a))) = target"
proof -
  let ?c = "fst (requestSwitchTo target (mn_ownership a))"
  let ?s = "snd (requestSwitchTo (mn_self b) (mn_ownership b))"
  have cl: "clock_ok (mn_ownership a)" "clock_ok (mn_ownership b)" "os_self (mn_ownership b) = mn_self b"
    "os_self (mn_ownership a) = mn_self a"
    using assms(1,2) by (simp_all add: mesh_ok_def)
  have b1: "mn_ownership (fst (failSafe now b)) = ?s"
    using assms(6,7) by (simp add: failSafe_def)
  have cur: "os_current ?s = \<lparr>cl_target = mn_self b, cl_origin = mn_self b, cl_sequence = os_clock (mn_ownership b) + 1\<rparr>"
    using request_adopted(1) [OF cl(2) assms(4)] cl(3) by (simp add: requestSwitchTo_def Let_def)
  have c: "?c = \<lparr>cl_target = target, cl_origin = mn_self a, cl_sequence = os_clock (mn_ownership b) + 1\<rparr>"
    using assms(3) cl(4) by (simp add: requestSwitchTo_def Let_def)
  have "\<not> claimSupersedes ?c (os_current ?s)"
    using assms(5) by (auto simp: claimSupersedes_def cur c)
  then have "owner (snd (applyClaim ?c ?s)) = mn_self b"
    by (simp add: owner_def applyClaim_current cur)
  moreover have "owner (snd (requestSwitchTo target (mn_ownership a))) = target"
    using request_adopted(2) [OF cl(1)] assms(3,4) by simp
  ultimately show ?thesis
    using handle_claim_message [OF assms(9), of later "from" "fst (failSafe now b)"]
    by (simp add: Let_def mesh_owner_def b1) (simp add: owner_def cur)
qed

definition controlledB :: MeshNode where
  "controlledB = nodeB\<lparr>mn_ownership := \<lparr>os_self = ''B'',
     os_current = \<lparr>cl_target = ''A'', cl_origin = ''A'', cl_sequence = 1\<rparr>, os_clock = 1\<rparr>\<rparr>"

definition controllerA :: MeshNode where
  "controllerA = nodeA\<lparr>mn_ownership := \<lparr>os_self = ''A'',
     os_current = \<lparr>cl_target = ''A'', cl_origin = ''A'', cl_sequence = 1\<rparr>, os_clock = 1\<rparr>\<rparr>"

theorem revert_shadows_switch_witness:
  "mesh_owner (fst (handle 5000 ''A'' (encodeVarMessage SwitchOwner (encodeOwnershipClaim
       (fst (requestSwitchTo ''C'' (mn_ownership controllerA))))) (fst (failSafe 4000 controlledB)))) = ''B''
   \<and> owner (snd (requestSwitchTo ''C'' (mn_ownership controllerA))) = ''C''"
proof -
  have "mesh_ok controllerA" "mesh_ok controlledB"
    using nodes_ok by (simp_all add: mesh_ok_def controllerA_def controlledB_def clock_ok_def)
  moreover have "mn_self controlledB = ''B''" "mn_self controllerA = ''A''"
    by (simp_all add: controlledB_def controllerA_def)
  moreover have "\<not> mesh_isLocalOwner controlledB" "\<not> mesh_alive (mesh_owner controlledB) 4000 controlledB"
    by (simp_all add: mesh_isLocalOwner_def isLocalOwner_def controlledB_def mesh_alive_def isAlive_def
        nodeB_def meshInit_def heartbeatInit_def)
  moreover have "claim_ok (fst (requestSwitchTo ''C'' (mn_ownership controllerA)))"
    by (simp add: claim_ok_def requestSwitchTo_def Let_def controllerA_def)
  ultimately show ?thesis
    using revert_shadows_switch [of controllerA controlledB 4000 "''C''" 5000 "''A''"]
    by (simp add: controllerA_def controlledB_def Let_def)
qed

text \<open>
  The claim clock has no headroom check: one claim with sequence \<open>2 ^ 64 - 1\<close> makes its
  target the owner for good on every node that handles it.  No later local switch changes
  the owner, and the fail-safe announces the machine itself as owner without becoming it.
\<close>

theorem saturated_claim_sticks:
  assumes "claim_ok c" "cl_sequence c = - 1" "cl_sequence (os_current (mn_ownership b)) \<noteq> - 1"
  shows "let b1 = fst (handle now from (encodeVarMessage SwitchOwner (encodeOwnershipClaim c)) b) in
      mesh_owner b1 = cl_target c
      \<and> mesh_owner (fst (mesh_requestSwitchTo t b1)) = cl_target c
      \<and> mesh_owner (fst (failSafe later b1)) = cl_target c
      \<and> (mesh_isLocalOwner b1 \<or> mesh_alive (cl_target c) later b1
           \<or> snd (failSafe later b1) = [OwnerChanged (mn_self b1)])"
proof -
  define b1 where "b1 = fst (handle now from (encodeVarMessage SwitchOwner (encodeOwnershipClaim c)) b)"
  have "mn_ownership b1 = snd (applyClaim c (mn_ownership b))"
    unfolding b1_def by (rule handle_claim_message [OF assms(1)])
  moreover have "claimSupersedes c (os_current (mn_ownership b))"
    using assms(2,3) by (auto simp: claimSupersedes_def word_order.not_eq_extremum)
  ultimately have cur: "os_current (mn_ownership b1) = c" and clk: "os_clock (mn_ownership b1) = - 1"
    using assms(2) by (simp_all add: applyClaim_current max_def)
  have stuck: "os_current (snd (requestSwitchTo u (mn_ownership b1))) = c" for u
    using assms(2) by (simp add: requestSwitchTo_def Let_def applyClaim_current cur clk claimSupersedes_def)
  have o: "mesh_owner b1 = cl_target c" by (simp add: mesh_owner_def owner_def cur)
  have "mesh_owner (fst (mesh_requestSwitchTo t b1)) = cl_target c"
    using stuck [of t] o by (auto simp: mesh_requestSwitchTo_def Let_def split_beta mesh_owner_def owner_def)
  moreover have "mesh_owner (fst (failSafe later b1)) = cl_target c"
    using stuck o by (simp add: failSafe_def mesh_owner_def owner_def)
  moreover have "mesh_isLocalOwner b1 \<or> mesh_alive (cl_target c) later b1
           \<or> snd (failSafe later b1) = [OwnerChanged (mn_self b1)]"
    using o by (simp add: failSafe_def)
  ultimately show ?thesis using o by (simp add: Let_def b1_def)
qed

theorem saturated_claim_sticks_witness:
  "mesh_owner (fst (mesh_requestSwitchTo ''B'' (fst (handle 7 ''A''
      (encodeVarMessage SwitchOwner (encodeOwnershipClaim \<lparr>cl_target = ''A'', cl_origin = ''A'', cl_sequence = - 1\<rparr>)) nodeB)))) = ''A''"
  using saturated_claim_sticks [of "\<lparr>cl_target = ''A'', cl_origin = ''A'', cl_sequence = - 1\<rparr>" nodeB 7 "''A''" "''B''" 8]
  by (simp add: claim_ok_def ownershipInit_def Let_def)

text \<open>
  A clipboard text that does not fit the receive buffer is lost without notice: a
  message longer than the 8 KiB \<open>poll\<close> reads, cut to the buffer as \<open>recv\<close> does, is dropped;
  only the sender's liveness is recorded.
\<close>

theorem long_clipboard_dropped:
  assumes "8186 < length text" "length text \<le> 67108864"
  shows "handle now from (take kPollBuffer (encodeVarMessage ClipboardUpdate (to_bytes text))) n
    = (n\<lparr>mn_heartbeat := onHeartbeat from now (mn_heartbeat n)\<rparr>, [])"
proof -
  let ?m = "encodeVarMessage ClipboardUpdate (to_bytes text)"
  let ?h = "\<lparr>vh_version = kProtocolVersion, vh_type = mt_code ClipboardUpdate, vh_length = word_of_nat (length text)\<rparr>"
  have fits: "payload_fits (to_bytes text)" using assms(2) by (simp add: payload_fits_length)
  have len: "length ?m = 6 + length text" by simp
  have enc: "take kPollBuffer ?m = header_bytes ?h @ take 8186 (to_bytes text)"
    by (simp add: encodeVarMessage_def kPollBuffer_def)
  have "(header_bytes ?h @ x) ! 0 = kProtocolVersion" "(header_bytes ?h @ x) ! 1 = mt_code ClipboardUpdate" for x
    by (simp_all add: header_bytes_def)
  then have "decodeMessage (take kPollBuffer ?m) emptyMessage = NeedMore"
    unfolding enc using assms(1) payload_fits_word [OF fits]
      mt_of_code_code [of ClipboardUpdate] isKnownType_code [of ClipboardUpdate]
    by (simp add: decodeMessage_def header_of_header_bytes Let_def isFixedType_def)
  then show ?thesis by (simp add: handle_def Let_def)
qed

theorem long_clipboard_dropped_witness:
  "snd (handle 1 ''A'' (take kPollBuffer (encodeVarMessage ClipboardUpdate (to_bytes (replicate 9000 (CHR ''x''))))) nodeB) = []"
  by (subst long_clipboard_dropped) simp_all

end
