(* ===== verification/WebSocket.thy ===== *)
theory WebSocket
  imports Codec Transport
begin

text \<open>
  The WebSocket layer: the frame codec \<open>net/ws_frame.{h,cpp}\<close>, the stream reassembler
  \<open>net/frame_assembler.{h,cpp}\<close>, and the send and receive paths of the transport
  \<open>platform/ws_transport_posix.cpp\<close> over a scripted socket.  The four random mask bytes are
  an argument (what \<open>randomBytes(4)\<close> returned).  A socket read is data, end of stream,
  "would block" or a failure.
\<close>

section \<open>Frames\<close>

definition WsContinuation :: u8 where "WsContinuation = 0x0"
definition WsText :: u8 where "WsText = 0x1"
definition WsBinary :: u8 where "WsBinary = 0x2"
definition WsClose :: u8 where "WsClose = 0x8"
definition WsPing :: u8 where "WsPing = 0x9"
definition WsPong :: u8 where "WsPong = 0xA"

record WsFrame =
  wf_opcode :: u8
  wf_fin :: bool
  wf_payload :: bytes

definition kMaxPayload :: u64 where
  "kMaxPayload = 100 * 1024 * 1024"

definition xor_mask :: "bytes \<Rightarrow> bytes \<Rightarrow> bytes" where
  "xor_mask mk p = map (\<lambda>i. p ! i XOR mk ! (i mod 4)) [0..<length p]"

definition ws_length_field :: "u8 \<Rightarrow> nat \<Rightarrow> bytes" where
  "ws_length_field maskBit len =
     (if len < 126 then [maskBit OR word_of_nat len]
      else if len \<le> 0xFFFF then (maskBit OR 126) # be_bytes 2 (word_of_nat len :: u64)
      else (maskBit OR 127) # be_bytes 8 (word_of_nat len :: u64))"

definition mask_key :: "bytes \<Rightarrow> bytes" where
  "mask_key rnd = (if length rnd \<noteq> 4 then [0, 0, 0, 0] else rnd)"

definition wsEncodeFrame :: "u8 \<Rightarrow> bytes \<Rightarrow> bool \<Rightarrow> bool \<Rightarrow> bytes \<Rightarrow> bytes" where
  "wsEncodeFrame op payload masked fin rnd =
     [(if fin then 0x80 else 0x00) OR op]
       @ ws_length_field (if masked then 0x80 else 0x00) (length payload)
       @ (if masked then mask_key rnd @ xor_mask (mask_key rnd) payload else payload)"

datatype ws_result = WsOk WsFrame nat | WsNeedMore | WsError

definition ws_ext_len :: "u8 \<Rightarrow> nat" where
  "ws_ext_len l7 = (if l7 = 126 then 2 else if l7 = 127 then 8 else 0)"

definition wsDecodeFrame :: "bytes \<Rightarrow> ws_result" where
  "wsDecodeFrame buf =
     (if length buf < 2 then WsNeedMore
      else let fin = (buf ! 0 AND 0x80 \<noteq> 0); opcode = buf ! 0 AND 0x0f;
               masked = (buf ! 1 AND 0x80 \<noteq> 0); l7 = buf ! 1 AND 0x7f; ext = ws_ext_len l7 in
        if length buf < 2 + ext then WsNeedMore
        else let plen = (if ext = 0 then ucast l7 else be_value (take ext (drop 2 buf)) :: u64) in
          if plen > kMaxPayload then WsError
          else if masked \<and> length buf < 2 + ext + 4 then WsNeedMore
          else let mk = (if masked then take 4 (drop (2 + ext) buf) else [0, 0, 0, 0]);
                   pos = 2 + ext + (if masked then 4 else 0) in
            if length buf < pos + unat plen then WsNeedMore
            else WsOk \<lparr>wf_opcode = opcode, wf_fin = fin,
                       wf_payload = (let p = take (unat plen) (drop pos buf) in if masked then xor_mask mk p else p)\<rparr>
                      (pos + unat plen))"

section \<open>Laws of the frame codec\<close>

lemma length_xor_mask [simp]: "length (xor_mask mk p) = length p"
  by (simp add: xor_mask_def)

lemma xor_mask_inverse [simp]: "xor_mask mk (xor_mask mk p) = p"
  by (rule nth_equalityI) (simp_all add: xor_mask_def xor.assoc)

lemma length_mask_key [simp]: "length (mask_key rnd) = 4"
  by (simp add: mask_key_def)

lemma low_bits: "w AND 0x7f = take_bit 7 (w :: u8)" "w AND 0x0f = take_bit 4 (w :: u8)"
  by (simp_all add: take_bit_eq_mask mask_eq_exp_minus_1)

lemma seven_bits: "x < 128 \<Longrightarrow> (m OR x) AND 0x7f = x" if "m = 0x80 \<or> m = 0" for x m :: u8
proof -
  assume "x < 128"
  then have "take_bit 7 x = x" by (intro take_bit_small) (simp add: word_less_nat_alt)
  moreover have "take_bit 7 m = 0" using that by auto
  ultimately show ?thesis by (simp add: low_bits)
qed

lemma high_bit: "x < 128 \<Longrightarrow> ((m OR x) AND 0x80 \<noteq> 0) = (m = 0x80)" if "m = 0x80 \<or> m = 0" for x m :: u8
proof -
  assume "x < 128"
  then have eq: "take_bit 7 x = x" by (intro take_bit_small) (simp add: word_less_nat_alt)
  have "\<not> bit (take_bit 7 x) 7" by (simp add: bit_take_bit_iff)
  then have nb: "\<not> bit x 7" unfolding eq .
  have "((m OR x) AND 0x80 \<noteq> 0) = bit (m OR x) 7"
    using and_exp_eq_0_iff_not_bit [of "m OR x" 7] by simp
  also have "\<dots> = bit m 7" using nb by (simp add: bit_or_iff)
  also have "\<dots> = (m = 0x80)" using that by auto
  finally show ?thesis .
qed

lemma opcode_bits: "op < 16 \<Longrightarrow> ((if fin then 0x80 else 0) OR op) AND 0x0f = (op :: u8)"
proof -
  assume "op < 16"
  then have "take_bit 4 op = op" by (intro take_bit_small) (simp add: word_less_nat_alt)
  then show ?thesis by (simp add: low_bits)
qed

text \<open>The header of an encoded frame: what its length field says and how long it is.\<close>

definition ws_ext :: "nat \<Rightarrow> bytes" where
  "ws_ext len = tl (ws_length_field 0 len)"

definition ws_l7 :: "nat \<Rightarrow> u8" where
  "ws_l7 len = (if len < 126 then word_of_nat len else if len \<le> 0xFFFF then 126 else 127)"

lemma ws_length_field_alt: "ws_length_field m len = (m OR ws_l7 len) # ws_ext len"
  by (simp add: ws_length_field_def ws_ext_def ws_l7_def)

lemma ws_l7_small: "ws_l7 len < 128"
  by (auto simp: ws_l7_def word_less_nat_alt unat_of_nat)

lemma ws_ext_length: "length (ws_ext len) = ws_ext_len (ws_l7 len)"
proof (cases "len < 126")
  case True
  then have "unat (word_of_nat len :: u8) = len" by (intro unat_of_nat_fits) simp
  then have "(word_of_nat len :: u8) \<noteq> 126" "(word_of_nat len :: u8) \<noteq> 127"
    using True by (auto simp: word_unat_eq_iff)
  then show ?thesis using True by (simp add: ws_ext_def ws_length_field_def ws_l7_def ws_ext_len_def)
next
  case False
  then show ?thesis by (simp add: ws_ext_def ws_length_field_def ws_l7_def ws_ext_len_def)
qed

lemma ws_plen:
  assumes "len < 2 ^ 64"
  shows "(if ws_ext_len (ws_l7 len) = 0 then ucast (ws_l7 len) else be_value (ws_ext len)) = (word_of_nat len :: u64)"
proof -
  consider "len < 126" | "126 \<le> len" "len \<le> 0xFFFF" | "0xFFFF < len" by linarith
  then show ?thesis
  proof cases
    case 1
    then have u: "unat (word_of_nat len :: u8) = len" by (intro unat_of_nat_fits) simp
    then have "(word_of_nat len :: u8) \<noteq> 126" "(word_of_nat len :: u8) \<noteq> 127"
      using 1 by (auto simp: word_unat_eq_iff)
    moreover have "(ucast (word_of_nat len :: u8) :: u64) = word_of_nat len"
      using u by (metis of_nat_unat)
    ultimately show ?thesis using 1 by (simp add: ws_ext_len_def ws_l7_def)
  next
    case 2
    then have "take_bit 16 (word_of_nat len :: u64) = word_of_nat len"
      by (intro take_bit_small) (simp add: unat_of_nat)
    then show ?thesis
      using 2 by (simp add: ws_ext_len_def ws_l7_def ws_ext_def ws_length_field_def be_value_be_bytes_take)
  next
    case 3
    then show ?thesis
      by (simp add: ws_ext_len_def ws_l7_def ws_ext_def ws_length_field_def be_value_be_bytes_take take_bit_full)
  qed
qed

definition frame_ok :: "bytes \<Rightarrow> bool" where
  "frame_ok p \<longleftrightarrow> length p \<le> unat kMaxPayload"

lemma frame_ok_length: "frame_ok p \<longleftrightarrow> length p \<le> 104857600"
  by (simp add: frame_ok_def kMaxPayload_def)

text \<open>What the decoder makes of any prefix of a frame followed by anything.\<close>

lemma decode_frame_prefix:
  assumes "op < 16" "frame_ok p"
  shows "wsDecodeFrame (take k (wsEncodeFrame op p masked fin rnd @ r))
    = (if k < length (wsEncodeFrame op p masked fin rnd) then WsNeedMore
       else WsOk \<lparr>wf_opcode = op, wf_fin = fin, wf_payload = p\<rparr> (length (wsEncodeFrame op p masked fin rnd)))"
proof -
  define b0 where "b0 = (if fin then 0x80 else 0x00) OR op"
  define m where "m = (if masked then 0x80 else 0x00 :: u8)"
  define b1 where "b1 = m OR ws_l7 (length p)"
  define ext where "ext = ws_ext (length p)"
  define key where "key = (if masked then mask_key rnd else [])"
  define body where "body = (if masked then xor_mask (mask_key rnd) p else p)"
  define enc where "enc = b0 # b1 # ext @ key @ body"
  define buf where "buf = take k (enc @ r)"
  define pos where "pos = 2 + length ext + (if masked then 4 else 0)"
  have enc: "wsEncodeFrame op p masked fin rnd = enc"
    by (simp add: wsEncodeFrame_def ws_length_field_alt enc_def b0_def b1_def m_def ext_def key_def body_def)
  have len_key: "length key = (if masked then 4 else 0)" and len_body: "length body = length p"
    by (simp_all add: key_def body_def)
  have len: "length enc = pos + length p" by (simp add: enc_def len_key len_body pos_def)
  have l7: "b1 AND 0x7f = ws_l7 (length p)"
    unfolding b1_def by (rule seven_bits) (auto simp: m_def ws_l7_small)
  have msk: "(b1 AND 0x80 \<noteq> 0) = masked"
    unfolding b1_def using high_bit [of m "ws_l7 (length p)"] by (auto simp: m_def ws_l7_small)
  have opc: "b0 AND 0x0f = op" unfolding b0_def by (rule opcode_bits [OF assms(1)])
  have fbit: "(b0 AND 0x80 \<noteq> 0) = fin"
  proof -
    have "op < 128" using assms(1) by (rule less_trans) simp
    then show ?thesis unfolding b0_def using high_bit [of "if fin then 0x80 else 0" op] by auto
  qed
  have el: "ws_ext_len (ws_l7 (length p)) = length ext" by (simp add: ext_def ws_ext_length)
  have small: "length p < 2 ^ 64" using assms(2) by (simp add: frame_ok_length)
  have plen: "(if length ext = 0 then ucast (ws_l7 (length p)) else be_value ext) = (word_of_nat (length p) :: u64)"
    using ws_plen [OF small] unfolding ext_def ws_ext_length .
  have up: "unat (word_of_nat (length p) :: u64) = length p"
    using small by (intro unat_of_nat_fits) simp
  have fits: "\<not> (word_of_nat (length p) :: u64) > kMaxPayload"
    using assms(2) by (simp add: word_less_nat_alt up frame_ok_def not_less)
  have nth: "buf ! 0 = b0 \<and> buf ! 1 = b1" if "2 \<le> k"
    using that by (simp add: buf_def enc_def)
  have ext: "take (length ext) (drop 2 buf) = ext" if "2 + length ext \<le> k"
    using that by (simp add: buf_def enc_def drop_take take_Cons')
  have kk: "take 4 (drop (2 + length ext) buf) = key" if "masked" "2 + length ext + 4 \<le> k"
    using that by (simp add: buf_def enc_def drop_take len_key)
  have bb: "take (length p) (drop pos buf) = body" if "length enc \<le> k"
    using that by (simp add: buf_def enc_def drop_take len_key len_body pos_def)
  have lb: "length buf = min k (length enc + length r)" by (simp add: buf_def)
  have unm: "(if masked then xor_mask key body else body) = p" by (simp add: key_def body_def)
  show ?thesis
  proof (cases "2 \<le> k")
    case False
    then show ?thesis unfolding enc buf_def [symmetric]
      by (simp add: wsDecodeFrame_def lb len pos_def)
  next
    case True
    then have b: "buf ! 0 = b0" "buf ! 1 = b1" "\<not> length buf < 2" using nth lb len by (auto simp: pos_def)
    show ?thesis
    proof (cases "2 + length ext \<le> k")
      case False
      then have "length buf < 2 + length ext" by (simp add: lb)
      then show ?thesis using b False unfolding enc buf_def [symmetric]
        by (simp add: wsDecodeFrame_def Let_def l7 el len pos_def)
    next
      case True
      then have le: "\<not> length buf < 2 + length ext" using lb len by (simp add: pos_def)
      have dec: "wsDecodeFrame buf = (if masked \<and> length buf < 2 + length ext + 4 then WsNeedMore
        else if length buf < pos + length p then WsNeedMore
        else WsOk \<lparr>wf_opcode = op, wf_fin = fin,
                       wf_payload = (let q = take (length p) (drop pos buf) in
                         if masked then xor_mask (take 4 (drop (2 + length ext) buf)) q else q)\<rparr>
                      (pos + length p))"
        unfolding wsDecodeFrame_def Let_def b l7 el msk opc fbit ext [OF True] plen up pos_def
        using b(3) le fits by simp
      show ?thesis
      proof (cases "k < length enc")
        case True
        then have "length buf < pos + length p" using len lb by simp
        then show ?thesis using True unfolding enc buf_def [symmetric] dec by simp
      next
        case False
        then have "\<not> length buf < pos + length p" "2 + length ext + (if masked then 4 else 0) \<le> k"
          using len lb by (simp_all add: pos_def)
        moreover have "masked \<Longrightarrow> xor_mask (take 4 (drop (2 + length ext) buf)) body = p"
          using kk unm calculation(2) by (simp add: key_def body_def)
        moreover have "\<not> (masked \<and> length buf < 2 + length ext + 4)"
          using calculation(1) by (auto simp: pos_def)
        moreover have "take (length p) (drop pos buf) = body" using bb False by simp
        moreover have "\<not> masked \<Longrightarrow> body = p" by (simp add: body_def)
        ultimately have "wsDecodeFrame buf = WsOk \<lparr>wf_opcode = op, wf_fin = fin, wf_payload = p\<rparr> (pos + length p)"
          unfolding dec Let_def by (cases masked) simp_all
        then show ?thesis using False unfolding enc buf_def [symmetric] len by simp
      qed
    qed
  qed
qed

lemma decode_frame:
  "op < 16 \<Longrightarrow> frame_ok p \<Longrightarrow> wsDecodeFrame (wsEncodeFrame op p masked fin rnd @ r)
     = WsOk \<lparr>wf_opcode = op, wf_fin = fin, wf_payload = p\<rparr> (length (wsEncodeFrame op p masked fin rnd))"
  using decode_frame_prefix [of op p "length (wsEncodeFrame op p masked fin rnd @ r)" masked fin rnd r] by simp

lemma decode_frame_partial:
  "op < 16 \<Longrightarrow> frame_ok p \<Longrightarrow> k < length (wsEncodeFrame op p masked fin rnd) \<Longrightarrow>
     wsDecodeFrame (take k (wsEncodeFrame op p masked fin rnd)) = WsNeedMore"
  using decode_frame_prefix [of op p k masked fin rnd "[]"] by simp

section \<open>Reassembly\<close>

record WsFrameAssembler =
  as_buf :: bytes

definition asmInit :: WsFrameAssembler where
  "asmInit = \<lparr>as_buf = []\<rparr>"

definition asm_feed :: "bytes \<Rightarrow> WsFrameAssembler \<Rightarrow> WsFrameAssembler" where
  "asm_feed data a = a\<lparr>as_buf := as_buf a @ data\<rparr>"

definition asm_next :: "WsFrameAssembler \<Rightarrow> WsFrame option \<times> WsFrameAssembler" where
  "asm_next a =
     (if as_buf a = [] then (None, a)
      else case wsDecodeFrame (as_buf a) of
        WsOk f n \<Rightarrow> (Some f, a\<lparr>as_buf := drop n (as_buf a)\<rparr>)
      | WsError \<Rightarrow> (None, a\<lparr>as_buf := []\<rparr>)
      | WsNeedMore \<Rightarrow> (None, a))"

definition asm_buffered :: "WsFrameAssembler \<Rightarrow> nat" where
  "asm_buffered a = length (as_buf a)"

text \<open>The bytes a sender of binary messages puts on the wire; each message with its mask.\<close>

definition ws_stream :: "bool \<Rightarrow> (bytes \<times> bytes) list \<Rightarrow> bytes" where
  "ws_stream client xs = concat (map (\<lambda>(p, rnd). wsEncodeFrame WsBinary p client True rnd) xs)"

definition stream_ok :: "(bytes \<times> bytes) list \<Rightarrow> bool" where
  "stream_ok xs \<longleftrightarrow> list_all (\<lambda>x. frame_ok (fst x)) xs"

lemma ws_frame_nonempty [simp]: "wsEncodeFrame op p masked fin rnd \<noteq> []"
  by (simp add: wsEncodeFrame_def)

lemma ws_stream_simps [simp]:
  "ws_stream client [] = []"
  "ws_stream client (x # xs) = wsEncodeFrame WsBinary (fst x) client True (snd x) @ ws_stream client xs"
  "ws_stream client (xs @ ys) = ws_stream client xs @ ws_stream client ys"
  by (simp_all add: ws_stream_def split_beta)

lemma WsBinary_small [simp]: "WsBinary < 16"
  by (simp add: WsBinary_def)

text \<open>A buffer that is a prefix of a stream: the next frame comes out once it is complete.\<close>

lemma asm_next_prefix:
  assumes "as_buf a @ rest = ws_stream client (x # xs)" "stream_ok (x # xs)"
  shows "asm_next a =
     (if length (wsEncodeFrame WsBinary (fst x) client True (snd x)) \<le> length (as_buf a)
      then (Some \<lparr>wf_opcode = WsBinary, wf_fin = True, wf_payload = fst x\<rparr>,
            a\<lparr>as_buf := drop (length (wsEncodeFrame WsBinary (fst x) client True (snd x))) (as_buf a)\<rparr>)
      else (None, a))"
proof -
  let ?f = "wsEncodeFrame WsBinary (fst x) client True (snd x)"
  have buf: "as_buf a = take (length (as_buf a)) (?f @ ws_stream client xs)"
    using assms(1) by (metis append_eq_conv_conj ws_stream_simps(2))
  have ok: "frame_ok (fst x)" using assms(2) by (simp add: stream_ok_def)
  have "wsDecodeFrame (as_buf a) = (if length (as_buf a) < length ?f then WsNeedMore
      else WsOk \<lparr>wf_opcode = WsBinary, wf_fin = True, wf_payload = fst x\<rparr> (length ?f))"
    by (subst buf) (rule decode_frame_prefix [OF WsBinary_small ok])
  moreover have "as_buf a \<noteq> []" if "length ?f \<le> length (as_buf a)"
    using that by (metis length_0_conv le_zero_eq ws_frame_nonempty)
  ultimately show ?thesis by (auto simp: asm_next_def)
qed

lemma asm_next_empty: "as_buf a = [] \<Longrightarrow> asm_next a = (None, a)"
  by (simp add: asm_next_def)

section \<open>The transport\<close>

datatype sock_read = SockData bytes | SockEof | SockWouldBlock | SockFail

text \<open>
  A socket write takes some bytes, would block (and \<open>select\<close> then finds the socket writable
  within its 100 ms, or not), or fails.
\<close>

datatype sock_write = Wrote nat | WriteBlocked bool | WriteFailed

text \<open>
  \<open>wc_in\<close> is what the next socket reads (of at most 4096 bytes each) return; once it is
  used up they would block.  \<open>wc_wr\<close> is what the next socket writes do; once it is used up
  they take everything.  \<open>wc_out\<close> collects what was written.
\<close>

record WsConn =
  wc_connected :: bool
  wc_client :: bool
  wc_asm :: WsFrameAssembler
  wc_in :: "sock_read list"
  wc_wr :: "sock_write list"
  wc_out :: bytes

definition rawRecv :: "WsConn \<Rightarrow> sock_read \<times> WsConn" where
  "rawRecv c = (case wc_in c of [] \<Rightarrow> (SockWouldBlock, c) | r # q \<Rightarrow> (r, c\<lparr>wc_in := q\<rparr>))"

fun rawSendAll :: "sock_write list \<Rightarrow> bytes \<Rightarrow> bool \<times> sock_write list \<times> bytes" where
  "rawSendAll ws [] = (True, ws, [])"
| "rawSendAll [] d = (True, [], d)"
| "rawSendAll (Wrote n # ws) d =
     (case rawSendAll ws (drop (max 1 n) d) of (ok, ws1, out) \<Rightarrow> (ok, ws1, take (max 1 n) d @ out))"
| "rawSendAll (WriteBlocked writable # ws) d = (if writable then rawSendAll ws d else (False, ws, []))"
| "rawSendAll (WriteFailed # ws) d = (False, ws, [])"

definition ws_send :: "bytes \<Rightarrow> bytes \<Rightarrow> WsConn \<Rightarrow> bool \<times> WsConn" where
  "ws_send rnd data c =
     (if \<not> wc_connected c then (False, c)
      else case rawSendAll (wc_wr c) (wsEncodeFrame WsBinary data (wc_client c) True rnd) of
        (ok, ws, out) \<Rightarrow> (ok, c\<lparr>wc_wr := ws, wc_out := wc_out c @ out\<rparr>))"

lemma rawSendAll_script_done [simp]: "rawSendAll [] d = (True, [], d)"
  by (cases d) simp_all

text \<open>What was written is a prefix of the frame, all of it exactly when the send succeeds.\<close>

lemma rawSendAll_prefix:
  "rawSendAll ws d = (ok, ws1, out) \<Longrightarrow> \<exists>r. d = out @ r \<and> (ok \<longrightarrow> r = [])"
proof (induction ws d arbitrary: ok ws1 out rule: rawSendAll.induct)
  case (3 n ws v va)
  obtain ok2 ws2 out2 where r: "rawSendAll ws (drop (max 1 n) (v # va)) = (ok2, ws2, out2)"
    by (cases "rawSendAll ws (drop (max 1 n) (v # va))") auto
  obtain z where z: "drop (max 1 n) (v # va) = out2 @ z" "ok2 \<longrightarrow> z = []" using "3.IH" [OF r] by blast
  have "v # va = take (max 1 n) (v # va) @ out2 @ z" unfolding z(1) [symmetric] by (rule append_take_drop_id [symmetric])
  moreover have "out = take (max 1 n) (v # va) @ out2" "ok = ok2"
    using "3.prems" unfolding rawSendAll.simps r by simp_all
  ultimately show ?case using z(2) by auto
qed (auto split: if_splits)

definition copyFrame :: "nat \<Rightarrow> WsFrame \<Rightarrow> recv_result" where
  "copyFrame cap f = recv_of_bytes (take cap (wf_payload f))"

definition ws_recv :: "nat \<Rightarrow> WsConn \<Rightarrow> recv_result \<times> WsConn" where
  "ws_recv cap c =
     (if \<not> wc_connected c then (RecvErr, c)
      else case asm_next (wc_asm c) of
        (Some f, a) \<Rightarrow> (copyFrame cap f, c\<lparr>wc_asm := a\<rparr>)
      | (None, a) \<Rightarrow>
          (case rawRecv (c\<lparr>wc_asm := a\<rparr>) of (r, c1) \<Rightarrow>
            (case r of
               SockEof \<Rightarrow> (RecvErr, c1\<lparr>wc_connected := False\<rparr>)
             | SockWouldBlock \<Rightarrow> (RecvNone, c1)
             | SockFail \<Rightarrow> (RecvErr, c1\<lparr>wc_connected := False\<rparr>)
             | SockData d \<Rightarrow>
                 if d = [] then (RecvErr, c1\<lparr>wc_connected := False\<rparr>)
                 else
                   (case asm_next (asm_feed d (wc_asm c1)) of
                      (Some f, a2) \<Rightarrow> (copyFrame cap f, c1\<lparr>wc_asm := a2\<rparr>)
                    | (None, a2) \<Rightarrow> (RecvNone, c1\<lparr>wc_asm := a2\<rparr>)))))"

definition ws_close :: "WsConn \<Rightarrow> WsConn" where
  "ws_close c = c\<lparr>wc_connected := False\<rparr>"

fun chunk_bytes :: "sock_read \<Rightarrow> bytes" where
  "chunk_bytes (SockData d) = d"
| "chunk_bytes _ = []"

definition benign :: "sock_read list \<Rightarrow> bool" where
  "benign q \<longleftrightarrow> list_all (\<lambda>r. case r of SockData d \<Rightarrow> d \<noteq> [] | SockWouldBlock \<Rightarrow> True | _ \<Rightarrow> False) q"

text \<open>A connection on which the messages \<open>xs\<close> are still to come, cut up in any way.\<close>

definition incoming :: "bool \<Rightarrow> (bytes \<times> bytes) list \<Rightarrow> WsConn \<Rightarrow> bool" where
  "incoming client xs c \<longleftrightarrow> wc_connected c \<and> benign (wc_in c) \<and> stream_ok xs
     \<and> as_buf (wc_asm c) @ concat (map chunk_bytes (wc_in c)) = ws_stream client xs"

lemma benign_Cons: "benign (r # q) \<longleftrightarrow> benign q \<and> (r = SockWouldBlock \<or> (\<exists>d. r = SockData d \<and> d \<noteq> []))"
  by (cases r) (auto simp: benign_def)

lemma asm_next_nil: "as_buf a @ rest = ws_stream client [] \<Longrightarrow> asm_next a = (None, a)"
  by (simp add: asm_next_empty)

lemma asm_next_none:
  assumes "as_buf a @ rest = ws_stream client xs" "stream_ok xs" "fst (asm_next a) = None"
  shows "asm_next a = (None, a)"
proof (cases xs)
  case Nil
  then show ?thesis using assms by (simp add: asm_next_empty)
next
  case (Cons x ys)
  then show ?thesis using asm_next_prefix [of a rest client x ys] assms by (auto split: if_splits)
qed

lemma asm_next_some:
  assumes "as_buf a @ rest = ws_stream client xs" "stream_ok xs" "fst (asm_next a) \<noteq> None"
  obtains x ys a' where "xs = x # ys"
    "asm_next a = (Some \<lparr>wf_opcode = WsBinary, wf_fin = True, wf_payload = fst x\<rparr>, a')"
    "as_buf a' @ rest = ws_stream client ys" "stream_ok ys"
proof (cases xs)
  case Nil
  then show ?thesis using assms by (simp add: asm_next_empty)
next
  case (Cons x ys)
  let ?f = "wsEncodeFrame WsBinary (fst x) client True (snd x)"
  have st: "as_buf a @ rest = ws_stream client (x # ys)" using assms(1) Cons by simp
  note nx = asm_next_prefix [OF st assms(2) [unfolded Cons]]
  have le: "length ?f \<le> length (as_buf a)" using nx assms(3) by (auto split: if_splits)
  have "drop (length ?f) (as_buf a) @ rest = drop (length ?f) (as_buf a @ rest)" using le by simp
  also have "\<dots> = ws_stream client ys" unfolding st by simp
  finally have "drop (length ?f) (as_buf a) @ rest = ws_stream client ys" .
  then show ?thesis
    using that [OF Cons, of "a\<lparr>as_buf := drop (length ?f) (as_buf a)\<rparr>"] nx le assms(2) Cons
    by (simp add: stream_ok_def)
qed

lemma copy_frame: "p \<noteq> [] \<Longrightarrow> length p \<le> cap \<Longrightarrow>
    copyFrame cap \<lparr>wf_opcode = op, wf_fin = b, wf_payload = p\<rparr> = RecvMsg p"
  by (auto simp: copyFrame_def)

definition fits :: "nat \<Rightarrow> (bytes \<times> bytes) list \<Rightarrow> bool" where
  "fits cap xs \<longleftrightarrow> (case xs of [] \<Rightarrow> True | x # _ \<Rightarrow> fst x \<noteq> [] \<and> length (fst x) \<le> cap)"

lemma fits_simps [simp]: "fits cap []" "fits cap (x # ys) \<longleftrightarrow> fst x \<noteq> [] \<and> length (fst x) \<le> cap"
  by (simp_all add: fits_def)

text \<open>The reading half of \<open>recv\<close>, when no whole frame is buffered.\<close>

lemma ws_recv_read:
  assumes "incoming client xs c" "fits cap xs" "asm_next (wc_asm c) = (None, wc_asm c)" "wc_in c = r # q"
  shows "(\<exists>x ys c'. xs = x # ys \<and> ws_recv cap c = (RecvMsg (fst x), c') \<and> incoming client ys c' \<and> wc_in c' = q)
    \<or> (\<exists>c'. ws_recv cap c = (RecvNone, c') \<and> incoming client xs c' \<and> wc_in c' = q)"
proof -
  have conn: "wc_connected c" "benign (r # q)" "stream_ok xs"
    and st: "as_buf (wc_asm c) @ chunk_bytes r @ concat (map chunk_bytes q) = ws_stream client xs"
    using assms(1,4) by (auto simp: incoming_def)
  consider "r = SockWouldBlock" | d where "r = SockData d" "d \<noteq> []"
    using conn(2) by (auto simp: benign_Cons)
  then show ?thesis
  proof cases
    case 1
    then have "ws_recv cap c = (RecvNone, c\<lparr>wc_in := q\<rparr>)"
      using conn(1) assms(3,4) by (simp add: ws_recv_def rawRecv_def)
    moreover have "incoming client xs (c\<lparr>wc_in := q\<rparr>)"
      using conn st 1 by (simp add: incoming_def benign_Cons)
    ultimately show ?thesis by auto
  next
    case 2
    let ?a = "asm_feed d (wc_asm c)"
    have st2: "as_buf ?a @ concat (map chunk_bytes q) = ws_stream client xs"
      using st 2 by (simp add: asm_feed_def)
    show ?thesis
    proof (cases "fst (asm_next ?a) = None")
      case True
      then have "asm_next ?a = (None, ?a)" by (rule asm_next_none [OF st2 conn(3)])
      then have "ws_recv cap c = (RecvNone, c\<lparr>wc_in := q, wc_asm := ?a\<rparr>)"
        using conn(1) assms(3,4) 2 by (simp add: ws_recv_def rawRecv_def)
      moreover have "incoming client xs (c\<lparr>wc_in := q, wc_asm := ?a\<rparr>)"
        using conn st2 by (simp add: incoming_def benign_Cons)
      ultimately show ?thesis by auto
    next
      case False
      obtain x ys a' where a: "xs = x # ys"
        "asm_next ?a = (Some \<lparr>wf_opcode = WsBinary, wf_fin = True, wf_payload = fst x\<rparr>, a')"
        "as_buf a' @ concat (map chunk_bytes q) = ws_stream client ys" "stream_ok ys"
        using asm_next_some [OF st2 conn(3) False] .
      then have "ws_recv cap c = (RecvMsg (fst x), c\<lparr>wc_in := q, wc_asm := a'\<rparr>)"
        using conn(1) assms 2 by (simp add: ws_recv_def rawRecv_def copy_frame)
      moreover have "incoming client ys (c\<lparr>wc_in := q, wc_asm := a'\<rparr>)"
        using conn a by (simp add: incoming_def benign_Cons)
      ultimately show ?thesis using a(1) by auto
    qed
  qed
qed

lemma ws_recv_step:
  assumes "incoming client xs c" "fits cap xs"
  shows "(\<exists>x ys c'. xs = x # ys \<and> ws_recv cap c = (RecvMsg (fst x), c') \<and> incoming client ys c'
            \<and> length (wc_in c') \<le> length (wc_in c))
    \<or> (\<exists>c'. ws_recv cap c = (RecvNone, c') \<and> incoming client xs c'
          \<and> (wc_in c = [] \<and> xs = [] \<and> c' = c \<or> length (wc_in c') < length (wc_in c)))"
proof -
  have conn: "wc_connected c" "benign (wc_in c)" "stream_ok xs"
    and st: "as_buf (wc_asm c) @ concat (map chunk_bytes (wc_in c)) = ws_stream client xs"
    using assms(1) by (auto simp: incoming_def)
  show ?thesis
  proof (cases "fst (asm_next (wc_asm c)) = None")
    case False
    obtain x ys a' where a: "xs = x # ys"
      "asm_next (wc_asm c) = (Some \<lparr>wf_opcode = WsBinary, wf_fin = True, wf_payload = fst x\<rparr>, a')"
      "as_buf a' @ concat (map chunk_bytes (wc_in c)) = ws_stream client ys" "stream_ok ys"
      using asm_next_some [OF st conn(3) False] .
    then have "ws_recv cap c = (RecvMsg (fst x), c\<lparr>wc_asm := a'\<rparr>)"
      using conn assms(2) by (simp add: ws_recv_def copy_frame)
    moreover have "incoming client ys (c\<lparr>wc_asm := a'\<rparr>)"
      using conn a by (simp add: incoming_def)
    ultimately show ?thesis using a(1) by auto
  next
    case True
    note asm = asm_next_none [OF st conn(3) True]
    show ?thesis
    proof (cases "wc_in c")
      case Nil
      have "xs = []"
      proof (cases xs)
        case (Cons x ys)
        then show ?thesis
          using asm_next_prefix [of "wc_asm c" "[]" client x ys] st Nil conn(3) True by simp
      qed simp
      moreover have "ws_recv cap c = (RecvNone, c)"
        using conn asm Nil by (simp add: ws_recv_def rawRecv_def)
      ultimately show ?thesis using assms(1) Nil by auto
    next
      case (Cons r q)
      then show ?thesis using ws_recv_read [OF assms asm Cons] by auto
    qed
  qed
qed

lemma recv_calls_all:
  assumes "incoming client xs c" "list_all (\<lambda>x. fst x \<noteq> [] \<and> length (fst x) \<le> cap) xs"
    and "length (wc_in c) + length xs \<le> k"
  shows "recv_polls ws_recv k cap c = map fst xs"
  using assms
proof (induction k arbitrary: xs c)
  case 0
  then show ?case by simp
next
  case (Suc k)
  have "fits cap xs" using Suc.prems(2) by (cases xs) auto
  from ws_recv_step [OF Suc.prems(1) this] show ?case
  proof (elim disjE exE conjE)
    fix x ys c'
    assume "xs = x # ys" "ws_recv cap c = (RecvMsg (fst x), c')" "incoming client ys c'"
      "length (wc_in c') \<le> length (wc_in c)"
    then show ?thesis using Suc.IH [of ys c'] Suc.prems(2,3) by simp
  next
    fix c' assume "ws_recv cap c = (RecvNone, c')" "incoming client xs c'" "xs = []" "c' = c" "wc_in c = []"
    then show ?thesis using Suc.IH [of xs c'] Suc.prems(2) by simp
  next
    fix c' assume "ws_recv cap c = (RecvNone, c')" "incoming client xs c'" "length (wc_in c') < length (wc_in c)"
    then show ?thesis using Suc.IH [of xs c'] Suc.prems(2,3) by simp
  qed
qed

section \<open>A reliable message transport\<close>

text \<open>
  The two ends of one direction over a network that delivers at once: what the sender writes
  to its socket reaches the receiver's reassembly buffer before the next call.
  \<open>wp_rnd k\<close> is the mask of the \<open>k\<close>-th frame.
\<close>

record ws_pipe =
  wp_tx :: WsConn
  wp_rx :: WsConn
  wp_rnd :: "nat \<Rightarrow> bytes"
  wp_sent :: nat

definition wire_deliver :: "ws_pipe \<Rightarrow> ws_pipe" where
  "wire_deliver t = t\<lparr>wp_tx := (wp_tx t)\<lparr>wc_out := []\<rparr>,
     wp_rx := (wp_rx t)\<lparr>wc_asm := asm_feed (wc_out (wp_tx t)) (wc_asm (wp_rx t))\<rparr>\<rparr>"

definition pipe_send :: "bytes \<Rightarrow> ws_pipe \<Rightarrow> bool \<times> ws_pipe" where
  "pipe_send m t =
     (case ws_send (wp_rnd t (wp_sent t)) m (wp_tx t) of
        (ok, c) \<Rightarrow> (ok, wire_deliver (t\<lparr>wp_tx := c, wp_sent := wp_sent t + 1\<rparr>)))"

definition pipe_recv :: "nat \<Rightarrow> ws_pipe \<Rightarrow> recv_result \<times> ws_pipe" where
  "pipe_recv cap t = (case ws_recv cap (wp_rx t) of (r, c) \<Rightarrow> (r, t\<lparr>wp_rx := c\<rparr>))"

function frames_of :: "bytes \<Rightarrow> bytes list" where
  "frames_of buf =
     (case wsDecodeFrame buf of
        WsOk f n \<Rightarrow> if n = 0 \<or> length buf < n then [] else wf_payload f # frames_of (drop n buf)
      | _ \<Rightarrow> [])"
  by pat_completeness auto
termination by (relation "measure length") auto

declare frames_of.simps [simp del]

lemma frames_of_stream: "stream_ok xs \<Longrightarrow> frames_of (ws_stream client xs) = map fst xs"
proof (induction xs)
  case Nil
  show ?case by (subst frames_of.simps) (simp add: wsDecodeFrame_def)
next
  case (Cons x xs)
  let ?f = "wsEncodeFrame WsBinary (fst x) client True (snd x)"
  have "wsDecodeFrame (?f @ ws_stream client xs)
      = WsOk \<lparr>wf_opcode = WsBinary, wf_fin = True, wf_payload = fst x\<rparr> (length ?f)"
    using Cons.prems by (intro decode_frame) (simp_all add: stream_ok_def)
  then show ?case
    using Cons by (subst frames_of.simps) (simp add: stream_ok_def)
qed

definition pipe_pending :: "ws_pipe \<Rightarrow> bytes list" where
  "pipe_pending t = frames_of (as_buf (wc_asm (wp_rx t)))"

definition pipe_inv :: "ws_pipe \<Rightarrow> bool" where
  "pipe_inv t \<longleftrightarrow> wc_connected (wp_tx t) \<and> wc_wr (wp_tx t) = [] \<and> wc_out (wp_tx t) = [] \<and> wc_in (wp_rx t) = []
     \<and> (\<exists>xs. incoming (wc_client (wp_tx t)) xs (wp_rx t))"

lemma pipe_pending_incoming: "incoming client xs (wp_rx t) \<Longrightarrow> wc_in (wp_rx t) = [] \<Longrightarrow> pipe_pending t = map fst xs"
  using frames_of_stream [of xs client] by (simp add: pipe_pending_def incoming_def)

lemma pipe_send_ok:
  assumes "pipe_inv t" "frame_ok m"
  shows "fst (pipe_send m t) \<and> pipe_inv (snd (pipe_send m t)) \<and> pipe_pending (snd (pipe_send m t)) = pipe_pending t @ [m]"
proof -
  obtain xs where xs: "wc_connected (wp_tx t)" "wc_wr (wp_tx t) = []" "wc_out (wp_tx t) = []" "wc_in (wp_rx t) = []"
    "incoming (wc_client (wp_tx t)) xs (wp_rx t)"
    using assms(1) by (auto simp: pipe_inv_def)
  let ?t = "snd (pipe_send m t)" and ?ys = "xs @ [(m, wp_rnd t (wp_sent t))]"
  have t: "wc_connected (wp_tx ?t)" "wc_wr (wp_tx ?t) = []" "wc_out (wp_tx ?t) = []" "wc_in (wp_rx ?t) = []" "fst (pipe_send m t)"
    "wc_client (wp_tx ?t) = wc_client (wp_tx t)"
    using xs by (simp_all add: pipe_send_def ws_send_def wire_deliver_def)
  have ys: "incoming (wc_client (wp_tx t)) ?ys (wp_rx ?t)"
    using xs assms(2) by (simp add: incoming_def stream_ok_def pipe_send_def ws_send_def wire_deliver_def asm_feed_def)
  moreover have "pipe_inv ?t" unfolding pipe_inv_def t(6) using t(1-4) ys by blast
  ultimately show ?thesis using xs t(4,5) by (simp add: pipe_pending_incoming)
qed

lemma pipe_recv_ok:
  assumes "pipe_inv t"
  shows "pipe_pending t = m # q \<Longrightarrow> m \<noteq> [] \<Longrightarrow> length m \<le> cap \<Longrightarrow>
      fst (pipe_recv cap t) = RecvMsg m \<and> pipe_inv (snd (pipe_recv cap t)) \<and> pipe_pending (snd (pipe_recv cap t)) = q"
    and "pipe_pending t = [] \<Longrightarrow>
      fst (pipe_recv cap t) = RecvNone \<and> pipe_inv (snd (pipe_recv cap t)) \<and> pipe_pending (snd (pipe_recv cap t)) = []"
proof -
  obtain xs where xs: "wc_connected (wp_tx t)" "wc_wr (wp_tx t) = []" "wc_out (wp_tx t) = []" "wc_in (wp_rx t) = []"
    "incoming (wc_client (wp_tx t)) xs (wp_rx t)"
    using assms by (auto simp: pipe_inv_def)
  note pend = pipe_pending_incoming [OF xs(5,4)]
  show "fst (pipe_recv cap t) = RecvMsg m \<and> pipe_inv (snd (pipe_recv cap t)) \<and> pipe_pending (snd (pipe_recv cap t)) = q"
    if "pipe_pending t = m # q" "m \<noteq> []" "length m \<le> cap"
  proof -
    have "fits cap xs" "xs \<noteq> []" using that pend by (cases xs; simp)+
    then obtain x ys c where r: "xs = x # ys" "ws_recv cap (wp_rx t) = (RecvMsg (fst x), c)"
      "incoming (wc_client (wp_tx t)) ys c" "wc_in c = []"
      using ws_recv_step [OF xs(5), of cap] xs(4) by (auto simp del: split_paired_Ex split_paired_All)
    then have t: "pipe_recv cap t = (RecvMsg m, t\<lparr>wp_rx := c\<rparr>)"
      using that(1) pend by (simp add: pipe_recv_def)
    moreover have "pipe_inv (t\<lparr>wp_rx := c\<rparr>)" using xs r by (auto simp: pipe_inv_def)
    moreover have "pipe_pending (t\<lparr>wp_rx := c\<rparr>) = q"
      using pipe_pending_incoming [of "wc_client (wp_tx t)" ys "t\<lparr>wp_rx := c\<rparr>"] r that(1) pend by simp
    ultimately show ?thesis by simp
  qed
  show "fst (pipe_recv cap t) = RecvNone \<and> pipe_inv (snd (pipe_recv cap t)) \<and> pipe_pending (snd (pipe_recv cap t)) = []"
    if e: "pipe_pending t = []"
  proof -
    have "xs = []" using e pend by simp
    then have "ws_recv cap (wp_rx t) = (RecvNone, wp_rx t)"
      using ws_recv_step [OF xs(5), of cap] xs(4) by auto
    then have "pipe_recv cap t = (RecvNone, t)" by (simp add: pipe_recv_def)
    then show ?thesis using assms e by simp
  qed
qed

interpretation ws: fifo_transport pipe_send pipe_recv pipe_pending pipe_inv "\<lambda>_ _. True" frame_ok
  by unfold_locales (auto simp: pipe_send_ok pipe_recv_ok)

section \<open>Properties\<close>

text \<open>
  A WebSocket frame of any opcode, masked or not, with up to 100 MiB of payload, is
  decoded to itself whatever bytes follow, and every proper prefix of it is reported as
  incomplete rather than as a frame or an error.
\<close>

theorem frame_roundtrip:
  assumes "op < 16" "length p \<le> 104857600"
  shows "wsDecodeFrame (wsEncodeFrame op p masked fin rnd @ r)
      = WsOk \<lparr>wf_opcode = op, wf_fin = fin, wf_payload = p\<rparr> (length (wsEncodeFrame op p masked fin rnd))
    \<and> (k < length (wsEncodeFrame op p masked fin rnd) \<longrightarrow>
         wsDecodeFrame (take k (wsEncodeFrame op p masked fin rnd)) = WsNeedMore)"
  using decode_frame [OF assms(1), of p] decode_frame_partial [OF assms(1), of p] assms(2)
  by (simp add: frame_ok_length)

theorem frame_roundtrip_witness:
  "wsDecodeFrame (wsEncodeFrame WsBinary [10, 20] True True [1, 2, 3, 4] @ [0])
      = WsOk \<lparr>wf_opcode = WsBinary, wf_fin = True, wf_payload = [10, 20]\<rparr>
             (length (wsEncodeFrame WsBinary [10, 20] True True [1, 2, 3, 4]))
   \<and> wsDecodeFrame (take 3 (wsEncodeFrame WsBinary [10, 20] True True [1, 2, 3, 4])) = WsNeedMore"
  using frame_roundtrip [of WsBinary "[10, 20]" True True "[1, 2, 3, 4]" "[0]" 3]
  by (simp add: wsEncodeFrame_def ws_length_field_def mask_key_def)

text \<open>
  C21. Message boundaries survive TCP: however the stream of sent frames is cut into socket
  reads and interleaved with reads that would block, enough calls of \<open>recv\<close> return exactly
  the sent messages, in order, each once.
\<close>

theorem ws_messages_delivered:
  assumes "list_all (\<lambda>(p, rnd). p \<noteq> [] \<and> length p \<le> cap \<and> length p \<le> 104857600) xs"
    and "wc_connected c" "as_buf (wc_asm c) = []" "benign (wc_in c)"
    and "concat (map chunk_bytes (wc_in c)) = concat (map (\<lambda>(p, rnd). wsEncodeFrame WsBinary p client True rnd) xs)"
    and "length (wc_in c) + length xs \<le> k"
  shows "recv_polls ws_recv k cap c = map fst xs"
proof (rule recv_calls_all [where client = client])
  show "incoming client xs c"
    using assms by (auto simp: incoming_def ws_stream_def stream_ok_def frame_ok_length list_all_iff)
  show "list_all (\<lambda>x. fst x \<noteq> [] \<and> length (fst x) \<le> cap) xs"
    using assms(1) by (auto simp: list_all_iff)
qed (rule assms(6))

definition choppy :: WsConn where
  "choppy = \<lparr>wc_connected = True, wc_client = False, wc_asm = asmInit,
     wc_in = [SockData [0x82], SockWouldBlock, SockData [2, 10, 20, 0x82], SockData [1, 30]], wc_wr = [], wc_out = []\<rparr>"

theorem ws_messages_delivered_witness: "recv_polls ws_recv 6 100 choppy = [[10, 20], [30]]"
  using ws_messages_delivered [of 100 "[([10, 20], []), ([30], [])]" choppy False 6]
  by (simp add: choppy_def asmInit_def benign_def wsEncodeFrame_def ws_length_field_def WsBinary_def)

lemma unmasked_frame: "length p < 126 \<Longrightarrow> wsEncodeFrame op p False True rnd = [0x80 OR op, word_of_nat (length p)] @ p"
  by (simp add: wsEncodeFrame_def ws_length_field_def)

text \<open>
  A send that cannot be finished desynchronises the stream: when the socket takes only
  part of a frame and stays unwritable, \<open>send\<close> returns false but the connection stays up, and
  after the next send the peer decodes a message that was never sent, made of a piece of the
  first payload and the head of the second frame.
\<close>

theorem partial_send_desync:
  assumes "wc_connected c" "\<not> wc_client c" "wc_out c = []" "wc_wr c = [Wrote k, WriteBlocked False]"
    and "2 \<le> k" "k < 2 + length p" "length p < 126" "length p + 2 - k \<le> length (wsEncodeFrame WsBinary q False True r2)"
  shows "\<exists>c1 c2. ws_send r1 p c = (False, c1) \<and> wc_connected c1 \<and> ws_send r2 q c1 = (True, c2)
    \<and> wsDecodeFrame (wc_out c2) = WsOk \<lparr>wf_opcode = WsBinary, wf_fin = True,
        wf_payload = take (k - 2) p @ take (length p + 2 - k) (wsEncodeFrame WsBinary q False True r2)\<rparr> (2 + length p)"
proof -
  let ?q = "wsEncodeFrame WsBinary q False True r2"
  define p2 where "p2 = take (k - 2) p @ take (length p + 2 - k) ?q"
  have len: "length p2 = length p" using assms(5,6,8) by (simp add: p2_def)
  obtain j where k: "k = Suc (Suc j)" using assms(5) by (metis add_2_eq_Suc le_Suc_ex)
  let ?p = "wsEncodeFrame WsBinary p False True r1"
  have "drop k ?p \<noteq> []" using assms(6,7) by (simp add: unmasked_frame)
  then have "rawSendAll [WriteBlocked False] (drop k ?p) = (False, [], [])"
    by (cases "drop k ?p") simp_all
  then have "rawSendAll (wc_wr c) ?p = (False, [], take k ?p)"
    using assms(4,5) by (cases ?p) (simp_all add: max_def)
  then have s1: "ws_send r1 p c = (False, c\<lparr>wc_wr := [], wc_out := take k ?p\<rparr>)"
    using assms(1-3) by (simp add: ws_send_def)
  have "take k ?p @ ?q = wsEncodeFrame WsBinary p2 False True r2 @ drop (length p + 2 - k) ?q"
    using assms(7) unmasked_frame [of p2 WsBinary r2] len by (simp add: unmasked_frame k) (simp add: p2_def k)
  then have d: "wsDecodeFrame (take k ?p @ ?q)
      = WsOk \<lparr>wf_opcode = WsBinary, wf_fin = True, wf_payload = p2\<rparr> (2 + length p)"
    using decode_frame [of WsBinary p2 False True r2 "drop (length p + 2 - k) ?q"] assms(7) len
    by (simp add: frame_ok_length unmasked_frame)
  then show ?thesis unfolding s1 p2_def using assms(1,2) by (simp add: ws_send_def)
qed

theorem partial_send_desync_witness:
  "\<exists>c1 c2. ws_send [] [1, 2] (choppy\<lparr>wc_wr := [Wrote 3, WriteBlocked False]\<rparr>) = (False, c1) \<and> wc_connected c1
    \<and> ws_send [] [9] c1 = (True, c2)
    \<and> wsDecodeFrame (wc_out c2) = WsOk \<lparr>wf_opcode = WsBinary, wf_fin = True, wf_payload = [1, 0x82]\<rparr> 4"
  using partial_send_desync [of "choppy\<lparr>wc_wr := [Wrote 3, WriteBlocked False]\<rparr>" 3 "[1, 2]" "[9]" "[]" "[]"]
  by (simp add: choppy_def wsEncodeFrame_def ws_length_field_def WsBinary_def)

end
