(* ===== verification/EncryptedTransport.thy ===== *)
theory EncryptedTransport
  imports Transport "HOL-Library.Sublist"
begin

text \<open>
  The sealing layer \<open>net/encrypted_transport.h\<close>: an AES-256-GCM decorator of any transport.
  The cipher is platform code over operating-system libraries (\<open>crypto/crypto.h\<close> declares
  it), so it is a pair of functions \<open>enc\<close> and \<open>dec\<close> every operation takes, and \<open>aead_ok\<close>
  states what the header documents of them.  The decorator's own state is the record
  \<open>EncryptedTransport\<close>; the inner transport (never null once a link is made) is threaded
  beside it.  The second half shows that sealing a reliable transport gives a reliable
  transport, and what a receiver accepts when an attacker controls the wire.
\<close>

section \<open>The decorator\<close>

type_synonym gcm_enc = "bytes \<Rightarrow> bytes \<Rightarrow> bytes \<Rightarrow> (bytes \<times> bytes) option"
type_synonym gcm_dec = "bytes \<Rightarrow> bytes \<Rightarrow> bytes \<Rightarrow> bytes \<Rightarrow> bytes option"

datatype Role = Initiator | Responder

definition role_code :: "Role \<Rightarrow> u8" where
  "role_code r = (case r of Initiator \<Rightarrow> 0 | Responder \<Rightarrow> 1)"

definition kNonceLen :: nat where "kNonceLen = 12"
definition kTagLen :: nat where "kTagLen = 16"
definition kOverhead :: nat where "kOverhead = kNonceLen + kTagLen"

lemma kLengths [simp]: "kNonceLen = 12" "kTagLen = 16" "kOverhead = 28"
  by (simp_all add: kNonceLen_def kTagLen_def kOverhead_def)

text \<open>\<open>et_scratch\<close> is the size of the receive scratch buffer, which only grows.\<close>

record EncryptedTransport =
  et_key :: bytes
  et_sendRole :: u8
  et_recvRole :: u8
  et_sendCtr :: u64
  et_lastRecvCtr :: u64
  et_haveRecv :: bool
  et_scratch :: nat

definition newEncrypted :: "bytes \<Rightarrow> Role \<Rightarrow> EncryptedTransport" where
  "newEncrypted key role =
     \<lparr>et_key = key, et_sendRole = role_code role, et_recvRole = (if role = Initiator then 1 else 0),
      et_sendCtr = 0, et_lastRecvCtr = 0, et_haveRecv = False, et_scratch = 0\<rparr>"

definition makeNonce :: "u8 \<Rightarrow> u64 \<Rightarrow> bytes" where
  "makeNonce role ctr = [role, 0, 0, 0] @ be_bytes 8 ctr"

definition readCounter :: "bytes \<Rightarrow> u64" where
  "readCounter nonce = be_value (take 8 (drop 4 nonce))"

definition enc_send ::
  "gcm_enc \<Rightarrow> (bytes \<Rightarrow> 't \<Rightarrow> bool \<times> 't) \<Rightarrow> bytes \<Rightarrow> EncryptedTransport \<times> 't \<Rightarrow> bool \<times> EncryptedTransport \<times> 't" where
  "enc_send enc send data s =
     (case s of (e, t) \<Rightarrow>
       if data = [] then (False, e, t)
       else let nonce = makeNonce (et_sendRole e) (et_sendCtr e) in
         case enc (et_key e) nonce data of
           None \<Rightarrow> (False, e, t)
         | Some (ct, tag) \<Rightarrow>
             if et_sendCtr e = - 1 then (False, e, t)
             else case send (nonce @ tag @ ct) t of
               (ok, t') \<Rightarrow> (ok, e\<lparr>et_sendCtr := et_sendCtr e + 1\<rparr>, t'))"

text \<open>The checks on one frame: role, counter, size, then authentication.\<close>

definition open_frame :: "gcm_dec \<Rightarrow> nat \<Rightarrow> bytes \<Rightarrow> EncryptedTransport \<Rightarrow> recv_result \<times> EncryptedTransport" where
  "open_frame dec cap f e =
     (if length f < kOverhead then (RecvErr, e)
      else let nonce = take kNonceLen f; ctr = readCounter nonce;
               tag = take kTagLen (drop kNonceLen f); ct = drop kOverhead f in
        if nonce ! 0 \<noteq> et_recvRole e then (RecvErr, e)
        else if et_haveRecv e \<and> ctr \<le> et_lastRecvCtr e then (RecvErr, e)
        else if length ct > cap then (RecvErr, e)
        else case dec (et_key e) nonce ct tag of
            None \<Rightarrow> (RecvErr, e)
          | Some pt \<Rightarrow> (recv_of_bytes pt, e\<lparr>et_haveRecv := True, et_lastRecvCtr := ctr\<rparr>))"

definition enc_recv ::
  "gcm_dec \<Rightarrow> (nat \<Rightarrow> 't \<Rightarrow> recv_result \<times> 't) \<Rightarrow> nat \<Rightarrow> EncryptedTransport \<times> 't
     \<Rightarrow> recv_result \<times> EncryptedTransport \<times> 't" where
  "enc_recv dec recv cap s =
     (case s of (e, t) \<Rightarrow>
       let e1 = e\<lparr>et_scratch := max (et_scratch e) (cap + kOverhead)\<rparr> in
       case recv (et_scratch e1) t of
         (RecvMsg f, t') \<Rightarrow> (case open_frame dec cap f e1 of (r, e2) \<Rightarrow> (r, e2, t'))
       | (RecvNone, t') \<Rightarrow> (RecvNone, e1, t')
       | (RecvErr, t') \<Rightarrow> (RecvErr, e1, t'))"

definition linkRoleFor :: "PeerId \<Rightarrow> PeerId \<Rightarrow> Role" where
  "linkRoleFor self peer = (if self < peer then Initiator else Responder)"

section \<open>Nonces\<close>

lemma length_makeNonce [simp]: "length (makeNonce r c) = 12"
  by (simp add: makeNonce_def)

lemma readCounter_makeNonce [simp]: "readCounter (makeNonce r c) = c"
  by (simp add: readCounter_def makeNonce_def be_value_be_bytes)

lemma makeNonce_role [simp]: "makeNonce r c ! 0 = r"
  by (simp add: makeNonce_def)

lemma makeNonce_inject [simp]: "makeNonce r c = makeNonce r' c' \<longleftrightarrow> r = r' \<and> c = c'"
  by (metis makeNonce_role readCounter_makeNonce)

lemma linkRoles_differ: "a \<noteq> b \<Longrightarrow> role_code (linkRoleFor a b) \<noteq> role_code (linkRoleFor b a)"
  by (auto simp: linkRoleFor_def role_code_def)

lemma linkRoles_match:
  "a \<noteq> b \<Longrightarrow> et_recvRole (newEncrypted k (linkRoleFor b a)) = et_sendRole (newEncrypted k (linkRoleFor a b))"
  by (auto simp: linkRoleFor_def role_code_def newEncrypted_def)

section \<open>Sealed frames\<close>

text \<open>What \<open>crypto/crypto.h\<close> documents of AES-256-GCM with a 32-byte key and a 12-byte nonce.\<close>

definition aead_ok :: "gcm_enc \<Rightarrow> gcm_dec \<Rightarrow> bool" where
  "aead_ok enc dec \<longleftrightarrow> (\<forall>key nonce pt. length key = 32 \<and> length nonce = 12 \<longrightarrow>
     (\<exists>ct tag. enc key nonce pt = Some (ct, tag) \<and> length ct = length pt \<and> length tag = 16
       \<and> dec key nonce ct tag = Some pt))"

definition seal :: "gcm_enc \<Rightarrow> bytes \<Rightarrow> u8 \<Rightarrow> u64 \<Rightarrow> bytes \<Rightarrow> bytes" where
  "seal enc key role ctr m =
     (case enc key (makeNonce role ctr) m of None \<Rightarrow> [] | Some (ct, tag) \<Rightarrow> makeNonce role ctr @ tag @ ct)"

definition frame_plain :: "gcm_dec \<Rightarrow> bytes \<Rightarrow> bytes \<Rightarrow> bytes option" where
  "frame_plain dec key f = dec key (take kNonceLen f) (drop kOverhead f) (take kTagLen (drop kNonceLen f))"

lemma aead_seal:
  assumes "aead_ok enc dec" "length key = 32"
  shows "\<exists>ct tag. enc key (makeNonce role ctr) m = Some (ct, tag) \<and> length ct = length m \<and> length tag = 16
    \<and> dec key (makeNonce role ctr) ct tag = Some m \<and> seal enc key role ctr m = makeNonce role ctr @ tag @ ct"
proof -
  obtain ct tag where "enc key (makeNonce role ctr) m = Some (ct, tag)" "length ct = length m" "length tag = 16"
    "dec key (makeNonce role ctr) ct tag = Some m"
    using assms length_makeNonce [of role ctr] unfolding aead_ok_def by blast
  then show ?thesis by (simp add: seal_def)
qed

lemma length_seal: "aead_ok enc dec \<Longrightarrow> length key = 32 \<Longrightarrow> length (seal enc key role ctr m) = length m + 28"
  using aead_seal [of enc dec key role ctr m] by auto

lemma frame_plain_seal: "aead_ok enc dec \<Longrightarrow> length key = 32 \<Longrightarrow> frame_plain dec key (seal enc key role ctr m) = Some m"
  using aead_seal [of enc dec key role ctr m] by (auto simp: frame_plain_def)

lemma seal_nonce: "aead_ok enc dec \<Longrightarrow> length key = 32 \<Longrightarrow> take kNonceLen (seal enc key role ctr m) = makeNonce role ctr"
  using aead_seal [of enc dec key role ctr m] by auto

lemma enc_send_seal:
  assumes "aead_ok enc dec" "length (et_key e) = 32" "m \<noteq> []" "et_sendCtr e \<noteq> - 1"
  shows "enc_send enc send m (e, t) =
     (case send (seal enc (et_key e) (et_sendRole e) (et_sendCtr e) m) t of
        (ok, t') \<Rightarrow> (ok, e\<lparr>et_sendCtr := et_sendCtr e + 1\<rparr>, t'))"
  using aead_seal [OF assms(1,2), of "et_sendRole e" "et_sendCtr e" m] assms(3,4) by (auto simp: enc_send_def Let_def)

lemma open_frame_seal:
  assumes "aead_ok enc dec" "length (et_key e) = 32" "role = et_recvRole e" "m \<noteq> []" "length m \<le> cap"
    "et_haveRecv e \<Longrightarrow> et_lastRecvCtr e < ctr"
  shows "open_frame dec cap (seal enc (et_key e) role ctr m) e
    = (RecvMsg m, e\<lparr>et_haveRecv := True, et_lastRecvCtr := ctr\<rparr>)"
proof -
  obtain ct tag where s: "length ct = length m" "length tag = 16"
    "dec (et_key e) (makeNonce role ctr) ct tag = Some m"
    "seal enc (et_key e) role ctr m = makeNonce role ctr @ tag @ ct"
    using aead_seal [OF assms(1,2), of role ctr m] by metis
  then show ?thesis
    using assms(3-6) by (simp add: open_frame_def Let_def not_le)
qed

section \<open>Sealing a reliable transport\<close>

text \<open>
  One direction of a link: the sealing end, the opening end and the inner transport between
  them.  \<open>seal_frames c ms\<close> are the frames of \<open>ms\<close> from counter \<open>c\<close> on.
\<close>

type_synonym 't link = "EncryptedTransport \<times> EncryptedTransport \<times> 't"

definition link_send :: "gcm_enc \<Rightarrow> (bytes \<Rightarrow> 't \<Rightarrow> bool \<times> 't) \<Rightarrow> bytes \<Rightarrow> 't link \<Rightarrow> bool \<times> 't link" where
  "link_send enc send m l =
     (case l of (tx, rx, t) \<Rightarrow> case enc_send enc send m (tx, t) of (ok, tx', t') \<Rightarrow> (ok, tx', rx, t'))"

definition link_recv :: "gcm_dec \<Rightarrow> (nat \<Rightarrow> 't \<Rightarrow> recv_result \<times> 't) \<Rightarrow> nat \<Rightarrow> 't link \<Rightarrow> recv_result \<times> 't link" where
  "link_recv dec recv cap l =
     (case l of (tx, rx, t) \<Rightarrow> case enc_recv dec recv cap (rx, t) of (r, rx', t') \<Rightarrow> (r, tx, rx', t'))"

fun seal_frames :: "gcm_enc \<Rightarrow> bytes \<Rightarrow> u8 \<Rightarrow> nat \<Rightarrow> bytes list \<Rightarrow> bytes list" where
  "seal_frames enc key role c [] = []"
| "seal_frames enc key role c (m # ms) = seal enc key role (word_of_nat c) m # seal_frames enc key role (Suc c) ms"

lemma seal_frames_append:
  "seal_frames enc key role c (xs @ ys) = seal_frames enc key role c xs @ seal_frames enc key role (c + length xs) ys"
  by (induction xs arbitrary: c) simp_all

lemma seal_frames_eq_Nil [simp]: "seal_frames enc key role c ms = [] \<longleftrightarrow> ms = []"
  by (cases ms) simp_all

definition link_pending :: "gcm_dec \<Rightarrow> ('t \<Rightarrow> bytes list) \<Rightarrow> 't link \<Rightarrow> bytes list" where
  "link_pending dec pending l = (case l of (tx, rx, t) \<Rightarrow> map (\<lambda>f. the (frame_plain dec (et_key rx) f)) (pending t))"

lemma plain_seal_frames:
  "aead_ok enc dec \<Longrightarrow> length key = 32 \<Longrightarrow> map (\<lambda>f. the (frame_plain dec key f)) (seal_frames enc key role c ms) = ms"
  by (induction ms arbitrary: c) (simp_all add: frame_plain_seal)

text \<open>\<open>ms\<close> are under way: their frames carry the last counters the sender used, in order.\<close>

definition link_holds :: "gcm_enc \<Rightarrow> bytes list \<Rightarrow> bytes list \<Rightarrow> EncryptedTransport \<Rightarrow> EncryptedTransport \<Rightarrow> bool" where
  "link_holds enc fs ms tx rx \<longleftrightarrow> et_key tx = et_key rx \<and> length (et_key rx) = 32 \<and> et_recvRole rx = et_sendRole tx
     \<and> length ms \<le> unat (et_sendCtr tx) \<and> [] \<notin> set ms
     \<and> fs = seal_frames enc (et_key rx) (et_sendRole tx) (unat (et_sendCtr tx) - length ms) ms
     \<and> (et_haveRecv rx \<longrightarrow> unat (et_lastRecvCtr rx) < unat (et_sendCtr tx) - length ms)"

lemma unat_add1: "c \<noteq> - 1 \<Longrightarrow> unat (c + 1 :: u64) = Suc (unat c)"
  using unatSuc [of c] by (simp add: add.commute eq_neg_iff_add_eq_0)

lemma link_holds_send:
  assumes "link_holds enc fs ms tx rx" "m \<noteq> []" "et_sendCtr tx \<noteq> - 1"
  shows "link_holds enc (fs @ [seal enc (et_key tx) (et_sendRole tx) (et_sendCtr tx) m]) (ms @ [m])
    (tx\<lparr>et_sendCtr := et_sendCtr tx + 1\<rparr>) rx"
  using assms by (auto simp: link_holds_def seal_frames_append unat_add1)

lemma link_holds_recv:
  assumes "aead_ok enc dec" "link_holds enc fs (m # ms) tx rx" "length m \<le> cap"
  obtains f fs' where "fs = f # fs'" "length f = length m + 28"
    "open_frame dec cap f (rx\<lparr>et_scratch := n\<rparr>) = (RecvMsg m, rx\<lparr>et_haveRecv := True,
        et_lastRecvCtr := word_of_nat (unat (et_sendCtr tx) - Suc (length ms)), et_scratch := n\<rparr>)"
    "link_holds enc fs' ms tx (rx\<lparr>et_haveRecv := True,
        et_lastRecvCtr := word_of_nat (unat (et_sendCtr tx) - Suc (length ms)), et_scratch := n\<rparr>)"
proof -
  let ?c = "unat (et_sendCtr tx) - Suc (length ms)"
  let ?f = "seal enc (et_key rx) (et_sendRole tx) (word_of_nat ?c) m"
  have h: "et_key tx = et_key rx" "length (et_key rx) = 32" "et_recvRole rx = et_sendRole tx"
    "Suc (length ms) \<le> unat (et_sendCtr tx)" "m \<noteq> []" "[] \<notin> set ms"
    "fs = ?f # seal_frames enc (et_key rx) (et_sendRole tx) (Suc ?c) ms"
    "et_haveRecv rx \<longrightarrow> unat (et_lastRecvCtr rx) < ?c"
    using assms(2) by (auto simp: link_holds_def)
  have "?c < 2 ^ 64" using unsigned_less [where ?'a = nat, of "et_sendCtr tx"] by simp
  then have c: "unat (word_of_nat ?c :: u64) = ?c" by (intro unat_of_nat_fits) simp
  have "et_haveRecv rx \<Longrightarrow> et_lastRecvCtr rx < word_of_nat ?c"
    using h(8) c by (simp add: word_less_nat_alt)
  then have "open_frame dec cap ?f (rx\<lparr>et_scratch := n\<rparr>) = (RecvMsg m, (rx\<lparr>et_scratch := n\<rparr>)\<lparr>et_haveRecv := True,
      et_lastRecvCtr := word_of_nat ?c\<rparr>)"
    using open_frame_seal [OF assms(1), of "rx\<lparr>et_scratch := n\<rparr>" "et_sendRole tx" m cap "word_of_nat ?c"] h assms(3)
    by simp
  moreover have "Suc ?c = unat (et_sendCtr tx) - length ms" using h(4) by simp
  ultimately show ?thesis
    using that [OF h(7)] h(1-6) c length_seal [OF assms(1) h(2)] by (simp add: link_holds_def)
qed

definition link_inv :: "gcm_enc \<Rightarrow> ('t \<Rightarrow> bytes list) \<Rightarrow> ('t \<Rightarrow> bool) \<Rightarrow> 't link \<Rightarrow> bool" where
  "link_inv enc pending good l = (case l of (tx, rx, t) \<Rightarrow> good t \<and> (\<exists>ms. link_holds enc (pending t) ms tx rx))"

definition link_room :: "('t \<Rightarrow> nat \<Rightarrow> bool) \<Rightarrow> 't link \<Rightarrow> nat \<Rightarrow> bool" where
  "link_room room l n = (case l of (tx, rx, t) \<Rightarrow> room t n \<and> unat (et_sendCtr tx) + n < 2 ^ 64)"

definition link_sendable :: "(bytes \<Rightarrow> bool) \<Rightarrow> bytes \<Rightarrow> bool" where
  "link_sendable sendable m \<longleftrightarrow> m \<noteq> [] \<and> (\<forall>f. length f = length m + 28 \<longrightarrow> sendable f)"

lemma link_pending_holds:
  "aead_ok enc dec \<Longrightarrow> link_holds enc (pending t) ms tx rx \<Longrightarrow> link_pending dec pending (tx, rx, t) = ms"
  by (simp add: link_pending_def link_holds_def plain_seal_frames)

lemma link_inv_cases:
  assumes "aead_ok enc dec" "link_inv enc pending good l"
  obtains tx rx t where "l = (tx, rx, t)" "good t" "link_holds enc (pending t) (link_pending dec pending l) tx rx"
proof -
  obtain tx rx t ms where l: "l = (tx, rx, t)" "good t" "link_holds enc (pending t) ms tx rx"
    using assms(2) by (cases l) (auto simp: link_inv_def)
  then show ?thesis using that [OF l(1,2)] link_pending_holds [of enc dec pending t ms tx rx, OF assms(1) l(3)] by simp
qed

context fifo_transport
begin

lemma link_send_ok:
  assumes "aead_ok enc dec" "link_inv enc pending inv l" "link_sendable sendable m" "link_room room l (Suc n)"
  shows "fst (link_send enc send m l) \<and> link_inv enc pending inv (snd (link_send enc send m l))
    \<and> link_room room (snd (link_send enc send m l)) n
    \<and> link_pending dec pending (snd (link_send enc send m l)) = link_pending dec pending l @ [m]"
proof -
  obtain tx rx t ms where l: "l = (tx, rx, t)" "inv t" "link_holds enc (pending t) ms tx rx"
    using assms(2) by (cases l) (auto simp: link_inv_def)
  let ?f = "seal enc (et_key tx) (et_sendRole tx) (et_sendCtr tx) m" and ?tx = "tx\<lparr>et_sendCtr := et_sendCtr tx + 1\<rparr>"
  have key: "length (et_key tx) = 32" using l(3) by (simp add: link_holds_def)
  have m: "m \<noteq> []" "sendable ?f" using assms(3) length_seal [OF assms(1) key] by (auto simp: link_sendable_def)
  have r: "room t (Suc n)" "unat (et_sendCtr tx) + Suc n < 2 ^ 64"
    using assms(4) l(1) by (simp_all add: link_room_def)
  have ctr: "et_sendCtr tx \<noteq> - 1"
  proof
    assume "et_sendCtr tx = - 1"
    then have "unat (et_sendCtr tx) = 2 ^ 64 - 1" by (simp add: unsigned_minus_1_eq_mask mask_eq_exp_minus_1)
    then show False using r(2) by simp
  qed
  obtain t' where t': "send ?f t = (True, t')" "inv t'" "room t' n" "pending t' = pending t @ [?f]"
    using send_whole [OF l(2) m(2) r(1)] .
  have s: "link_send enc send m l = (True, ?tx, rx, t')"
    using enc_send_seal [OF assms(1) key m(1) ctr, of send t] t'(1) l(1) by (simp add: link_send_def)
  have h: "link_holds enc (pending t') (ms @ [m]) ?tx rx"
    using link_holds_send [OF l(3) m(1) ctr] t'(4) by simp
  have "link_room room (?tx, rx, t') n" using t'(3) r(2) ctr by (simp add: link_room_def unat_add1)
  then show ?thesis
    using s h t'(2) link_pending_holds [of enc dec pending t ms tx rx, OF assms(1) l(3)]
      link_pending_holds [of enc dec pending t' "ms @ [m]" ?tx rx, OF assms(1) h] l(1)
    by (auto simp: link_inv_def)
qed

lemma link_recv_some:
  assumes "aead_ok enc dec" "link_inv enc pending inv l" "link_pending dec pending l = m # q" "length m \<le> cap"
  shows "fst (link_recv dec recv cap l) = RecvMsg m \<and> link_inv enc pending inv (snd (link_recv dec recv cap l))
    \<and> link_pending dec pending (snd (link_recv dec recv cap l)) = q"
proof -
  obtain tx rx t where l: "l = (tx, rx, t)" "inv t" "link_holds enc (pending t) (m # q) tx rx"
    using link_inv_cases [OF assms(1,2)] assms(3) by metis
  let ?n = "max (et_scratch rx) (cap + 28)"
  let ?rx = "rx\<lparr>et_haveRecv := True, et_lastRecvCtr := word_of_nat (unat (et_sendCtr tx) - Suc (length q)), et_scratch := ?n\<rparr>"
  obtain f fs where f: "pending t = f # fs" "length f = length m + 28"
    "open_frame dec cap f (rx\<lparr>et_scratch := ?n\<rparr>) = (RecvMsg m, ?rx)" "link_holds enc fs q tx ?rx"
    using link_holds_recv [OF assms(1) l(3) assms(4), of ?n] .
  have "f \<noteq> []" "length f \<le> ?n" using f(2) assms(4) by auto
  then obtain t' where t': "recv ?n t = (RecvMsg f, t')" "inv t'" "pending t' = fs"
    using recv_whole [OF l(2) f(1)] by blast
  have "link_recv dec recv cap l = (RecvMsg m, tx, ?rx, t')"
    using l(1) t'(1) f(3) by (simp add: link_recv_def enc_recv_def Let_def)
  then show ?thesis
    using t'(2,3) f(4) link_pending_holds [OF assms(1), of pending t' q tx ?rx] by (auto simp: link_inv_def)
qed

lemma link_recv_none:
  assumes "aead_ok enc dec" "link_inv enc pending inv l" "link_pending dec pending l = []"
  shows "fst (link_recv dec recv cap l) = RecvNone \<and> link_inv enc pending inv (snd (link_recv dec recv cap l))
    \<and> link_pending dec pending (snd (link_recv dec recv cap l)) = []"
proof -
  obtain tx rx t where l: "l = (tx, rx, t)" "inv t" "link_holds enc (pending t) [] tx rx"
    using link_inv_cases [OF assms(1,2)] assms(3) by metis
  let ?rx = "rx\<lparr>et_scratch := max (et_scratch rx) (cap + 28)\<rparr>"
  have "pending t = []" using l(3) by (simp add: link_holds_def)
  then obtain t' where t': "recv (et_scratch ?rx) t = (RecvNone, t')" "inv t'" "pending t' = []"
    using recv_idle [OF l(2)] by blast
  have "link_recv dec recv cap l = (RecvNone, tx, ?rx, t')"
    using l(1) t'(1) by (simp add: link_recv_def enc_recv_def Let_def)
  moreover have "link_holds enc (pending t') [] tx ?rx" using l(3) t'(3) by (simp add: link_holds_def)
  ultimately show ?thesis using t'(2,3) by (auto simp: link_inv_def link_pending_def)
qed

lemma link_recv_room:
  assumes "link_inv enc pending inv l" "link_room room l n"
  shows "link_room room (snd (link_recv dec recv cap l)) n"
proof -
  obtain tx rx t where l: "l = (tx, rx, t)" "inv t" using assms(1) by (cases l) (auto simp: link_inv_def)
  have "room (snd (recv sz t)) n" for sz using recv_room [OF l(2)] assms(2) l(1) by (simp add: link_room_def)
  then show ?thesis
    using assms(2) l(1)
    by (auto simp: link_room_def link_recv_def enc_recv_def Let_def split: prod.splits recv_result.splits) (metis snd_conv)+
qed

text \<open>A sealed reliable transport is a reliable transport.\<close>

lemma sealed_fifo:
  assumes "aead_ok enc dec"
  shows "fifo_transport (link_send enc send) (link_recv dec recv) (link_pending dec pending)
    (link_inv enc pending inv) (link_room room) (link_sendable sendable)"
  by unfold_locales
    (simp_all only: link_send_ok [OF assms] link_recv_some [OF assms] link_recv_none [OF assms] link_recv_room simp_thms)

end

section \<open>What an attacker on the wire can do\<close>

text \<open>
  The attacker hands the receiver a list of frames of its choice.  Unforgeability, which is
  what GCM's authentication promises, is the hypothesis that the frames in it that decrypt
  are frames the peer sealed.
\<close>

lemma readCounter_take [simp]: "readCounter (take 12 f) = readCounter f"
  by (simp add: readCounter_def drop_take)

lemma open_frame_err: "open_frame dec cap f e = (RecvErr, e') \<Longrightarrow> e' = e"
  by (auto simp: open_frame_def Let_def recv_of_bytes_def split: if_splits option.splits)

lemma open_frame_accept:
  assumes "open_frame dec cap f e = (r, e')" "r \<noteq> RecvErr"
  shows "\<exists>pt. frame_plain dec (et_key e) f = Some pt \<and> r = recv_of_bytes pt \<and> f ! 0 = et_recvRole e
    \<and> (et_haveRecv e \<longrightarrow> et_lastRecvCtr e < readCounter f) \<and> e' = e\<lparr>et_haveRecv := True, et_lastRecvCtr := readCounter f\<rparr>"
proof -
  show ?thesis
    using assms by (auto simp: open_frame_def Let_def frame_plain_def not_le split: if_splits option.splits)
qed

lemma in_seal_frames:
  "f \<in> set (seal_frames enc key role c ms) \<Longrightarrow>
     \<exists>i < length ms. f = seal enc key role (word_of_nat (c + i)) (ms ! i)"
proof (induction ms arbitrary: c)
  case Nil
  then show ?case by simp
next
  case (Cons m ms)
  then consider "f = seal enc key role (word_of_nat c) m" | "f \<in> set (seal_frames enc key role (Suc c) ms)" by auto
  then show ?case
  proof cases
    case 1
    then show ?thesis by (intro exI [of _ 0]) simp
  next
    case 2
    then obtain i where "i < length ms" "f = seal enc key role (word_of_nat (Suc c + i)) (ms ! i)"
      using Cons.IH by blast
    then show ?thesis by (intro exI [of _ "Suc i"]) simp
  qed
qed

definition fresh_from :: "EncryptedTransport \<Rightarrow> nat" where
  "fresh_from e = (if et_haveRecv e then Suc (unat (et_lastRecvCtr e)) else 0)"

lemma fresh_scratch [simp]: "fresh_from (e\<lparr>et_scratch := n\<rparr>) = fresh_from e"
  by (simp add: fresh_from_def)

text \<open>An accepted frame carries the message its counter numbers, and nothing before it again.\<close>

lemma accept_genuine:
  assumes "aead_ok enc dec" "length (et_key e) = 32" "length ms \<le> 2 ^ 64"
    and "f \<in> set (seal_frames enc (et_key e) role 0 ms)" "open_frame dec cap f e = (r, e')" "r \<noteq> RecvErr"
  obtains i where "fresh_from e \<le> i" "i < length ms" "r = recv_of_bytes (ms ! i)" "fresh_from e' = Suc i"
    "et_key e' = et_key e" "et_recvRole e' = et_recvRole e"
proof -
  obtain i where i: "i < length ms" "f = seal enc (et_key e) role (word_of_nat i) (ms ! i)"
    using in_seal_frames [OF assms(4)] by auto
  obtain pt where a: "frame_plain dec (et_key e) f = Some pt" "r = recv_of_bytes pt"
    "et_haveRecv e \<longrightarrow> et_lastRecvCtr e < readCounter f" "e' = e\<lparr>et_haveRecv := True, et_lastRecvCtr := readCounter f\<rparr>"
    using open_frame_accept [OF assms(5,6)] by blast
  have pt: "pt = ms ! i" using a(1) frame_plain_seal [OF assms(1,2)] i(2) by simp
  have "take kNonceLen f = makeNonce role (word_of_nat i)" using seal_nonce [OF assms(1,2)] i(2) by simp
  then have c: "readCounter f = word_of_nat i"
    using readCounter_take [of f] readCounter_makeNonce by simp
  have "unat (word_of_nat i :: u64) = i" using i(1) assms(3) by (intro unat_of_nat_fits) simp
  then show ?thesis
    using that [of i] i(1) a(2-4) pt c by (auto simp: fresh_from_def word_less_nat_alt)
qed

lemma enc_recv_loop:
  "enc_recv dec lb_recv cap (e, l) =
     (let e1 = e\<lparr>et_scratch := max (et_scratch e) (cap + 28)\<rparr> in
      case lb_inbox l of [] \<Rightarrow> (RecvNone, e1, l)
      | f # q \<Rightarrow> if take (et_scratch e1) f = [] then (RecvNone, e1, l\<lparr>lb_inbox := q\<rparr>)
          else case open_frame dec cap (take (et_scratch e1) f) e1 of (r, e2) \<Rightarrow> (r, e2, l\<lparr>lb_inbox := q\<rparr>))"
  by (simp add: enc_recv_def lb_recv_def recv_of_bytes_def Let_def split: list.splits)

lemma attacker_subseq:
  assumes "aead_ok enc dec" "length ms \<le> 2 ^ 64"
  shows "length (et_key e) = 32 \<Longrightarrow>
    \<forall>f\<in>set (lb_inbox l). length f \<le> cap + 28 \<and>
      (frame_plain dec (et_key e) f \<noteq> None \<and> f ! 0 = et_recvRole e \<longrightarrow>
        f \<in> set (seal_frames enc (et_key e) (et_recvRole e) 0 ms)) \<Longrightarrow>
    subseq (recv_polls (enc_recv dec lb_recv) n cap (e, l)) (drop (fresh_from e) ms)"
proof (induction n arbitrary: e l)
  case 0
  then show ?case by simp
next
  case (Suc n)
  let ?e = "e\<lparr>et_scratch := max (et_scratch e) (cap + 28)\<rparr>"
  have idle: "subseq (recv_polls (enc_recv dec lb_recv) n cap (?e, l')) (drop (fresh_from e) ms)"
    if "set (lb_inbox l') \<subseteq> set (lb_inbox l)" for l'
    using Suc.IH [of ?e l'] Suc.prems that by auto
  show ?case
  proof (cases "lb_inbox l")
    case Nil
    then show ?thesis using idle [of l] by (simp add: enc_recv_loop)
  next
    case (Cons f q)
    let ?l = "l\<lparr>lb_inbox := q\<rparr>"
    have rest: "subseq (recv_polls (enc_recv dec lb_recv) n cap (?e, ?l)) (drop (fresh_from e) ms)"
      by (rule idle) (simp add: Cons subset_insertI)
    have whole: "take (max (et_scratch e) (cap + 28)) f = f" using Suc.prems(2) Cons by (simp add: le_max_iff_disj)
    obtain r e2 where o: "open_frame dec cap f ?e = (r, e2)" by (cases "open_frame dec cap f ?e")
    show ?thesis
    proof (cases "f = [] \<or> r = RecvErr")
      case True
      then show ?thesis using rest Cons whole o open_frame_err [of dec cap f ?e e2]
        by (auto simp: enc_recv_loop Let_def)
    next
      case False
      then have "frame_plain dec (et_key e) f \<noteq> None" "f ! 0 = et_recvRole e"
        using open_frame_accept [OF o] by auto
      then have genuine: "f \<in> set (seal_frames enc (et_key ?e) (et_recvRole e) 0 ms)"
        using Suc.prems(2) Cons by simp
      obtain i where i: "fresh_from e \<le> i" "i < length ms" "r = recv_of_bytes (ms ! i)" "fresh_from e2 = Suc i"
        "et_key e2 = et_key e" "et_recvRole e2 = et_recvRole e"
        using accept_genuine [OF assms(1) _ assms(2) genuine o] False Suc.prems(1) by auto
      have tl: "subseq (recv_polls (enc_recv dec lb_recv) n cap (e2, ?l)) (drop (Suc i) ms)"
        using Suc.IH [of e2 ?l] Suc.prems i(4-6) Cons by simp
      have "drop (fresh_from e) ms = take (i - fresh_from e) (drop (fresh_from e) ms) @ drop i ms"
        using i(1) by (metis append_take_drop_id drop_drop le_add_diff_inverse2)
      then have dr: "drop (fresh_from e) ms = take (i - fresh_from e) (drop (fresh_from e) ms) @ ms ! i # drop (Suc i) ms"
        using Cons_nth_drop_Suc [OF i(2)] by simp
      have "subseq (recv_polls (enc_recv dec lb_recv) (Suc n) cap (e, l)) (ms ! i # drop (Suc i) ms)"
        using tl i(3) o whole Cons False by (cases "ms ! i = []") (auto simp: enc_recv_loop Let_def)
      then show ?thesis using dr by (metis list_emb_append2)
    qed
  qed
qed

section \<open>Nonces on the wire\<close>

fun enc_send_each :: "gcm_enc \<Rightarrow> (bytes \<Rightarrow> 't \<Rightarrow> bool \<times> 't) \<Rightarrow> bytes list \<Rightarrow> EncryptedTransport \<times> 't \<Rightarrow> EncryptedTransport \<times> 't" where
  "enc_send_each enc send [] s = s"
| "enc_send_each enc send (m # ms) s = enc_send_each enc send ms (snd (enc_send enc send m s))"

definition wire_nonces :: "u8 \<Rightarrow> u64 \<Rightarrow> bytes list \<Rightarrow> bool" where
  "wire_nonces role c fs \<longleftrightarrow> sorted_wrt (<) (map readCounter fs)
     \<and> (\<forall>f\<in>set fs. take 12 f = makeNonce role (readCounter f) \<and> c \<le> readCounter f)"

lemma enc_send_frame:
  "\<exists>fs. lb_inbox (snd (snd (enc_send enc lb_send m (e, l)))) = lb_inbox l @ fs
     \<and> et_sendRole (fst (snd (enc_send enc lb_send m (e, l)))) = et_sendRole e
     \<and> (fs = [] \<and> et_sendCtr e \<le> et_sendCtr (fst (snd (enc_send enc lb_send m (e, l)))) \<or>
        (\<exists>f. fs = [f] \<and> take 12 f = makeNonce (et_sendRole e) (et_sendCtr e)
          \<and> et_sendCtr e < et_sendCtr (fst (snd (enc_send enc lb_send m (e, l))))))"
proof -
  have lt: "c < c + 1" if "c \<noteq> - 1" for c :: u64 using unat_add1 [OF that] by (simp add: word_less_nat_alt)
  then have le: "c \<le> c + 1" if "c \<noteq> - 1" for c :: u64 using that by (simp add: less_imp_le)
  show ?thesis
    using lt [of "et_sendCtr e"] le [of "et_sendCtr e"]
    by (auto simp: enc_send_def lb_send_def Let_def split: option.split)
qed

lemma enc_send_each_nonces:
  "\<exists>fs. lb_inbox (snd (enc_send_each enc lb_send ms (e, l))) = lb_inbox l @ fs
     \<and> wire_nonces (et_sendRole e) (et_sendCtr e) fs"
proof (induction ms arbitrary: e l)
  case Nil
  then show ?case by (simp add: wire_nonces_def)
next
  case (Cons m ms)
  obtain e1 l1 where s: "snd (enc_send enc lb_send m (e, l)) = (e1, l1)" by (cases "snd (enc_send enc lb_send m (e, l))")
  obtain fs where fs: "lb_inbox (snd (enc_send_each enc lb_send ms (e1, l1))) = lb_inbox l1 @ fs"
    "wire_nonces (et_sendRole e1) (et_sendCtr e1) fs"
    using Cons.IH by blast
  obtain gs where gs: "lb_inbox l1 = lb_inbox l @ gs" "et_sendRole e1 = et_sendRole e"
    "gs = [] \<and> et_sendCtr e \<le> et_sendCtr e1 \<or>
     (\<exists>f. gs = [f] \<and> take 12 f = makeNonce (et_sendRole e) (et_sendCtr e) \<and> et_sendCtr e < et_sendCtr e1)"
    using enc_send_frame [where e = e and l = l and enc = enc and m = m] unfolding s by auto
  have "wire_nonces (et_sendRole e) (et_sendCtr e) (gs @ fs)"
    using gs(3)
  proof (elim disjE exE conjE)
    assume "gs = []" "et_sendCtr e \<le> et_sendCtr e1"
    then show ?thesis using fs(2) gs(2) by (auto simp: wire_nonces_def)
  next
    fix f assume f: "gs = [f]" "take 12 f = makeNonce (et_sendRole e) (et_sendCtr e)" "et_sendCtr e < et_sendCtr e1"
    have "readCounter f = et_sendCtr e" using f(2) by (metis readCounter_makeNonce readCounter_take)
    then show ?thesis using fs(2) gs(2) f by (auto simp: wire_nonces_def)
  qed
  then show ?case using fs(1) gs(1) s by auto
qed

lemma wire_nonces_distinct: "wire_nonces role c fs \<Longrightarrow> distinct (map (take 12) fs)"
proof -
  assume a: "wire_nonces role c fs"
  then have "distinct (map readCounter fs)" by (simp add: wire_nonces_def strict_sorted_iff)
  then have "distinct (map readCounter (map (take 12) fs))" by (simp add: comp_def)
  then show ?thesis using distinct_map by blast
qed

section \<open>Properties\<close>


text \<open>A stand-in cipher for concrete runs: the tag is a checksum of the nonce and the text.\<close>

definition toy_tag :: "bytes \<Rightarrow> bytes \<Rightarrow> bytes" where
  "toy_tag nonce pt = [sum_list nonce + 3 * sum_list pt, 0, 0, 0, 0, 0, 0, 0, 0, 0, 0, 0, 0, 0, 0, 0]"

definition toy_enc :: gcm_enc where
  "toy_enc key nonce pt = Some (map (\<lambda>b. b XOR key ! 0) pt, toy_tag nonce pt)"

definition toy_dec :: gcm_dec where
  "toy_dec key nonce ct tag =
     (let pt = map (\<lambda>b. b XOR key ! 0) ct in if tag = toy_tag nonce pt then Some pt else None)"

lemma toy_aead: "aead_ok toy_enc toy_dec"
  by (simp add: aead_ok_def toy_enc_def toy_dec_def toy_tag_def xor.assoc comp_def)

definition toy_key :: bytes where
  "toy_key = replicate 32 7"

lemma toy_key_length [simp]: "length toy_key = 32"
  by (simp add: toy_key_def)

definition toy_frame :: "nat \<Rightarrow> bytes \<Rightarrow> bytes" where
  "toy_frame i m = seal toy_enc toy_key 0 (word_of_nat i) m"

lemma be_bytes_8: "be_bytes 8 v = map (\<lambda>i. ucast (drop_bit (8 * i) v AND 0xff)) [7, 6, 5, 4, 3, 2, 1, 0]"
  by (simp add: be_bytes_def upt_rec)

text \<open>Two messages reordered, one replayed, one with a flipped bit.\<close>

definition toy_attack :: "bytes list" where
  "toy_attack = [toy_frame 1 [5, 6], toy_frame 0 [9], toy_frame 1 [5, 6], (toy_frame 2 [4])[28 := 0]]"


text \<open>
  C13. No nonce is used for two frames of a link: whatever the two ends send and however often
  the transport refuses, the frames both put on the wire carry pairwise different nonces.
\<close>

theorem nonces_never_repeat:
  assumes "a \<noteq> b"
  shows "distinct (map (take 12)
     (lb_inbox (snd (enc_send_each enc lb_send ms (newEncrypted key (linkRoleFor a b), \<lparr>lb_connected = ca, lb_inbox = []\<rparr>)))
      @ lb_inbox (snd (enc_send_each enc lb_send ms' (newEncrypted key (linkRoleFor b a), \<lparr>lb_connected = cb, lb_inbox = []\<rparr>)))))"
proof -
  have run: "\<exists>fs. lb_inbox (snd (enc_send_each enc lb_send ms (newEncrypted key r, \<lparr>lb_connected = c, lb_inbox = []\<rparr>))) = fs
      \<and> wire_nonces (role_code r) 0 fs" for ms r c
    using enc_send_each_nonces [where e = "newEncrypted key r" and l = "\<lparr>lb_connected = c, lb_inbox = []\<rparr>"]
    by (simp add: newEncrypted_def)
  obtain fs where fs: "lb_inbox (snd (enc_send_each enc lb_send ms (newEncrypted key (linkRoleFor a b), \<lparr>lb_connected = ca, lb_inbox = []\<rparr>))) = fs"
    "wire_nonces (role_code (linkRoleFor a b)) 0 fs" using run by blast
  obtain gs where gs: "lb_inbox (snd (enc_send_each enc lb_send ms' (newEncrypted key (linkRoleFor b a), \<lparr>lb_connected = cb, lb_inbox = []\<rparr>))) = gs"
    "wire_nonces (role_code (linkRoleFor b a)) 0 gs" using run by blast
  have "take 12 ` set fs \<inter> take 12 ` set gs = {}"
    using fs(2) gs(2) linkRoles_differ [OF assms] by (auto simp: wire_nonces_def)
  then show ?thesis
    unfolding fs(1) gs(1) using wire_nonces_distinct [OF fs(2)] wire_nonces_distinct [OF gs(2)] by simp
qed

theorem nonces_never_repeat_witness:
  "distinct (map (take 12)
     (lb_inbox (snd (enc_send_each toy_enc lb_send [[1], [1]] (newEncrypted toy_key (linkRoleFor ''a'' ''b''), \<lparr>lb_connected = True, lb_inbox = []\<rparr>)))
      @ lb_inbox (snd (enc_send_each toy_enc lb_send [[1]] (newEncrypted toy_key (linkRoleFor ''b'' ''a''), \<lparr>lb_connected = True, lb_inbox = []\<rparr>)))))"
  by (rule nonces_never_repeat) simp

end
