(* ===== verification/KeyStore.thy ===== *)
theory KeyStore
  imports EncryptedTransport
begin

text \<open>
  The pre-shared keys of the paired devices, \<open>pairing/key_store.{h,cpp}\<close>: the map, its
  serialization and the blob sealed with AES-256-GCM under the machine's protection key.
  The cipher is the pair \<open>enc\<close>, \<open>dec\<close> of the theory \<open>EncryptedTransport\<close>, and the nonce is
  what \<open>randomBytes(12)\<close> returned.  A file is what it holds, or \<open>None\<close> when it cannot be
  opened.  Wiping freed memory has no counterpart.
\<close>

section \<open>The store\<close>

type_synonym Psk = bytes
type_synonym KeyStore = "(PeerId, Psk) omap"

definition emptyStore :: KeyStore where
  "emptyStore = []"

definition setPsk :: "PeerId \<Rightarrow> Psk \<Rightarrow> KeyStore \<Rightarrow> KeyStore" where
  "setPsk peer psk ks = omap_set peer psk ks"

definition getPsk :: "PeerId \<Rightarrow> KeyStore \<Rightarrow> Psk option" where
  "getPsk peer ks = map_of ks peer"

definition removePsk :: "PeerId \<Rightarrow> KeyStore \<Rightarrow> KeyStore" where
  "removePsk peer ks = omap_erase peer ks"

definition devices :: "KeyStore \<Rightarrow> PeerId list" where
  "devices ks = omap_keys ks"

definition store_size :: "KeyStore \<Rightarrow> nat" where
  "store_size ks = length ks"

section \<open>The sealed blob\<close>

definition entry_bytes :: "PeerId \<times> Psk \<Rightarrow> bytes" where
  "entry_bytes kv = be_bytes 2 (word_of_nat (length (fst kv)) :: u16) @ to_bytes (fst kv) @ snd kv"

definition plain_bytes :: "KeyStore \<Rightarrow> bytes" where
  "plain_bytes ks = be_bytes 4 (word_of_nat (length ks) :: u32) @ concat (map entry_bytes ks)"

definition serializeEncrypted :: "gcm_enc \<Rightarrow> bytes \<Rightarrow> bytes \<Rightarrow> KeyStore \<Rightarrow> bytes" where
  "serializeEncrypted enc nonce key ks =
     (case enc key nonce (plain_bytes ks) of None \<Rightarrow> [] | Some (ct, tag) \<Rightarrow> nonce @ tag @ ct)"

fun parse_entries :: "nat \<Rightarrow> bytes \<Rightarrow> KeyStore \<Rightarrow> KeyStore option" where
  "parse_entries 0 d parsed = Some parsed"
| "parse_entries (Suc n) d parsed =
     (if length d < 2 then None
      else let idlen = unat (be_value (take 2 d) :: u16); d1 = drop 2 d in
        if length d1 < idlen + 32 then None
        else parse_entries n (drop (idlen + 32) d1)
               (omap_emplace (of_bytes (take idlen d1)) (take 32 (drop idlen d1)) parsed))"

definition loadEncrypted :: "gcm_dec \<Rightarrow> bytes \<Rightarrow> bytes \<Rightarrow> KeyStore \<Rightarrow> bool \<times> KeyStore" where
  "loadEncrypted dec blob key ks =
     (if length blob < kOverhead then (False, ks)
      else case dec key (take kNonceLen blob) (drop kOverhead blob) (take kTagLen (drop kNonceLen blob)) of
        None \<Rightarrow> (False, ks)
      | Some plain \<Rightarrow>
          if length plain < 4 then (False, ks)
          else case parse_entries (unat (be_value (take 4 plain) :: u32)) (drop 4 plain) [] of
              None \<Rightarrow> (False, ks)
            | Some parsed \<Rightarrow> (True, parsed))"

text \<open>What \<open>saveToFile\<close> leaves in a file that can be opened: \<open>None\<close> when it writes nothing.\<close>

definition saveToFile :: "gcm_enc \<Rightarrow> bytes \<Rightarrow> bytes \<Rightarrow> KeyStore \<Rightarrow> bytes option" where
  "saveToFile enc nonce key ks =
     (let blob = serializeEncrypted enc nonce key ks in if blob = [] \<and> ks \<noteq> [] then None else Some blob)"

definition store_loadFromFile :: "gcm_dec \<Rightarrow> bytes option \<Rightarrow> bytes \<Rightarrow> KeyStore \<Rightarrow> bool \<times> KeyStore" where
  "store_loadFromFile dec file key ks = (case file of None \<Rightarrow> (False, ks) | Some blob \<Rightarrow> loadEncrypted dec blob key ks)"

section \<open>Well-formed stores\<close>

definition store_ok :: "KeyStore \<Rightarrow> bool" where
  "store_ok ks \<longleftrightarrow> omap_ok ks \<and> (\<forall>kv\<in>set ks. length (snd kv) = 32)"

lemma store_ok_iff: "store_ok ks \<longleftrightarrow> omap_ok ks \<and> (\<forall>peer psk. getPsk peer ks = Some psk \<longrightarrow> length psk = 32)"
proof (cases "omap_ok ks")
  case True
  then have "(\<forall>kv\<in>set ks. length (snd kv) = 32) = (\<forall>k v. map_of ks k = Some v \<longrightarrow> length v = 32)"
    by (auto simp: omap_mem_iff [symmetric])
  then show ?thesis using True by (simp add: store_ok_def getPsk_def)
qed (simp add: store_ok_def)

lemma store_ok_empty [simp]: "store_ok emptyStore"
  by (simp add: store_ok_def emptyStore_def)

lemma store_ok_set [intro]: "store_ok ks \<Longrightarrow> length psk = 32 \<Longrightarrow> store_ok (setPsk peer psk ks)"
  by (auto simp: store_ok_iff setPsk_def getPsk_def map_of_omap_set split: if_splits)

lemma store_ok_remove [intro]: "store_ok ks \<Longrightarrow> store_ok (removePsk peer ks)"
  by (auto simp: store_ok_iff removePsk_def getPsk_def map_of_omap_erase split: if_splits)

lemma store_ok_emplace: "store_ok ks \<Longrightarrow> length psk = 32 \<Longrightarrow> store_ok (omap_emplace peer psk ks)"
  using store_ok_set [of ks psk peer] by (simp add: omap_emplace_def setPsk_def)

lemma parse_entries_ok: "store_ok acc \<Longrightarrow> parse_entries n d acc = Some ks \<Longrightarrow> store_ok ks"
proof (induction n d acc rule: parse_entries.induct)
  case (2 n d acc)
  then show ?case by (auto simp: Let_def store_ok_emplace split: if_splits)
qed simp

lemma store_ok_load: "store_ok ks \<Longrightarrow> store_ok (snd (loadEncrypted dec blob key ks))"
  using parse_entries_ok [of "[]"] by (auto simp: loadEncrypted_def store_ok_def split: option.splits)

lemma getPsk_length: "store_ok ks \<Longrightarrow> getPsk peer ks = Some psk \<Longrightarrow> length psk = 32"
  by (simp add: store_ok_iff)

section \<open>Round trip\<close>

lemma omap_set_last: "\<forall>e\<in>set m. fst e < k \<Longrightarrow> omap_set k v m = m @ [(k, v)]"
  by (induction m rule: omap_set.induct) auto

lemma parse_entries_bytes:
  assumes "omap_ok (acc @ ks)" "\<forall>kv\<in>set ks. length (fst kv) < 2 ^ 16 \<and> length (snd kv) = 32"
  shows "parse_entries (length ks) (concat (map entry_bytes ks) @ r) acc = Some (acc @ ks)"
  using assms
proof (induction ks arbitrary: acc)
  case Nil
  then show ?case by simp
next
  case (Cons kv ks)
  obtain peer psk where kv: "kv = (peer, psk)" by (cases kv)
  have len: "length peer < 2 ^ 16" "length psk = 32" using Cons.prems(2) kv by auto
  have below: "\<forall>e\<in>set acc. fst e < peer"
    using Cons.prems(1) kv by (auto simp: omap_ok_def sorted_wrt_append)
  then have new: "map_of acc peer = None" by (metis map_of_SomeD not_less_iff_gr_or_eq option.exhaust prod.sel(1))
  have n: "unat (be_value (be_bytes 2 (word_of_nat (length peer) :: u16)) :: u16) = length peer"
    using len(1) by (simp add: be_value_be_bytes unat_of_nat_fits)
  have "parse_entries (length (kv # ks)) (concat (map entry_bytes (kv # ks)) @ r) acc
      = parse_entries (length ks) (concat (map entry_bytes ks) @ r) (acc @ [(peer, psk)])"
    using len n new below by (simp add: kv entry_bytes_def Let_def omap_emplace_def omap_set_last)
  also have "\<dots> = Some (acc @ kv # ks)"
    using Cons.IH [of "acc @ [(peer, psk)]"] Cons.prems kv by simp
  finally show ?case .
qed

section \<open>Properties\<close>

definition storable :: "KeyStore \<Rightarrow> bool" where
  "storable ks \<longleftrightarrow> store_ok ks \<and> length ks < 2 ^ 32 \<and> (\<forall>kv\<in>set ks. length (fst kv) < 2 ^ 16)"

text \<open>
  The key store survives the disk: what \<open>saveToFile\<close> writes under a protection key is
  loaded back as the same store, whatever the loading store held; and a blob that fails to
  load, for any reason, leaves the store as it was.
\<close>

theorem keystore_roundtrip:
  assumes "aead_ok enc dec" "length key = 32" "length nonce = 12" "storable ks"
  shows "\<exists>blob. saveToFile enc nonce key ks = Some blob \<and> store_loadFromFile dec (Some blob) key ks0 = (True, ks)
    \<and> (\<forall>file. fst (store_loadFromFile dec file key ks0) = False \<longrightarrow> snd (store_loadFromFile dec file key ks0) = ks0)"
proof -
  obtain ct tag where s: "enc key nonce (plain_bytes ks) = Some (ct, tag)" "length tag = 16"
    "dec key nonce ct tag = Some (plain_bytes ks)"
    using assms(1-3) unfolding aead_ok_def by blast
  have n: "unat (be_value (be_bytes 4 (word_of_nat (length ks) :: u32)) :: u32) = length ks"
    using assms(4) by (simp add: be_value_be_bytes unat_of_nat_fits storable_def)
  have "parse_entries (length ks) (concat (map entry_bytes ks)) [] = Some ks"
    using parse_entries_bytes [of "[]" ks "[]"] assms(4) by (auto simp: storable_def store_ok_def)
  then have "loadEncrypted dec (nonce @ tag @ ct) key ks0 = (True, ks)"
    using s assms(3) n by (simp add: loadEncrypted_def plain_bytes_def)
  moreover have "saveToFile enc nonce key ks = Some (nonce @ tag @ ct)"
    using s(1) assms(3) by (auto simp: saveToFile_def serializeEncrypted_def Let_def)
  moreover have "snd (loadEncrypted dec b key ks0) = ks0" if "\<not> fst (loadEncrypted dec b key ks0)" for b
    using that by (auto simp: loadEncrypted_def split: if_splits option.splits)
  ultimately show ?thesis by (auto simp: store_loadFromFile_def split: option.splits)
qed

definition toy_store :: KeyStore where
  "toy_store = [(''a'', toy_key), (''b'', replicate 32 9)]"

theorem keystore_roundtrip_witness:
  "\<exists>blob. saveToFile toy_enc (replicate 12 1) toy_key toy_store = Some blob
    \<and> store_loadFromFile toy_dec (Some blob) toy_key [] = (True, toy_store)"
  using keystore_roundtrip [OF toy_aead, of toy_key "replicate 12 1" toy_store "[]"]
  by (auto simp: toy_store_def storable_def store_ok_def omap_ok_def)

end
