(* ===== verification/SecureLink.thy ===== *)
theory SecureLink
  imports KeyStore PeerCodecs
begin

text \<open>
  How a socket becomes a sealed link, \<open>app/secure_link.{h,cpp}\<close>: the connector announces its
  id in the clear, the acceptor selects the pre-shared key by that hint, and both seal the
  link with the key.  The raw transport is any \<open>transport_ops\<close>.
\<close>

section \<open>Sealed links\<close>

type_synonym 'r sealed = "EncryptedTransport \<times> 'r"

definition sealed_ops :: "gcm_enc \<Rightarrow> gcm_dec \<Rightarrow> 'r transport_ops \<Rightarrow> 'r sealed transport_ops" where
  "sealed_ops enc dec ops =
     \<lparr>op_send = enc_send enc (op_send ops), op_recv = enc_recv dec (op_recv ops),
      op_up = (\<lambda>s. op_up ops (snd s)), op_waiting = (\<lambda>s. op_waiting ops (snd s))\<rparr>"

lemma sealed_ops_simps [simp]:
  "op_send (sealed_ops enc dec ops) = enc_send enc (op_send ops)"
  "op_recv (sealed_ops enc dec ops) = enc_recv dec (op_recv ops)"
  "op_up (sealed_ops enc dec ops) s = op_up ops (snd s)"
  "op_waiting (sealed_ops enc dec ops) s = op_waiting ops (snd s)"
  by (simp_all add: sealed_ops_def)

record 'r SecureLink =
  sl_peerId :: PeerId
  sl_transport :: "'r sealed option"

definition noLink :: "'r SecureLink" where
  "noLink = \<lparr>sl_peerId = [], sl_transport = None\<rparr>"

definition secureOutbound ::
  "'r transport_ops \<Rightarrow> 'r option \<Rightarrow> KeyStore \<Rightarrow> PeerId \<Rightarrow> PeerId \<Rightarrow> 'r SecureLink" where
  "secureOutbound ops raw keys self peer =
     (case raw of None \<Rightarrow> noLink
      | Some r \<Rightarrow>
          (case getPsk peer keys of None \<Rightarrow> noLink
           | Some psk \<Rightarrow>
               \<lparr>sl_peerId = peer,
                sl_transport = Some (newEncrypted psk (linkRoleFor self peer), snd (op_send ops (encodePeerHello self) r))\<rparr>))"

section \<open>The accepting side\<close>

datatype ih_status = IhNeedMore | IhOk | IhNotPaired | IhError

record 'r InboundHandshake =
  ih_raw :: "'r option"
  ih_status :: ih_status
  ih_result :: "'r SecureLink"

definition newInbound :: "'r option \<Rightarrow> 'r InboundHandshake" where
  "newInbound raw = \<lparr>ih_raw = raw, ih_status = IhNeedMore, ih_result = noLink\<rparr>"

definition ih_hint :: "KeyStore \<Rightarrow> PeerId \<Rightarrow> bytes \<Rightarrow> 'r \<Rightarrow> 'r InboundHandshake \<Rightarrow> 'r InboundHandshake" where
  "ih_hint keys self d raw h =
     (case decodePeerHello d of None \<Rightarrow> h\<lparr>ih_status := IhError\<rparr>
      | Some claimed \<Rightarrow>
          if claimed = [] \<or> claimed = self then h\<lparr>ih_status := IhError\<rparr>
          else case getPsk claimed keys of None \<Rightarrow> h\<lparr>ih_status := IhNotPaired\<rparr>
            | Some psk \<Rightarrow> h\<lparr>ih_raw := None, ih_status := IhOk, ih_result := \<lparr>sl_peerId = claimed,
                  sl_transport = Some (newEncrypted psk (linkRoleFor self claimed), raw)\<rparr>\<rparr>)"

definition ih_poll :: "'r transport_ops \<Rightarrow> KeyStore \<Rightarrow> PeerId \<Rightarrow> 'r InboundHandshake \<Rightarrow> ih_status \<times> 'r InboundHandshake" where
  "ih_poll ops keys self h =
     (let h1 =
        (if ih_status h \<noteq> IhNeedMore then h
         else case ih_raw h of None \<Rightarrow> h\<lparr>ih_status := IhError\<rparr>
           | Some r \<Rightarrow>
               if \<not> op_up ops r then h\<lparr>ih_status := IhError\<rparr>
               else case op_recv ops 512 r of
                   (RecvNone, r') \<Rightarrow> h\<lparr>ih_raw := Some r'\<rparr>
                 | (RecvErr, r') \<Rightarrow> h\<lparr>ih_raw := Some r', ih_status := IhError\<rparr>
                 | (RecvMsg d, r') \<Rightarrow> ih_hint keys self d r' (h\<lparr>ih_raw := Some r'\<rparr>))
      in (ih_status h1, h1))"

definition ih_take :: "'r InboundHandshake \<Rightarrow> 'r SecureLink \<times> 'r InboundHandshake" where
  "ih_take h = (ih_result h, h\<lparr>ih_result := (ih_result h)\<lparr>sl_transport := None\<rparr>\<rparr>)"

section \<open>The handshake accepts exactly the paired\<close>

text \<open>The handshake never leaves a final status.\<close>

lemma ih_final: "ih_status h \<noteq> IhNeedMore \<Longrightarrow> ih_poll ops keys self h = (ih_status h, h)"
  by (simp add: ih_poll_def Let_def)

text \<open>A result is a link to a paired id that is not this machine, sealed with that id's key.\<close>

definition ih_inv :: "KeyStore \<Rightarrow> PeerId \<Rightarrow> 'r InboundHandshake \<Rightarrow> bool" where
  "ih_inv keys self h \<longleftrightarrow> (ih_status h = IhNeedMore \<longrightarrow> ih_raw h \<noteq> None) \<and> (ih_status h = IhOk \<longrightarrow>
     (\<exists>psk r. sl_peerId (ih_result h) \<notin> {[], self} \<and> getPsk (sl_peerId (ih_result h)) keys = Some psk
       \<and> sl_transport (ih_result h) = Some (newEncrypted psk (linkRoleFor self (sl_peerId (ih_result h))), r)))"

lemma ih_inv_new: "ih_inv keys self (newInbound (Some r))"
  by (simp add: ih_inv_def newInbound_def)

lemma ih_inv_hint: "ih_inv keys self (ih_hint keys self d r (h\<lparr>ih_raw := Some r\<rparr>))" if "ih_status h = IhNeedMore"
  using that by (auto simp: ih_inv_def ih_hint_def split: option.splits)

lemma ih_inv_poll: "ih_inv keys self h \<Longrightarrow> ih_inv keys self (snd (ih_poll ops keys self h))"
proof (cases "ih_status h = IhNeedMore")
  case True
  then show "ih_inv keys self h \<Longrightarrow> ih_inv keys self (snd (ih_poll ops keys self h))"
    using ih_inv_hint [OF True]
    by (auto simp: ih_poll_def Let_def ih_inv_def split: option.splits recv_result.splits prod.splits)
qed (simp add: ih_final)

lemma ih_accepts:
  assumes "op_up ops r" "op_recv ops 512 r = (RecvMsg (encodePeerHello claimed), r')" "length claimed < 2 ^ 32"
    and "claimed \<notin> {[], self}" "getPsk claimed keys = Some psk"
  shows "ih_poll ops keys self (newInbound (Some r)) = (IhOk, \<lparr>ih_raw = None, ih_status = IhOk,
     ih_result = \<lparr>sl_peerId = claimed, sl_transport = Some (newEncrypted psk (linkRoleFor self claimed), r')\<rparr>\<rparr>)"
  using assms by (simp add: ih_poll_def newInbound_def ih_hint_def Let_def decode_encode_hello)

end
