(* ===== verification/Connections.thy ===== *)
theory Connections
  imports SecureLink MeshProps "HOL-Library.Multiset"
begin

text \<open>
  The life of a peer link: \<open>app/connection_manager.{h,cpp}\<close>, which names a fresh link by the
  peer's hello, hands it to the mesh and reaps it when the transport is down, and
  \<open>app/connection_service.{h,cpp}\<close>, which dials and accepts sockets and seals them.

  Transport objects are owned by the manager: \<open>cm_links\<close> maps the handle of each object that
  is alive to its state, and destroying an object removes its handle.  The mesh holds raw
  pointers, which are handles too.  The methods of the transports are a \<open>transport_ops\<close>.
\<close>

section \<open>Draining a transport\<close>

text \<open>
  \<open>while ((n = recv(buf, cap)) > 0)\<close>: the messages it yields and the transport after the call
  that returned 0 or less.  The fuel is one more than the messages that can be waiting.
\<close>

fun drain :: "'t transport_ops \<Rightarrow> nat \<Rightarrow> nat \<Rightarrow> 't \<Rightarrow> bytes list \<times> 't" where
  "drain ops 0 cap t = ([], t)"
| "drain ops (Suc k) cap t =
     (case op_recv ops cap t of
        (RecvMsg m, t') \<Rightarrow> (case drain ops k cap t' of (ms, t'') \<Rightarrow> (m # ms, t''))
      | (_, t') \<Rightarrow> ([], t'))"

definition drainAll :: "'t transport_ops \<Rightarrow> nat \<Rightarrow> 't \<Rightarrow> bytes list \<times> 't" where
  "drainAll ops cap t = drain ops (Suc (op_waiting ops t)) cap t"

section \<open>The connection manager\<close>

record 't ConnectionManager =
  cm_mesh :: MeshNode
  cm_pending :: "(nat \<times> PeerId) list"
  cm_connected :: "(PeerId, nat) omap"
  cm_links :: "(nat, 't) omap"
  cm_next :: nat

datatype cm_out = PeerConnected PeerId | PeerDisconnected PeerId | MeshCall mesh_out

definition cmInit :: "MeshNode \<Rightarrow> 't ConnectionManager" where
  "cmInit mesh = \<lparr>cm_mesh = mesh, cm_pending = [], cm_connected = [], cm_links = [], cm_next = 0\<rparr>"

definition cm_isConnected :: "PeerId \<Rightarrow> 't ConnectionManager \<Rightarrow> bool" where
  "cm_isConnected peer cm \<longleftrightarrow> map_of (cm_connected cm) peer \<noteq> None"

definition pendingCount :: "'t ConnectionManager \<Rightarrow> nat" where
  "pendingCount cm = length (cm_pending cm)"

definition connectedCount :: "'t ConnectionManager \<Rightarrow> nat" where
  "connectedCount cm = length (cm_connected cm)"

definition new_link :: "'t \<Rightarrow> PeerId \<Rightarrow> 't ConnectionManager \<Rightarrow> 't ConnectionManager" where
  "new_link t expected cm =
     cm\<lparr>cm_links := omap_set (cm_next cm) t (cm_links cm), cm_next := Suc (cm_next cm),
        cm_pending := cm_pending cm @ [(cm_next cm, expected)]\<rparr>"

definition announce :: "'t transport_ops \<Rightarrow> PeerId \<Rightarrow> 't \<Rightarrow> 't" where
  "announce ops self t = snd (op_send ops (encodePeerHello self) t)"

definition addOutgoing :: "'t transport_ops \<Rightarrow> PeerId \<Rightarrow> 't option \<Rightarrow> 't ConnectionManager \<Rightarrow> 't ConnectionManager" where
  "addOutgoing ops expected transport cm =
     (case transport of None \<Rightarrow> cm | Some t \<Rightarrow> new_link (announce ops (mn_self (cm_mesh cm)) t) expected cm)"

definition addIncoming :: "'t transport_ops \<Rightarrow> 't option \<Rightarrow> 't ConnectionManager \<Rightarrow> 't ConnectionManager" where
  "addIncoming ops transport cm =
     (case transport of None \<Rightarrow> cm | Some t \<Rightarrow> new_link (announce ops (mn_self (cm_mesh cm)) t) [] cm)"

definition drop_link :: "nat \<Rightarrow> 't ConnectionManager \<Rightarrow> 't ConnectionManager" where
  "drop_link h cm = cm\<lparr>cm_links := omap_erase h (cm_links cm)\<rparr>"

definition set_link :: "nat \<Rightarrow> 't \<Rightarrow> 't ConnectionManager \<Rightarrow> 't ConnectionManager" where
  "set_link h t cm = cm\<lparr>cm_links := omap_set h t (cm_links cm)\<rparr>"

text \<open>What a message on a pending link decides.\<close>

definition hello_decision :: "PeerId \<Rightarrow> bytes \<Rightarrow> 't ConnectionManager \<Rightarrow> PeerId option" where
  "hello_decision expected d cm =
     (case decodePeerHello d of None \<Rightarrow> None
      | Some peer \<Rightarrow>
          if peer = [] \<or> peer = mn_self (cm_mesh cm) then None
          else if expected \<noteq> [] \<and> peer \<noteq> expected then None
          else if cm_isConnected peer cm then None
          else Some peer)"

definition promote :: "PeerId \<Rightarrow> nat \<Rightarrow> 't ConnectionManager \<Rightarrow> 't ConnectionManager" where
  "promote peer h cm =
     cm\<lparr>cm_connected := omap_emplace peer h (cm_connected cm), cm_mesh := mesh_addPeer peer (Some h) (cm_mesh cm)\<rparr>"

text \<open>One pending link; one that waits on is appended to the list being rebuilt.\<close>

definition pending_step :: "'t transport_ops \<Rightarrow> nat \<times> PeerId \<Rightarrow> 't ConnectionManager \<Rightarrow> 't ConnectionManager \<times> cm_out list" where
  "pending_step ops p cm =
     (case map_of (cm_links cm) (fst p) of None \<Rightarrow> (cm, [])
      | Some t \<Rightarrow>
          if \<not> op_up ops t then (drop_link (fst p) cm, [])
          else case op_recv ops 1024 t of
              (RecvErr, t') \<Rightarrow> (drop_link (fst p) cm, [])
            | (RecvNone, t') \<Rightarrow> ((set_link (fst p) t' cm)\<lparr>cm_pending := cm_pending cm @ [p]\<rparr>, [])
            | (RecvMsg d, t') \<Rightarrow>
                (case hello_decision (snd p) d cm of
                   None \<Rightarrow> (drop_link (fst p) cm, [])
                 | Some peer \<Rightarrow> (promote peer (fst p) (set_link (fst p) t' cm), [PeerConnected peer])))"

definition reap_step :: "'t transport_ops \<Rightarrow> PeerId \<times> nat \<Rightarrow> 't ConnectionManager \<Rightarrow> 't ConnectionManager \<times> cm_out list" where
  "reap_step ops e cm =
     (case map_of (cm_links cm) (snd e) of None \<Rightarrow> (cm, [])
      | Some t \<Rightarrow>
          if op_up ops t then (cm, [])
          else let (n, outs) = mesh_removePeer (fst e) (cm_mesh cm) in
            (drop_link (snd e) (cm\<lparr>cm_mesh := n, cm_connected := omap_erase (fst e) (cm_connected cm)\<rparr>),
             map MeshCall outs @ [PeerDisconnected (fst e)]))"

text \<open>A call the mesh makes out: a send goes to the transport it points at, the rest to the owner.\<close>

definition exec_out :: "'t transport_ops \<Rightarrow> mesh_out \<Rightarrow> 't ConnectionManager \<Rightarrow> 't ConnectionManager \<times> cm_out list" where
  "exec_out ops out cm =
     (case out of
        SendTo h m \<Rightarrow>
          (case map_of (cm_links cm) h of None \<Rightarrow> (cm, [])
           | Some t \<Rightarrow> (set_link h (snd (op_send ops m t)) cm, []))
      | _ \<Rightarrow> (cm, [MeshCall out]))"

definition with_mesh ::
  "'t transport_ops \<Rightarrow> (MeshNode \<Rightarrow> MeshNode \<times> mesh_out list) \<Rightarrow> 't ConnectionManager \<Rightarrow> 't ConnectionManager \<times> cm_out list" where
  "with_mesh ops f cm = (let (n, outs) = f (cm_mesh cm) in run_steps (exec_out ops) outs (cm\<lparr>cm_mesh := n\<rparr>))"

text \<open>What the mesh's \<open>poll\<close> reads: the transports of its peers, drained with its buffer.\<close>

definition mesh_handles :: "MeshNode \<Rightarrow> nat list" where
  "mesh_handles n = concat (map (\<lambda>kv. case snd kv of None \<Rightarrow> [] | Some h \<Rightarrow> [h]) (mn_peers n))"

definition link_messages :: "'t transport_ops \<Rightarrow> 't ConnectionManager \<Rightarrow> nat \<Rightarrow> nat \<Rightarrow> bytes list" where
  "link_messages ops cm h cap = (case map_of (cm_links cm) h of None \<Rightarrow> [] | Some t \<Rightarrow> fst (drainAll ops cap t))"

definition drain_links :: "'t transport_ops \<Rightarrow> 't ConnectionManager \<Rightarrow> 't ConnectionManager" where
  "drain_links ops cm =
     cm\<lparr>cm_links := map (\<lambda>e. if fst e \<in> set (mesh_handles (cm_mesh cm))
                             then (fst e, snd (drainAll ops kPollBuffer (snd e))) else e) (cm_links cm)\<rparr>"

definition cm_poll :: "'t transport_ops \<Rightarrow> u64 \<Rightarrow> 't ConnectionManager \<Rightarrow> 't ConnectionManager \<times> cm_out list" where
  "cm_poll ops now cm =
     (let (cm1, o1) = run_steps (pending_step ops) (cm_pending cm) (cm\<lparr>cm_pending := []\<rparr>);
          (cm2, o2) = run_steps (reap_step ops) (cm_connected cm1) cm1;
          (cm3, o3) = with_mesh ops (mesh_poll (link_messages ops cm2) now) (drain_links ops cm2);
          (cm4, o4) = with_mesh ops (sendHeartbeats now) cm3 in
      (cm4, o1 @ o2 @ o3 @ o4))"

section \<open>The connection service\<close>

record DialPeer =
  dp_id :: PeerId
  dp_host :: string
  dp_port :: u16

record 'r ConnectionService =
  cs_cm :: "'r sealed ConnectionManager"
  cs_keys :: KeyStore
  cs_self :: PeerId
  cs_listenPort :: u16
  cs_peers :: "DialPeer list"
  cs_lastDial :: "(PeerId, u64) omap"
  cs_pendingIn :: "'r InboundHandshake list"
  cs_dialCooldownMs :: u64

definition csInit :: "'r sealed ConnectionManager \<Rightarrow> KeyStore \<Rightarrow> PeerId \<Rightarrow> u16 \<Rightarrow> 'r ConnectionService" where
  "csInit cm keys self port =
     \<lparr>cs_cm = cm, cs_keys = keys, cs_self = self, cs_listenPort = port, cs_peers = [], cs_lastDial = [],
      cs_pendingIn = [], cs_dialCooldownMs = 2000\<rparr>"

definition setPeers :: "DialPeer list \<Rightarrow> 'r ConnectionService \<Rightarrow> 'r ConnectionService" where
  "setPeers peers cs = cs\<lparr>cs_peers := peers\<rparr>"

datatype cs_out = Dialed PeerId string u16

text \<open>\<open>dial\<close> is what the injected factory returns for a host and port, \<open>accept\<close> for this poll.\<close>

definition dial_step ::
  "gcm_enc \<Rightarrow> gcm_dec \<Rightarrow> 'r transport_ops \<Rightarrow> (string \<Rightarrow> u16 \<Rightarrow> 'r option) option \<Rightarrow> u64 \<Rightarrow> DialPeer
     \<Rightarrow> 'r ConnectionService \<Rightarrow> 'r ConnectionService \<times> cs_out list" where
  "dial_step enc dec ops dial now p cs =
     (case dial of None \<Rightarrow> (cs, [])
      | Some connect \<Rightarrow>
          if dp_id p = cs_self cs \<or> cm_isConnected (dp_id p) (cs_cm cs) then (cs, [])
          else let last = (case map_of (cs_lastDial cs) (dp_id p) of None \<Rightarrow> 0 | Some t \<Rightarrow> t);
                   cs1 = cs\<lparr>cs_lastDial := omap_emplace (dp_id p) 0 (cs_lastDial cs)\<rparr> in
            if last \<noteq> 0 \<and> now - last < cs_dialCooldownMs cs then (cs1, [])
            else let cs2 = cs1\<lparr>cs_lastDial := omap_set (dp_id p) now (cs_lastDial cs1)\<rparr>;
                     link = secureOutbound ops (connect (dp_host p) (dp_port p)) (cs_keys cs) (cs_self cs) (dp_id p) in
              (cs2\<lparr>cs_cm := addOutgoing (sealed_ops enc dec ops) (dp_id p) (sl_transport link) (cs_cm cs2)\<rparr>,
               [Dialed (dp_id p) (dp_host p) (dp_port p)]))"

definition inbound_step ::
  "gcm_enc \<Rightarrow> gcm_dec \<Rightarrow> 'r transport_ops \<Rightarrow> 'r InboundHandshake \<Rightarrow> 'r ConnectionService \<Rightarrow> 'r ConnectionService \<times> cs_out list" where
  "inbound_step enc dec ops h cs =
     (case ih_poll ops (cs_keys cs) (cs_self cs) h of
        (IhOk, h1) \<Rightarrow> (cs\<lparr>cs_cm := addIncoming (sealed_ops enc dec ops) (sl_transport (fst (ih_take h1))) (cs_cm cs)\<rparr>, [])
      | (IhNeedMore, h1) \<Rightarrow> (cs\<lparr>cs_pendingIn := cs_pendingIn cs @ [h1]\<rparr>, [])
      | _ \<Rightarrow> (cs, []))"

definition pollConnections ::
  "gcm_enc \<Rightarrow> gcm_dec \<Rightarrow> 'r transport_ops \<Rightarrow> (string \<Rightarrow> u16 \<Rightarrow> 'r option) option \<Rightarrow> 'r option \<Rightarrow> u64
     \<Rightarrow> 'r ConnectionService \<Rightarrow> 'r ConnectionService \<times> cs_out list" where
  "pollConnections enc dec ops dial accepted now cs =
     (let (cs1, o1) = run_steps (dial_step enc dec ops dial now) (cs_peers cs) cs;
          ins = cs_pendingIn cs1 @ (case accepted of None \<Rightarrow> [] | Some r \<Rightarrow> [newInbound (Some r)]);
          (cs2, o2) = run_steps (inbound_step enc dec ops) ins (cs1\<lparr>cs_pendingIn := []\<rparr>) in
      (cs2, o1 @ o2))"

section \<open>What the mesh keeps\<close>

text \<open>Every operation but adding and removing a peer keeps the mesh's peers; all keep its id.\<close>

lemma handle_peers [simp]:
  "mn_peers (fst (handle now from d n)) = mn_peers n" "mn_self (fst (handle now from d n)) = mn_self n"
  by (auto simp: handle_def handle_fixed_def handle_var_def handle_claim_def Let_def
      split: DecodeResult.splits MessageType.splits option.splits)

lemma run_steps_keeps:
  assumes "\<And>x s. g (fst (f x s)) = g s"
  shows "g (fst (run_steps f xs s)) = g s"
  by (induction xs arbitrary: s) (simp_all add: assms Let_def split_beta)

lemma poll_peer_peers [simp]:
  "mn_peers (fst (poll_peer rx now kv n)) = mn_peers n" "mn_self (fst (poll_peer rx now kv n)) = mn_self n"
  by (auto simp: poll_peer_def run_steps_keeps [where g = mn_peers] run_steps_keeps [where g = mn_self] split: option.splits)

lemma refresh_peers [simp]:
  "mn_peers (fst (refreshOnlineAndFailSafe now n)) = mn_peers n"
  "mn_self (fst (refreshOnlineAndFailSafe now n)) = mn_self n"
proof -
  have "mn_peers (fst (refresh_peer now p n)) = mn_peers n" "mn_self (fst (refresh_peer now p n)) = mn_self n" for p n
    by (simp_all add: refresh_peer_def Let_def)
  then have loop: "mn_peers (fst (run_steps (refresh_peer now) ps n)) = mn_peers n"
    "mn_self (fst (run_steps (refresh_peer now) ps n)) = mn_self n" for ps n
    by (simp_all add: run_steps_keeps [where g = mn_peers] run_steps_keeps [where g = mn_self])
  then show "mn_peers (fst (refreshOnlineAndFailSafe now n)) = mn_peers n"
    "mn_self (fst (refreshOnlineAndFailSafe now n)) = mn_self n"
    by (simp_all add: refreshOnlineAndFailSafe_def failSafe_def Let_def split_beta)
qed

lemma mesh_poll_peers [simp]:
  "mn_peers (fst (mesh_poll rx now n)) = mn_peers n" "mn_self (fst (mesh_poll rx now n)) = mn_self n"
  by (simp_all add: mesh_poll_def Let_def split_beta run_steps_keeps [where g = mn_peers] run_steps_keeps [where g = mn_self])

lemma sendHeartbeats_peers [simp]:
  "mn_peers (fst (sendHeartbeats now n)) = mn_peers n" "mn_self (fst (sendHeartbeats now n)) = mn_self n"
  by (simp_all add: sendHeartbeats_def Let_def)

lemma mesh_removePeer_peers [simp]:
  "mn_peers (fst (mesh_removePeer p n)) = omap_erase p (mn_peers n)" "mn_self (fst (mesh_removePeer p n)) = mn_self n"
  by (simp_all add: mesh_removePeer_def Let_def split_beta split: option.splits)

section \<open>The manager's invariant\<close>

text \<open>
  Every live transport object is owned once, by a pending or a connected entry; the mesh's
  peers are exactly the connected ones, with their handles, so it points at live objects
  only; this machine and the empty id are never connected.
\<close>

definition cm_handles :: "(nat \<times> PeerId) list \<Rightarrow> 't ConnectionManager \<Rightarrow> nat list" where
  "cm_handles rest cm = map fst rest @ map fst (cm_pending cm) @ map snd (cm_connected cm)"

text \<open>\<open>rest\<close> are the pending entries the loop over them has still to visit.\<close>

definition cm_ok_with :: "(nat \<times> PeerId) list \<Rightarrow> 't ConnectionManager \<Rightarrow> bool" where
  "cm_ok_with rest cm \<longleftrightarrow> omap_ok (cm_links cm) \<and> omap_ok (cm_connected cm)
     \<and> distinct (cm_handles rest cm) \<and> set (cm_handles rest cm) = dom (map_of (cm_links cm))
     \<and> (\<forall>h\<in>set (cm_handles rest cm). h < cm_next cm)
     \<and> mn_peers (cm_mesh cm) = map (\<lambda>e. (fst e, Some (snd e))) (cm_connected cm)
     \<and> mn_self (cm_mesh cm) \<notin> dom (map_of (cm_connected cm)) \<and> [] \<notin> dom (map_of (cm_connected cm))"

definition cm_ok :: "'t ConnectionManager \<Rightarrow> bool" where
  "cm_ok cm \<longleftrightarrow> cm_ok_with [] cm"

lemma cm_ok_init: "mn_peers mesh = [] \<Longrightarrow> cm_ok (cmInit mesh)"
  by (simp add: cm_ok_def cm_ok_with_def cmInit_def cm_handles_def)

lemma omap_set_map: "omap_set k (f v) (map (\<lambda>e. (fst e, f (snd e))) m) = map (\<lambda>e. (fst e, f (snd e))) (omap_set k v m)"
  by (induction k v m rule: omap_set.induct) auto

lemma omap_erase_map: "omap_erase k (map (\<lambda>e. (fst e, f (snd e))) m) = map (\<lambda>e. (fst e, f (snd e))) (omap_erase k m)"
  by (induction m) (auto simp: omap_erase_def)

lemma mset_omap_set: "map_of m k = None \<Longrightarrow> mset (omap_set k v m) = add_mset (k, v) (mset m)"
  by (induction k v m rule: omap_set.induct) (auto split: if_splits)

text \<open>The invariant only sees the multiset of handles.\<close>

lemma handles_mset:
  "mset xs = mset ys \<Longrightarrow> distinct xs = distinct ys \<and> set xs = set ys"
  using mset_eq_imp_distinct_iff mset_eq_setD by blast

lemma cm_handles_Cons: "cm_handles (p # rest) cm = fst p # cm_handles rest cm"
  by (simp add: cm_handles_def)

lemma cm_ok_drop: "cm_ok_with (p # rest) cm \<Longrightarrow> cm_ok_with rest (drop_link (fst p) cm)"
  by (auto simp: cm_ok_with_def drop_link_def cm_handles_def map_of_omap_erase)

lemma cm_ok_set_link: "cm_ok_with rest cm \<Longrightarrow> map_of (cm_links cm) h \<noteq> None \<Longrightarrow> cm_ok_with rest (set_link h t cm)"
  by (auto simp: cm_ok_with_def set_link_def cm_handles_def map_of_omap_set)

lemma cm_ok_keep: "cm_ok_with (p # rest) cm \<Longrightarrow> cm_ok_with rest (cm\<lparr>cm_pending := cm_pending cm @ [p]\<rparr>)"
proof -
  assume ok: "cm_ok_with (p # rest) cm"
  let ?c = "cm\<lparr>cm_pending := cm_pending cm @ [p]\<rparr>"
  have "mset (cm_handles rest ?c) = mset (cm_handles (p # rest) cm)" by (simp add: cm_handles_def)
  from handles_mset [OF this] show ?thesis using ok by (simp add: cm_ok_with_def)
qed

lemma cm_ok_promote:
  assumes "cm_ok_with (p # rest) cm" "\<not> cm_isConnected peer cm" "peer \<noteq> []" "peer \<noteq> mn_self (cm_mesh cm)"
  shows "cm_ok_with rest (promote peer (fst p) cm)"
proof -
  let ?c = "promote peer (fst p) cm"
  have new: "map_of (cm_connected cm) peer = None" using assms(2) by (simp add: cm_isConnected_def)
  have con: "cm_connected ?c = omap_set peer (fst p) (cm_connected cm)"
    using new by (simp add: promote_def omap_emplace_def)
  have "mset (cm_handles rest ?c) = mset (cm_handles (p # rest) cm)"
    using mset_omap_set [OF new, of "fst p"] by (simp add: cm_handles_def con) (simp add: promote_def)
  note h = handles_mset [OF this]
  have "mn_peers (cm_mesh ?c) = map (\<lambda>e. (fst e, Some (snd e))) (cm_connected ?c)"
    unfolding con using assms(1) by (simp add: promote_def mesh_addPeer_def cm_ok_with_def omap_set_map)
  moreover have "omap_ok (cm_connected cm)" using assms(1) by (simp add: cm_ok_with_def)
  moreover have "cm_links ?c = cm_links cm" "cm_next ?c = cm_next cm" "mn_self (cm_mesh ?c) = mn_self (cm_mesh cm)"
    by (simp_all add: promote_def mesh_addPeer_def)
  ultimately show ?thesis
    using assms(1,3,4) h unfolding cm_ok_with_def con by (auto simp: map_of_omap_set omap_set_ok)
qed

lemma hello_decisionD:
  "hello_decision expected d cm = Some peer \<Longrightarrow> peer \<noteq> [] \<and> peer \<noteq> mn_self (cm_mesh cm) \<and> (expected = [] \<or> peer = expected)
     \<and> \<not> cm_isConnected peer cm \<and> d = encodePeerHello peer"
  by (auto simp: hello_decision_def dest: decode_hello_exact split: option.splits if_splits)

lemma set_link_frame [simp]:
  "cm_isConnected peer (set_link h t cm) = cm_isConnected peer cm" "cm_mesh (set_link h t cm) = cm_mesh cm"
  "cm_connected (set_link h t cm) = cm_connected cm"
  by (simp_all add: set_link_def cm_isConnected_def)

lemma cm_ok_pending_step: "cm_ok_with (p # rest) cm \<Longrightarrow> cm_ok_with rest (fst (pending_step ops p cm))"
proof -
  assume ok: "cm_ok_with (p # rest) cm"
  have "fst p \<in> dom (map_of (cm_links cm))" using ok by (auto simp: cm_ok_with_def cm_handles_def)
  then obtain t where t: "map_of (cm_links cm) (fst p) = Some t" by auto
  then have set: "cm_ok_with (p # rest) (set_link (fst p) t' cm)" for t' using cm_ok_set_link [OF ok] by simp
  have pr: "cm_ok_with rest (promote peer (fst p) (set_link (fst p) t' cm))"
    if "hello_decision (snd p) d cm = Some peer" for peer d t'
    using cm_ok_promote [OF set] hello_decisionD [OF that] by simp
  have kp: "cm_ok_with rest ((set_link (fst p) t' cm)\<lparr>cm_pending := cm_pending cm @ [p]\<rparr>)" for t'
    using cm_ok_keep [OF set, of t'] by (simp add: set_link_def)
  show ?thesis
    using cm_ok_drop [OF ok] pr kp t
    by (auto simp: pending_step_def split: prod.splits recv_result.splits option.splits)
qed

lemma cm_ok_pending_loop:
  "cm_ok_with ps cm \<Longrightarrow> cm_ok_with [] (fst (run_steps (pending_step ops) ps cm))"
  by (induction ps arbitrary: cm) (auto simp: Let_def split_beta cm_ok_pending_step)

lemma cm_ok_start_poll: "cm_ok cm \<Longrightarrow> cm_ok_with (cm_pending cm) (cm\<lparr>cm_pending := []\<rparr>)"
  by (simp add: cm_ok_def cm_ok_with_def cm_handles_def)

text \<open>Reaping: an entry that goes takes its peer and its transport with it.\<close>

lemma mset_omap_erase: "omap_ok m \<Longrightarrow> (k, v) \<in> set m \<Longrightarrow> mset m = add_mset (k, v) (mset (omap_erase k m))"
proof (induction m)
  case Nil
  then show ?case by simp
next
  case (Cons e m)
  show ?case
  proof (cases "fst e = k")
    case True
    then have "\<forall>x\<in>set m. fst x \<noteq> k" using Cons.prems(1) by (cases e) (auto simp: omap_ok_Cons)
    then have "omap_erase k (e # m) = m" using True by (simp add: omap_erase_def)
    moreover have "e = (k, v)" using Cons.prems True \<open>\<forall>x\<in>set m. fst x \<noteq> k\<close> by auto
    ultimately show ?thesis by simp
  next
    case False
    then have "(k, v) \<in> set m" "omap_ok m" using Cons.prems by (cases e; auto simp: omap_ok_Cons)+
    then show ?thesis using Cons.IH False by (simp add: omap_erase_def)
  qed
qed

definition unplug :: "PeerId \<times> nat \<Rightarrow> 't ConnectionManager \<Rightarrow> 't ConnectionManager" where
  "unplug e cm = drop_link (snd e) (cm\<lparr>cm_mesh := fst (mesh_removePeer (fst e) (cm_mesh cm)),
     cm_connected := omap_erase (fst e) (cm_connected cm)\<rparr>)"

lemma cm_ok_unplug:
  assumes "cm_ok cm" "e \<in> set (cm_connected cm)"
  shows "cm_ok (unplug e cm)"
proof -
  let ?c = "unplug e cm"
  have ok: "omap_ok (cm_connected cm)" "omap_ok (cm_links cm)" "mn_peers (cm_mesh cm) = map (\<lambda>e. (fst e, Some (snd e))) (cm_connected cm)"
    using assms(1) by (simp_all add: cm_ok_def cm_ok_with_def)
  have m: "mset (cm_handles [] cm) = mset (snd e # cm_handles [] ?c)"
    using mset_omap_erase [OF ok(1), of "fst e" "snd e"] assms(2) by (simp add: cm_handles_def unplug_def drop_link_def)
  note h = handles_mset [OF m]
  have "mn_peers (cm_mesh ?c) = map (\<lambda>e. (fst e, Some (snd e))) (cm_connected ?c)"
    using ok(3) by (simp add: unplug_def drop_link_def omap_erase_map)
  moreover have "mn_self (cm_mesh ?c) = mn_self (cm_mesh cm)" "cm_next ?c = cm_next cm"
    "cm_connected ?c = omap_erase (fst e) (cm_connected cm)" "cm_links ?c = omap_erase (snd e) (cm_links cm)"
    by (simp_all add: unplug_def drop_link_def)
  ultimately show ?thesis
    using assms(1) h ok unfolding cm_ok_def cm_ok_with_def by (auto simp: map_of_omap_erase)
qed

lemma reap_step_unplug:
  "fst (reap_step ops e cm) = cm \<and> snd (reap_step ops e cm) = []
   \<or> fst (reap_step ops e cm) = unplug e cm
     \<and> snd (reap_step ops e cm) = map MeshCall (snd (mesh_removePeer (fst e) (cm_mesh cm))) @ [PeerDisconnected (fst e)]"
  by (auto simp: reap_step_def unplug_def Let_def split_beta split: option.splits)

lemma cm_ok_reap_loop:
  "cm_ok cm \<Longrightarrow> set es \<subseteq> set (cm_connected cm) \<Longrightarrow> distinct (map fst es) \<Longrightarrow> cm_ok (fst (run_steps (reap_step ops) es cm))"
proof (induction es arbitrary: cm)
  case Nil
  then show ?case by simp
next
  case (Cons e es)
  let ?c = "fst (reap_step ops e cm)"
  have "cm_ok ?c" using reap_step_unplug [of ops e cm] cm_ok_unplug [of cm e] Cons.prems by auto
  moreover have "set es \<subseteq> set (cm_connected ?c)"
  proof
    fix x assume x: "x \<in> set es"
    then have "fst e \<noteq> fst x" "x \<in> set (cm_connected cm)" using Cons.prems(2,3) by (metis distinct.simps(2)
      imageI list.map(2) list.set_map, auto)
    then show "x \<in> set (cm_connected ?c)"
      using reap_step_unplug [of ops e cm] by (auto simp: unplug_def drop_link_def omap_erase_def)
  qed
  ultimately have "cm_ok (fst (run_steps (reap_step ops) es ?c))" using Cons.IH Cons.prems(3) by auto
  then show ?case by (simp add: Let_def split_beta)
qed

text \<open>What the mesh does through its transports.\<close>

lemma exec_out_frame:
  "cm_mesh (fst (exec_out ops x cm)) = cm_mesh cm \<and> cm_pending (fst (exec_out ops x cm)) = cm_pending cm
   \<and> cm_connected (fst (exec_out ops x cm)) = cm_connected cm"
  by (auto simp: exec_out_def set_link_def split: mesh_out.splits option.splits)

lemma cm_ok_exec_out: "cm_ok cm \<Longrightarrow> cm_ok (fst (exec_out ops x cm))"
  by (auto simp: exec_out_def cm_ok_def cm_ok_set_link split: mesh_out.splits option.splits)

lemma cm_ok_with_mesh:
  assumes "cm_ok cm" "mn_peers (fst (f (cm_mesh cm))) = mn_peers (cm_mesh cm)" "mn_self (fst (f (cm_mesh cm))) = mn_self (cm_mesh cm)"
  shows "cm_ok (fst (with_mesh ops f cm))"
proof -
  have "cm_ok (cm\<lparr>cm_mesh := fst (f (cm_mesh cm))\<rparr>)"
    using assms by (simp add: cm_ok_def cm_ok_with_def cm_handles_def)
  then show ?thesis
    by (auto simp: with_mesh_def split_beta intro: run_steps_inv [where I = cm_ok] cm_ok_exec_out)
qed

lemma map_of_map_values: "map_of (map (\<lambda>e. (fst e, g e)) m) k = map_option (\<lambda>v. g (k, v)) (map_of m k)"
  by (induction m) auto

lemma omap_ok_map_values: "omap_ok (map (\<lambda>e. (fst e, g e)) m) = omap_ok m"
  by (simp add: omap_ok_def comp_def)

lemma cm_ok_map_links: "cm_ok cm \<Longrightarrow> cm_ok (cm\<lparr>cm_links := map (\<lambda>e. (fst e, g e)) (cm_links cm)\<rparr>)"
  by (auto simp: cm_ok_def cm_ok_with_def cm_handles_def omap_ok_map_values map_of_map_values dom_def)

lemma drain_links_map:
  "drain_links ops cm = cm\<lparr>cm_links := map (\<lambda>e. (fst e, if fst e \<in> set (mesh_handles (cm_mesh cm))
     then snd (drainAll ops kPollBuffer (snd e)) else snd e)) (cm_links cm)\<rparr>"
  unfolding drain_links_def by (intro arg_cong [where f = "\<lambda>l. cm\<lparr>cm_links := l\<rparr>"]) (auto simp: split_beta)

lemma cm_ok_poll: "cm_ok cm \<Longrightarrow> cm_ok (fst (cm_poll ops now cm))"
proof -
  assume ok: "cm_ok cm"
  let ?c1 = "fst (run_steps (pending_step ops) (cm_pending cm) (cm\<lparr>cm_pending := []\<rparr>))"
  let ?c2 = "fst (run_steps (reap_step ops) (cm_connected ?c1) ?c1)"
  have c1: "cm_ok ?c1" using cm_ok_pending_loop [OF cm_ok_start_poll [OF ok]] by (simp add: cm_ok_def)
  then have "distinct (map fst (cm_connected ?c1))" by (auto simp: cm_ok_def cm_ok_with_def dest: omap_ok_distinct)
  then have "cm_ok ?c2" using cm_ok_reap_loop [OF c1 subset_refl] by blast
  then have "cm_ok (drain_links ops ?c2)" unfolding drain_links_map by (rule cm_ok_map_links)
  then have "cm_ok (fst (with_mesh ops (mesh_poll (link_messages ops ?c2) now) (drain_links ops ?c2)))"
    by (rule cm_ok_with_mesh) simp_all
  then show ?thesis
    by (auto simp: cm_poll_def Let_def split_beta intro: cm_ok_with_mesh)
qed

lemma cm_ok_new_link: "cm_ok cm \<Longrightarrow> cm_ok (new_link t expected cm)"
proof -
  assume ok: "cm_ok cm"
  let ?c = "new_link t expected cm"
  have "mset (cm_handles [] ?c) = mset (cm_next cm # cm_handles [] cm)" by (simp add: cm_handles_def new_link_def)
  note h = handles_mset [OF this]
  have new: "cm_next cm \<notin> set (cm_handles [] cm)" using ok by (auto simp: cm_ok_def cm_ok_with_def)
  have f: "cm_links ?c = omap_set (cm_next cm) t (cm_links cm)" "cm_next ?c = Suc (cm_next cm)"
    "cm_connected ?c = cm_connected cm" "cm_mesh ?c = cm_mesh cm" by (simp_all add: new_link_def)
  have lt: "\<forall>h\<in>set (cm_handles [] cm). h < cm_next cm" using ok by (simp add: cm_ok_def cm_ok_with_def)
  then have "\<forall>h\<in>set (cm_handles [] ?c). h < cm_next ?c" using h f(2) by (auto simp: less_Suc_eq)
  moreover have "set (cm_handles [] ?c) = dom (map_of (cm_links ?c))" "distinct (cm_handles [] ?c)"
    using h new ok by (simp_all add: f cm_ok_def cm_ok_with_def map_of_omap_set)
  ultimately show ?thesis using ok by (simp add: cm_ok_def cm_ok_with_def f omap_set_ok)
qed

section \<open>Histories\<close>

text \<open>
  What happens to a manager: links are handed to it, it is polled, the application uses the
  mesh (it adds and removes no peer itself), and the network changes the transports.
\<close>

datatype 't cm_op =
    CmOutgoing PeerId "'t option"
  | CmIncoming "'t option"
  | CmPoll u64
  | CmMesh mesh_op
  | CmNetwork "nat \<Rightarrow> 't \<Rightarrow> 't"

fun cm_do :: "'t transport_ops \<Rightarrow> 't cm_op \<Rightarrow> 't ConnectionManager \<Rightarrow> 't ConnectionManager \<times> cm_out list" where
  "cm_do ops (CmOutgoing expected t) cm = (addOutgoing ops expected t cm, [])"
| "cm_do ops (CmIncoming t) cm = (addIncoming ops t cm, [])"
| "cm_do ops (CmPoll now) cm = cm_poll ops now cm"
| "cm_do ops (CmMesh op) cm = with_mesh ops (mesh_do op) cm"
| "cm_do ops (CmNetwork g) cm = (cm\<lparr>cm_links := map (\<lambda>e. (fst e, g (fst e) (snd e))) (cm_links cm)\<rparr>, [])"

fun app_op :: "'t cm_op \<Rightarrow> bool" where
  "app_op (CmMesh (OpAddPeer p t)) = False"
| "app_op (CmMesh (OpRemovePeer p)) = False"
| "app_op _ = True"

text \<open>The set of connected ids the application keeps from the two callbacks.\<close>

fun id_track :: "PeerId list \<Rightarrow> cm_out \<Rightarrow> PeerId list" where
  "id_track ids (PeerConnected peer) = oset_insert peer ids"
| "id_track ids (PeerDisconnected peer) = oset_erase peer ids"
| "id_track ids (MeshCall out) = ids"

lemma mesh_do_peers:
  "app_op (CmMesh op :: 't cm_op) \<Longrightarrow> mn_peers (fst (mesh_do op n)) = mn_peers n \<and> mn_self (fst (mesh_do op n)) = mn_self n"
  by (cases op) (auto simp: mesh_setPriority_def mesh_requestSwitchTo_def forwardMouseMove_def forwardMouseButton_def
      forwardKey_def releaseHeldKeys_def onLocalClipboardChange_def announceFilePromise_def Let_def split_beta)

lemma cm_ok_do: "cm_ok cm \<Longrightarrow> app_op op \<Longrightarrow> cm_ok (fst (cm_do ops op cm))"
proof (cases op)
  case (CmMesh m)
  then show "cm_ok cm \<Longrightarrow> app_op op \<Longrightarrow> ?thesis"
    using mesh_do_peers [of m "cm_mesh cm", where 't = 'a] by (auto intro: cm_ok_with_mesh)
qed (auto simp: addOutgoing_def addIncoming_def cm_ok_new_link cm_ok_poll
    cm_ok_map_links [where g = "\<lambda>e. g (fst e) (snd e)" for g] split: option.splits)

lemma exec_loop_mesh: "cm_mesh (fst (run_steps (exec_out ops) outs cm)) = cm_mesh cm"
  using exec_out_frame by (intro run_steps_keeps) blast

lemma with_mesh_mesh: "cm_mesh (fst (with_mesh ops f cm)) = fst (f (cm_mesh cm))"
  by (simp add: with_mesh_def split_beta exec_loop_mesh)

lemma cm_do_self: "app_op op \<Longrightarrow> mn_self (cm_mesh (fst (cm_do ops op cm))) = mn_self (cm_mesh cm)"
proof (cases op)
  case (CmPoll now)
  have p: "mn_self (cm_mesh (fst (pending_step ops p c))) = mn_self (cm_mesh c)" for p c
    by (auto simp: pending_step_def promote_def drop_link_def mesh_addPeer_def set_link_def
        split: option.splits prod.splits recv_result.splits)
  have r: "mn_self (cm_mesh (fst (reap_step ops e c))) = mn_self (cm_mesh c)" for e c
    using reap_step_unplug [of ops e c] by (auto simp: unplug_def drop_link_def)
  show ?thesis
    using CmPoll by (simp add: cm_poll_def Let_def split_beta with_mesh_mesh drain_links_def
        run_steps_keeps [where g = "\<lambda>c. mn_self (cm_mesh c)", OF p] run_steps_keeps [where g = "\<lambda>c. mn_self (cm_mesh c)", OF r])
next
  case (CmMesh m)
  then show "app_op op \<Longrightarrow> ?thesis" using mesh_do_peers [of m "cm_mesh cm", where 't = 'a] by (simp add: with_mesh_mesh)
qed (auto simp: addOutgoing_def addIncoming_def new_link_def split: option.splits)

lemma oset_eqI: "oset_ok xs \<Longrightarrow> oset_ok ys \<Longrightarrow> set xs = set ys \<Longrightarrow> xs = ys"
  by (simp add: oset_ok_iff sorted_distinct_set_unique)

lemma keys_ok: "omap_ok m \<Longrightarrow> oset_ok (omap_keys m)"
  by (simp add: omap_ok_def oset_ok_def omap_keys_def)

definition tracks :: "'t ConnectionManager \<Rightarrow> cm_out list \<Rightarrow> 't ConnectionManager \<Rightarrow> bool" where
  "tracks cm outs cm' \<longleftrightarrow> omap_ok (cm_connected cm) \<longrightarrow>
     omap_ok (cm_connected cm') \<and> foldl id_track (omap_keys (cm_connected cm)) outs = omap_keys (cm_connected cm')"

lemma tracks_refl [simp]: "tracks cm [] cm"
  by (simp add: tracks_def)

lemma tracks_trans: "tracks a o1 b \<Longrightarrow> tracks b o2 c \<Longrightarrow> tracks a (o1 @ o2) c"
  by (simp add: tracks_def)

lemma tracks_steps:
  "(\<And>x s. tracks s (snd (f x s)) (fst (f x s))) \<Longrightarrow> tracks s (snd (run_steps f xs s)) (fst (run_steps f xs s))"
  using run_steps_rel [where R = tracks and I = "\<lambda>_. True" and f = f and s = s and xs = xs] by (simp add: tracks_trans)

lemma foldl_mesh_calls: "foldl id_track ids (map MeshCall outs) = ids"
  by (induction outs) simp_all

lemma tracks_quiet: "cm_connected cm' = cm_connected cm \<Longrightarrow> list_all (\<lambda>x. \<exists>y. x = MeshCall y) outs \<Longrightarrow> tracks cm outs cm'"
proof -
  assume "list_all (\<lambda>x. \<exists>y. x = MeshCall y) outs"
  then have "foldl id_track ids outs = ids" for ids by (induction outs) auto
  then show "cm_connected cm' = cm_connected cm \<Longrightarrow> tracks cm outs cm'" by (simp add: tracks_def)
qed

lemma tracks_connected: "map_of (cm_connected cm) peer = None \<Longrightarrow> cm_connected cm' = omap_set peer h (cm_connected cm) \<Longrightarrow>
    tracks cm [PeerConnected peer] cm'"
  by (auto simp: tracks_def omap_set_ok keys_ok oset_insert_ok set_oset_insert set_omap_keys map_of_omap_set intro!: oset_eqI)

lemma tracks_pending: "tracks cm (snd (pending_step ops p cm)) (fst (pending_step ops p cm))"
proof -
  have pr: "tracks cm [PeerConnected peer] (promote peer h (set_link h' t cm))" if "hello_decision e d cm = Some peer" for e d peer h h' t
    using hello_decisionD [OF that] by (intro tracks_connected [where h = h]) (auto simp: promote_def omap_emplace_def cm_isConnected_def)
  have q: "tracks cm [] (drop_link h cm)" "tracks cm [] ((set_link h t cm)\<lparr>cm_pending := ps\<rparr>)" for h t ps
    by (auto simp: drop_link_def intro!: tracks_quiet)
  show ?thesis
    using pr q by (auto simp: pending_step_def split: option.splits prod.splits recv_result.splits)
qed

lemma tracks_reap: "tracks cm (snd (reap_step ops e cm)) (fst (reap_step ops e cm))"
proof -
  have "tracks cm (map MeshCall outs @ [PeerDisconnected (fst e)]) (unplug e cm)" for outs
    by (auto simp: tracks_def unplug_def drop_link_def foldl_mesh_calls omap_erase_ok keys_ok oset_erase_ok
        set_oset_erase set_omap_keys map_of_omap_erase intro!: oset_eqI)
  then show ?thesis using reap_step_unplug [of ops e cm] by auto
qed

lemma tracks_with_mesh: "tracks cm (snd (with_mesh ops f cm)) (fst (with_mesh ops f cm))"
proof -
  let ?c = "cm\<lparr>cm_mesh := fst (f (cm_mesh cm))\<rparr>"
  have x: "tracks c (snd (exec_out ops x c)) (fst (exec_out ops x c))" for x c
    using exec_out_frame [of ops x c]
    by (intro tracks_quiet) (auto simp: exec_out_def split: mesh_out.splits option.splits)
  have "tracks cm [] ?c" by (rule tracks_quiet) simp_all
  then show ?thesis
    using tracks_trans [OF _ tracks_steps [OF x]] by (fastforce simp: with_mesh_def split_beta)
qed

lemma tracks_poll: "tracks cm (snd (cm_poll ops now cm)) (fst (cm_poll ops now cm))"
proof -
  let ?c0 = "cm\<lparr>cm_pending := []\<rparr>"
  let ?p = "run_steps (pending_step ops) (cm_pending cm) ?c0"
  let ?r = "run_steps (reap_step ops) (cm_connected (fst ?p)) (fst ?p)"
  let ?d = "drain_links ops (fst ?r)"
  let ?m = "with_mesh ops (mesh_poll (link_messages ops (fst ?r)) now) ?d"
  have "tracks cm [] ?c0" "tracks (fst ?r) [] ?d" by (auto simp: drain_links_def intro!: tracks_quiet)
  moreover have "tracks ?c0 (snd ?p) (fst ?p)" by (rule tracks_steps) (rule tracks_pending)
  moreover have "tracks (fst ?p) (snd ?r) (fst ?r)" by (rule tracks_steps) (rule tracks_reap)
  ultimately have "tracks cm (([] @ snd ?p) @ snd ?r @ []) ?d" by (blast intro: tracks_trans)
  then have "tracks cm ((([] @ snd ?p) @ snd ?r @ []) @ snd ?m) (fst ?m)" by (rule tracks_trans) (rule tracks_with_mesh)
  then have "tracks cm (((([] @ snd ?p) @ snd ?r @ []) @ snd ?m) @ snd (with_mesh ops (sendHeartbeats now) (fst ?m)))
      (fst (with_mesh ops (sendHeartbeats now) (fst ?m)))" by (rule tracks_trans) (rule tracks_with_mesh)
  then show ?thesis by (simp add: cm_poll_def Let_def split_beta)
qed

lemma tracks_do: "tracks cm (snd (cm_do ops op cm)) (fst (cm_do ops op cm))"
  by (cases op) (auto simp: addOutgoing_def addIncoming_def new_link_def tracks_poll tracks_with_mesh
      intro!: tracks_quiet split: option.splits)

section \<open>Properties\<close>

text \<open>
  C25. Over every history of links handed over, polls, uses of the mesh and network changes,
  the transports the mesh points at are alive and distinct and are those of the connected
  peers, no object is owned twice or leaked, this machine and the empty id are never peers,
  and the ids the application tracks from the callbacks are exactly the connected ones.
\<close>

theorem connections_consistent:
  assumes "list_all app_op hist" "run_steps (cm_do ops) hist (cmInit (meshInit self)) = (cm, outs)"
  shows "mn_peers (cm_mesh cm) = map (\<lambda>e. (fst e, Some (snd e))) (cm_connected cm)
    \<and> distinct (cm_handles [] cm) \<and> set (cm_handles [] cm) = dom (map_of (cm_links cm))
    \<and> self \<notin> dom (map_of (cm_connected cm)) \<and> [] \<notin> dom (map_of (cm_connected cm))
    \<and> foldl id_track [] outs = omap_keys (cm_connected cm)"
proof -
  let ?c0 = "cmInit (meshInit self)"
  have "cm_ok (fst (cm_do ops op c)) \<and> mn_self (cm_mesh (fst (cm_do ops op c))) = self"
    if "op \<in> set hist" "cm_ok c \<and> mn_self (cm_mesh c) = self" for op c
    using that assms(1) cm_ok_do [of c op ops] cm_do_self [of op ops c] by (auto simp: list_all_iff)
  then have "cm_ok cm \<and> mn_self (cm_mesh cm) = self"
    using run_steps_inv [where I = "\<lambda>c. cm_ok c \<and> mn_self (cm_mesh c) = self" and f = "cm_do ops" and xs = hist and s = ?c0]
      assms(2) by (simp add: cm_ok_init meshInit_def) (simp add: cmInit_def)
  moreover have "tracks ?c0 outs cm"
    using tracks_steps [of "cm_do ops" ?c0 hist] tracks_do assms(2) by (metis fst_conv snd_conv)
  ultimately show ?thesis by (auto simp: cm_ok_def cm_ok_with_def tracks_def cmInit_def omap_keys_def)
qed

section \<open>Establishing a link\<close>

lemma with_mesh_connected: "cm_connected (fst (with_mesh ops f cm)) = cm_connected cm"
proof -
  have "cm_connected (fst (run_steps (exec_out ops) outs c)) = cm_connected c" for outs c
    using exec_out_frame by (intro run_steps_keeps) blast
  then show ?thesis by (simp add: with_mesh_def split_beta)
qed

text \<open>A fresh manager with one pending link on which a hello waits.\<close>

definition only_link :: "PeerId \<Rightarrow> 't \<Rightarrow> PeerId \<Rightarrow> 't ConnectionManager" where
  "only_link self t expected = (cmInit (meshInit self))\<lparr>cm_pending := [(0, expected)], cm_links := [(0, t)], cm_next := 1\<rparr>"

lemma new_link_only: "new_link t expected (cmInit (meshInit self)) = only_link self t expected"
  by (simp add: new_link_def cmInit_def only_link_def)

lemma poll_only_link:
  assumes "op_up ops t" "op_recv ops 1024 t = (RecvMsg (encodePeerHello peer), t')" "op_up ops t'" "length peer < 2 ^ 32"
    and "peer \<noteq> []" "peer \<noteq> self" "expected = [] \<or> expected = peer"
  shows "cm_connected (fst (cm_poll ops now (only_link self t expected))) = [(peer, 0)]
    \<and> PeerConnected peer \<in> set (snd (cm_poll ops now (only_link self t expected)))"
proof -
  let ?c = "(only_link self t expected)\<lparr>cm_pending := []\<rparr>"
  have "hello_decision expected (encodePeerHello peer) ?c = Some peer"
    using assms by (auto simp: hello_decision_def decode_encode_hello only_link_def cmInit_def meshInit_def cm_isConnected_def)
  then have p: "pending_step ops (0, expected) ?c = (promote peer 0 (set_link 0 t' ?c), [PeerConnected peer])"
    using assms(1,2) by (simp add: pending_step_def) (simp add: only_link_def)
  have c: "cm_connected (promote peer 0 (set_link 0 t' ?c)) = [(peer, 0)]"
    by (simp add: promote_def set_link_def only_link_def cmInit_def omap_emplace_def)
  have r: "reap_step ops (peer, 0) (promote peer 0 (set_link 0 t' ?c)) = (promote peer 0 (set_link 0 t' ?c), [])"
    using assms(3) by (simp add: reap_step_def promote_def set_link_def only_link_def)
  have pend: "cm_pending (only_link self t expected) = [(0, expected)]" by (simp add: only_link_def)
  show ?thesis
    by (simp add: cm_poll_def pend p c r with_mesh_connected Let_def split_beta) (simp add: drain_links_def c)
qed

lemma length_hello [simp]: "length (encodePeerHello p) = length p + 6"
  by (simp add: encodePeerHello_def Let_def)

lemma hello_nonempty [simp]: "encodePeerHello p \<noteq> []"
  by (simp add: encodePeerHello_def Let_def)

text \<open>Receiving a sealed hello over a raw socket.\<close>

lemma sealed_recv_hello:
  assumes "aead_ok enc dec" "length key = 32" "a \<noteq> b" "length peer + 6 \<le> 1024"
    and "e = (newEncrypted key (linkRoleFor b a))\<lparr>et_sendCtr := n\<rparr>"
  shows "\<exists>e'. op_recv (sealed_ops enc dec raw_ops) 1024
      (e, \<lparr>rl_up = True, rl_in = Incoming (seal enc key (role_code (linkRoleFor a b)) 0 (encodePeerHello peer)) # rest, rl_out = out\<rparr>)
    = (RecvMsg (encodePeerHello peer), e', \<lparr>rl_up = True, rl_in = rest, rl_out = out\<rparr>)"
proof -
  let ?h = "encodePeerHello peer"
  let ?f = "seal enc key (role_code (linkRoleFor a b)) 0 ?h"
  have h: "?h \<noteq> []" "length ?h = length peer + 6" by simp_all
  have f: "length ?f = length peer + 34" using length_seal [OF assms(1,2)] h(2) by simp
  let ?e = "e\<lparr>et_scratch := 1052\<rparr>"
  have "et_recvRole ?e = role_code (linkRoleFor a b)" "et_key ?e = key" "\<not> et_haveRecv ?e"
    using linkRoles_match [OF assms(3), of key] assms(5) by (simp_all add: newEncrypted_def)
  then have "open_frame dec 1024 ?f ?e = (RecvMsg ?h, ?e\<lparr>et_haveRecv := True, et_lastRecvCtr := 0\<rparr>)"
    using open_frame_seal [OF assms(1), of ?e "role_code (linkRoleFor a b)" ?h 1024 0] assms(2,4) h by simp
  moreover have "et_scratch e = 0" using assms(5) by (simp add: newEncrypted_def)
  moreover have "?f \<noteq> []" using f by auto
  ultimately show ?thesis
    using f assms(4) by (simp add: enc_recv_def raw_ops_def raw_recv_def Let_def)
qed

lemma sealed_announce:
  assumes "aead_ok enc dec" "length key = 32"
  shows "announce (sealed_ops enc dec raw_ops) self (newEncrypted key role, \<lparr>rl_up = True, rl_in = q, rl_out = out\<rparr>)
    = ((newEncrypted key role)\<lparr>et_sendCtr := 1\<rparr>,
       \<lparr>rl_up = True, rl_in = q, rl_out = out @ [seal enc key (role_code role) 0 (encodePeerHello self)]\<rparr>)"
  using assms enc_send_seal [OF assms(1), of "newEncrypted key role" "encodePeerHello self"
      "raw_send" "\<lparr>rl_up = True, rl_in = q, rl_out = out\<rparr>"]
  by (simp add: announce_def newEncrypted_def raw_ops_def raw_send_def)

lemma cm_self_init [simp]: "mn_self (cm_mesh (cmInit (meshInit self))) = self"
  by (simp add: cmInit_def meshInit_def)

text \<open>The accepting machine: the hint selects the key, the sealed hello names the peer.\<close>

definition wire_of :: "bytes list \<Rightarrow> RawLink" where
  "wire_of ms = \<lparr>rl_up = True, rl_in = map Incoming ms, rl_out = []\<rparr>"

definition sealed_hello :: "gcm_enc \<Rightarrow> bytes \<Rightarrow> PeerId \<Rightarrow> PeerId \<Rightarrow> PeerId \<Rightarrow> bytes" where
  "sealed_hello enc key from to name = seal enc key (role_code (linkRoleFor from to)) 0 (encodePeerHello name)"

lemma accept_hint:
  assumes "aead_ok enc dec" "getPsk claimed keys = Some psk" "length psk = 32"
    and "claimed \<noteq> []" "claimed \<noteq> self" "length claimed + 6 \<le> 512"
  shows "pollConnections enc dec raw_ops None (Some (wire_of (encodePeerHello claimed # ms))) now
      (csInit (cmInit (meshInit self)) keys self port)
    = (csInit (only_link self ((newEncrypted psk (linkRoleFor self claimed))\<lparr>et_sendCtr := 1\<rparr>,
         \<lparr>rl_up = True, rl_in = map Incoming ms, rl_out = [sealed_hello enc psk self claimed self]\<rparr>) []) keys self port, [])"
proof -
  let ?r = "\<lparr>rl_up = True, rl_in = map Incoming ms, rl_out = []\<rparr>"
  let ?cs = "csInit (cmInit (meshInit self)) keys self port"
  have "raw_recv 512 (wire_of (encodePeerHello claimed # ms)) = (RecvMsg (encodePeerHello claimed), ?r)"
    using assms(6) by (simp add: raw_recv_def wire_of_def)
  then have ih: "ih_poll raw_ops keys self (newInbound (Some (wire_of (encodePeerHello claimed # ms))))
      = (IhOk, \<lparr>ih_raw = None, ih_status = IhOk,
          ih_result = \<lparr>sl_peerId = claimed, sl_transport = Some (newEncrypted psk (linkRoleFor self claimed), ?r)\<rparr>\<rparr>)"
    using assms by (intro ih_accepts) (simp_all add: raw_ops_def wire_of_def)
  have "inbound_step enc dec raw_ops (newInbound (Some (wire_of (encodePeerHello claimed # ms)))) ?cs
    = (csInit (only_link self ((newEncrypted psk (linkRoleFor self claimed))\<lparr>et_sendCtr := 1\<rparr>,
         \<lparr>rl_up = True, rl_in = map Incoming ms, rl_out = [sealed_hello enc psk self claimed self]\<rparr>) []) keys self port, [])"
    using ih sealed_announce [OF assms(1,3), of self "linkRoleFor self claimed" "map Incoming ms" "[]"]
    by (simp add: inbound_step_def csInit_def ih_take_def addIncoming_def new_link_only sealed_hello_def)
  then show ?thesis by (simp add: pollConnections_def) (simp add: csInit_def)
qed

text \<open>The dialling machine announces itself in the clear and then sealed.\<close>

lemma dial_peer:
  assumes "aead_ok enc dec" "getPsk peer keys = Some psk" "length psk = 32" "peer \<noteq> self"
  shows "\<exists>o1. fst (pollConnections enc dec raw_ops (Some (\<lambda>_ _. Some (wire_of []))) None now
        (setPeers [\<lparr>dp_id = peer, dp_host = host, dp_port = pt\<rparr>] (csInit (cmInit (meshInit self)) keys self port)))
    = (csInit (only_link self ((newEncrypted psk (linkRoleFor self peer))\<lparr>et_sendCtr := 1\<rparr>,
         \<lparr>rl_up = True, rl_in = [], rl_out = [encodePeerHello self, sealed_hello enc psk self peer self]\<rparr>) peer) keys self port)
      \<lparr>cs_peers := [\<lparr>dp_id = peer, dp_host = host, dp_port = pt\<rparr>], cs_lastDial := o1\<rparr>"
proof -
  let ?p = "\<lparr>dp_id = peer, dp_host = host, dp_port = pt\<rparr>"
  have link: "sl_transport (secureOutbound raw_ops (Some (wire_of [])) keys self peer)
      = Some (newEncrypted psk (linkRoleFor self peer), \<lparr>rl_up = True, rl_in = [], rl_out = [encodePeerHello self]\<rparr>)"
    using assms(2) by (simp add: secureOutbound_def raw_ops_def raw_send_def wire_of_def)
  have "dial_step enc dec raw_ops (Some (\<lambda>_ _. Some (wire_of []))) now ?p (setPeers [?p] (csInit (cmInit (meshInit self)) keys self port))
    = ((csInit (only_link self ((newEncrypted psk (linkRoleFor self peer))\<lparr>et_sendCtr := 1\<rparr>,
         \<lparr>rl_up = True, rl_in = [], rl_out = [encodePeerHello self, sealed_hello enc psk self peer self]\<rparr>) peer) keys self port)
       \<lparr>cs_peers := [?p], cs_lastDial := [(peer, now)]\<rparr>, [Dialed peer host pt])"
    using assms(4) link sealed_announce [OF assms(1,3), of self "linkRoleFor self peer" "[]" "[encodePeerHello self]"]
    by (simp add: dial_step_def setPeers_def csInit_def cm_isConnected_def addOutgoing_def new_link_only sealed_hello_def
        omap_emplace_def Let_def) (simp add: cmInit_def)
  then have "fst (pollConnections enc dec raw_ops (Some (\<lambda>_ _. Some (wire_of []))) None now (setPeers [?p] (csInit (cmInit (meshInit self)) keys self port)))
    = (csInit (only_link self ((newEncrypted psk (linkRoleFor self peer))\<lparr>et_sendCtr := 1\<rparr>,
         \<lparr>rl_up = True, rl_in = [], rl_out = [encodePeerHello self, sealed_hello enc psk self peer self]\<rparr>) peer) keys self port)
       \<lparr>cs_peers := [?p], cs_lastDial := [(peer, now)]\<rparr>"
    by (simp add: pollConnections_def setPeers_def csInit_def Let_def split_beta)
  then show ?thesis by blast
qed

definition link_out :: "RawLink ConnectionService \<Rightarrow> bytes list" where
  "link_out cs = rl_out (snd (the (map_of (cm_links (cs_cm cs)) 0)))"

definition deliver :: "bytes list \<Rightarrow> nat \<Rightarrow> RawLink sealed \<Rightarrow> RawLink sealed" where
  "deliver ms h t = (fst t, (snd t)\<lparr>rl_in := rl_in (snd t) @ map Incoming ms\<rparr>)"

lemma poll_sealed_link:
  assumes "aead_ok enc dec" "length psk = 32" "a \<noteq> b" "name \<noteq> []" "name \<noteq> b" "length name + 6 \<le> 1024"
    and "expected = [] \<or> expected = name"
  shows "cm_connected (fst (cm_poll (sealed_ops enc dec raw_ops) now (only_link b
      ((newEncrypted psk (linkRoleFor b a))\<lparr>et_sendCtr := n\<rparr>,
       \<lparr>rl_up = True, rl_in = Incoming (sealed_hello enc psk a b name) # rest, rl_out = out\<rparr>) expected))) = [(name, 0)]"
proof -
  let ?e = "(newEncrypted psk (linkRoleFor b a))\<lparr>et_sendCtr := n\<rparr>"
  let ?t = "(?e, \<lparr>rl_up = True, rl_in = Incoming (sealed_hello enc psk a b name) # rest, rl_out = out\<rparr>)"
  obtain e' where r: "op_recv (sealed_ops enc dec raw_ops) 1024 ?t = (RecvMsg (encodePeerHello name), e', \<lparr>rl_up = True, rl_in = rest, rl_out = out\<rparr>)"
    using sealed_recv_hello [OF assms(1-3,6) refl, of n rest out] by (auto simp: sealed_hello_def)
  show ?thesis
    by (intro poll_only_link [THEN conjunct1, OF _ r]) (use assms(4-7) in \<open>simp_all add: raw_ops_def\<close>)
qed

text \<open>
  C27. Two paired machines connect: one dials, the other accepts; the clear id hint selects
  the key, the sealed hellos name the peers, and after one poll each the connection managers
  of both have registered the other.
\<close>

theorem link_established:
  assumes "aead_ok enc dec" "getPsk b keysA = Some psk" "getPsk a keysB = Some psk" "length psk = 32"
    and "a \<noteq> b" "a \<noteq> []" "b \<noteq> []" "length a + 6 \<le> 512" "length b + 6 \<le> 1024"
  shows "\<exists>csA csB.
      fst (pollConnections enc dec raw_ops (Some (\<lambda>_ _. Some (wire_of []))) None nowA
        (setPeers [\<lparr>dp_id = b, dp_host = host, dp_port = pt\<rparr>] (csInit (cmInit (meshInit a)) keysA a port))) = csA
    \<and> fst (pollConnections enc dec raw_ops None (Some (wire_of (link_out csA))) nowB (csInit (cmInit (meshInit b)) keysB b port)) = csB
    \<and> cm_connected (fst (cm_poll (sealed_ops enc dec raw_ops) nowB (cs_cm csB))) = [(a, 0)]
    \<and> cm_connected (fst (cm_poll (sealed_ops enc dec raw_ops) nowA
        (fst (cm_do (sealed_ops enc dec raw_ops) (CmNetwork (deliver (link_out csB))) (cs_cm csA))))) = [(b, 0)]"
proof -
  define csA where "csA = fst (pollConnections enc dec raw_ops (Some (\<lambda>_ _. Some (wire_of []))) None nowA
        (setPeers [\<lparr>dp_id = b, dp_host = host, dp_port = pt\<rparr>] (csInit (cmInit (meshInit a)) keysA a port)))"
  define csB where "csB = fst (pollConnections enc dec raw_ops None (Some (wire_of (link_out csA))) nowB
        (csInit (cmInit (meshInit b)) keysB b port))"
  have cmA: "cs_cm csA = only_link a ((newEncrypted psk (linkRoleFor a b))\<lparr>et_sendCtr := 1\<rparr>,
         \<lparr>rl_up = True, rl_in = [], rl_out = [encodePeerHello a, sealed_hello enc psk a b a]\<rparr>) b"
    using dial_peer [OF assms(1,2,4) not_sym [OF assms(5)], of nowA host pt port]
    by (auto simp: csA_def csInit_def)
  then have outA: "link_out csA = [encodePeerHello a, sealed_hello enc psk a b a]"
    by (simp add: link_out_def only_link_def)
  have cmB: "cs_cm csB = only_link b ((newEncrypted psk (linkRoleFor b a))\<lparr>et_sendCtr := 1\<rparr>,
         \<lparr>rl_up = True, rl_in = [Incoming (sealed_hello enc psk a b a)], rl_out = [sealed_hello enc psk b a b]\<rparr>) []"
    using accept_hint [OF assms(1,3,4,6,5,8), of "[sealed_hello enc psk a b a]" nowB port] outA
    by (simp add: csB_def) (simp add: csInit_def)
  then have outB: "link_out csB = [sealed_hello enc psk b a b]" by (simp add: link_out_def only_link_def)
  have "fst (cm_do (sealed_ops enc dec raw_ops) (CmNetwork (deliver (link_out csB))) (cs_cm csA))
      = only_link a ((newEncrypted psk (linkRoleFor a b))\<lparr>et_sendCtr := 1\<rparr>,
         \<lparr>rl_up = True, rl_in = [Incoming (sealed_hello enc psk b a b)], rl_out = [encodePeerHello a, sealed_hello enc psk a b a]\<rparr>) b"
    unfolding cmA outB by (simp add: only_link_def deliver_def)
  moreover have "cm_connected (fst (cm_poll (sealed_ops enc dec raw_ops) nowB (cs_cm csB))) = [(a, 0)]"
    unfolding cmB using assms by (intro poll_sealed_link) auto
  ultimately show ?thesis
    using poll_sealed_link [of enc dec psk b a b b] assms by (intro exI [of _ csA] exI [of _ csB]) (simp add: csA_def csB_def)
qed

definition toy_dialler :: "RawLink ConnectionService" where
  "toy_dialler = fst (pollConnections toy_enc toy_dec raw_ops (Some (\<lambda>_ _. Some (wire_of []))) None 5
     (setPeers [\<lparr>dp_id = ''b'', dp_host = ''h'', dp_port = 1\<rparr>] (csInit (cmInit (meshInit ''a'')) [(''b'', toy_key)] ''a'' 1)))"

definition toy_acceptor :: "RawLink ConnectionService" where
  "toy_acceptor = fst (pollConnections toy_enc toy_dec raw_ops None (Some (wire_of (link_out toy_dialler))) 5
     (csInit (cmInit (meshInit ''b'')) [(''a'', toy_key)] ''b'' 1))"

theorem link_established_witness:
  "cm_connected (fst (cm_poll (sealed_ops toy_enc toy_dec raw_ops) 5 (cs_cm toy_acceptor))) = [(''a'', 0)]
    \<and> cm_connected (fst (cm_poll (sealed_ops toy_enc toy_dec raw_ops) 5
        (fst (cm_do (sealed_ops toy_enc toy_dec raw_ops) (CmNetwork (deliver (link_out toy_acceptor))) (cs_cm toy_dialler))))) = [(''b'', 0)]"
  using link_established [OF toy_aead, of "''b''" "[(''b'', toy_key)]" toy_key "''a''" "[(''a'', toy_key)]" 5 "''h''" 1 1 5]
  by (simp add: getPsk_def toy_dialler_def [symmetric] toy_acceptor_def [symmetric])

text \<open>
  The peer's id is not tied to the key: an inbound socket whose clear hint names one
  paired device, and whose sealed hello, under that device's key, names any other id, paired
  or not, is registered as that other id.
\<close>

theorem inbound_identity_unchecked:
  assumes "aead_ok enc dec" "getPsk mallory keys = Some psk" "length psk = 32"
    and "mallory \<noteq> []" "mallory \<noteq> self" "length mallory + 6 \<le> 512"
    and "victim \<noteq> []" "victim \<noteq> self" "length victim + 6 \<le> 1024"
  shows "cm_connected (fst (cm_poll (sealed_ops enc dec raw_ops) now (cs_cm (fst (pollConnections enc dec raw_ops None
      (Some (wire_of [encodePeerHello mallory, sealed_hello enc psk mallory self victim])) now
      (csInit (cmInit (meshInit self)) keys self port)))))) = [(victim, 0)]"
proof -
  have "cs_cm (fst (pollConnections enc dec raw_ops None
      (Some (wire_of [encodePeerHello mallory, sealed_hello enc psk mallory self victim])) now
      (csInit (cmInit (meshInit self)) keys self port)))
    = only_link self ((newEncrypted psk (linkRoleFor self mallory))\<lparr>et_sendCtr := 1\<rparr>,
        \<lparr>rl_up = True, rl_in = [Incoming (sealed_hello enc psk mallory self victim)], rl_out = [sealed_hello enc psk self mallory self]\<rparr>) []"
    using accept_hint [OF assms(1-6), of "[sealed_hello enc psk mallory self victim]" now port] by simp (simp add: csInit_def)
  then show ?thesis using poll_sealed_link [OF assms(1,3,5,7-9)] by simp
qed

theorem inbound_identity_unchecked_witness:
  "cm_connected (fst (cm_poll (sealed_ops toy_enc toy_dec raw_ops) 5 (cs_cm (fst (pollConnections toy_enc toy_dec raw_ops None
      (Some (wire_of [encodePeerHello ''mallory'', sealed_hello toy_enc toy_key ''mallory'' ''me'' ''victim''])) 5
      (csInit (cmInit (meshInit ''me'')) [(''mallory'', toy_key)] ''me'' 1)))))) = [(''victim'', 0)]"
  by (rule inbound_identity_unchecked [OF toy_aead]) (simp_all add: getPsk_def)

lemma replayed_frames_accepted:
  assumes "aead_ok enc dec"
  shows "length (et_key e) = 32 \<Longrightarrow> et_recvRole e = role \<Longrightarrow> fresh_from e \<le> c \<Longrightarrow> c + length ms \<le> 2 ^ 64 \<Longrightarrow>
    \<forall>m\<in>set ms. m \<noteq> [] \<and> length m \<le> cap \<Longrightarrow>
    recv_polls (enc_recv dec raw_recv) (length ms) cap (e, \<lparr>rl_up = True, rl_in = map Incoming (seal_frames enc (et_key e) role c ms), rl_out = out\<rparr>) = ms"
  using assms(1)
proof (induction ms arbitrary: e c)
  case Nil
  then show ?case by simp
next
  case (Cons m ms)
  let ?f = "seal enc (et_key e) role (word_of_nat c) m"
  let ?e = "e\<lparr>et_scratch := max (et_scratch e) (cap + 28)\<rparr>"
  let ?e2 = "?e\<lparr>et_haveRecv := True, et_lastRecvCtr := word_of_nat c\<rparr>"
  have c: "unat (word_of_nat c :: u64) = c" using Cons.prems(4) by (intro unat_of_nat_fits) simp
  have f: "length ?f = length m + 28" using length_seal [OF assms(1) Cons.prems(1)] .
  have "et_haveRecv e \<Longrightarrow> et_lastRecvCtr e < word_of_nat c"
    using Cons.prems(3) c by (auto simp: fresh_from_def word_less_nat_alt)
  then have "open_frame dec cap ?f ?e = (RecvMsg m, ?e2)"
    using open_frame_seal [OF assms(1), of ?e role m cap "word_of_nat c"] Cons.prems by simp
  moreover have "?f \<noteq> []" "take (max (et_scratch e) (cap + 28)) ?f = ?f" using f Cons.prems(5) by auto
  ultimately have "enc_recv dec raw_recv cap (e, \<lparr>rl_up = True, rl_in = map Incoming (seal_frames enc (et_key e) role c (m # ms)), rl_out = out\<rparr>)
      = (RecvMsg m, ?e2, \<lparr>rl_up = True, rl_in = map Incoming (seal_frames enc (et_key e) role (Suc c) ms), rl_out = out\<rparr>)"
    by (simp add: enc_recv_def raw_recv_def Let_def)
  moreover have "recv_polls (enc_recv dec raw_recv) (length ms) cap (?e2, \<lparr>rl_up = True, rl_in = map Incoming (seal_frames enc (et_key e) role (Suc c) ms), rl_out = out\<rparr>) = ms"
    using Cons.IH [of ?e2 "Suc c"] Cons.prems c by (simp add: fresh_from_def)
  ultimately show ?case by simp
qed

text \<open>
  C39. Replay protection ends with the connection: the long-term key seals every link from
  counter 0, so an attacker without the key who recorded the clear hint and the sealed frames
  of an earlier link can open a socket, send them again, and the new link delivers the whole
  recorded conversation.
\<close>

theorem recorded_session_replays:
  assumes "aead_ok enc dec" "getPsk a keys = Some psk" "length psk = 32"
    and "a \<noteq> []" "a \<noteq> b" "length a + 6 \<le> 512" "length ms \<le> 2 ^ 64" "\<forall>m\<in>set ms. m \<noteq> [] \<and> length m \<le> cap"
  shows "\<exists>link. map_of (cm_links (cs_cm (fst (pollConnections enc dec raw_ops None
        (Some (wire_of (encodePeerHello a # seal_frames enc psk (role_code (linkRoleFor a b)) 0 ms))) now
        (csInit (cmInit (meshInit b)) keys b port))))) 0 = Some link
    \<and> recv_polls (op_recv (sealed_ops enc dec raw_ops)) (length ms) cap link = ms"
proof -
  let ?fs = "seal_frames enc psk (role_code (linkRoleFor a b)) 0 ms"
  let ?e = "(newEncrypted psk (linkRoleFor b a))\<lparr>et_sendCtr := 1\<rparr>"
  let ?l = "(?e, \<lparr>rl_up = True, rl_in = map Incoming ?fs, rl_out = [sealed_hello enc psk b a b]\<rparr>)"
  have "map_of (cm_links (cs_cm (fst (pollConnections enc dec raw_ops None (Some (wire_of (encodePeerHello a # ?fs))) now
        (csInit (cmInit (meshInit b)) keys b port))))) 0 = Some ?l"
    using accept_hint [OF assms(1-6), of ?fs now port] by simp (simp add: csInit_def only_link_def)
  moreover have "et_recvRole ?e = role_code (linkRoleFor a b)" "et_key ?e = psk" "fresh_from ?e = 0"
    using linkRoles_match [OF assms(5), of psk] by (simp_all add: newEncrypted_def fresh_from_def)
  then have "recv_polls (enc_recv dec raw_recv) (length ms) cap ?l = ms"
    using replayed_frames_accepted [OF assms(1), of ?e "role_code (linkRoleFor a b)" 0 ms cap] assms(3,7,8) by simp
  ultimately show ?thesis by (simp add: raw_ops_def)
qed

definition toy_session :: "bytes list" where
  "toy_session = [encodePeerHello ''a'', encodeInputEvent (zero_event\<lparr>ev_version := 1, ev_type := 3, ev_code := 65, ev_down := 1\<rparr>)]"

theorem recorded_session_replays_witness:
  "\<exists>link. recv_polls (op_recv (sealed_ops toy_enc toy_dec raw_ops)) (length toy_session) 100 link = toy_session"
proof -
  have "\<forall>m\<in>set toy_session. m \<noteq> [] \<and> length m \<le> 100" "length toy_session \<le> 2 ^ 64"
    by (simp_all add: toy_session_def encodeInputEvent_def)
  then show ?thesis
    using recorded_session_replays [OF toy_aead, of "''a''" "[(''a'', toy_key)]" toy_key "''b''" toy_session 100 5 1]
    by (auto simp: getPsk_def)
qed

text \<open>Two messages: an accepted peer, then the network goes away.\<close>

definition toy_links :: "RawLink cm_op list" where
  "toy_links = [CmIncoming (Some (wire_of [encodePeerHello ''b''])), CmOutgoing ''c'' (Some (wire_of [encodePeerHello ''d''])),
     CmPoll 1000, CmMesh (OpSwitch ''b''), CmNetwork (\<lambda>h l. l\<lparr>rl_up := False\<rparr>), CmPoll 2000]"

theorem connections_consistent_witness:
  "foldl id_track [] (snd (run_steps (cm_do raw_ops) toy_links (cmInit (meshInit ''a''))))
     = omap_keys (cm_connected (fst (run_steps (cm_do raw_ops) toy_links (cmInit (meshInit ''a'')))))"
  using connections_consistent [of toy_links raw_ops "''a''" "fst (run_steps (cm_do raw_ops) toy_links (cmInit (meshInit ''a'')))"
      "snd (run_steps (cm_do raw_ops) toy_links (cmInit (meshInit ''a'')))"]
  by (simp add: toy_links_def)

end
