(* ===== verification/Handshake.thy ===== *)
theory Handshake
  imports CryptoUtil Texts
begin

text \<open>
  The WebSocket opening handshake: the strings of \<open>net/ws_handshake.cpp\<close> and the two sides'
  socket loops in \<open>platform/ws_transport_posix.cpp\<close> and \<open>platform/ws_transport_win.cpp\<close>.
  The loops read one byte at a time; \<open>inp\<close> is what the socket delivers until it closes or
  fails, \<open>wr\<close> whether the write of the own message succeeds.  SHA-1 is a parameter.
\<close>

section \<open>Strings\<close>

fun find_sub :: "string \<Rightarrow> string \<Rightarrow> nat option" where
  "find_sub p [] = (if p = [] then Some 0 else None)"
| "find_sub p (c # s) = (if take (length p) (c # s) = p then Some 0 else map_option Suc (find_sub p s))"

definition crlf :: string where
  "crlf = [CHR 0x0D, CHR 0x0A]"

definition kMagicGuid :: string where
  "kMagicGuid = ''258EAFA5-E914-47DA-95CA-C5AB0DC85B11''"

definition wsAcceptKey :: "(bytes \<Rightarrow> bytes) \<Rightarrow> string \<Rightarrow> string" where
  "wsAcceptKey sha1 clientKey = base64Encode (sha1 (to_bytes (clientKey @ kMagicGuid)))"

definition wsGenerateClientKey :: "bytes \<Rightarrow> string" where
  "wsGenerateClientKey r = base64Encode r"

definition wsBuildClientHandshake :: "string \<Rightarrow> string \<Rightarrow> string \<Rightarrow> string" where
  "wsBuildClientHandshake host path key =
     ''GET '' @ path @ '' HTTP/1.1'' @ crlf @
     ''Host: '' @ host @ crlf @
     ''Upgrade: websocket'' @ crlf @
     ''Connection: Upgrade'' @ crlf @
     ''Sec-WebSocket-Key: '' @ key @ crlf @
     ''Sec-WebSocket-Version: 13'' @ crlf @ crlf"

definition wsBuildServerResponse :: "(bytes \<Rightarrow> bytes) \<Rightarrow> string \<Rightarrow> string" where
  "wsBuildServerResponse sha1 clientKey =
     ''HTTP/1.1 101 Switching Protocols'' @ crlf @
     ''Upgrade: websocket'' @ crlf @
     ''Connection: Upgrade'' @ crlf @
     ''Sec-WebSocket-Accept: '' @ wsAcceptKey sha1 clientKey @ crlf @ crlf"

section \<open>The socket loops\<close>

fun read_head :: "string \<Rightarrow> string \<Rightarrow> (string \<times> string) option" where
  "read_head acc [] = (if find_sub (crlf @ crlf) acc \<noteq> None then Some (acc, []) else None)"
| "read_head acc (c # inp) =
     (if find_sub (crlf @ crlf) acc \<noteq> None then Some (acc, c # inp)
      else if length acc + 1 > 8192 then None else read_head (acc @ [c]) inp)"

definition skip_blanks :: "string \<Rightarrow> string" where
  "skip_blanks s = dropWhile (\<lambda>c. c = CHR '' '' \<or> c = CHR 0x09) s"

definition key_tag :: string where
  "key_tag = ''Sec-WebSocket-Key:''"

definition parseKeyFromRequest :: "string \<Rightarrow> string" where
  "parseKeyFromRequest req =
     (case find_sub key_tag req of None \<Rightarrow> []
      | Some p \<Rightarrow>
          let v = skip_blanks (drop (p + length key_tag) req) in
          case find_sub crlf v of None \<Rightarrow> [] | Some e \<Rightarrow> take e v)"

definition acceptServerSide :: "(bytes \<Rightarrow> bytes) \<Rightarrow> bool \<Rightarrow> string \<Rightarrow> (string \<times> string) option" where
  "acceptServerSide sha1 wr inp =
     (case read_head [] inp of None \<Rightarrow> None
      | Some (req, rest) \<Rightarrow>
          let key = parseKeyFromRequest req in
          if key = [] then None
          else let resp = wsBuildServerResponse sha1 key in
            if \<not> wr then None else Some (resp, rest))"

definition serverHandshake :: "(bytes \<Rightarrow> bytes) \<Rightarrow> bool \<Rightarrow> string \<Rightarrow> (string \<times> string) option" where
  "serverHandshake sha1 wr inp =
     (case read_head [] inp of None \<Rightarrow> None
      | Some (req, rest) \<Rightarrow>
          (case find_sub key_tag req of None \<Rightarrow> None
           | Some p0 \<Rightarrow>
               let v = skip_blanks (drop (p0 + length key_tag) req) in
               case find_sub crlf v of None \<Rightarrow> None
               | Some e \<Rightarrow>
                   let key = take e v in
                   if key = [] then None
                   else let resp = wsBuildServerResponse sha1 key in
                     if \<not> wr then None else Some (resp, rest)))"

definition clientRequest :: "string \<Rightarrow> u16 \<Rightarrow> bytes \<Rightarrow> string" where
  "clientRequest host port rnd =
     wsBuildClientHandshake (host @ '':'' @ nat_to_string (unat port)) ''/input'' (wsGenerateClientKey rnd)"

definition clientHandshake :: "(bytes \<Rightarrow> bytes) \<Rightarrow> bytes \<Rightarrow> bool \<Rightarrow> string \<Rightarrow> string option" where
  "clientHandshake sha1 rnd wr inp =
     (let key = wsGenerateClientKey rnd in
      if \<not> wr then None
      else case read_head [] inp of None \<Rightarrow> None
        | Some (resp, rest) \<Rightarrow> if find_sub (wsAcceptKey sha1 key) resp = None then None else Some rest)"

section \<open>Searching\<close>

lemma find_Nil [simp]: "find_sub [] s = Some 0"
  by (cases s) simp_all

lemma find_skip: "p = d # p' \<Longrightarrow> d \<notin> set l \<Longrightarrow> find_sub p (l @ r) = map_option (\<lambda>n. length l + n) (find_sub p r)"
  by (cases "find_sub p r"; induction l; auto)

lemma find_here: "find_sub p (p @ r) = Some 0"
  by (cases "p @ r"; cases p) auto

lemma find_infix: "find_sub p (a @ p @ b) \<noteq> None"
proof (induction a)
  case Nil
  show ?case using find_here by simp
next
  case (Cons x a)
  then show ?case by simp
qed

lemma find_some: "find_sub p s = Some n \<Longrightarrow> \<exists>a b. s = a @ p @ b \<and> length a = n"
proof (induction s arbitrary: n)
  case Nil
  then show ?case by (auto split: if_splits)
next
  case (Cons c s)
  show ?case
  proof (cases "take (length p) (c # s) = p")
    case True
    then have "c # s = [] @ p @ drop (length p) (c # s)" by (metis append_Nil append_take_drop_id)
    then show ?thesis using True Cons.prems by (metis find_sub.simps(2) list.size(3) option.inject)
  next
    case False
    then obtain m where m: "find_sub p s = Some m" "n = Suc m" using Cons.prems by auto
    with Cons.IH obtain a b where "s = a @ p @ b" "length a = m" by blast
    then have "c # s = (c # a) @ p @ b" "length (c # a) = n" using m by simp_all
    then show ?thesis by blast
  qed
qed

lemma find_none_prefix: "find_sub p (a @ b) = None \<Longrightarrow> find_sub p a = None"
  using find_infix find_some by (metis append.assoc not_None_eq)

lemma find_mono: "find_sub p s = Some n \<Longrightarrow> find_sub p (s @ r) = Some n"
proof (induction s arbitrary: n)
  case Nil
  then show ?case by (auto split: if_splits)
next
  case (Cons c s)
  obtain a b where "c # s = a @ p @ b" using find_some [OF Cons.prems] by blast
  then have "length p \<le> length (c # s)" using arg_cong [of _ _ length] by fastforce
  then have same: "take (length p) ((c # s) @ r) = take (length p) (c # s)" by (simp only: take_append) simp
  show ?case
  proof (cases "take (length p) (c # s) = p")
    case True
    then show ?thesis using Cons.prems same by auto
  next
    case False
    then obtain m where "find_sub p s = Some m" "n = Suc m" using Cons.prems by auto
    then show ?thesis using Cons.IH [of m] same False by auto
  qed
qed

lemma crlf_Cons: "crlf @ r = CHR 0x0D # CHR 0x0A # r"
  by (simp add: crlf_def)

text \<open>The end of the head in a text of non-empty lines.\<close>

definition eoh :: "string \<Rightarrow> nat option" where
  "eoh s = find_sub (crlf @ crlf) s"

lemma eoh_line: "CHR 0x0D \<notin> set l \<Longrightarrow> eoh (l @ r) = map_option (\<lambda>n. length l + n) (eoh r)"
  unfolding eoh_def by (rule find_skip [of _ "CHR 0x0D" "CHR 0x0A # crlf"]) (simp_all add: crlf_def)

lemma eoh_crlf: "x \<noteq> CHR 0x0D \<Longrightarrow> eoh (CHR 0x0D # CHR 0x0A # x # r) = map_option (\<lambda>n. 2 + n) (eoh (x # r))"
  by (auto simp: eoh_def crlf_def option.map_comp o_def)

lemma eoh_end: "eoh (crlf @ crlf @ r) = Some 0"
  using find_here [of "crlf @ crlf" r] by (simp add: eoh_def)

lemma read_head_found: "eoh acc \<noteq> None \<Longrightarrow> read_head acc inp = Some (acc, inp)"
  by (cases inp) (auto simp: eoh_def)

lemma read_head_step:
  "eoh acc = None \<Longrightarrow> length acc < 8192 \<Longrightarrow> read_head acc (c # inp) = read_head (acc @ [c]) inp"
  by (simp add: eoh_def)

text \<open>A head is read exactly up to its empty line.\<close>

lemma read_head_run:
  assumes "\<forall>k < length acc + length x. eoh (take k (acc @ x)) = None" "eoh (acc @ x) \<noteq> None" "length (acc @ x) \<le> 8192"
  shows "read_head acc (x @ r) = Some (acc @ x, r)"
  using assms
proof (induction x arbitrary: acc)
  case Nil
  then show ?case by (simp add: read_head_found)
next
  case (Cons c x)
  have "eoh acc = None" using Cons.prems(1) [rule_format, of "length acc"] by simp
  then have "read_head acc (c # x @ r) = read_head (acc @ [c]) (x @ r)" using Cons.prems(3) by (intro read_head_step) auto
  also have "\<dots> = Some ((acc @ [c]) @ x, r)"
    using Cons.prems by (intro Cons.IH) auto
  finally show ?case by simp
qed

lemma read_head_whole:
  assumes "eoh x = Some n" "length x = n + 4" "length x \<le> 8192"
  shows "read_head [] (x @ r) = Some (x, r)"
proof -
  have "eoh (take k x) = None" if "k < length x" for k
  proof (rule ccontr)
    assume "eoh (take k x) \<noteq> None"
    then obtain m where m: "eoh (take k x) = Some m" by blast
    then obtain a b where ab: "take k x = a @ (crlf @ crlf) @ b" "length a = m" unfolding eoh_def by (metis find_some)
    have "m + 4 \<le> k" using arg_cong [OF ab(1), of length] ab(2) that by (simp add: crlf_def)
    moreover have "eoh x = Some m" using find_mono m by (metis append_take_drop_id eoh_def)
    ultimately show False using assms that by simp
  qed
  then show ?thesis using read_head_run [of "[]" x r] assms by simp
qed

definition head_text :: "string list \<Rightarrow> string" where
  "head_text ls = concat (map (\<lambda>l. l @ crlf) ls) @ crlf"

lemma eoh_head:
  "ls \<noteq> [] \<Longrightarrow> \<forall>l\<in>set ls. l \<noteq> [] \<and> CHR 0x0D \<notin> set l \<Longrightarrow> \<exists>n. eoh (head_text ls) = Some n \<and> length (head_text ls) = n + 4"
proof (induction ls)
  case Nil
  then show ?case by simp
next
  case (Cons l ls)
  show ?case
  proof (cases ls)
    case Nil
    have "eoh (l @ crlf @ crlf) = map_option (\<lambda>n. length l + n) (eoh (crlf @ crlf))" using Cons.prems by (intro eoh_line) simp
    then show ?thesis using Nil eoh_end [of "[]"] by (simp add: head_text_def) (simp add: crlf_def)
  next
    case (Cons m ms)
    obtain x t where m: "head_text ls = x # t" "x \<noteq> CHR 0x0D"
      using Cons Cons.prems by (cases m) (auto simp: head_text_def)
    obtain n where n: "eoh (head_text ls) = Some n" "length (head_text ls) = n + 4"
      using Cons.IH Cons.prems Cons by auto
    have "head_text (l # ls) = l @ CHR 0x0D # CHR 0x0A # head_text ls" by (simp add: head_text_def crlf_def)
    then have "eoh (head_text (l # ls)) = Some (length l + (2 + n))"
      using eoh_line [of l] eoh_crlf [OF m(2)] n(1) Cons.prems by (simp add: m(1))
    then show ?thesis using n(2) by (simp add: head_text_def crlf_def)
  qed
qed

lemma read_head_text:
  "ls \<noteq> [] \<Longrightarrow> \<forall>l\<in>set ls. l \<noteq> [] \<and> CHR 0x0D \<notin> set l \<Longrightarrow> length (head_text ls) \<le> 8192 \<Longrightarrow>
    read_head [] (head_text ls @ r) = Some (head_text ls, r)"
  using eoh_head [of ls] read_head_whole by blast

lemma b64_char_in: "b64_char n \<in> set b64_table"
proof -
  have "unat (n AND 63) < 64" using word_and_le1 [of n 63] by (simp add: word_le_nat_alt)
  then have "unat (n AND 63) < length b64_table" by (simp add: b64_table_def)
  then show ?thesis unfolding b64_char_def by (rule nth_mem)
qed

lemma b64_text: "c \<in> set (base64Encode d) \<Longrightarrow> c \<in> insert (CHR ''='') (set b64_table)"
  by (induction d rule: base64Encode.induct) (auto simp: Let_def b64_char_in)

lemma b64_plain: "c \<in> set (base64Encode d) \<Longrightarrow> c \<noteq> CHR 0x0D \<and> c \<noteq> CHR '' '' \<and> c \<noteq> CHR 0x09"
  by (drule b64_text) (auto simp: b64_table_def)

lemma b64_nonempty: "d \<noteq> [] \<Longrightarrow> base64Encode d \<noteq> []"
  using length_base64Encode [of d] by (cases d) auto

lemma skip_blanks_key: "d \<noteq> [] \<Longrightarrow> skip_blanks (CHR '' '' # base64Encode d @ r) = base64Encode d @ r"
  using b64_nonempty [of d] b64_plain [of _ d] by (cases "base64Encode d") (auto simp: skip_blanks_def)

lemma find_crlf_key: "find_sub crlf (base64Encode d @ crlf @ r) = Some (length (base64Encode d))"
  using find_skip [of crlf "CHR 0x0D" "[CHR 0x0A]" "base64Encode d" "crlf @ r"] b64_plain [of _ d] find_here [of crlf r]
  by (auto simp: crlf_def)

definition request_lines :: "string \<Rightarrow> u16 \<Rightarrow> bytes \<Rightarrow> string list" where
  "request_lines host port rnd = [''GET /input HTTP/1.1'', ''Host: '' @ host @ '':'' @ nat_to_string (unat port), ''Upgrade: websocket'',
     ''Connection: Upgrade'', ''Sec-WebSocket-Key: '' @ base64Encode rnd, ''Sec-WebSocket-Version: 13'']"

lemma clientRequest_lines: "clientRequest host port rnd = head_text (request_lines host port rnd)"
  by (simp add: clientRequest_def wsBuildClientHandshake_def wsGenerateClientKey_def request_lines_def head_text_def)

definition response_lines :: "(bytes \<Rightarrow> bytes) \<Rightarrow> string \<Rightarrow> string list" where
  "response_lines sha1 key = [''HTTP/1.1 101 Switching Protocols'', ''Upgrade: websocket'', ''Connection: Upgrade'',
     ''Sec-WebSocket-Accept: '' @ wsAcceptKey sha1 key]"

lemma response_head: "wsBuildServerResponse sha1 key = head_text (response_lines sha1 key)"
  by (simp add: wsBuildServerResponse_def response_lines_def head_text_def)

definition ip_text :: "string \<Rightarrow> bool" where
  "ip_text s \<longleftrightarrow> list_all (\<lambda>c. isDigit c \<or> c = CHR ''.'') s \<and> length s \<le> 15"

lemma digit_plain: "isDigit c \<Longrightarrow> c \<noteq> CHR ''S'' \<and> c \<noteq> CHR 0x0D"
  by (auto simp: isDigit_def)

lemma ip_chars: "ip_text s \<Longrightarrow> c \<in> set s \<Longrightarrow> c \<noteq> CHR ''S'' \<and> c \<noteq> CHR 0x0D"
  by (auto simp: ip_text_def list_all_iff isDigit_def)

lemma port_text: "length (nat_to_string (unat (p :: u16))) \<le> 5 \<and> (\<forall>c\<in>set (nat_to_string (unat p)). c \<noteq> CHR ''S'' \<and> c \<noteq> CHR 0x0D)"
proof -
  have "unat p < 10 ^ Suc 4" using unsigned_less [where 'a = nat, of p] by simp
  then show ?thesis using nat_to_string_length [of "unat p" 4] nat_to_string_digits [of _ "unat p"] digit_plain by auto
qed

lemma request_read:
  assumes "ip_text host" "length rnd = 16"
  shows "read_head [] (clientRequest host port rnd @ r) = Some (clientRequest host port rnd, r)"
proof -
  have len: "length (base64Encode rnd) = 24" using assms(2) by (simp add: length_base64Encode)
  have "length (head_text (request_lines host port rnd)) \<le> 8192"
    using assms(1) port_text [of port] len by (simp add: head_text_def request_lines_def crlf_def ip_text_def)
  then show ?thesis
    using ip_chars [OF assms(1)] port_text [of port] b64_plain [of _ rnd]
    unfolding clientRequest_lines by (intro read_head_text) (auto simp: request_lines_def)
qed

lemma request_key:
  assumes "ip_text host" "length rnd = 16"
  shows "\<exists>p. find_sub key_tag (clientRequest host port rnd) = Some p
    \<and> find_sub crlf (skip_blanks (drop (p + length key_tag) (clientRequest host port rnd))) = Some (length (base64Encode rnd))
    \<and> take (length (base64Encode rnd)) (skip_blanks (drop (p + length key_tag) (clientRequest host port rnd))) = base64Encode rnd"
proof -
  define pre where "pre = ''GET /input HTTP/1.1'' @ crlf @ ''Host: '' @ host @ '':'' @ nat_to_string (unat port) @ crlf @
      ''Upgrade: websocket'' @ crlf @ ''Connection: Upgrade'' @ crlf"
  define post where "post = ''Sec-WebSocket-Version: 13'' @ crlf @ crlf"
  have req: "clientRequest host port rnd = pre @ key_tag @ '' '' @ base64Encode rnd @ crlf @ post"
    by (simp add: clientRequest_lines head_text_def request_lines_def pre_def post_def key_tag_def)
  have "CHR ''S'' \<notin> set pre" using ip_chars [OF assms(1)] port_text [of port] by (auto simp: pre_def crlf_def)
  then have f: "find_sub key_tag (clientRequest host port rnd) = Some (length pre)"
    unfolding req using find_skip [of key_tag "CHR ''S''" "''ec-WebSocket-Key:''" pre] find_here [of key_tag]
    by (simp add: key_tag_def)
  have "rnd \<noteq> []" using assms(2) by auto
  then have "skip_blanks (drop (length pre + length key_tag) (clientRequest host port rnd)) = base64Encode rnd @ crlf @ post"
    unfolding req using skip_blanks_key by simp
  then show ?thesis using f find_crlf_key by simp
qed

section \<open>Properties\<close>

lemma server_on_request:
  assumes "ip_text host" "length rnd = 16"
  shows "serverHandshake sha1 True (clientRequest host port rnd @ r)
    = Some (wsBuildServerResponse sha1 (base64Encode rnd), r)"
proof -
  obtain p where p: "find_sub key_tag (clientRequest host port rnd) = Some p"
    "find_sub crlf (skip_blanks (drop (p + length key_tag) (clientRequest host port rnd))) = Some (length (base64Encode rnd))"
    "take (length (base64Encode rnd)) (skip_blanks (drop (p + length key_tag) (clientRequest host port rnd))) = base64Encode rnd"
    using request_key [OF assms] by blast
  have "base64Encode rnd \<noteq> []" using assms(2) by (intro b64_nonempty) auto
  then show ?thesis
    unfolding serverHandshake_def request_read [OF assms] using p by (simp add: Let_def)
qed

lemma client_on_response:
  assumes "length (sha1 (to_bytes (base64Encode rnd @ kMagicGuid))) = 20"
  shows "clientHandshake sha1 rnd True (wsBuildServerResponse sha1 (base64Encode rnd) @ r) = Some r"
proof -
  let ?key = "base64Encode rnd"
  have len: "length (wsAcceptKey sha1 ?key) = 28" using assms by (simp add: wsAcceptKey_def length_base64Encode)
  have plain: "CHR 0x0D \<notin> set (wsAcceptKey sha1 ?key)" using b64_plain by (auto simp: wsAcceptKey_def)
  have "read_head [] (wsBuildServerResponse sha1 ?key @ r) = Some (wsBuildServerResponse sha1 ?key, r)"
    unfolding response_head
    by (rule read_head_text) (use len plain in \<open>auto simp: response_lines_def head_text_def crlf_def\<close>)
  moreover have "find_sub (wsAcceptKey sha1 ?key) (wsBuildServerResponse sha1 ?key) \<noteq> None"
    using find_infix [of "wsAcceptKey sha1 ?key" "''HTTP/1.1 101 Switching Protocols'' @ crlf @ ''Upgrade: websocket'' @ crlf @
        ''Connection: Upgrade'' @ crlf @ ''Sec-WebSocket-Accept: ''" "crlf @ crlf"]
    by (simp add: wsBuildServerResponse_def)
  ultimately show ?thesis by (auto simp: clientHandshake_def Let_def wsGenerateClientKey_def)
qed

text \<open>
  The opening handshakes fit together: the server answers the client's request, the client
  accepts that answer, and neither side reads a byte beyond the other's handshake, so the
  first frame behind it is left for the frame decoder.
\<close>

theorem handshake_interop:
  assumes "ip_text host" "length rnd = 16" "\<forall>d. length (sha1 d) = 20"
  shows "\<exists>resp. serverHandshake sha1 True (clientRequest host port rnd @ r) = Some (resp, r)
    \<and> clientHandshake sha1 rnd True (resp @ q) = Some q"
  using server_on_request [OF assms(1,2)] client_on_response assms(3) by blast

definition toy_sha1 :: "bytes \<Rightarrow> bytes" where
  "toy_sha1 d = take 20 (d @ replicate 20 0)"

lemma length_toy_sha1: "length (toy_sha1 d) = 20"
  by (cases "length d < 20") (simp_all add: toy_sha1_def)

theorem handshake_interop_witness:
  "\<exists>resp. serverHandshake toy_sha1 True (clientRequest ''192.168.1.7'' 24801 (replicate 16 5) @ ''frame'') = Some (resp, ''frame'')
    \<and> clientHandshake toy_sha1 (replicate 16 5) True (resp @ ''x'') = Some ''x''"
  by (rule handshake_interop) (simp_all add: ip_text_def isDigit_def length_toy_sha1)

lemma platforms_agree_local: "acceptServerSide sha1 wr inp = serverHandshake sha1 wr inp"
  by (simp add: acceptServerSide_def serverHandshake_def parseKeyFromRequest_def Let_def split: option.split prod.split)

text \<open>
  The server handshakes of the two platforms, one of which extracts the key in a function
  of its own, agree on every input.
\<close>

theorem platforms_agree: "acceptServerSide sha1 wr inp = serverHandshake sha1 wr inp"
  by (rule platforms_agree_local)

text \<open>Both loops stop at 8192 bytes.\<close>

lemma read_head_bounded: "read_head acc inp = Some (h, rest) \<Longrightarrow> acc @ inp = h @ rest \<and> length h \<le> max (length acc) 8192 \<and> eoh h \<noteq> None"
proof (induction inp arbitrary: acc)
  case Nil
  then show ?case by (auto simp: eoh_def split: if_splits)
next
  case (Cons c inp)
  show ?case
  proof (cases "eoh acc = None")
    case True
    then have "length acc + 1 \<le> 8192" "read_head (acc @ [c]) inp = Some (h, rest)"
      using Cons.prems by (auto simp: eoh_def split: if_splits)
    then show ?thesis using Cons.IH [of "acc @ [c]"] by (auto simp: max_def split: if_splits)
  next
    case False
    then show ?thesis using Cons.prems by (auto simp: eoh_def split: if_splits)
  qed
qed

lemma client_bounded:
  assumes "clientHandshake sha1 rnd wr inp = Some rest"
  shows "\<exists>head. inp = head @ rest \<and> length head \<le> 8192 \<and> eoh head \<noteq> None
        \<and> find_sub (wsAcceptKey sha1 (base64Encode rnd)) head \<noteq> None"
proof -
  from assms obtain head where "read_head [] inp = Some (head, rest)" "find_sub (wsAcceptKey sha1 (base64Encode rnd)) head \<noteq> None"
    by (auto simp: clientHandshake_def wsGenerateClientKey_def Let_def split: option.splits if_splits)
  then show ?thesis using read_head_bounded [of "[]" inp head rest] by (intro exI [of _ head]) simp
qed

text \<open>
  A server handshake succeeds only on a request of at most 8192 bytes that ends with an
  empty line and names a non-empty key, and consumes exactly that request.
\<close>

theorem handshake_bounded:
  assumes "serverHandshake sha1 wr inp = Some (resp, rest)"
  shows "\<exists>req. inp = req @ rest \<and> length req \<le> 8192 \<and> eoh req \<noteq> None \<and> parseKeyFromRequest req \<noteq> []
    \<and> resp = wsBuildServerResponse sha1 (parseKeyFromRequest req)"
proof -
  from assms obtain req where r: "read_head [] inp = Some (req, rest)" "parseKeyFromRequest req \<noteq> []"
    "resp = wsBuildServerResponse sha1 (parseKeyFromRequest req)"
    unfolding platforms_agree_local [symmetric]
    by (auto simp: acceptServerSide_def Let_def split: option.splits if_splits)
  then show ?thesis using read_head_bounded [of "[]" inp req rest] by (intro exI [of _ req]) simp
qed

theorem handshake_bounded_witness:
  "\<exists>req. clientRequest ''192.168.1.7'' 24801 (replicate 16 5) @ ''frame'' = req @ ''frame'' \<and> length req \<le> 8192"
  using handshake_bounded [OF server_on_request [of "''192.168.1.7''" "replicate 16 5" toy_sha1 24801 "''frame''"]]
  by (auto simp: ip_text_def isDigit_def)

end
