(* ===== verification/Capture.thy ===== *)
theory Capture
  imports Hotkey
begin

text \<open>
  The owner's input capture on Windows, \<open>platform/capture_win.cpp\<close> behind
  \<open>platform/capture.h\<close>: the two low-level hooks, the recentring of the cursor while input
  is swallowed and the chord that returns control.  Screen coordinates are \<open>int\<close> (a \<open>LONG\<close>
  never overflows on differences of screen positions).  What the system answers, whether a hook
  could be installed and where the centre of the screen is, are arguments.
\<close>

datatype CapturedEvent = CMove int int | CButton u8 bool | CKey u8 bool

datatype capture_out = Sink CapturedEvent | EscapeCall | SetCursorPos int int

record WinCapture =
  wc_hMouse :: bool
  wc_hKey :: bool
  wc_installed :: bool
  wc_swallow :: bool
  wc_escMods :: u32
  wc_escKey :: u16
  wc_ctrl :: bool
  wc_alt :: bool
  wc_shift :: bool
  wc_win :: bool
  wc_havePt :: bool
  wc_last :: "int \<times> int"
  wc_anchor :: "int \<times> int"

definition createCapture :: WinCapture where
  "createCapture =
     \<lparr>wc_hMouse = False, wc_hKey = False, wc_installed = False, wc_swallow = False, wc_escMods = 0, wc_escKey = 0,
      wc_ctrl = False, wc_alt = False, wc_shift = False, wc_win = False, wc_havePt = False, wc_last = (0, 0), wc_anchor = (0, 0)\<rparr>"

definition anchorCursor :: "int \<times> int \<Rightarrow> WinCapture \<Rightarrow> WinCapture \<times> capture_out list" where
  "anchorCursor centre c = (c\<lparr>wc_anchor := centre\<rparr>, [SetCursorPos (fst centre) (snd centre)])"

definition capture_stop :: "WinCapture \<Rightarrow> WinCapture" where
  "capture_stop c = c\<lparr>wc_hMouse := False, wc_hKey := False, wc_installed := False\<rparr>"

definition capture_start :: "bool \<Rightarrow> bool \<Rightarrow> int \<times> int \<Rightarrow> WinCapture \<Rightarrow> bool \<times> WinCapture \<times> capture_out list" where
  "capture_start mouseOk keyOk centre c =
     (if wc_installed c then (True, c, [])
      else let c1 = c\<lparr>wc_havePt := False, wc_ctrl := False, wc_alt := False, wc_shift := False, wc_win := False,
                      wc_hMouse := mouseOk, wc_hKey := keyOk, wc_installed := mouseOk \<and> keyOk\<rparr> in
        if \<not> wc_installed c1 then (False, capture_stop c1, [])
        else if wc_swallow c1 then (case anchorCursor centre c1 of (c2, o2) \<Rightarrow> (True, c2, o2))
        else (True, c1, []))"

definition setSwallow :: "int \<times> int \<Rightarrow> bool \<Rightarrow> WinCapture \<Rightarrow> WinCapture \<times> capture_out list" where
  "setSwallow centre swallow c =
     (let c1 = c\<lparr>wc_swallow := swallow\<rparr> in if wc_installed c1 \<and> swallow then anchorCursor centre c1 else (c1, []))"

definition setEscape :: "u32 \<Rightarrow> u16 \<Rightarrow> WinCapture \<Rightarrow> WinCapture" where
  "setEscape modifiers key c = c\<lparr>wc_escMods := modifiers, wc_escKey := key\<rparr>"

datatype mouse_msg = WM_MOUSEMOVE | WM_LBUTTONDOWN | WM_LBUTTONUP | WM_RBUTTONDOWN | WM_RBUTTONUP | WM_MBUTTONDOWN | WM_MBUTTONUP
  | WM_OTHER

definition button_of :: "mouse_msg \<Rightarrow> (u8 \<times> bool) option" where
  "button_of w = (case w of
       WM_LBUTTONDOWN \<Rightarrow> Some (1, True) | WM_LBUTTONUP \<Rightarrow> Some (1, False)
     | WM_RBUTTONDOWN \<Rightarrow> Some (2, True) | WM_RBUTTONUP \<Rightarrow> Some (2, False)
     | WM_MBUTTONDOWN \<Rightarrow> Some (3, True) | WM_MBUTTONUP \<Rightarrow> Some (3, False)
     | _ \<Rightarrow> None)"

definition onMouse :: "mouse_msg \<Rightarrow> bool \<Rightarrow> int \<times> int \<Rightarrow> WinCapture \<Rightarrow> bool \<times> WinCapture \<times> capture_out list" where
  "onMouse w injected pt c =
     (if w = WM_MOUSEMOVE then
        if wc_swallow c then
          if injected then (True, c, [])
          else let dx = fst pt - fst (wc_anchor c); dy = snd pt - snd (wc_anchor c) in
            (True, c, if dx \<noteq> 0 \<or> dy \<noteq> 0 then [Sink (CMove dx dy), SetCursorPos (fst (wc_anchor c)) (snd (wc_anchor c))] else [])
        else let dx = fst pt - fst (wc_last c); dy = snd pt - snd (wc_last c) in
          (False, c\<lparr>wc_last := pt, wc_havePt := True\<rparr>,
           if wc_havePt c \<and> (dx \<noteq> 0 \<or> dy \<noteq> 0) then [Sink (CMove dx dy)] else [])
      else case button_of w of
          None \<Rightarrow> (wc_swallow c, c, [])
        | Some (code, down) \<Rightarrow> (wc_swallow c, c, [Sink (CButton code down)]))"

definition updateModifier :: "u32 \<Rightarrow> bool \<Rightarrow> WinCapture \<Rightarrow> WinCapture" where
  "updateModifier vk down c =
     (if vk \<in> {0xA2, 0xA3, 0x11} then c\<lparr>wc_ctrl := down\<rparr>
      else if vk \<in> {0xA4, 0xA5, 0x12} then c\<lparr>wc_alt := down\<rparr>
      else if vk \<in> {0xA0, 0xA1, 0x10} then c\<lparr>wc_shift := down\<rparr>
      else if vk \<in> {0x5B, 0x5C} then c\<lparr>wc_win := down\<rparr>
      else c)"

definition modifiersMatch :: "WinCapture \<Rightarrow> bool" where
  "modifiersMatch c \<longleftrightarrow>
     wc_ctrl c = (wc_escMods c AND 2 \<noteq> 0) \<and> wc_alt c = (wc_escMods c AND 1 \<noteq> 0)
     \<and> wc_shift c = (wc_escMods c AND 4 \<noteq> 0) \<and> wc_win c = (wc_escMods c AND 8 \<noteq> 0)"

definition onKey :: "bool \<Rightarrow> u32 \<Rightarrow> WinCapture \<Rightarrow> bool \<times> WinCapture \<times> capture_out list" where
  "onKey down vk c =
     (let c1 = updateModifier vk down c in
      if down \<and> wc_escKey c1 \<noteq> 0 \<and> vk = ucast (wc_escKey c1) \<and> modifiersMatch c1 then (True, c1, [EscapeCall])
      else (wc_swallow c1, c1, [Sink (CKey (ucast vk) down)]))"

text \<open>An event of the hooked devices, and the hook procedures: an inactive capture passes it on.\<close>

datatype hook_event = MouseHook mouse_msg bool "int \<times> int" | KeyHook bool u32

fun hook_proc :: "hook_event \<Rightarrow> WinCapture \<Rightarrow> bool \<times> WinCapture \<times> capture_out list" where
  "hook_proc (MouseHook w injected pt) c = (if \<not> wc_installed c then (False, c, []) else onMouse w injected pt c)"
| "hook_proc (KeyHook down vk) c = (if \<not> wc_installed c then (False, c, []) else onKey down vk c)"

fun hook_run :: "hook_event list \<Rightarrow> WinCapture \<Rightarrow> bool list \<times> WinCapture \<times> capture_out list" where
  "hook_run [] c = ([], c, [])"
| "hook_run (e # es) c =
     (case hook_proc e c of (sw, c1, o1) \<Rightarrow> case hook_run es c1 of (sws, c2, o2) \<Rightarrow> (sw # sws, c2, o1 @ o2))"

section \<open>Lemmas\<close>

lemma hook_run_append:
  "hook_run (es @ fs) c = (case hook_run es c of (s1, c1, o1) \<Rightarrow> case hook_run fs c1 of (s2, c2, o2) \<Rightarrow> (s1 @ s2, c2, o1 @ o2))"
  by (induction es arbitrary: c) (auto split: prod.splits)

text \<open>What the hooks never change.\<close>

lemma updateModifier_keeps [simp]:
  "wc_installed (updateModifier vk d c) = wc_installed c" "wc_swallow (updateModifier vk d c) = wc_swallow c"
  "wc_escKey (updateModifier vk d c) = wc_escKey c" "wc_escMods (updateModifier vk d c) = wc_escMods c"
  "wc_anchor (updateModifier vk d c) = wc_anchor c"
  by (simp_all add: updateModifier_def)

lemma hook_proc_keeps:
  "hook_proc e c = (s, c', os) \<Longrightarrow> wc_installed c' = wc_installed c \<and> wc_swallow c' = wc_swallow c \<and> wc_escKey c' = wc_escKey c
    \<and> wc_escMods c' = wc_escMods c \<and> wc_anchor c' = wc_anchor c \<and> (wc_installed c \<and> wc_swallow c \<longrightarrow> s)"
  by (cases e) (auto simp: onMouse_def onKey_def Let_def split: if_splits option.splits)

lemma hook_run_keeps:
  "hook_run es c = (ss, c', os) \<Longrightarrow> wc_installed c' = wc_installed c \<and> wc_swallow c' = wc_swallow c \<and> wc_escKey c' = wc_escKey c
    \<and> wc_escMods c' = wc_escMods c \<and> wc_anchor c' = wc_anchor c \<and> (wc_installed c \<and> wc_swallow c \<longrightarrow> list_all (\<lambda>b. b) ss)"
proof (induction es arbitrary: c ss c' os)
  case (Cons e es)
  obtain s c1 o1 where a: "hook_proc e c = (s, c1, o1)" by (cases "hook_proc e c")
  obtain ss2 c2 o2 where b: "hook_run es c1 = (ss2, c2, o2)" by (cases "hook_run es c1")
  show ?case using hook_proc_keeps [OF a] Cons.IH [OF b] Cons.prems a b by auto
qed simp

text \<open>The last event of a class of keys in a history, the state of that modifier.\<close>

fun last_state :: "u32 set \<Rightarrow> bool \<Rightarrow> hook_event list \<Rightarrow> bool" where
  "last_state ks b [] = b"
| "last_state ks b (KeyHook d vk # es) = last_state ks (if vk \<in> ks then d else b) es"
| "last_state ks b (MouseHook w i pt # es) = last_state ks b es"

definition ctrl_keys :: "u32 set" where "ctrl_keys = {0xA2, 0xA3, 0x11}"
definition alt_keys :: "u32 set" where "alt_keys = {0xA4, 0xA5, 0x12}"
definition shift_keys :: "u32 set" where "shift_keys = {0xA0, 0xA1, 0x10}"
definition win_keys :: "u32 set" where "win_keys = {0x5B, 0x5C}"

lemmas modifier_keys = ctrl_keys_def alt_keys_def shift_keys_def win_keys_def

lemma updateModifier_sets:
  "wc_ctrl (updateModifier vk d c) = (if vk \<in> ctrl_keys then d else wc_ctrl c)"
  "wc_alt (updateModifier vk d c) = (if vk \<in> alt_keys then d else wc_alt c)"
  "wc_shift (updateModifier vk d c) = (if vk \<in> shift_keys then d else wc_shift c)"
  "wc_win (updateModifier vk d c) = (if vk \<in> win_keys then d else wc_win c)"
  by (auto simp: updateModifier_def modifier_keys)

lemma onMouse_modifiers:
  "onMouse w i pt c = (s, c', os) \<Longrightarrow> wc_ctrl c' = wc_ctrl c \<and> wc_alt c' = wc_alt c \<and> wc_shift c' = wc_shift c \<and> wc_win c' = wc_win c"
  by (auto simp: onMouse_def Let_def split: if_splits option.splits)

lemma onKey_modifiers: "onKey d vk c = (s, c', os) \<Longrightarrow> c' = updateModifier vk d c"
  by (auto simp: onKey_def Let_def split: if_splits)

lemma modifiers_tracked:
  "wc_installed c \<Longrightarrow> hook_run es c = (ss, c', os) \<Longrightarrow>
     wc_ctrl c' = last_state ctrl_keys (wc_ctrl c) es \<and> wc_alt c' = last_state alt_keys (wc_alt c) es
   \<and> wc_shift c' = last_state shift_keys (wc_shift c) es \<and> wc_win c' = last_state win_keys (wc_win c) es"
proof (induction es arbitrary: c ss c' os)
  case (Cons e es)
  obtain s c1 o1 where a: "hook_proc e c = (s, c1, o1)" by (cases "hook_proc e c")
  obtain ss2 c2 o2 where b: "hook_run es c1 = (ss2, c2, o2)" by (cases "hook_run es c1")
  have c2: "c' = c2" using Cons.prems(2) a b by simp
  have inst: "wc_installed c1" using hook_proc_keeps [OF a] Cons.prems(1) by simp
  have "wc_ctrl c1 = last_state ctrl_keys (wc_ctrl c) [e] \<and> wc_alt c1 = last_state alt_keys (wc_alt c) [e]
      \<and> wc_shift c1 = last_state shift_keys (wc_shift c) [e] \<and> wc_win c1 = last_state win_keys (wc_win c) [e]"
    using a Cons.prems(1) onMouse_modifiers onKey_modifiers
    by (cases e) (fastforce simp: updateModifier_sets)+
  moreover have "last_state ks x (e # es) = last_state ks (last_state ks x [e]) es" for ks x by (cases e) simp_all
  ultimately show ?case using Cons.IH [OF inst b] c2 by simp
qed simp

fun moves :: "capture_out list \<Rightarrow> (int \<times> int) list" where
  "moves (Sink (CMove dx dy) # os) = (dx, dy) # moves os"
| "moves (_ # os) = moves os"
| "moves [] = []"

lemma moves_append [simp]: "moves (a @ b) = moves a @ moves b"
  by (induction a rule: moves.induct) auto

definition total :: "(int \<times> int) list \<Rightarrow> int \<times> int" where
  "total ds = (sum_list (map fst ds), sum_list (map snd ds))"

lemma total_simps [simp]: "total [] = (0, 0)" "total (d # ds) = (fst d + fst (total ds), snd d + snd (total ds))"
  by (simp_all add: total_def)

abbreviation moved :: "int \<times> int \<Rightarrow> hook_event" where
  "moved pt \<equiv> MouseHook WM_MOUSEMOVE False pt"

lemma swallowed_moves:
  "wc_installed c \<Longrightarrow> wc_swallow c \<Longrightarrow> hook_run (map moved pts) c = (ss, c', os) \<Longrightarrow>
    total (moves os) = total (map (\<lambda>pt. (fst pt - fst (wc_anchor c), snd pt - snd (wc_anchor c))) pts)"
proof (induction pts arbitrary: ss c' os)
  case (Cons pt pts)
  obtain ss2 c2 o2 where b: "hook_run (map moved pts) c = (ss2, c2, o2)" by (cases "hook_run (map moved pts) c")
  show ?case using Cons.prems Cons.IH [OF Cons.prems(1,2)] b
    by (auto simp: onMouse_def Let_def split: if_splits)
qed simp

lemma local_moves:
  "wc_installed c \<Longrightarrow> \<not> wc_swallow c \<Longrightarrow> wc_havePt c \<Longrightarrow> hook_run (map moved pts) c = (ss, c', os) \<Longrightarrow>
    total (moves os) = (fst (last (wc_last c # pts)) - fst (wc_last c), snd (last (wc_last c # pts)) - snd (wc_last c))"
proof (induction pts arbitrary: c ss c' os)
  case (Cons pt pts)
  let ?c1 = "c\<lparr>wc_last := pt, wc_havePt := True\<rparr>"
  obtain ss2 c2 o2 where b: "hook_run (map moved pts) ?c1 = (ss2, c2, o2)" by (cases "hook_run (map moved pts) ?c1")
  have "total (moves o2) = (fst (last (pt # pts)) - fst pt, snd (last (pt # pts)) - snd pt)"
    using Cons.IH [of ?c1, OF _ _ _ b] Cons.prems by simp
  then show ?case using Cons.prems b by (auto simp: onMouse_def Let_def split: if_splits)
qed simp

section \<open>Properties\<close>



text \<open>
  No motion is lost or invented.  While input is swallowed the forwarded moves add up to
  the displacements from the parked cursor that the moves reported; while it is not, they add
  up to the way from the first reported position to the last.
\<close>

theorem motion_conserved:
  assumes "wc_installed c" "hook_run (map moved pts) c = (ss, c', os)"
  shows "(wc_swallow c \<longrightarrow> total (moves os) = total (map (\<lambda>pt. (fst pt - fst (wc_anchor c), snd pt - snd (wc_anchor c))) pts)
        \<and> list_all (\<lambda>b. b) ss)
    \<and> (\<not> wc_swallow c \<and> wc_havePt c \<longrightarrow>
        total (moves os) = (fst (last (wc_last c # pts)) - fst (wc_last c), snd (last (wc_last c # pts)) - snd (wc_last c)))"
  using swallowed_moves [OF assms(1) _ assms(2)] local_moves [OF assms(1) _ _ assms(2)] hook_run_keeps [OF assms(2)] assms(1) by blast

theorem motion_conserved_witness:
  "\<exists>c ss c' os. wc_swallow c \<and> wc_anchor c = (5, 5) \<and> hook_run (map moved [(7, 4), (5, 9)]) c = (ss, c', os) \<and> total (moves os) = (2, 3)"
proof -
  let ?c = "fst (snd (capture_start True True (5, 5) (setEscape 3 0x20 (fst (setSwallow (5, 5) True createCapture)))))"
  have i: "wc_installed ?c" "wc_swallow ?c" "wc_anchor ?c = (5, 5)"
    by (simp_all add: capture_start_def setEscape_def setSwallow_def createCapture_def anchorCursor_def Let_def)
  obtain ss c' os where r: "hook_run (map moved [(7, 4), (5, 9)]) ?c = (ss, c', os)"
    by (cases "hook_run (map moved [(7, 4), (5, 9)]) ?c")
  have "total (moves os) = (2, 3)" using motion_conserved [OF i(1) r] i by simp
  then show ?thesis using r i by blast
qed

end
