(* ===== verification/LanSockets.thy ===== *)
theory LanSockets
  imports PeerCodecs Texts
begin

text \<open>
  The datagram side of the program: \<open>net/discovery_socket.{h,cpp}\<close>, \<open>net/wol_sender.cpp\<close>
  and the session tokens \<open>net/session_token.cpp\<close>.  What the operating system answers (the
  adapters, whether a socket could be made or bound, the outcome of each send and receive)
  is an argument.  IPv4 addresses are words in host byte order, so \<open>htonl\<close> and \<open>ntohl\<close>,
  which the code applies in pairs, do not appear.
\<close>

section \<open>Addresses\<close>

definition ip_octet :: "nat \<Rightarrow> u32 \<Rightarrow> u8" where
  "ip_octet k h = ucast (drop_bit (8 * (3 - k)) h)"

definition ipToStr :: "u32 \<Rightarrow> string" where
  "ipToStr h = join_sep (CHR ''.'') (map (\<lambda>k. nat_to_string (unat (ip_octet k h))) [0, 1, 2, 3])"

definition isPrivateAddr :: "u32 \<Rightarrow> bool" where
  "isPrivateAddr h =
     (let o1 = ucast (drop_bit 24 h AND 0xFF) :: u8; o2 = ucast (drop_bit 16 h AND 0xFF) :: u8 in
      o1 = 10 \<or> (o1 = 172 \<and> o2 \<ge> 16 \<and> o2 \<le> 31) \<or> (o1 = 192 \<and> o2 = 168) \<or> (o1 = 169 \<and> o2 = 254) \<or> o1 = 127)"

text \<open>\<open>aton\<close> is the platform's \<open>inet_pton\<close>.\<close>

definition isPrivateIpv4 :: "(string \<Rightarrow> u32 option) \<Rightarrow> string \<Rightarrow> bool" where
  "isPrivateIpv4 aton ip = (case aton ip of None \<Rightarrow> False | Some a \<Rightarrow> isPrivateAddr a)"

section \<open>Interfaces\<close>

record NicAddr =
  nic_local :: u32
  nic_bcast :: u32

text \<open>An adapter as the system lists it; an address that is not IPv4 is \<open>None\<close>.\<close>

record adapter =
  ad_up :: bool
  ad_loopback :: bool
  ad_addrs :: "(u32 \<times> nat) option list"

definition subnet_bcast :: "u32 \<Rightarrow> nat \<Rightarrow> u32" where
  "subnet_bcast ip prefix =
     (let mask = (if prefix = 32 then 0xFFFFFFFF else NOT (push_bit (32 - prefix) 1 - 1)) in (ip AND mask) OR NOT mask)"

definition adapter_nics :: "adapter \<Rightarrow> NicAddr list" where
  "adapter_nics a =
     (if \<not> ad_up a \<or> ad_loopback a then []
      else List.map_filter (\<lambda>ua. case ua of None \<Rightarrow> None
        | Some (ip, prefix) \<Rightarrow>
            if prefix = 0 \<or> prefix > 32 then None else Some \<lparr>nic_local = ip, nic_bcast = subnet_bcast ip prefix\<rparr>) (ad_addrs a))"

definition localInterfaces :: "adapter list option \<Rightarrow> NicAddr list" where
  "localInterfaces r = (case r of None \<Rightarrow> [] | Some as \<Rightarrow> concat (map adapter_nics as))"

definition describeLocalInterfaces :: "adapter list option \<Rightarrow> string list" where
  "describeLocalInterfaces r =
     map (\<lambda>nic. ''ip='' @ ipToStr (nic_local nic) @ '' bcast='' @ ipToStr (nic_bcast nic)) (localInterfaces r)"

section \<open>Sending beacons\<close>

text \<open>The outcome of one send (\<open>None\<close> is success), of binding, and the answers for one interface; no socket is \<open>None\<close>.\<close>

type_synonym os_error = "int option"

record nic_io =
  io_bind :: bool
  io_sub :: os_error
  io_lim :: os_error

record sent_packet =
  sp_from :: "u32 option"
  sp_dst :: u32
  sp_data :: bytes

definition INADDR_BROADCAST :: u32 where
  "INADDR_BROADCAST = 0xFFFFFFFF"

definition send_report :: "os_error \<Rightarrow> string" where
  "send_report e = (case e of None \<Rightarrow> ''ok'' | Some n \<Rightarrow> int_to_string n)"

definition nic_beacon :: "bytes \<Rightarrow> NicAddr \<Rightarrow> nic_io option \<Rightarrow> bool \<times> sent_packet list \<times> string" where
  "nic_beacon pkt nic io =
     (case io of
        None \<Rightarrow> (False, [], '' ['' @ ipToStr (nic_local nic) @ '' socket-fail]'')
      | Some r \<Rightarrow>
          let from = (if io_bind r then Some (nic_local nic) else None) in
          (io_sub r = None \<or> io_lim r = None,
           [\<lparr>sp_from = from, sp_dst = nic_bcast nic, sp_data = pkt\<rparr>, \<lparr>sp_from = from, sp_dst = INADDR_BROADCAST, sp_data = pkt\<rparr>],
           '' ['' @ ipToStr (nic_local nic) @ ''->'' @ ipToStr (nic_bcast nic) @ (if io_bind r then [] else '' bind-fail'') @
           '' sub='' @ send_report (io_sub r) @ '' lim='' @ send_report (io_lim r) @ '']''))"

fun beacon_loop ::
  "bytes \<Rightarrow> NicAddr list \<Rightarrow> (NicAddr \<Rightarrow> nic_io option) \<Rightarrow> bool \<times> sent_packet list \<times> string \<Rightarrow> bool \<times> sent_packet list \<times> string" where
  "beacon_loop pkt [] io acc = acc"
| "beacon_loop pkt (nic # nics) io acc =
     (case (acc, nic_beacon pkt nic (io nic)) of ((any, out, rep), (sent, ps, r)) \<Rightarrow>
        beacon_loop pkt nics io (any \<or> sent, out @ ps, rep @ r))"

definition broadcastBeacon ::
  "bool \<Rightarrow> adapter list option \<Rightarrow> (NicAddr \<Rightarrow> nic_io option) \<Rightarrow> os_error option \<Rightarrow> Beacon \<Rightarrow> bool \<times> sent_packet list \<times> string" where
  "broadcastBeacon wsa adapters io fallback b =
     (if \<not> wsa then (False, [], ''WSAStartup failed'')
      else let pkt = encodeBeacon b; nics = localInterfaces adapters in
        case beacon_loop pkt nics io (False, [], []) of (any, out, rep) \<Rightarrow>
          if nics = [] then
            (case fallback of None \<Rightarrow> (any, out, rep @ '' [no-interfaces-enumerated]'')
             | Some e \<Rightarrow> (any \<or> e = None, out @ [\<lparr>sp_from = None, sp_dst = INADDR_BROADCAST, sp_data = pkt\<rparr>],
                  rep @ '' [no-interfaces-enumerated]''))
          else (any, out, rep))"

definition sendBeaconTo ::
  "bool \<Rightarrow> (string \<Rightarrow> u32 option) \<Rightarrow> os_error option \<Rightarrow> Beacon \<Rightarrow> string \<Rightarrow> bool \<times> sent_packet list" where
  "sendBeaconTo wsa aton io b ip =
     (if \<not> wsa then (False, [])
      else case aton ip of None \<Rightarrow> (False, [])
        | Some dst \<Rightarrow>
            if \<not> isPrivateAddr dst then (False, [])
            else case io of None \<Rightarrow> (False, [])
              | Some e \<Rightarrow> (e = None, [\<lparr>sp_from = None, sp_dst = dst, sp_data = encodeBeacon b\<rparr>]))"

section \<open>Receiving beacons\<close>

text \<open>What one \<open>recvfrom\<close> returns: a datagram and its source, or an error code.\<close>

datatype datagram = Datagram bytes string | RecvFailed int

record RecvDiag =
  rd_bytes :: int
  rd_sockErr :: int
  rd_timedOut :: bool
  rd_srcIp :: string
  rd_decoded :: bool
  rd_machineId :: string

definition kDatagramBuf :: nat where
  "kDatagramBuf = 2048"

definition recvDecodeOnce :: "(int \<Rightarrow> bool) \<Rightarrow> datagram \<Rightarrow> Beacon option \<times> RecvDiag" where
  "recvDecodeOnce isTimeoutErr dg =
     (let n = (case dg of Datagram d _ \<Rightarrow> int (length (take kDatagramBuf d)) | RecvFailed _ \<Rightarrow> - 1);
          ipstr = (case dg of Datagram d src \<Rightarrow> (if n > 0 then src else []) | RecvFailed _ \<Rightarrow> []);
          err = (case dg of RecvFailed e \<Rightarrow> e | Datagram _ _ \<Rightarrow> 0);
          diag = \<lparr>rd_bytes = n, rd_sockErr = err, rd_timedOut = n < 0 \<and> isTimeoutErr err, rd_srcIp = ipstr,
                  rd_decoded = False, rd_machineId = []\<rparr> in
      case dg of
        RecvFailed _ \<Rightarrow> (None, diag)
      | Datagram d _ \<Rightarrow>
          if n \<le> 0 then (None, diag)
          else case decodeBeacon (take kDatagramBuf d) of None \<Rightarrow> (None, diag)
            | Some b \<Rightarrow>
                let b1 = (if ipstr \<noteq> [] then b\<lparr>b_ip := ipstr\<rparr> else b) in
                (Some b1, diag\<lparr>rd_decoded := True, rd_machineId := b_id b1\<rparr>))"

text \<open>Opening the receiver; the two errors are those of \<open>socket\<close> and \<open>bind\<close>.\<close>

record socket_io =
  so_wsa :: bool
  so_socket :: os_error
  so_bind :: os_error

definition openBeaconReceiver :: "socket_io \<Rightarrow> u16 \<Rightarrow> string + u16" where
  "openBeaconReceiver io port =
     (if \<not> so_wsa io then Inl ''WSAStartup failed''
      else case so_socket io of Some e \<Rightarrow> Inl (''socket() failed err='' @ int_to_string e)
        | None \<Rightarrow>
            (case so_bind io of Some e \<Rightarrow> Inl (''bind('' @ nat_to_string (unat port) @ '') failed err='' @ int_to_string e)
             | None \<Rightarrow> Inr port))"

definition receiveBeacon :: "(int \<Rightarrow> bool) \<Rightarrow> socket_io \<Rightarrow> u16 \<Rightarrow> datagram \<Rightarrow> Beacon option \<times> string" where
  "receiveBeacon isTimeoutErr io port dg =
     (if \<not> so_wsa io then (None, ''WSAStartup failed'')
      else case so_socket io of Some e \<Rightarrow> (None, ''socket() failed err='' @ int_to_string e)
        | None \<Rightarrow>
            (case so_bind io of Some e \<Rightarrow> (None, ''bind('' @ nat_to_string (unat port) @ '') failed err='' @ int_to_string e)
             | None \<Rightarrow> (fst (recvDecodeOnce isTimeoutErr dg), [])))"

definition pollBeacon :: "(int \<Rightarrow> bool) \<Rightarrow> u16 option \<Rightarrow> datagram \<Rightarrow> Beacon option \<times> RecvDiag option" where
  "pollBeacon isTimeoutErr r dg =
     (case r of None \<Rightarrow> (None, None) | Some _ \<Rightarrow> (case recvDecodeOnce isTimeoutErr dg of (b, d) \<Rightarrow> (b, Some d)))"

section \<open>Wake-on-LAN\<close>

type_synonym Mac = bytes

definition buildMagicPacket :: "Mac \<Rightarrow> bytes" where
  "buildMagicPacket mac = replicate 6 0xFF @ concat (replicate 16 mac)"

text \<open>
  \<open>sscanf\<close> with \<open>%x\<close>: blanks, a sign and \<open>0x\<close> may precede the digits; the value wraps to the
  32 bits of the \<open>int\<close> it is stored in, as the C runtime does.
\<close>

definition isspace :: "char \<Rightarrow> bool" where
  "isspace c \<longleftrightarrow> c \<in> {CHR '' '', CHR 0x09, CHR 0x0A, CHR 0x0B, CHR 0x0C, CHR 0x0D}"

definition hex_digit :: "char \<Rightarrow> nat option" where
  "hex_digit c =
     (let n = (of_char c :: nat) in
      if 48 \<le> n \<and> n \<le> 57 then Some (n - 48)
      else if 65 \<le> n \<and> n \<le> 70 then Some (n - 55)
      else if 97 \<le> n \<and> n \<le> 102 then Some (n - 87)
      else None)"

definition isxdigit :: "char \<Rightarrow> bool" where
  "isxdigit c \<longleftrightarrow> hex_digit c \<noteq> None"

definition strip_sign :: "string \<Rightarrow> bool \<times> string" where
  "strip_sign s = (case s of c # r \<Rightarrow> if c = CHR ''-'' then (True, r) else if c = CHR ''+'' then (False, r) else (False, s)
     | [] \<Rightarrow> (False, s))"

definition strip_0x :: "string \<Rightarrow> string" where
  "strip_0x s = (case s of a # b # r \<Rightarrow> if a = CHR ''0'' \<and> b \<in> {CHR ''x'', CHR ''X''} then r else s | _ \<Rightarrow> s)"

definition scan_hex :: "string \<Rightarrow> (int \<times> string) option" where
  "scan_hex s =
     (case strip_sign (dropWhile isspace s) of (neg, s1) \<Rightarrow>
        let s2 = strip_0x s1; ds = takeWhile isxdigit s2; n = foldl (\<lambda>v c. v * 16 + int (the (hex_digit c))) 0 ds in
        if ds = [] then None else Some (sint (word_of_int (if neg then - n else n) :: u32), dropWhile isxdigit s2))"

text \<open>\<open>%x%c%x%c...%x\<close> with nothing behind it: the six numbers and the characters between them.\<close>

fun scan_groups :: "nat \<Rightarrow> string \<Rightarrow> (int list \<times> char list) option" where
  "scan_groups 0 s = (if s = [] then Some ([], []) else None)"
| "scan_groups (Suc k) s =
     (case scan_hex s of None \<Rightarrow> None
      | Some (v, r) \<Rightarrow>
          if k = 0 then (if r = [] then Some ([v], []) else None)
          else (case r of [] \<Rightarrow> None
            | c # r' \<Rightarrow> map_option (\<lambda>(vs, cs). (v # vs, c # cs)) (scan_groups k r')))"

definition parseMac :: "string \<Rightarrow> Mac option" where
  "parseMac s =
     (case scan_groups 6 s of None \<Rightarrow> None
      | Some (values, seps) \<Rightarrow>
          let sep = hd seps in
          if (sep \<noteq> CHR '':'' \<and> sep \<noteq> CHR ''-'') \<or> \<not> list_all (\<lambda>c. c = sep) seps then None
          else if list_all (\<lambda>v. 0 \<le> v \<and> v \<le> 255) values then Some (map word_of_int values) else None)"

definition sendMagicPacket :: "socket_io \<Rightarrow> (string \<Rightarrow> u32 option) \<Rightarrow> nat \<Rightarrow> Mac \<Rightarrow> string \<Rightarrow> bool \<times> sent_packet list" where
  "sendMagicPacket io aton accepted mac broadcastIp =
     (if \<not> so_wsa io \<or> so_socket io \<noteq> None then (False, [])
      else let packet = buildMagicPacket mac; dst = (case aton broadcastIp of None \<Rightarrow> 0 | Some a \<Rightarrow> a) in
        (accepted = length packet, [\<lparr>sp_from = None, sp_dst = dst, sp_data = packet\<rparr>]))"

section \<open>Session tokens\<close>

record SessionToken =
  st_value :: bytes
  st_expires :: u64

definition issue :: "bytes \<Rightarrow> u64 \<Rightarrow> u64 \<Rightarrow> SessionToken list \<Rightarrow> SessionToken \<times> SessionToken list" where
  "issue rnd now ttl ts = (let t = \<lparr>st_value = rnd, st_expires = now + ttl\<rparr> in (t, ts @ [t]))"

fun validate :: "bytes \<Rightarrow> u64 \<Rightarrow> SessionToken list \<Rightarrow> bool" where
  "validate token now [] = False"
| "validate token now (t # ts) = (if st_expires t > now \<and> st_value t = token then True else validate token now ts)"

definition purgeExpired :: "u64 \<Rightarrow> SessionToken list \<Rightarrow> SessionToken list" where
  "purgeExpired now ts = filter (\<lambda>t. \<not> st_expires t \<le> now) ts"

text \<open>A history of a token store.\<close>

datatype token_op = Issue bytes u64 u64 | Purge u64

fun token_run :: "token_op list \<Rightarrow> SessionToken list \<Rightarrow> SessionToken list" where
  "token_run [] ts = ts"
| "token_run (Issue r now ttl # ops) ts = token_run ops (snd (issue r now ttl ts))"
| "token_run (Purge now # ops) ts = token_run ops (purgeExpired now ts)"

section \<open>Lemmas\<close>

lemma validate_iff: "validate token now ts \<longleftrightarrow> (\<exists>t\<in>set ts. st_expires t > now \<and> st_value t = token)"
  by (induction ts) auto

lemma octet_ranges:
  fixes n :: nat
  assumes "q = n div 65536"
  shows "n div 16777216 = q div 256" "a \<le> q \<longleftrightarrow> a * 65536 \<le> n" "q \<le> a \<longleftrightarrow> n \<le> a * 65536 + 65535"
    "q div 256 = k \<and> q mod 256 = m \<longleftrightarrow> m < 256 \<and> q = 256 * k + m" "q div 256 = k \<longleftrightarrow> 256 * k \<le> q \<and> q \<le> 256 * k + 255"
    "q div 256 = k \<and> 16 \<le> q mod 256 \<and> q mod 256 \<le> 31 \<longleftrightarrow> 256 * k + 16 \<le> q \<and> q \<le> 256 * k + 31"
proof -
  show "n div 16777216 = q div 256" using assms by (simp add: div_mult2_eq [symmetric])
  show "a \<le> q \<longleftrightarrow> a * 65536 \<le> n" using assms by (simp add: less_eq_div_iff_mult_less_eq)
  have "q < Suc a \<longleftrightarrow> n < Suc a * 65536" unfolding assms by (rule div_less_iff_less_mult) simp
  also have "Suc a * 65536 = Suc (a * 65536 + 65535)" by simp
  finally show "q \<le> a \<longleftrightarrow> n \<le> a * 65536 + 65535" unfolding less_Suc_eq_le .
  obtain d r where q: "q = 256 * d + r" "r < 256"
    by (metis mult_div_mod_eq mod_less_divisor zero_less_numeral)
  then have dr: "q div 256 = d" "q mod 256 = r" by simp_all
  have step: "d = k \<longleftrightarrow> 256 * k \<le> q \<and> q \<le> 256 * k + 255" using q by linarith
  then show "q div 256 = k \<longleftrightarrow> 256 * k \<le> q \<and> q \<le> 256 * k + 255" unfolding dr .
  show "q div 256 = k \<and> q mod 256 = m \<longleftrightarrow> m < 256 \<and> q = 256 * k + m" unfolding dr using q step by linarith
  show "q div 256 = k \<and> 16 \<le> q mod 256 \<and> q mod 256 \<le> 31 \<longleftrightarrow> 256 * k + 16 \<le> q \<and> q \<le> 256 * k + 31"
    unfolding dr using q step by linarith
qed

lemma subnet_bcast_bits:
  assumes "1 \<le> prefix" "prefix \<le> 32" "i < 32"
  shows "bit (subnet_bcast ip prefix) i \<longleftrightarrow> i < 32 - prefix \<or> bit ip i"
proof (cases "prefix = 32")
  case True
  have "subnet_bcast ip prefix = ip AND mask 32 OR NOT (mask 32)"
    using True by (simp add: subnet_bcast_def mask_eq_exp_minus_1)
  then show ?thesis using True assms by (simp add: bit_simps)
next
  case False
  have m: "(2 :: u32) ^ (32 - prefix) - 1 = mask (32 - prefix)" by (simp add: mask_eq_exp_minus_1)
  show ?thesis using False assms by (auto simp: subnet_bcast_def m bit_simps Let_def)
qed

lemma private_test: "isPrivateAddr 0xC0A80107"
  by (simp add: isPrivateAddr_def Let_def)

section \<open>Properties\<close>

text \<open>
  The address test is the private, link-local and loopback ranges: 10.0.0.0/8,
  172.16.0.0/12, 192.168.0.0/16, 169.254.0.0/16 and 127.0.0.0/8, and no other address.
\<close>

theorem private_ranges:
  "isPrivateAddr h \<longleftrightarrow>
     h \<in> {0x0A000000 .. 0x0AFFFFFF} \<union> {0xAC100000 .. 0xAC1FFFFF} \<union> {0xC0A80000 .. 0xC0A8FFFF}
       \<union> {0xA9FE0000 .. 0xA9FEFFFF} \<union> {0x7F000000 .. 0x7FFFFFFF}"
proof -
  define n q where "n = unat h" and "q = n div 65536"
  note r = octet_ranges [OF q_def]
  have lt: "n < 4294967296" using unsigned_less [where 'a = nat, of h] by (simp add: n_def)
  have octet: "unat (ucast (drop_bit k h AND 0xFF) :: u8) = n div 2 ^ k mod 256" for k
  proof -
    have m: "(0xFF :: u32) = mask 8" by (simp add: mask_eq_exp_minus_1)
    have "ucast (drop_bit k h AND 0xFF) = (ucast (drop_bit k h) :: u8)"
      unfolding m by (rule bit_word_eqI) (simp add: bit_simps)
    moreover have "take_bit 32 (unat h) = unat h" using lt by (simp add: n_def take_bit_nat_eq_self)
    ultimately have "unat (ucast (drop_bit k h AND 0xFF) :: u8) = take_bit 8 (drop_bit k n)"
      by (simp add: n_def unsigned_ucast_eq unsigned_drop_bit_eq)
    then show ?thesis by (simp add: take_bit_eq_mod drop_bit_eq_div)
  qed
  have a: "unat (ucast (drop_bit 24 h AND 0xFF) :: u8) = q div 256"
    using octet [of 24] r(1) lt by (simp add: less_mult_imp_div_less)
  have b: "unat (ucast (drop_bit 16 h AND 0xFF) :: u8) = q mod 256"
    using octet [of 16] by (simp add: q_def)
  have "isPrivateAddr h \<longleftrightarrow> q div 256 = 10 \<or> (q div 256 = 172 \<and> 16 \<le> q mod 256 \<and> q mod 256 \<le> 31)
      \<or> (q div 256 = 192 \<and> q mod 256 = 168) \<or> (q div 256 = 169 \<and> q mod 256 = 254) \<or> q div 256 = 127"
    unfolding isPrivateAddr_def Let_def word_unat_eq_iff word_le_nat_alt a b by simp
  also have "\<dots> \<longleftrightarrow> (2560 \<le> q \<and> q \<le> 2815) \<or> (44048 \<le> q \<and> q \<le> 44063) \<or> (49320 \<le> q \<and> q \<le> 49320)
      \<or> (43518 \<le> q \<and> q \<le> 43518) \<or> (32512 \<le> q \<and> q \<le> 32767)"
    unfolding r(4,6) unfolding r(5) by auto
  finally show ?thesis unfolding r(2,3) word_le_nat_alt atLeastAtMost_iff Un_iff n_def [symmetric] by simp
qed

text \<open>
  A beacon reply goes to at most one address, a private one, and carries the beacon; when
  the text is not such an address nothing is sent.
\<close>

theorem replies_stay_private:
  "(\<forall>p\<in>set (snd (sendBeaconTo wsa aton io b ip)). isPrivateIpv4 aton ip \<and> Some (sp_dst p) = aton ip
      \<and> isPrivateAddr (sp_dst p) \<and> sp_data p = encodeBeacon b)
    \<and> (fst (sendBeaconTo wsa aton io b ip) \<longrightarrow> length (snd (sendBeaconTo wsa aton io b ip)) = 1)"
  by (auto simp: sendBeaconTo_def isPrivateIpv4_def split: option.splits)

theorem replies_stay_private_witness:
  "map sp_dst (snd (sendBeaconTo True (\<lambda>_. Some 0xC0A80107) (Some None) \<lparr>b_name = ''pc'', b_id = ''i'', b_ip = [], b_port = 1, b_os = 0, b_wol = 0\<rparr> ''192.168.1.7''))
     = [0xC0A80107]
   \<and> (fst (sendBeaconTo True (\<lambda>_. Some 0xC0A80107) (Some None) \<lparr>b_name = ''pc'', b_id = ''i'', b_ip = [], b_port = 1, b_os = 0, b_wol = 0\<rparr> ''192.168.1.7'')
       \<longrightarrow> length (snd (sendBeaconTo True (\<lambda>_. Some 0xC0A80107) (Some None) \<lparr>b_name = ''pc'', b_id = ''i'', b_ip = [], b_port = 1, b_os = 0, b_wol = 0\<rparr> ''192.168.1.7'')) = 1)"
  using replies_stay_private [of True "\<lambda>_. Some 0xC0A80107" "Some None" "\<lparr>b_name = ''pc'', b_id = ''i'', b_ip = [], b_port = 1, b_os = 0, b_wol = 0\<rparr>" "''192.168.1.7''"]
  by (simp add: sendBeaconTo_def private_test)

lemma beacon_loop_result:
  "beacon_loop pkt nics io (any, out, rep) =
     (any \<or> (\<exists>n\<in>set nics. fst (nic_beacon pkt n (io n))),
      out @ concat (map (\<lambda>n. fst (snd (nic_beacon pkt n (io n)))) nics),
      rep @ concat (map (\<lambda>n. snd (snd (nic_beacon pkt n (io n)))) nics))"
  by (induction nics arbitrary: any out rep) (auto split: prod.splits)

lemma nic_listed:
  assumes "a \<in> set as" "ad_up a" "\<not> ad_loopback a" "Some (ip, prefix) \<in> set (ad_addrs a)" "1 \<le> prefix" "prefix \<le> 32"
  shows "\<lparr>nic_local = ip, nic_bcast = subnet_bcast ip prefix\<rparr> \<in> set (localInterfaces (Some as))"
proof -
  have "\<lparr>nic_local = ip, nic_bcast = subnet_bcast ip prefix\<rparr> \<in> set (adapter_nics a)"
    using assms by (force simp: adapter_nics_def List.map_filter_def)
  then show ?thesis using assms(1) by (auto simp: localInterfaces_def)
qed

text \<open>
  A beacon broadcast reaches for every network: each IPv4 address of an adapter that is up
  and no loopback, with a prefix of 1 to 32 bits, and a socket, gets the beacon sent both to
  its subnet's broadcast address, the address with all host bits set, and to the limited
  broadcast address; the call reports success iff one of its sends succeeded.
\<close>

theorem beacon_covers_lan:
  assumes "a \<in> set as" "ad_up a" "\<not> ad_loopback a" "Some (ip, prefix) \<in> set (ad_addrs a)" "1 \<le> prefix" "prefix \<le> 32"
    and "io \<lparr>nic_local = ip, nic_bcast = subnet_bcast ip prefix\<rparr> = Some r"
  shows "\<exists>any out rep. broadcastBeacon True (Some as) io fallback b = (any, out, rep)
    \<and> (\<exists>p\<in>set out. sp_dst p = subnet_bcast ip prefix \<and> sp_data p = encodeBeacon b)
    \<and> (\<exists>p\<in>set out. sp_dst p = INADDR_BROADCAST \<and> sp_data p = encodeBeacon b)
    \<and> (\<forall>i<32. bit (subnet_bcast ip prefix) i \<longleftrightarrow> i < 32 - prefix \<or> bit ip i)
    \<and> (any \<longleftrightarrow> (\<exists>n\<in>set (localInterfaces (Some as)). \<exists>r. io n = Some r \<and> (io_sub r = None \<or> io_lim r = None)))"
proof -
  let ?nic = "\<lparr>nic_local = ip, nic_bcast = subnet_bcast ip prefix\<rparr>"
  let ?nics = "localInterfaces (Some as)"
  have mem: "?nic \<in> set ?nics" by (rule nic_listed [OF assms(1-6)])
  then have ne: "?nics \<noteq> []" by auto
  have any: "fst (nic_beacon (encodeBeacon b) n (io n)) \<longleftrightarrow> (\<exists>r. io n = Some r \<and> (io_sub r = None \<or> io_lim r = None))" for n
    by (auto simp: nic_beacon_def Let_def split: option.splits)
  have "broadcastBeacon True (Some as) io fallback b = beacon_loop (encodeBeacon b) ?nics io (False, [], [])"
    using ne by (simp add: broadcastBeacon_def Let_def split: prod.split)
  moreover have "\<exists>p\<in>set (fst (snd (nic_beacon (encodeBeacon b) ?nic (io ?nic)))). sp_dst p = subnet_bcast ip prefix \<and> sp_data p = encodeBeacon b"
      "\<exists>p\<in>set (fst (snd (nic_beacon (encodeBeacon b) ?nic (io ?nic)))). sp_dst p = INADDR_BROADCAST \<and> sp_data p = encodeBeacon b"
    by (simp_all add: nic_beacon_def assms(7) Let_def)
  ultimately show ?thesis
    using mem any subnet_bcast_bits [OF assms(5,6)] by (simp add: beacon_loop_result) blast
qed

theorem beacon_covers_lan_witness:
  "\<exists>any out rep. broadcastBeacon True (Some [\<lparr>ad_up = True, ad_loopback = False, ad_addrs = [Some (0xC0A80107, 24)]\<rparr>])
      (\<lambda>_. Some \<lparr>io_bind = True, io_sub = None, io_lim = Some 10013\<rparr>) None
      \<lparr>b_name = ''pc'', b_id = ''i'', b_ip = [], b_port = 1, b_os = 0, b_wol = 0\<rparr> = (any, out, rep)
    \<and> (\<exists>p\<in>set out. sp_dst p = subnet_bcast 0xC0A80107 24)"
  using beacon_covers_lan [of "\<lparr>ad_up = True, ad_loopback = False, ad_addrs = [Some (0xC0A80107, 24)]\<rparr>"
      "[\<lparr>ad_up = True, ad_loopback = False, ad_addrs = [Some (0xC0A80107, 24)]\<rparr>]" "0xC0A80107" 24
      "\<lambda>_. Some \<lparr>io_bind = True, io_sub = None, io_lim = Some 10013\<rparr>" "\<lparr>io_bind = True, io_sub = None, io_lim = Some 10013\<rparr>" None
      "\<lparr>b_name = ''pc'', b_id = ''i'', b_ip = [], b_port = 1, b_os = 0, b_wol = 0\<rparr>"]
  by fastforce

text \<open>
  Across the network: the datagram a machine sends for its beacon is received as that
  beacon with the address it really came from, whatever address it claimed.
\<close>

theorem beacon_hop:
  assumes "beacon_ok b" "length (encodeBeacon b) \<le> 2048" "src \<noteq> []"
  shows "\<exists>d. recvDecodeOnce isTimeoutErr (Datagram (encodeBeacon b) src) = (Some (b\<lparr>b_ip := src\<rparr>), d)
    \<and> rd_decoded d \<and> rd_machineId d = b_id b \<and> rd_srcIp d = src \<and> \<not> rd_timedOut d"
proof -
  have "encodeBeacon b \<noteq> []" by (simp add: encodeBeacon_def kMagic_def)
  then show ?thesis
    using assms beacon_codec.roundtrip [OF assms(1)] by (simp add: recvDecodeOnce_def kDatagramBuf_def Let_def)
qed

theorem beacon_hop_witness:
  "\<exists>d. recvDecodeOnce (\<lambda>_. False) (Datagram (encodeBeacon \<lparr>b_name = ''pc'', b_id = ''i'', b_ip = ''6.6.6.6'', b_port = 1, b_os = 0, b_wol = 0\<rparr>) ''192.168.1.7'')
      = (Some \<lparr>b_name = ''pc'', b_id = ''i'', b_ip = ''192.168.1.7'', b_port = 1, b_os = 0, b_wol = 0\<rparr>, d) \<and> rd_decoded d"
  using beacon_hop [of "\<lparr>b_name = ''pc'', b_id = ''i'', b_ip = ''6.6.6.6'', b_port = 1, b_os = 0, b_wol = 0\<rparr>" "''192.168.1.7''" "\<lambda>_. False"]
  by (auto simp: beacon_ok_def encodeBeacon_def kMagic_def putStr16_def Let_def)

lemma token_run_mem:
  "\<forall>op\<in>set ops. case op of Purge p \<Rightarrow> p \<le> now | _ \<Rightarrow> True \<Longrightarrow>
    (\<exists>t\<in>set (token_run ops ts). st_expires t > now \<and> st_value t = token) \<longleftrightarrow>
    (\<exists>t\<in>set ts. st_expires t > now \<and> st_value t = token) \<or> (\<exists>at ttl. Issue token at ttl \<in> set ops \<and> at + ttl > now)"
proof (induction ops arbitrary: ts)
  case (Cons op ops)
  show ?case
  proof (cases op)
    case (Issue r at ttl)
    then show ?thesis using Cons by (auto simp: issue_def Let_def)
  next
    case (Purge p)
    then have "(\<exists>t\<in>set (purgeExpired p ts). st_expires t > now \<and> st_value t = token)
        \<longleftrightarrow> (\<exists>t\<in>set ts. st_expires t > now \<and> st_value t = token)"
      using Cons.prems by (auto simp: purgeExpired_def)
    then show ?thesis using Cons Purge by auto
  qed
qed simp

text \<open>
  Over every history of a token store whose clock has not run past \<open>now\<close>, a token is valid
  at \<open>now\<close> iff it was issued with an expiry, the 64-bit sum of its time and its lifetime,
  later than \<open>now\<close>; purging never takes a token that is still valid.
\<close>

theorem tokens_valid_until_expiry:
  assumes "\<forall>op\<in>set ops. case op of Purge p \<Rightarrow> p \<le> now | _ \<Rightarrow> True"
  shows "validate token now (token_run ops []) \<longleftrightarrow> (\<exists>at ttl. Issue token at ttl \<in> set ops \<and> at + ttl > now)"
  using token_run_mem [OF assms, of "[]" token] by (simp add: validate_iff)

theorem tokens_valid_until_expiry_witness:
  "validate [7] 100 (token_run [Issue [7] 50 60, Purge 90, Issue [8] (- 5) 60] [])
     \<and> \<not> validate [8] 100 (token_run [Issue [7] 50 60, Purge 90, Issue [8] (- 5) 60] [])"
  using tokens_valid_until_expiry [of "[Issue [7] 50 60, Purge 90, Issue [8] (- 5) 60]" 100 "[7]"]
    tokens_valid_until_expiry [of "[Issue [7] 50 60, Purge 90, Issue [8] (- 5) 60]" 100 "[8]"] by auto


text \<open>
  Waking a machine: the usual spellings of its hardware address, six pairs of hex digits
  separated by colons or by hyphens, are read as its six bytes, and the packet sent for them
  is six bytes of ones followed by the address sixteen times.
\<close>

definition hex_char :: "nat \<Rightarrow> char" where
  "hex_char n = (if n < 10 then char_of (48 + n) else char_of (55 + n))"

definition hex_pair :: "u8 \<Rightarrow> string" where
  "hex_pair b = [hex_char (unat b div 16), hex_char (unat b mod 16)]"

lemma hex_char_digit: "n < 16 \<Longrightarrow> hex_digit (hex_char n) = Some n"
  by (auto simp: hex_digit_def hex_char_def Let_def)

lemma hex_char_plain: "n < 16 \<Longrightarrow> \<not> isspace (hex_char n) \<and> hex_char n \<notin> {CHR ''-'', CHR ''+'', CHR ''x'', CHR ''X''}"
proof -
  assume "n < 16"
  then have "hex_digit (hex_char n) \<noteq> None" using hex_char_digit by simp
  then show ?thesis by (auto simp: hex_digit_def isspace_def Let_def split: if_splits)
qed

lemma scan_hex_pair:
  assumes "case r of [] \<Rightarrow> True | c # _ \<Rightarrow> \<not> isxdigit c"
  shows "scan_hex (hex_pair b @ r) = Some (uint b, r)"
proof -
  let ?h = "hex_char (unat b div 16)" and ?l = "hex_char (unat b mod 16)"
  have lt: "unat b div 16 < 16" "unat b mod 16 < 16" using unsigned_less [where 'a = nat, of b] by simp_all
  note h = hex_char_plain [OF lt(1)] hex_char_digit [OF lt(1)] and l = hex_char_plain [OF lt(2)] hex_char_digit [OF lt(2)]
  have x: "isxdigit ?h" "isxdigit ?l" using h l by (simp_all add: isxdigit_def)
  have s: "strip_sign (dropWhile isspace (hex_pair b @ r)) = (False, hex_pair b @ r)" "strip_0x (hex_pair b @ r) = hex_pair b @ r"
    using h l by (simp_all add: hex_pair_def strip_sign_def strip_0x_def)
  have t: "takeWhile isxdigit (hex_pair b @ r) = hex_pair b" "dropWhile isxdigit (hex_pair b @ r) = r"
    using x assms by (cases r; simp add: hex_pair_def)+
  have v: "int (unat b div 16) * 16 + int (unat b mod 16) = uint b"
    by (metis div_mult_mod_eq of_nat_add of_nat_mult of_nat_numeral uint_nat)
  have "signed_take_bit 31 (uint b) = uint b"
    using unsigned_less [where 'a = int, of b] order_trans [of "- (2 ^ 31)" 0 "uint b"]
    by (intro signed_take_bit_int_eq_self) simp_all
  then have "sint (word_of_int (uint b) :: u32) = uint b" by (subst signed_of_int) (simp del: word_of_int_uint)
  moreover have "foldl (\<lambda>v c. v * 16 + int (the (hex_digit c))) 0 (hex_pair b) = uint b"
    using h l v by (simp add: hex_pair_def)
  moreover have "hex_pair b \<noteq> []" by (simp add: hex_pair_def)
  ultimately show ?thesis unfolding scan_hex_def s by (simp only: prod.case Let_def s t if_False)
qed

lemma scan_last: "scan_groups (Suc 0) (hex_pair b) = Some ([uint b], [])"
  using scan_hex_pair [of "[]" b] by simp

lemma scan_group_Suc:
  assumes "\<not> isxdigit sep"
  shows "scan_groups (Suc (Suc k)) (hex_pair b @ sep # r) = map_option (\<lambda>(vs, cs). (uint b # vs, sep # cs)) (scan_groups (Suc k) r)"
  using scan_hex_pair [of "sep # r" b] assms by simp

theorem wake_packet:
  assumes "sep = CHR '':'' \<or> sep = CHR ''-''"
  shows "parseMac (hex_pair a @ [sep] @ hex_pair b @ [sep] @ hex_pair c @ [sep] @ hex_pair d @ [sep] @ hex_pair e @ [sep] @ hex_pair f)
      = Some [a, b, c, d, e, f]
    \<and> snd (sendMagicPacket \<lparr>so_wsa = True, so_socket = None, so_bind = None\<rparr> (\<lambda>_. Some INADDR_BROADCAST) n [a, b, c, d, e, f] ip)
      = [\<lparr>sp_from = None, sp_dst = INADDR_BROADCAST, sp_data = replicate 6 0xFF @ concat (replicate 16 [a, b, c, d, e, f])\<rparr>]
    \<and> length (buildMagicPacket [a, b, c, d, e, f]) = 102"
proof -
  have sep: "\<not> isxdigit sep" using assms by (auto simp: isxdigit_def hex_digit_def)
  have six: "(6 :: nat) = Suc (Suc (Suc (Suc (Suc (Suc 0)))))" by simp
  have le: "0 \<le> uint x \<and> uint x \<le> 255" for x :: u8 using unsigned_less [where 'a = int, of x] by simp
  have "scan_groups 6 (hex_pair a @ [sep] @ hex_pair b @ [sep] @ hex_pair c @ [sep] @ hex_pair d @ [sep] @ hex_pair e @ [sep] @ hex_pair f)
      = Some ([uint a, uint b, uint c, uint d, uint e, uint f], [sep, sep, sep, sep, sep])"
    unfolding six append.simps by (simp add: scan_group_Suc [OF sep] scan_last del: scan_groups.simps)
  then show ?thesis using assms le
    by (auto simp: parseMac_def Let_def sendMagicPacket_def buildMagicPacket_def length_concat sum_list_replicate)
qed

theorem wake_packet_witness: "parseMac ''00:1A:2B:3C:4D:FF'' = Some [0, 0x1A, 0x2B, 0x3C, 0x4D, 0xFF]"
  using wake_packet [of "CHR '':''" 0 "0x1A" "0x2B" "0x3C" "0x4D" "0xFF" 0 "[]", THEN conjunct1]
  by (simp add: hex_pair_def hex_char_def char_of_def bit_0)

end
