(* ===== verification/TrayApp.thy ===== *)
theory TrayApp
  imports Connections Capture Config WakeFlow LanSockets
begin

text \<open>
  The tray application of \<open>platform/tray_win.cpp\<close> as its UI thread runs it, with the menu
  model \<open>ui/menu_model.cpp\<close>: the mesh's callbacks, the capture hooks, the pump and the window
  messages.  The state is the record of the members of \<open>AppState\<close> this thread uses.  The mesh's
  callbacks run where the code runs them: each operation of the mesh and the manager is
  one \<open>app_do\<close>, whose calls are executed before the next operation.  \<open>ui_env\<close> holds what the
  system answers while one window message is handled.
\<close>

section \<open>The machine list\<close>

record MenuItem =
  mi_id :: PeerId
  mi_name :: string
  mi_owner :: bool
  mi_online :: bool
  mi_self :: bool

definition buildMachineMenu :: "PairedDevice list \<Rightarrow> PeerId \<Rightarrow> PeerId \<Rightarrow> PeerId list \<Rightarrow> MenuItem list" where
  "buildMachineMenu devs self own online =
     map (\<lambda>d. \<lparr>mi_id = pd_id d, mi_name = pd_name d, mi_owner = (pd_id d = own),
               mi_online = (pd_id d = self \<or> pd_id d \<in> set online), mi_self = (pd_id d = self)\<rparr>) devs"

section \<open>State\<close>

datatype injector_call = InjMouseMove u16 u16 | InjMouseButton u8 bool | InjKey u8 bool

datatype app_out =
    Toast string
  | InjectorCall injector_call
  | SetClipboardText string
  | FilePromiseUi PeerId "FilePromiseItem list"
  | CaptureCall capture_out
  | MagicPacket "sent_packet list"
  | PostEscape
  | HookResult bool

record ui_env =
  ue_now :: u64
  ue_mouseHook :: bool
  ue_keyHook :: bool
  ue_centre :: "int \<times> int"
  ue_wol :: socket_io

record 't AppState =
  ap_config :: Config
  ap_cm :: "'t ConnectionManager"
  ap_capture :: WinCapture
  ap_driving :: bool
  ap_wake :: WakeFlow
  ap_self :: PeerId
  ap_pendingLinks :: "(PeerId \<times> 't option \<times> bool) list"
  ap_connectedIds :: "PeerId list"

definition ap_mesh :: "'t AppState \<Rightarrow> MeshNode" where
  "ap_mesh app = cm_mesh (ap_cm app)"

section \<open>Callbacks\<close>

definition syncCapture :: "'t transport_ops \<Rightarrow> ui_env \<Rightarrow> 't AppState \<Rightarrow> 't AppState \<times> app_out list" where
  "syncCapture ops env app =
     (let app1 = (if \<not> mesh_isLocalOwner (ap_mesh app) then app\<lparr>ap_driving := False\<rparr> else app);
          want = (ap_driving app1 \<and> mesh_isLocalOwner (ap_mesh app1)) in
      if want \<and> \<not> wc_installed (ap_capture app1) then
        (case capture_start (ue_mouseHook env) (ue_keyHook env) (ue_centre env) (ap_capture app1) of
           (_, c, os) \<Rightarrow> (app1\<lparr>ap_capture := c\<rparr>, map CaptureCall os))
      else if \<not> want \<and> wc_installed (ap_capture app1) then
        (app1\<lparr>ap_capture := capture_stop (ap_capture app1),
              ap_cm := fst (with_mesh ops (releaseHeldKeys (ucast (ue_now env))) (ap_cm app1))\<rparr>, [])
      else (app1, []))"

definition onInject :: "InputEvent \<Rightarrow> app_out list" where
  "onInject e =
     (if ev_type e = mt_code MouseMove then [InjectorCall (InjMouseMove (ev_dx e) (ev_dy e))]
      else if ev_type e = mt_code MouseButton then [InjectorCall (InjMouseButton (ev_code e) (ev_down e \<noteq> 0))]
      else if ev_type e = mt_code KeyEvent then [InjectorCall (InjKey (ev_code e) (ev_down e \<noteq> 0))]
      else [])"

definition find_device :: "PeerId \<Rightarrow> 't AppState \<Rightarrow> PairedDevice option" where
  "find_device peer app = find (\<lambda>d. pd_id d = peer) (cfg_devices (ap_config app))"

definition onSwitchUnavailable :: "ui_env \<Rightarrow> PeerId \<Rightarrow> 't AppState \<Rightarrow> 't AppState \<times> app_out list" where
  "onSwitchUnavailable env peer app =
     (case find_device peer app of
        None \<Rightarrow> (app, [Toast (peer @ '' is unavailable'')])
      | Some dev \<Rightarrow>
          (case (if pd_wol dev \<and> pd_mac dev \<noteq> [] then parseMac (pd_mac dev) else None) of
             None \<Rightarrow> (app, [Toast (peer @ '' is unavailable'')])
           | Some mac \<Rightarrow>
               (app\<lparr>ap_wake := wake_start peer (ue_now env) 45000 (ap_wake app)\<rparr>,
                [MagicPacket (snd (sendMagicPacket (ue_wol env) (\<lambda>_. Some INADDR_BROADCAST) 102 mac ''255.255.255.255'')),
                 Toast (''Waking '' @ (if pd_name dev = [] then peer else pd_name dev))])))"

definition on_mesh_call :: "'t transport_ops \<Rightarrow> ui_env \<Rightarrow> mesh_out \<Rightarrow> 't AppState \<Rightarrow> 't AppState \<times> app_out list" where
  "on_mesh_call ops env out app =
     (case out of
        Inject e \<Rightarrow> (app, onInject e)
      | RemoteClipboard t \<Rightarrow> (app, [SetClipboardText t])
      | RemoteFilePromise from files \<Rightarrow> (app, [FilePromiseUi from files])
      | OwnerChanged p \<Rightarrow> (case syncCapture ops env app of (app1, o1) \<Rightarrow> (app1, Toast (''Input owner is now '' @ p) # o1))
      | PeerOffline p \<Rightarrow> (app, [Toast (''Lost connection to '' @ p)])
      | PeerOnline p \<Rightarrow> (app, [Toast (''Connected to '' @ p)])
      | SwitchUnavailable p \<Rightarrow> onSwitchUnavailable env p app
      | VersionMismatchWarning p \<Rightarrow> (app, [Toast (''Update Skittermouse on '' @ p)])
      | SendTo h m \<Rightarrow> (app, []))"

definition on_cm_call :: "'t transport_ops \<Rightarrow> ui_env \<Rightarrow> cm_out \<Rightarrow> 't AppState \<Rightarrow> 't AppState \<times> app_out list" where
  "on_cm_call ops env out app =
     (case out of
        PeerConnected p \<Rightarrow> (app\<lparr>ap_connectedIds := oset_insert p (ap_connectedIds app)\<rparr>, [])
      | PeerDisconnected p \<Rightarrow> (app\<lparr>ap_connectedIds := oset_erase p (ap_connectedIds app)\<rparr>, [])
      | MeshCall m \<Rightarrow> on_mesh_call ops env m app)"

text \<open>One operation of the manager or its mesh, with the calls it makes back.\<close>

definition app_do ::
  "'t transport_ops \<Rightarrow> ui_env \<Rightarrow> ('t ConnectionManager \<Rightarrow> 't ConnectionManager \<times> cm_out list) \<Rightarrow> 't AppState \<Rightarrow> 't AppState \<times> app_out list" where
  "app_do ops env f app =
     (case f (ap_cm app) of (cm, outs) \<Rightarrow> run_steps (on_cm_call ops env) outs (app\<lparr>ap_cm := cm\<rparr>))"

abbreviation mesh_op ::
  "'t transport_ops \<Rightarrow> ui_env \<Rightarrow> (MeshNode \<Rightarrow> MeshNode \<times> mesh_out list) \<Rightarrow> 't AppState \<Rightarrow> 't AppState \<times> app_out list" where
  "mesh_op ops env f \<equiv> app_do ops env (with_mesh ops f)"

text \<open>Sequencing.\<close>

definition and_then :: "'s \<times> 'o list \<Rightarrow> ('s \<Rightarrow> 's \<times> 'o list) \<Rightarrow> 's \<times> 'o list" where
  "and_then r g = (case r of (s, o1) \<Rightarrow> case g s of (s', o2) \<Rightarrow> (s', o1 @ o2))"

section \<open>The pump\<close>

definition register_link :: "'t transport_ops \<Rightarrow> PeerId \<times> 't option \<times> bool \<Rightarrow> 't AppState \<Rightarrow> 't AppState" where
  "register_link ops pl app =
     (case pl of (peer, t, outbound) \<Rightarrow>
        app\<lparr>ap_cm := (if outbound then addOutgoing ops peer t (ap_cm app) else addIncoming ops t (ap_cm app))\<rparr>)"

text \<open>The messages of the mesh's poll, peer by peer.\<close>

definition poll_messages :: "'t transport_ops \<Rightarrow> 't ConnectionManager \<Rightarrow> (PeerId \<times> bytes) list" where
  "poll_messages ops cm =
     concat (map (\<lambda>kv. case snd kv of None \<Rightarrow> [] | Some h \<Rightarrow> map (\<lambda>m. (fst kv, m)) (link_messages ops cm h kPollBuffer))
       (mn_peers (cm_mesh cm)))"

definition begin_mesh_poll :: "'t transport_ops \<Rightarrow> u64 \<Rightarrow> 't ConnectionManager \<Rightarrow> 't ConnectionManager" where
  "begin_mesh_poll ops now cm = (drain_links ops cm)\<lparr>cm_mesh := (cm_mesh cm)\<lparr>mn_now := now\<rparr>\<rparr>"

definition app_mesh_poll :: "'t transport_ops \<Rightarrow> ui_env \<Rightarrow> 't AppState \<Rightarrow> 't AppState \<times> app_out list" where
  "app_mesh_poll ops env app =
     and_then
       (run_steps (\<lambda>pm. mesh_op ops env (handle (ue_now env) (fst pm) (snd pm))) (poll_messages ops (ap_cm app))
          (app\<lparr>ap_cm := begin_mesh_poll ops (ue_now env) (ap_cm app)\<rparr>))
       (mesh_op ops env (refreshOnlineAndFailSafe (ue_now env)))"

definition app_cm_poll :: "'t transport_ops \<Rightarrow> ui_env \<Rightarrow> 't AppState \<Rightarrow> 't AppState \<times> app_out list" where
  "app_cm_poll ops env app =
     and_then (and_then (and_then
       (run_steps (\<lambda>p. app_do ops env (pending_step ops p)) (cm_pending (ap_cm app))
          (app\<lparr>ap_cm := (ap_cm app)\<lparr>cm_pending := []\<rparr>\<rparr>))
       (\<lambda>a. run_steps (\<lambda>e. app_do ops env (reap_step ops e)) (cm_connected (ap_cm a)) a))
       (app_mesh_poll ops env))
       (mesh_op ops env (sendHeartbeats (ue_now env)))"

definition pumpMesh :: "'t transport_ops \<Rightarrow> ui_env \<Rightarrow> 't AppState \<Rightarrow> 't AppState \<times> app_out list" where
  "pumpMesh ops env app =
     app_cm_poll ops env ((fold (register_link ops) (ap_pendingLinks app) app)\<lparr>ap_pendingLinks := []\<rparr>)"

section \<open>Window messages\<close>

definition controlPeer :: "'t transport_ops \<Rightarrow> ui_env \<Rightarrow> PeerId \<Rightarrow> 't AppState \<Rightarrow> 't AppState \<times> app_out list" where
  "controlPeer ops env peer app =
     (if \<not> isPeerOnline peer (ap_mesh app) then mesh_op ops env (mesh_requestSwitchTo peer) app
      else and_then (mesh_op ops env (mesh_requestSwitchTo (ap_self app)) app)
             (\<lambda>a. syncCapture ops env (a\<lparr>ap_driving := True\<rparr>)))"

definition stopDriving :: "'t transport_ops \<Rightarrow> ui_env \<Rightarrow> 't AppState \<Rightarrow> 't AppState \<times> app_out list" where
  "stopDriving ops env app = syncCapture ops env (app\<lparr>ap_driving := False\<rparr>)"

definition online_devices :: "'t AppState \<Rightarrow> PeerId list" where
  "online_devices app = map pd_id (filter (\<lambda>d. isPeerOnline (pd_id d) (ap_mesh app)) (cfg_devices (ap_config app)))"

definition machine_items :: "'t AppState \<Rightarrow> MenuItem list" where
  "machine_items app =
     buildMachineMenu (cfg_devices (ap_config app)) (ap_self app) (mesh_owner (ap_mesh app)) (online_devices app)"

definition kIdDeviceBase :: nat where
  "kIdDeviceBase = 41000"

record menu_row =
  mr_id :: nat
  mr_checked :: bool
  mr_greyed :: bool
  mr_text :: string

definition showMenu :: "'t AppState \<Rightarrow> menu_row list" where
  "showMenu app =
     (let items = machine_items app in
      if items = [] then [\<lparr>mr_id = 0, mr_checked = False, mr_greyed = True, mr_text = ''No devices paired''\<rparr>]
      else map (\<lambda>(i, it). \<lparr>mr_id = kIdDeviceBase + i, mr_checked = mi_owner it, mr_greyed = \<not> mi_online it, mr_text = mi_name it\<rparr>)
             (enumerate 0 items))"

definition menu_device :: "'t transport_ops \<Rightarrow> ui_env \<Rightarrow> nat \<Rightarrow> 't AppState \<Rightarrow> 't AppState \<times> app_out list" where
  "menu_device ops env wparam app =
     (let cmd = wparam mod 65536 in
      if cmd < kIdDeviceBase then (app, [])
      else let idx = cmd - kIdDeviceBase in
        if idx < length (cfg_devices (ap_config app)) then
          if ap_driving app then stopDriving ops env app
          else controlPeer ops env (pd_id (cfg_devices (ap_config app) ! idx)) app
        else (app, []))"

text \<open>\<open>pick\<close> is what the picker window returns for the rows, the empty string when dismissed.\<close>

definition on_hotkey :: "'t transport_ops \<Rightarrow> ui_env \<Rightarrow> (MenuItem list \<Rightarrow> PeerId) \<Rightarrow> 't AppState \<Rightarrow> 't AppState \<times> app_out list" where
  "on_hotkey ops env pick app =
     (let sel = pick (machine_items app) in if sel \<noteq> [] then controlPeer ops env sel app else (app, []))"

definition on_escape :: "'t transport_ops \<Rightarrow> ui_env \<Rightarrow> 't AppState \<Rightarrow> 't AppState \<times> app_out list" where
  "on_escape ops env app = (if ap_driving app then stopDriving ops env app else (app, []))"

definition drive_failsafe :: "'t AppState \<Rightarrow> 't AppState" where
  "drive_failsafe app =
     (if ap_driving app \<and> \<not> (\<exists>d\<in>set (cfg_devices (ap_config app)). isPeerOnline (pd_id d) (ap_mesh app))
      then app\<lparr>ap_driving := False\<rparr> else app)"

definition resolve_wake :: "'t transport_ops \<Rightarrow> ui_env \<Rightarrow> 't AppState \<Rightarrow> 't AppState \<times> app_out list" where
  "resolve_wake ops env app =
     (if \<not> isWaking (ap_wake app) then (app, [])
      else let target = wf_target (ap_wake app) in
        case wake_update (ue_now env) (isPeerOnline target (ap_mesh app)) (ap_wake app) of (st, w) \<Rightarrow>
          let app1 = app\<lparr>ap_wake := w\<rparr> in
          if st = WakeConnected then
            and_then (and_then (app1, [Toast (target @ '' is awake'')]) (mesh_op ops env (mesh_requestSwitchTo target)))
              (\<lambda>a. (a\<lparr>ap_wake := wake_reset (ap_wake a)\<rparr>, []))
          else if st = WakeTimedOut then (app1\<lparr>ap_wake := wake_reset w\<rparr>, [Toast (''Could not wake '' @ target)])
          else (app1, []))"

definition on_timer :: "'t transport_ops \<Rightarrow> ui_env \<Rightarrow> 't AppState \<Rightarrow> 't AppState \<times> app_out list" where
  "on_timer ops env app =
     and_then (and_then (pumpMesh ops env app) (\<lambda>a. syncCapture ops env (drive_failsafe a))) (resolve_wake ops env)"

section \<open>Captured input\<close>

definition to_i16 :: "int \<Rightarrow> u16" where
  "to_i16 i = word_of_int i"

definition captureSink :: "'t transport_ops \<Rightarrow> ui_env \<Rightarrow> CapturedEvent \<Rightarrow> 't AppState \<Rightarrow> 't AppState \<times> app_out list" where
  "captureSink ops env e =
     (let ts = ucast (ue_now env) in
      case e of
        CMove dx dy \<Rightarrow> mesh_op ops env (forwardMouseMove (to_i16 dx) (to_i16 dy) ts)
      | CButton code down \<Rightarrow> mesh_op ops env (forwardMouseButton code down ts)
      | CKey code down \<Rightarrow> mesh_op ops env (forwardKey code down ts))"

definition on_capture_out :: "'t transport_ops \<Rightarrow> ui_env \<Rightarrow> capture_out \<Rightarrow> 't AppState \<Rightarrow> 't AppState \<times> app_out list" where
  "on_capture_out ops env out app =
     (case out of
        Sink e \<Rightarrow> captureSink ops env e app
      | EscapeCall \<Rightarrow> (app, [PostEscape])
      | SetCursorPos x y \<Rightarrow> (app, [CaptureCall (SetCursorPos x y)]))"

definition on_hook :: "'t transport_ops \<Rightarrow> ui_env \<Rightarrow> hook_event \<Rightarrow> 't AppState \<Rightarrow> 't AppState \<times> app_out list" where
  "on_hook ops env e app =
     (case hook_proc e (ap_capture app) of (swallow, c, outs) \<Rightarrow>
        and_then (run_steps (on_capture_out ops env) outs (app\<lparr>ap_capture := c\<rparr>)) (\<lambda>a. (a, [HookResult swallow])))"

section \<open>The message loop\<close>

datatype 't ui_event =
    PumpMsg
  | TimerMsg
  | EscapeMsg
  | MenuCommand nat
  | HotkeyMsg "MenuItem list \<Rightarrow> PeerId"
  | HookMsg hook_event
  | ClipboardTextMsg string
  | ClipboardFilesMsg "FilePromiseItem list"
  | LinkReady PeerId "'t option" bool

fun ui_step :: "'t transport_ops \<Rightarrow> ui_env \<times> 't ui_event \<Rightarrow> 't AppState \<Rightarrow> 't AppState \<times> app_out list" where
  "ui_step ops (env, PumpMsg) app = pumpMesh ops env app"
| "ui_step ops (env, TimerMsg) app = on_timer ops env app"
| "ui_step ops (env, EscapeMsg) app = on_escape ops env app"
| "ui_step ops (env, MenuCommand cmd) app = menu_device ops env cmd app"
| "ui_step ops (env, HotkeyMsg pick) app = on_hotkey ops env pick app"
| "ui_step ops (env, HookMsg e) app = on_hook ops env e app"
| "ui_step ops (env, ClipboardTextMsg t) app = mesh_op ops env (onLocalClipboardChange t) app"
| "ui_step ops (env, ClipboardFilesMsg files) app = mesh_op ops env (announceFilePromise files) app"
| "ui_step ops (env, LinkReady peer t outbound) app = (app\<lparr>ap_pendingLinks := ap_pendingLinks app @ [(peer, t, outbound)]\<rparr>, [])"

text \<open>The chord of the configuration, or the default one; \<open>None\<close> is the undefined behaviour of the parser.\<close>

definition escape_hotkey :: "Config \<Rightarrow> Hotkey option" where
  "escape_hotkey cfg =
     (case parseHotkey (st_hotkey (cfg_settings cfg)) of None \<Rightarrow> None
      | Some hk \<Rightarrow> if hk_valid hk then Some hk else parseHotkey ''Ctrl+Alt+Space'')"

definition runTrayApp :: "PeerId \<Rightarrow> Config \<Rightarrow> 't AppState option" where
  "runTrayApp self cfg = map_option (\<lambda>esc.
     \<lparr>ap_config = cfg, ap_cm = cmInit (mesh_setPriority (cfg_priority cfg) (meshInit self)), ap_capture = fst (setSwallow (0, 0) True (setEscape (hk_modifiers esc) (hk_key esc) createCapture)),
      ap_driving = False, ap_wake = wakeInit, ap_self = self, ap_pendingLinks = [], ap_connectedIds = []\<rparr>) (escape_hotkey cfg)"

definition ui_run :: "'t transport_ops \<Rightarrow> (ui_env \<times> 't ui_event) list \<Rightarrow> 't AppState \<Rightarrow> 't AppState \<times> app_out list" where
  "ui_run ops evs app = run_steps (ui_step ops) evs app"

section \<open>Lemmas\<close>

definition is_call :: "mesh_out \<Rightarrow> bool" where
  "is_call x \<longleftrightarrow> (\<forall>h m. x \<noteq> SendTo h m)"

lemma exec_outs: "snd (run_steps (exec_out ops) outs cm) = map MeshCall (filter is_call outs)"
proof (induction outs arbitrary: cm)
  case (Cons x outs)
  have "snd (exec_out ops x cm) = (if is_call x then [MeshCall x] else [])"
    by (auto simp: exec_out_def is_call_def split: mesh_out.splits option.splits)
  then show ?case using Cons by (simp add: split_beta)
qed simp

lemma with_mesh_outs: "snd (with_mesh ops f cm) = map MeshCall (filter is_call (snd (f (cm_mesh cm))))"
  by (simp add: with_mesh_def split_beta exec_outs)

text \<open>The owner callback is made whenever the node stops being the owner; input tracking is left alone.\<close>

definition mesh_good :: "(MeshNode \<Rightarrow> MeshNode \<times> mesh_out list) \<Rightarrow> bool" where
  "mesh_good f \<longleftrightarrow> (\<forall>n. mn_pipeline (fst (f n)) = mn_pipeline n
     \<and> (mesh_isLocalOwner n \<and> \<not> mesh_isLocalOwner (fst (f n)) \<longrightarrow> (\<exists>p. OwnerChanged p \<in> set (snd (f n)))))"

lemma mesh_goodI:
  "(\<And>n. mn_pipeline (fst (f n)) = mn_pipeline n) \<Longrightarrow>
   (\<And>n. mesh_isLocalOwner n \<Longrightarrow> \<not> mesh_isLocalOwner (fst (f n)) \<Longrightarrow> \<exists>p. OwnerChanged p \<in> set (snd (f n))) \<Longrightarrow> mesh_good f"
  by (simp add: mesh_good_def)

text \<open>What an operation that leaves the owner alone needs.\<close>

lemma mesh_good_same:
  "(\<And>n. mn_pipeline (fst (f n)) = mn_pipeline n) \<Longrightarrow> (\<And>n. mn_ownership (fst (f n)) = mn_ownership n) \<Longrightarrow> mesh_good f"
  by (simp add: mesh_good_def mesh_isLocalOwner_def)

lemma claim_good: "mn_pipeline (fst (handle_claim d n)) = mn_pipeline n
    \<and> (mesh_isLocalOwner n \<and> \<not> mesh_isLocalOwner (fst (handle_claim d n)) \<longrightarrow> (\<exists>p. OwnerChanged p \<in> set (snd (handle_claim d n))))"
proof (cases "decodeOwnershipClaim d")
  case (Some c)
  have "os_self (snd (applyClaim c (mn_ownership n))) = os_self (mn_ownership n)"
    by (simp add: applyClaim_def Let_def)
  then show ?thesis using Some
    by (auto simp: handle_claim_def Let_def mesh_isLocalOwner_def mesh_owner_def isLocalOwner_def owner_def)
qed (simp add: handle_claim_def)

lemma handle_var_good: "mn_pipeline (fst (handle_var from m n)) = mn_pipeline n
    \<and> (mesh_isLocalOwner n \<and> \<not> mesh_isLocalOwner (fst (handle_var from m n)) \<longrightarrow> (\<exists>p. OwnerChanged p \<in> set (snd (handle_var from m n))))"
  using claim_good [of "dm_payload m" n]
  by (auto simp: handle_var_def Let_def mesh_isLocalOwner_def split: MessageType.splits option.splits)

lemma handle_fixed_same [simp]: "fst (handle_fixed m n) = n"
  by (simp add: handle_fixed_def split: MessageType.splits)

lemma handle_good: "mesh_good (handle now from d)"
proof -
  have "mn_pipeline (fst (handle now from d n)) = mn_pipeline n
    \<and> (mesh_isLocalOwner n \<and> \<not> mesh_isLocalOwner (fst (handle now from d n)) \<longrightarrow> (\<exists>p. OwnerChanged p \<in> set (snd (handle now from d n))))" for n
  proof -
    define n1 where "n1 = n\<lparr>mn_heartbeat := onHeartbeat from now (mn_heartbeat n)\<rparr>"
    have n1: "mesh_isLocalOwner n1 = mesh_isLocalOwner n" "mn_pipeline n1 = mn_pipeline n"
      by (simp_all add: n1_def mesh_isLocalOwner_def)
    show ?thesis using handle_var_good [of "from" _ n1] n1
      by (auto simp: handle_def Let_def n1_def [symmetric] mesh_isLocalOwner_def split: DecodeResult.splits)
  qed
  then show ?thesis by (simp add: mesh_good_def)
qed

lemma ui_refresh_peer_frame:
  "mn_pipeline (fst (refresh_peer now p n)) = mn_pipeline n" "mn_ownership (fst (refresh_peer now p n)) = mn_ownership n"
  "mn_self (fst (refresh_peer now p n)) = mn_self n" "mn_heartbeat (fst (refresh_peer now p n)) = mn_heartbeat n"
  "mn_now (fst (refresh_peer now p n)) = mn_now n" "mn_timeoutMs (fst (refresh_peer now p n)) = mn_timeoutMs n"
  by (simp_all add: refresh_peer_def Let_def)

lemma ui_refresh_loop_frame:
  "mn_pipeline (fst (run_steps (refresh_peer now) ps n)) = mn_pipeline n
   \<and> mn_ownership (fst (run_steps (refresh_peer now) ps n)) = mn_ownership n
   \<and> mn_self (fst (run_steps (refresh_peer now) ps n)) = mn_self n
   \<and> mn_heartbeat (fst (run_steps (refresh_peer now) ps n)) = mn_heartbeat n
   \<and> mn_now (fst (run_steps (refresh_peer now) ps n)) = mn_now n
   \<and> mn_timeoutMs (fst (run_steps (refresh_peer now) ps n)) = mn_timeoutMs n"
  by (induction ps arbitrary: n) (simp_all add: split_beta ui_refresh_peer_frame)

lemma ui_failSafe_frame:
  "mn_pipeline (fst (failSafe now n)) = mn_pipeline n" "mesh_isLocalOwner n \<Longrightarrow> failSafe now n = (n, [])"
  by (auto simp: failSafe_def)

lemma refresh_frame: "mn_pipeline (fst (refreshOnlineAndFailSafe now n)) = mn_pipeline n"
  using ui_refresh_loop_frame [of now "omap_keys (mn_peers n)" n]
  by (simp add: refreshOnlineAndFailSafe_def split_beta Let_def ui_failSafe_frame)

lemma refresh_keeps_owner: "mesh_isLocalOwner n \<Longrightarrow> mesh_isLocalOwner (fst (refreshOnlineAndFailSafe now n))"
  using ui_refresh_loop_frame [of now "omap_keys (mn_peers n)" n]
  by (simp add: refreshOnlineAndFailSafe_def split_beta Let_def ui_failSafe_frame(2) mesh_isLocalOwner_def)

lemma refresh_good: "mesh_good (refreshOnlineAndFailSafe now)"
  by (rule mesh_goodI) (simp_all add: refresh_frame refresh_keeps_owner)

lemma remove_good: "mesh_good (mesh_removePeer p)"
proof (rule mesh_goodI)
  fix n
  show "mn_pipeline (fst (mesh_removePeer p n)) = mn_pipeline n"
    by (simp add: mesh_removePeer_def Let_def split_beta refresh_frame split: option.split)
  assume "mesh_isLocalOwner n"
  then have "mesh_isLocalOwner (fst (mesh_removePeer p n))"
    unfolding mesh_removePeer_def Let_def split_beta fst_conv
    by (intro refresh_keeps_owner) (simp add: mesh_isLocalOwner_def split: option.split)
  moreover assume "\<not> mesh_isLocalOwner (fst (mesh_removePeer p n))"
  ultimately show "\<exists>q. OwnerChanged q \<in> set (snd (mesh_removePeer p n))" by simp
qed

lemma switch_good: "mesh_good (mesh_requestSwitchTo target)"
proof (rule mesh_goodI)
  fix n
  show "mn_pipeline (fst (mesh_requestSwitchTo target n)) = mn_pipeline n"
    by (simp add: mesh_requestSwitchTo_def Let_def split_beta)
  have self: "os_self (snd (requestSwitchTo target s)) = os_self s" for s
    by (simp add: requestSwitchTo_def Let_def)
  assume "mesh_isLocalOwner n" "\<not> mesh_isLocalOwner (fst (mesh_requestSwitchTo target n))"
  then show "\<exists>p. OwnerChanged p \<in> set (snd (mesh_requestSwitchTo target n))"
    using self by (auto simp: mesh_requestSwitchTo_def Let_def split_beta mesh_isLocalOwner_def isLocalOwner_def mesh_owner_def owner_def
        split: if_splits)
qed

lemma quiet_good: "mesh_good (sendHeartbeats now)" "mesh_good (onLocalClipboardChange t)" "mesh_good (announceFilePromise fs)"
  by (rule mesh_good_same; simp add: sendHeartbeats_def onLocalClipboardChange_def announceFilePromise_def Let_def split_beta)+

text \<open>The same for an operation of the manager.\<close>

definition cm_good :: "('t ConnectionManager \<Rightarrow> 't ConnectionManager \<times> cm_out list) \<Rightarrow> bool" where
  "cm_good f \<longleftrightarrow> (\<forall>cm. mn_pipeline (cm_mesh (fst (f cm))) = mn_pipeline (cm_mesh cm)
     \<and> (mesh_isLocalOwner (cm_mesh cm) \<and> \<not> mesh_isLocalOwner (cm_mesh (fst (f cm))) \<longrightarrow> (\<exists>p. MeshCall (OwnerChanged p) \<in> set (snd (f cm)))))"

lemma with_mesh_good: "mesh_good f \<Longrightarrow> cm_good (with_mesh ops f)"
proof -
  assume g: "mesh_good f"
  have "MeshCall (OwnerChanged p) \<in> set (map MeshCall (filter is_call outs))" if "OwnerChanged p \<in> set outs" for p outs
    using that by (simp add: is_call_def)
  then show ?thesis using g unfolding cm_good_def mesh_good_def with_mesh_mesh with_mesh_outs by metis
qed

lemma pending_frame:
  "mn_pipeline (cm_mesh (fst (pending_step ops p cm))) = mn_pipeline (cm_mesh cm)
   \<and> mn_ownership (cm_mesh (fst (pending_step ops p cm))) = mn_ownership (cm_mesh cm)"
  by (simp add: pending_step_def drop_link_def set_link_def promote_def mesh_addPeer_def
      split: option.split recv_result.split prod.split)

lemma pending_good: "cm_good (pending_step ops p)"
  by (simp add: cm_good_def pending_frame mesh_isLocalOwner_def)

lemma reap_good: "cm_good (reap_step ops e)"
  unfolding cm_good_def
proof (intro allI)
  fix cm :: "'a ConnectionManager"
  have r: "mn_pipeline (fst (mesh_removePeer (fst e) (cm_mesh cm))) = mn_pipeline (cm_mesh cm)"
    "mesh_isLocalOwner (cm_mesh cm) \<Longrightarrow> \<not> mesh_isLocalOwner (fst (mesh_removePeer (fst e) (cm_mesh cm))) \<Longrightarrow>
      \<exists>p. OwnerChanged p \<in> set (snd (mesh_removePeer (fst e) (cm_mesh cm)))"
    using remove_good [of "fst e"] by (auto simp: mesh_good_def)
  show "mn_pipeline (cm_mesh (fst (reap_step ops e cm))) = mn_pipeline (cm_mesh cm)
      \<and> (mesh_isLocalOwner (cm_mesh cm) \<and> \<not> mesh_isLocalOwner (cm_mesh (fst (reap_step ops e cm)))
         \<longrightarrow> (\<exists>p. MeshCall (OwnerChanged p) \<in> set (snd (reap_step ops e cm))))"
    using r by (auto simp: reap_step_def drop_link_def split_beta split: option.split)
qed

section \<open>The discipline of the hooks\<close>

definition nothing_held :: "'t AppState \<Rightarrow> bool" where
  "nothing_held app \<longleftrightarrow> it_keysDown (mn_pipeline (ap_mesh app)) = [] \<and> it_buttonsDown (mn_pipeline (ap_mesh app)) = []"

definition idle_clean :: "'t AppState \<Rightarrow> bool" where
  "idle_clean app \<longleftrightarrow> (\<not> wc_installed (ap_capture app) \<longrightarrow> nothing_held app)"

definition disciplined :: "'t AppState \<Rightarrow> bool" where
  "disciplined app \<longleftrightarrow> idle_clean app
     \<and> (wc_installed (ap_capture app) \<longrightarrow> ap_driving app \<and> mesh_isLocalOwner (ap_mesh app))"

lemma release_mesh:
  "mn_pipeline (fst (releaseHeldKeys ts n)) = tracker_clear (mn_pipeline n)"
  "mn_ownership (fst (releaseHeldKeys ts n)) = mn_ownership n"
  by (simp_all add: releaseHeldKeys_def pipe_releaseAll_def drainReleases_def Let_def)

lemma tracker_clear_simps [simp]: "it_keysDown (tracker_clear t) = []" "it_buttonsDown (tracker_clear t) = []"
  by (simp_all add: tracker_clear_def)

lemma capture_start_installed:
  "\<not> wc_installed c \<Longrightarrow> wc_installed (fst (snd (capture_start m k z c))) \<Longrightarrow> m \<and> k"
  by (auto simp: capture_start_def capture_stop_def anchorCursor_def Let_def split: if_splits)

lemma syncCapture_disciplined: "idle_clean app \<Longrightarrow> disciplined (fst (syncCapture ops env app))"
  by (auto simp: syncCapture_def Let_def disciplined_def idle_clean_def nothing_held_def ap_mesh_def capture_stop_def
      with_mesh_mesh release_mesh mesh_isLocalOwner_def split: prod.splits if_splits)

lemma on_call_clean: "idle_clean app \<Longrightarrow> idle_clean (fst (on_cm_call ops env out app))"
  using syncCapture_disciplined [of app ops env]
  by (auto simp: on_cm_call_def on_mesh_call_def onSwitchUnavailable_def disciplined_def idle_clean_def nothing_held_def ap_mesh_def
      split: cm_out.splits mesh_out.splits option.splits prod.splits)

lemma on_call_disciplined: "disciplined app \<Longrightarrow> disciplined (fst (on_cm_call ops env out app))"
  using syncCapture_disciplined [of app ops env]
  by (auto simp: on_cm_call_def on_mesh_call_def onSwitchUnavailable_def disciplined_def idle_clean_def nothing_held_def ap_mesh_def
      split: cm_out.splits mesh_out.splits option.splits prod.splits)

lemma on_owner_disciplined: "idle_clean app \<Longrightarrow> disciplined (fst (on_cm_call ops env (MeshCall (OwnerChanged p)) app))"
  using syncCapture_disciplined [of app ops env] by (simp add: on_cm_call_def on_mesh_call_def split_beta)

lemma calls_disciplined:
  "idle_clean app \<Longrightarrow> disciplined app \<or> (\<exists>p. MeshCall (OwnerChanged p) \<in> set outs) \<Longrightarrow>
    disciplined (fst (run_steps (on_cm_call ops env) outs app))"
proof (induction outs arbitrary: app)
  case (Cons x outs)
  let ?a = "fst (on_cm_call ops env x app)"
  have "idle_clean ?a" by (rule on_call_clean [OF Cons.prems(1)])
  moreover have "disciplined ?a \<or> (\<exists>p. MeshCall (OwnerChanged p) \<in> set outs)"
    using Cons.prems on_call_disciplined [of app ops env x] on_owner_disciplined [OF Cons.prems(1)] by auto
  ultimately show ?case using Cons.IH [of ?a] by (simp add: split_beta)
qed simp

lemma app_do_disciplined:
  assumes "cm_good f" "disciplined app"
  shows "disciplined (fst (app_do ops env f app))"
proof -
  let ?app = "app\<lparr>ap_cm := fst (f (ap_cm app))\<rparr>"
  have f: "mn_pipeline (cm_mesh (fst (f (ap_cm app)))) = mn_pipeline (cm_mesh (ap_cm app))"
    "mesh_isLocalOwner (cm_mesh (ap_cm app)) \<Longrightarrow> \<not> mesh_isLocalOwner (cm_mesh (fst (f (ap_cm app)))) \<Longrightarrow>
      \<exists>p. MeshCall (OwnerChanged p) \<in> set (snd (f (ap_cm app)))"
    using assms(1) by (auto simp: cm_good_def)
  have "idle_clean ?app" using assms(2) f by (auto simp: disciplined_def idle_clean_def nothing_held_def ap_mesh_def)
  moreover have "disciplined ?app \<or> (\<exists>p. MeshCall (OwnerChanged p) \<in> set (snd (f (ap_cm app))))"
    using assms(2) f by (auto simp: disciplined_def idle_clean_def nothing_held_def ap_mesh_def)
  ultimately show ?thesis using calls_disciplined [of ?app _ ops env] by (simp add: app_do_def split_beta)
qed

lemma and_then_inv: "I (fst r) \<Longrightarrow> (\<And>s. I s \<Longrightarrow> I (fst (g s))) \<Longrightarrow> I (fst (and_then r g))"
  by (cases r) (simp add: and_then_def split_beta)

lemma app_ops_disciplined:
  "disciplined app \<Longrightarrow> mesh_good f \<Longrightarrow> disciplined (fst (mesh_op ops env f app))"
  by (intro app_do_disciplined with_mesh_good)

lemma sync_keeps_disciplined: "disciplined app \<Longrightarrow> disciplined (fst (syncCapture ops env app))"
  by (rule syncCapture_disciplined) (simp add: disciplined_def)

lemma stopDriving_disciplined: "disciplined app \<Longrightarrow> disciplined (fst (stopDriving ops env app))"
  unfolding stopDriving_def by (rule syncCapture_disciplined) (auto simp: disciplined_def idle_clean_def nothing_held_def ap_mesh_def)

lemma controlPeer_disciplined: "disciplined app \<Longrightarrow> disciplined (fst (controlPeer ops env p app))"
  unfolding controlPeer_def
proof (split if_split, intro conjI impI)
  assume d: "disciplined app"
  then show "disciplined (fst (mesh_op ops env (mesh_requestSwitchTo p) app))" by (rule app_ops_disciplined [OF _ switch_good])
  show "disciplined (fst (and_then (mesh_op ops env (mesh_requestSwitchTo (ap_self app)) app) (\<lambda>a. syncCapture ops env (a\<lparr>ap_driving := True\<rparr>))))"
  proof (rule and_then_inv [where I = disciplined])
    show "disciplined (fst (mesh_op ops env (mesh_requestSwitchTo (ap_self app)) app))" by (rule app_ops_disciplined [OF d switch_good])
    fix a :: "'a AppState" assume "disciplined a"
    then show "disciplined (fst (syncCapture ops env (a\<lparr>ap_driving := True\<rparr>)))"
      by (intro syncCapture_disciplined) (auto simp: disciplined_def idle_clean_def nothing_held_def ap_mesh_def)
  qed
qed

lemma register_same: "ap_mesh (register_link ops pl app) = ap_mesh app" "ap_capture (register_link ops pl app) = ap_capture app"
  "ap_driving (register_link ops pl app) = ap_driving app" "ap_config (register_link ops pl app) = ap_config app"
  "ap_self (register_link ops pl app) = ap_self app" "ap_wake (register_link ops pl app) = ap_wake app"
  by (simp_all add: register_link_def ap_mesh_def addOutgoing_def addIncoming_def new_link_def split: prod.split option.split)

lemma register_disciplined: "disciplined app \<Longrightarrow> disciplined (fold (register_link ops) pls app)"
  by (induction pls arbitrary: app) (simp_all add: disciplined_def idle_clean_def nothing_held_def register_same)

lemma disciplined_frame:
  "ap_mesh b = ap_mesh a \<Longrightarrow> ap_capture b = ap_capture a \<Longrightarrow> ap_driving b = ap_driving a \<Longrightarrow> disciplined b = disciplined a"
  by (simp add: disciplined_def idle_clean_def nothing_held_def)

lemma pump_disciplined:
  assumes "disciplined app"
  shows "disciplined (fst (pumpMesh ops env app))"
proof -
  have reg: "disciplined ((fold (register_link ops) (ap_pendingLinks app) app)\<lparr>ap_pendingLinks := []\<rparr>)"
    using register_disciplined [OF assms] by (subst disciplined_frame [of _ "fold (register_link ops) (ap_pendingLinks app) app"]) (simp_all add: ap_mesh_def)
  have mesh: "disciplined (fst (app_mesh_poll ops env a))" if "disciplined a" for a :: "'a AppState"
    unfolding app_mesh_poll_def
  proof (rule and_then_inv [where I = disciplined], rule run_steps_inv [where I = disciplined])
    show "disciplined (a\<lparr>ap_cm := begin_mesh_poll ops (ue_now env) (ap_cm a)\<rparr>)"
      using that by (simp add: disciplined_def idle_clean_def nothing_held_def ap_mesh_def begin_mesh_poll_def mesh_isLocalOwner_def)
  qed (auto intro: app_ops_disciplined handle_good refresh_good)
  show ?thesis unfolding pumpMesh_def app_cm_poll_def
  proof (intro and_then_inv [where I = disciplined])
    let ?b = "(fold (register_link ops) (ap_pendingLinks app) app)\<lparr>ap_pendingLinks := []\<rparr>"
    show "disciplined (fst (run_steps (\<lambda>p. app_do ops env (pending_step ops p)) (cm_pending (ap_cm ?b)) (?b\<lparr>ap_cm := (ap_cm ?b)\<lparr>cm_pending := []\<rparr>\<rparr>)))"
      using reg by (intro run_steps_inv [where I = disciplined] app_do_disciplined pending_good)
        (simp_all add: disciplined_def idle_clean_def nothing_held_def ap_mesh_def)
    show "disciplined (fst (run_steps (\<lambda>e. app_do ops env (reap_step ops e)) (cm_connected (ap_cm s)) s))" if "disciplined s" for s
      using that by (intro run_steps_inv [where I = disciplined] app_do_disciplined reap_good)
  qed (auto intro: mesh app_ops_disciplined quiet_good)
qed

lemma timer_disciplined:
  assumes "disciplined app"
  shows "disciplined (fst (on_timer ops env app))"
  unfolding on_timer_def
proof (intro and_then_inv [where I = disciplined])
  show "disciplined (fst (pumpMesh ops env app))" by (rule pump_disciplined [OF assms])
  show "disciplined (fst (syncCapture ops env (drive_failsafe s)))" if "disciplined s" for s
    using that by (intro syncCapture_disciplined) (auto simp: drive_failsafe_def disciplined_def idle_clean_def nothing_held_def ap_mesh_def)
  show "disciplined (fst (resolve_wake ops env s))" if d: "disciplined s" for s
  proof -
    have w: "disciplined (a\<lparr>ap_wake := x\<rparr>) = disciplined a" for a :: "'a AppState" and x
      by (rule disciplined_frame) (simp_all add: ap_mesh_def)
    have "disciplined (fst (and_then (and_then (s\<lparr>ap_wake := x\<rparr>, o1) (mesh_op ops env (mesh_requestSwitchTo t)))
        (\<lambda>a. (a\<lparr>ap_wake := wake_reset (ap_wake a)\<rparr>, []))))" for x o1 t
      by (intro and_then_inv [where I = disciplined]) (auto simp: w d intro: app_ops_disciplined switch_good)
    then show ?thesis using d by (auto simp: resolve_wake_def Let_def w split: prod.split)
  qed
qed

text \<open>Forwarding makes no call back, so the hooks stay as they are.\<close>

lemma broadcast_no_call: "filter is_call (broadcast m n) = []"
  using broadcast_sends by (fastforce simp: is_call_def filter_empty_conv)

lemma forward_no_call:
  "filter is_call (snd (forwardMouseMove dx dy ts n)) = []" "filter is_call (snd (forwardMouseButton b d ts n)) = []"
  "filter is_call (snd (forwardKey k d ts n)) = []"
  by (simp_all add: forwardMouseMove_def forwardMouseButton_def forwardKey_def split_beta broadcast_no_call)

lemma mesh_op_no_call:
  "filter is_call (snd (f (ap_mesh app))) = [] \<Longrightarrow> mesh_op ops env f app = (app\<lparr>ap_cm := fst (with_mesh ops f (ap_cm app))\<rparr>, [])"
  by (simp add: app_do_def split_beta with_mesh_outs ap_mesh_def)

lemma captureSink_frame:
  "ap_capture (fst (captureSink ops env e app)) = ap_capture app \<and> ap_driving (fst (captureSink ops env e app)) = ap_driving app
   \<and> mn_ownership (ap_mesh (fst (captureSink ops env e app))) = mn_ownership (ap_mesh app)"
proof (cases e)
  case (CMove dx dy)
  then show ?thesis
    by (simp add: captureSink_def Let_def mesh_op_no_call forward_no_call ap_mesh_def with_mesh_mesh) (simp add: forwardMouseMove_def split_beta)
next
  case (CButton b d)
  then show ?thesis
    by (simp add: captureSink_def Let_def mesh_op_no_call forward_no_call ap_mesh_def with_mesh_mesh) (simp add: forwardMouseButton_def split_beta)
next
  case (CKey k d)
  then show ?thesis
    by (simp add: captureSink_def Let_def mesh_op_no_call forward_no_call ap_mesh_def with_mesh_mesh) (simp add: forwardKey_def split_beta)
qed

definition driving_hooked :: "'t AppState \<Rightarrow> bool" where
  "driving_hooked app \<longleftrightarrow> wc_installed (ap_capture app) \<and> ap_driving app \<and> mesh_isLocalOwner (ap_mesh app)"

lemma hook_disciplined:
  assumes "disciplined app"
  shows "disciplined (fst (on_hook ops env e app))"
proof (cases "wc_installed (ap_capture app)")
  case False
  then have "hook_proc e (ap_capture app) = (False, ap_capture app, [])" by (cases e) simp_all
  then show ?thesis using assms by (simp add: on_hook_def and_then_def)
next
  case True
  obtain sw c outs where h: "hook_proc e (ap_capture app) = (sw, c, outs)" by (cases "hook_proc e (ap_capture app)")
  have "driving_hooked (app\<lparr>ap_capture := c\<rparr>)"
    using hook_proc_keeps [OF h] True assms by (simp add: driving_hooked_def disciplined_def ap_mesh_def)
  moreover have "driving_hooked (fst (on_capture_out ops env x a))" if "driving_hooked a" for x and a :: "'a AppState"
    using that captureSink_frame [of ops env _ a]
    by (cases x) (simp_all add: on_capture_out_def driving_hooked_def mesh_isLocalOwner_def)
  ultimately have "driving_hooked (fst (run_steps (on_capture_out ops env) outs (app\<lparr>ap_capture := c\<rparr>)))"
    by (intro run_steps_inv [where I = driving_hooked])
  then show ?thesis
    by (simp add: on_hook_def h and_then_def split_beta disciplined_def driving_hooked_def idle_clean_def)
qed

lemma ui_step_disciplined: "disciplined app \<Longrightarrow> disciplined (fst (ui_step ops ev app))"
proof (cases "(ops, ev, app)" rule: ui_step.cases)
  case (9 ops' env peer t outbound app')
  then show "disciplined app \<Longrightarrow> ?thesis"
    by simp (subst disciplined_frame [of _ app']; simp add: ap_mesh_def)
qed (auto simp: pump_disciplined timer_disciplined hook_disciplined on_escape_def stopDriving_disciplined menu_device_def
    controlPeer_disciplined on_hotkey_def Let_def intro: app_ops_disciplined quiet_good)

lemma run_disciplined:
  assumes "runTrayApp self cfg = Some app0"
  shows "disciplined (fst (ui_run ops evs app0))"
proof -
  have "disciplined app0" using assms
    by (auto simp: runTrayApp_def disciplined_def idle_clean_def nothing_held_def ap_mesh_def cmInit_def mesh_setPriority_def
        meshInit_def trackerInit_def setSwallow_def setEscape_def createCapture_def Let_def)
  then show ?thesis unfolding ui_run_def by (intro run_steps_inv [where I = disciplined] ui_step_disciplined)
qed

section \<open>What the callbacks leave alone\<close>

definition same_node :: "'t AppState \<Rightarrow> 't AppState \<Rightarrow> bool" where
  "same_node a b \<longleftrightarrow> mn_ownership (ap_mesh b) = mn_ownership (ap_mesh a) \<and> mn_self (ap_mesh b) = mn_self (ap_mesh a)
     \<and> mn_heartbeat (ap_mesh b) = mn_heartbeat (ap_mesh a) \<and> mn_now (ap_mesh b) = mn_now (ap_mesh a)
     \<and> mn_timeoutMs (ap_mesh b) = mn_timeoutMs (ap_mesh a) \<and> ap_self b = ap_self a \<and> ap_config b = ap_config a
     \<and> (ap_driving b \<longrightarrow> ap_driving a)"

lemma release_frame:
  "mn_self (fst (releaseHeldKeys ts n)) = mn_self n" "mn_heartbeat (fst (releaseHeldKeys ts n)) = mn_heartbeat n"
  "mn_now (fst (releaseHeldKeys ts n)) = mn_now n" "mn_timeoutMs (fst (releaseHeldKeys ts n)) = mn_timeoutMs n"
  by (simp_all add: releaseHeldKeys_def pipe_releaseAll_def drainReleases_def Let_def)

lemma sync_same: "same_node app (fst (syncCapture ops env app))"
  by (simp add: same_node_def syncCapture_def Let_def ap_mesh_def with_mesh_mesh release_mesh release_frame split: prod.split)

lemma on_call_same: "same_node app (fst (on_cm_call ops env out app))"
  using sync_same [of app ops env]
  by (simp add: on_cm_call_def on_mesh_call_def onSwitchUnavailable_def split_beta split: cm_out.split mesh_out.split option.split)
    (simp add: same_node_def ap_mesh_def)

lemma same_node_trans: "same_node a b \<Longrightarrow> same_node b c \<Longrightarrow> same_node a c"
  by (simp add: same_node_def)

lemma calls_same: "same_node app (fst (run_steps (on_cm_call ops env) outs app))"
proof (induction outs arbitrary: app)
  case Nil
  show ?case by (simp add: same_node_def)
next
  case (Cons x outs)
  then show ?case using on_call_same [of app ops env x] by (auto simp: split_beta intro: same_node_trans)
qed

lemma mesh_op_same: "same_node (app\<lparr>ap_cm := fst (with_mesh ops f (ap_cm app))\<rparr>) (fst (mesh_op ops env f app))"
  by (simp add: app_do_def split_beta calls_same)

lemma mesh_op_ownership: "mn_ownership (ap_mesh (fst (mesh_op ops env f app))) = mn_ownership (fst (f (ap_mesh app)))"
  using mesh_op_same [where app = app and ops = ops and f = f and env = env] by (simp add: same_node_def ap_mesh_def with_mesh_mesh)

lemma request_owner:
  assumes "mesh_ok n" "os_clock (mn_ownership n) \<noteq> - 1" "target = mn_self n \<or> isPeerOnline target n"
  shows "mesh_owner (fst (mesh_requestSwitchTo target n)) = target"
  using switch_sends [OF assms(3)] request_adopted(2) [OF _ assms(2)] assms(1) by (simp add: mesh_owner_def mesh_ok_def)

section \<open>Properties\<close>


lemma default_hotkey: "parseHotkey ''Ctrl+Alt+Space'' = Some \<lparr>hk_modifiers = 3, hk_key = 0x20, hk_valid = True\<rparr>"
  by code_simp

definition toy_env :: ui_env where
  "toy_env = \<lparr>ue_now = 5, ue_mouseHook = True, ue_keyHook = True, ue_centre = (1, 1),
     ue_wol = \<lparr>so_wsa = True, so_socket = None, so_bind = None\<rparr>\<rparr>"

definition toy_app :: "RawLink AppState" where
  "toy_app = the (runTrayApp ''A'' defaultConfig)"

lemma toy_app: "runTrayApp ''A'' defaultConfig = Some toy_app"
  by (simp add: toy_app_def runTrayApp_def escape_hotkey_def defaultConfig_def defaultSettings_def default_hotkey)

lemma toy_app_parts: "ap_mesh toy_app = mesh_setPriority [] (meshInit ''A'')" "ap_self toy_app = ''A''" "\<not> ap_driving toy_app"
  "\<not> wc_installed (ap_capture toy_app)" "wc_swallow (ap_capture toy_app)" "cfg_devices (ap_config toy_app) = []"
  by (simp_all add: toy_app_def runTrayApp_def escape_hotkey_def defaultConfig_def defaultSettings_def default_hotkey ap_mesh_def cmInit_def
      setSwallow_def setEscape_def createCapture_def Let_def)


lemma resolve_driving: "ap_driving (fst (resolve_wake ops env app)) \<Longrightarrow> ap_driving app"
proof -
  have op: "ap_driving (fst (mesh_op ops env f (app\<lparr>ap_wake := w\<rparr>))) \<Longrightarrow> ap_driving app" for f w
    using mesh_op_same [where app = "app\<lparr>ap_wake := w\<rparr>" and ops = ops and f = f and env = env] by (simp add: same_node_def)
  assume "ap_driving (fst (resolve_wake ops env app))"
  then show ?thesis using op
    by (auto simp: resolve_wake_def Let_def and_then_def split_beta split: if_splits)
qed

text \<open>
  C10. Control always comes back: at a timer tick after which no paired device is reachable,
  the application is no longer driving and the hooks are gone, whatever it was doing.
\<close>

theorem unreachable_releases:
  assumes "runTrayApp self cfg = Some app0" "app = fst (ui_run ops evs app0)" "after = fst (pumpMesh ops env app)"
    and "\<forall>d\<in>set (cfg_devices (ap_config after)). \<not> isPeerOnline (pd_id d) (ap_mesh after)"
  shows "\<not> ap_driving (fst (on_timer ops env app)) \<and> \<not> wc_installed (ap_capture (fst (on_timer ops env app)))"
proof -
  have d: "disciplined app" unfolding assms(2) by (rule run_disciplined [OF assms(1)])
  have "\<not> ap_driving (drive_failsafe after)" using assms(4) by (auto simp: drive_failsafe_def)
  then have "\<not> ap_driving (fst (syncCapture ops env (drive_failsafe after)))"
    using sync_same [of "drive_failsafe after" ops env] by (auto simp: same_node_def)
  then have "\<not> ap_driving (fst (on_timer ops env app))"
    using resolve_driving [of ops env] assms(3) by (auto simp: on_timer_def and_then_def split_beta)
  then show ?thesis using timer_disciplined [OF d] by (auto simp: disciplined_def)
qed
lemma sync_config: "ap_config (fst (syncCapture ops env app)) = ap_config app"
  using sync_same [of app ops env] by (simp add: same_node_def)

lemma app_do_config: "ap_config (fst (app_do ops env f app)) = ap_config app"
  using calls_same [of "app\<lparr>ap_cm := fst (f (ap_cm app))\<rparr>" ops env "snd (f (ap_cm app))"]
  by (simp add: app_do_def split_beta same_node_def)

lemma steps_config: "ap_config (fst (run_steps (\<lambda>x. app_do ops env (g x)) xs app)) = ap_config app"
  by (rule run_steps_inv [where I = "\<lambda>a. ap_config a = ap_config app"]) (simp_all add: app_do_config)

lemma pump_config: "ap_config (fst (pumpMesh ops env app)) = ap_config app"
proof -
  have r: "ap_config (fold (register_link ops) pls a) = ap_config a" for pls and a :: "'a AppState"
    by (induction pls arbitrary: a) (simp_all add: register_same)
  show ?thesis
    by (simp add: pumpMesh_def app_cm_poll_def app_mesh_poll_def and_then_def split_beta app_do_config steps_config r)
qed

lemma steps_one: "fst (run_steps f [x] s) = fst (f x s)"
  by (simp add: split_beta)

lemma control_drives:
  assumes "mesh_ok (ap_mesh app)" "mn_self (ap_mesh app) = ap_self app" "os_clock (mn_ownership (ap_mesh app)) \<noteq> - 1"
    and "isPeerOnline p (ap_mesh app)" "ue_mouseHook env" "ue_keyHook env"
  shows "let app' = fst (controlPeer ops env p app) in
    mesh_owner (ap_mesh app') = ap_self app \<and> mesh_isLocalOwner (ap_mesh app') \<and> ap_driving app' \<and> wc_installed (ap_capture app')"
proof -
  let ?a = "fst (mesh_op ops env (mesh_requestSwitchTo (ap_self app)) app)"
  have own: "owner (mn_ownership (ap_mesh ?a)) = ap_self app"
    using request_owner [OF assms(1,3), of "ap_self app"] assms(2) by (simp add: mesh_op_ownership mesh_owner_def)
  have self: "os_self (mn_ownership (ap_mesh ?a)) = ap_self app"
    using assms(1,2) by (simp add: mesh_op_ownership mesh_ok_def switch_sends requestSwitchTo_def Let_def)
  let ?b = "?a\<lparr>ap_driving := True\<rparr>"
  have loc: "mesh_isLocalOwner (ap_mesh ?b)" using own self by (simp add: mesh_isLocalOwner_def isLocalOwner_def owner_def ap_mesh_def)
  have "ap_driving (fst (syncCapture ops env ?b)) \<and> wc_installed (ap_capture (fst (syncCapture ops env ?b)))"
    using loc assms(5,6) by (auto simp: syncCapture_def Let_def capture_start_def anchorCursor_def split: prod.splits if_splits)
  moreover have "mn_ownership (ap_mesh (fst (syncCapture ops env ?b))) = mn_ownership (ap_mesh ?a)"
    using sync_same [of ?b ops env] by (simp add: same_node_def ap_mesh_def)
  ultimately show ?thesis using assms(4) loc own
    by (simp add: controlPeer_def and_then_def split_beta Let_def mesh_owner_def mesh_isLocalOwner_def ap_mesh_def)
qed

theorem unreachable_releases_witness:
  "ap_driving (fst (ui_run raw_ops [(toy_env, HotkeyMsg (\<lambda>_. ''A''))] toy_app))
   \<and> \<not> ap_driving (fst (on_timer raw_ops toy_env (fst (ui_run raw_ops [(toy_env, HotkeyMsg (\<lambda>_. ''A''))] toy_app))))"
proof -
  let ?app = "fst (ui_run raw_ops [(toy_env, HotkeyMsg (\<lambda>_. ''A''))] toy_app)"
  have ok: "mesh_ok (mesh_setPriority [] (meshInit ''A''))" using mesh_ok_init [of "''A''"] by (simp add: mesh_ok_def mesh_setPriority_def)
  have "mn_self (ap_mesh toy_app) = ap_self toy_app" "os_clock (mn_ownership (ap_mesh toy_app)) \<noteq> - 1" "isPeerOnline ''A'' (ap_mesh toy_app)"
    by (simp_all add: toy_app_parts mesh_setPriority_def meshInit_def ownershipInit_def isPeerOnline_def)
  then have "ap_driving (fst (controlPeer raw_ops toy_env ''A'' toy_app))"
    using control_drives [of toy_app "''A''" toy_env raw_ops] ok by (simp add: toy_app_parts toy_env_def Let_def)
  moreover have "?app = fst (controlPeer raw_ops toy_env ''A'' toy_app)"
    by (simp add: ui_run_def split_beta on_hotkey_def)
  moreover have "cfg_devices (ap_config (fst (pumpMesh raw_ops toy_env ?app))) = []"
  proof -
    have "ap_config (fst (controlPeer raw_ops toy_env ''A'' toy_app)) = ap_config toy_app"
      by (simp add: controlPeer_def and_then_def split_beta app_do_config sync_config)
    then show ?thesis by (simp add: pump_config ui_run_def split_beta on_hotkey_def toy_app_parts)
  qed
  ultimately show ?thesis
    using unreachable_releases [OF toy_app refl refl, of raw_ops toy_env "[(toy_env, HotkeyMsg (\<lambda>_. ''A''))]"] by simp
qed

text \<open>
  Two ways of choosing a machine that do opposite things.  Choosing a reachable machine
  makes this one the owner and installs the hooks; choosing it while it sleeps wakes it, and when
  the attempt succeeds the machine that woke becomes the owner instead, so this one is
  left without hooks and at the mercy of its input.
\<close>

theorem wake_inverts_control:
  assumes "disciplined app" "mesh_ok (ap_mesh app)" "mn_self (ap_mesh app) = ap_self app" "os_clock (mn_ownership (ap_mesh app)) \<noteq> - 1"
    and "isWaking (ap_wake app)" "wf_target (ap_wake app) = p" "p \<noteq> ap_self app" "isPeerOnline p (ap_mesh app)"
    and "ue_mouseHook env" "ue_keyHook env"
  shows "(let chosen = fst (controlPeer ops env p app) in
            mesh_owner (ap_mesh chosen) = ap_self app \<and> ap_driving chosen \<and> wc_installed (ap_capture chosen))
       \<and> (let woken = fst (resolve_wake ops env app) in
            mesh_owner (ap_mesh woken) = p \<and> \<not> wc_installed (ap_capture woken) \<and> \<not> isWaking (ap_wake woken))"
proof -
  let ?w = "snd (wake_update (ue_now env) True (ap_wake app))"
  have wu: "wake_update (ue_now env) True (ap_wake app) = (WakeConnected, (ap_wake app)\<lparr>wf_status := WakeConnected\<rparr>)"
    using assms(5) by (simp add: wake_update_def isWaking_def Let_def)
  let ?a = "app\<lparr>ap_wake := (ap_wake app)\<lparr>wf_status := WakeConnected\<rparr>\<rparr>"
  let ?b = "fst (mesh_op ops env (mesh_requestSwitchTo p) ?a)"
  have res: "fst (resolve_wake ops env app) = ?b\<lparr>ap_wake := wake_reset (ap_wake ?b)\<rparr>"
    using assms(5,6,8) wu by (simp add: resolve_wake_def Let_def and_then_def split_beta)
  have am: "ap_mesh ?a = ap_mesh app" by (simp add: ap_mesh_def)
  have own: "owner (mn_ownership (ap_mesh ?b)) = p"
    using request_owner [OF assms(2,4), of p] assms(8) by (simp add: mesh_op_ownership am mesh_owner_def)
  have self: "os_self (mn_ownership (ap_mesh ?b)) = ap_self app"
    using assms(2,3,8) by (simp add: mesh_op_ownership am mesh_ok_def switch_sends requestSwitchTo_def Let_def)
  have "disciplined ?a" using assms(1) by (simp add: disciplined_def idle_clean_def nothing_held_def ap_mesh_def)
  then have "disciplined ?b" by (rule app_ops_disciplined [OF _ switch_good])
  then have "\<not> wc_installed (ap_capture ?b)"
    using own self assms(7) by (auto simp: disciplined_def mesh_isLocalOwner_def isLocalOwner_def owner_def)
  then show ?thesis
    using control_drives [OF assms(2-4,8-10), of ops] own
    by (simp add: res Let_def mesh_owner_def ap_mesh_def isWaking_def wake_reset_def)
qed

definition toy_waker :: "RawLink AppState" where
  "toy_waker = toy_app\<lparr>ap_wake := wake_start ''B'' 1 45000 wakeInit,
     ap_cm := (ap_cm toy_app)\<lparr>cm_mesh := (ap_mesh toy_app)\<lparr>mn_heartbeat := onHeartbeat ''B'' 0 heartbeatInit\<rparr>\<rparr>\<rparr>"

theorem wake_inverts_control_witness:
  "mesh_owner (ap_mesh (fst (controlPeer raw_ops toy_env ''B'' toy_waker))) = ''A''
   \<and> mesh_owner (ap_mesh (fst (resolve_wake raw_ops toy_env toy_waker))) = ''B''"
proof -
  have m: "ap_mesh toy_waker = (mesh_setPriority [] (meshInit ''A''))\<lparr>mn_heartbeat := onHeartbeat ''B'' 0 heartbeatInit\<rparr>"
    by (simp add: toy_waker_def ap_mesh_def) (simp add: toy_app_parts(1) [unfolded ap_mesh_def])
  have s: "ap_self toy_waker = ''A''" by (simp add: toy_waker_def toy_app_parts(2))
  have "disciplined toy_waker"
    using toy_app_parts
    by (simp add: disciplined_def idle_clean_def nothing_held_def m mesh_setPriority_def meshInit_def trackerInit_def)
      (simp add: toy_waker_def)
  moreover have "mesh_ok (ap_mesh toy_waker)"
    using mesh_ok_init [of "''A''"] by (simp add: m mesh_ok_def mesh_setPriority_def)
  moreover have "mn_self (ap_mesh toy_waker) = ap_self toy_waker" "os_clock (mn_ownership (ap_mesh toy_waker)) \<noteq> - 1"
      "isPeerOnline ''B'' (ap_mesh toy_waker)" "''B'' \<noteq> ap_self toy_waker"
    using s by (simp_all add: m mesh_setPriority_def meshInit_def ownershipInit_def isPeerOnline_def mesh_alive_def isAlive_def onHeartbeat_def
        heartbeatInit_def)
  moreover have "isWaking (ap_wake toy_waker)" "wf_target (ap_wake toy_waker) = ''B''"
    by (simp_all add: toy_waker_def wake_start_def isWaking_def)
  ultimately show ?thesis
    using wake_inverts_control [of toy_waker "''B''" toy_env raw_ops] s by (simp add: toy_env_def Let_def)
qed

text \<open>
  The menu: row \<open>k\<close> is device \<open>k\<close>.  It is greyed iff that device is not reachable and not this
  machine, ticked iff it is the owner, and, when nothing is being driven, choosing it
  controls exactly that device.
\<close>

theorem menu_rows:
  assumes "k < length (cfg_devices (ap_config app))" "k < 24536" "mn_self (ap_mesh app) = ap_self app" "\<not> ap_driving app"
  shows "length (showMenu app) = length (cfg_devices (ap_config app))
    \<and> (let row = showMenu app ! k; d = cfg_devices (ap_config app) ! k in
         mr_text row = pd_name d \<and> (mr_greyed row \<longleftrightarrow> \<not> isPeerOnline (pd_id d) (ap_mesh app))
       \<and> (mr_checked row \<longleftrightarrow> pd_id d = mesh_owner (ap_mesh app))
       \<and> menu_device ops env (mr_id row) app = controlPeer ops env (pd_id d) app)"
proof -
  have ne: "machine_items app \<noteq> []" and len: "length (machine_items app) = length (cfg_devices (ap_config app))"
    using assms(1) by (auto simp: machine_items_def buildMachineMenu_def)
  have row: "showMenu app ! k = (let it = machine_items app ! k in
      \<lparr>mr_id = kIdDeviceBase + k, mr_checked = mi_owner it, mr_greyed = \<not> mi_online it, mr_text = mi_name it\<rparr>)"
    using ne len assms(1) by (simp add: showMenu_def Let_def nth_enumerate_eq)
  have it: "machine_items app ! k = (let d = cfg_devices (ap_config app) ! k in \<lparr>mi_id = pd_id d, mi_name = pd_name d,
      mi_owner = (pd_id d = mesh_owner (ap_mesh app)), mi_online = (pd_id d = ap_self app \<or> pd_id d \<in> set (online_devices app)),
      mi_self = (pd_id d = ap_self app)\<rparr>)"
    using assms(1) by (simp add: machine_items_def buildMachineMenu_def Let_def)
  have on: "pd_id (cfg_devices (ap_config app) ! k) = ap_self app \<or> pd_id (cfg_devices (ap_config app) ! k) \<in> set (online_devices app)
      \<longleftrightarrow> isPeerOnline (pd_id (cfg_devices (ap_config app) ! k)) (ap_mesh app)"
    using assms(1,3) by (auto simp: online_devices_def isPeerOnline_def)
  have "length (showMenu app) = length (cfg_devices (ap_config app))" using ne len by (simp add: showMenu_def Let_def)
  moreover have "menu_device ops env (kIdDeviceBase + k) app = controlPeer ops env (pd_id (cfg_devices (ap_config app) ! k)) app"
    using assms(1,2,4) by (simp add: menu_device_def kIdDeviceBase_def)
  ultimately show ?thesis using on by (simp add: row it Let_def)
qed

theorem menu_rows_witness:
  "\<exists>app :: RawLink AppState. \<not> ap_driving app
     \<and> menu_device raw_ops toy_env (mr_id (showMenu app ! 0)) app = controlPeer raw_ops toy_env ''B'' app"
proof -
  let ?d = "\<lparr>pd_id = ''B'', pd_name = ''laptop'', pd_last_ip = [], pd_port = 0, pd_os = [], pd_wol = False, pd_mac = []\<rparr>"
  let ?app = "toy_app\<lparr>ap_config := (ap_config toy_app)\<lparr>cfg_devices := [?d]\<rparr>\<rparr>"
  have "mn_self (ap_mesh ?app) = ap_self ?app"
    using toy_app_parts(1,2) by (simp add: ap_mesh_def mesh_setPriority_def meshInit_def)
  then show ?thesis
    using menu_rows [of 0 ?app raw_ops toy_env] toy_app_parts(3) by (intro exI [of _ ?app]) (simp add: Let_def)
qed

lemma handle_release:
  assumes "isFixedType ty" "ty = KeyEvent \<or> ty = MouseButton"
  shows "handle now frm (make_msg ty 0 0 c 0 ts) n =
    (n\<lparr>mn_heartbeat := onHeartbeat frm now (mn_heartbeat n)\<rparr>, if mesh_isLocalOwner n then [] else [Inject (make_event ty 0 0 c 0 ts)])"
  using assms(2) decode_make_msg [OF assms(1), of 0 0 c 0 ts emptyMessage]
  by (auto simp: handle_def Let_def handle_fixed_def mesh_isLocalOwner_def)

definition injected :: "mesh_out list \<Rightarrow> sink \<Rightarrow> sink" where
  "injected outs s = fold (\<lambda>x s. case x of Inject e \<Rightarrow> sink_inject e s | _ \<Rightarrow> s) outs s"

definition release_event :: "u32 \<Rightarrow> Release \<Rightarrow> InputEvent" where
  "release_event ts r = make_event (if rel_isButton r then MouseButton else KeyEvent) 0 0 (rel_code r) 0 ts"

lemma release_steps:
  "mesh_isLocalOwner (fst (run_steps (handle now frm) (map (\<lambda>r. make_msg (if rel_isButton r then MouseButton else KeyEvent) 0 0 (rel_code r) 0 ts) rs) n))
      = mesh_isLocalOwner n
   \<and> snd (run_steps (handle now frm) (map (\<lambda>r. make_msg (if rel_isButton r then MouseButton else KeyEvent) 0 0 (rel_code r) 0 ts) rs) n)
      = (if mesh_isLocalOwner n then [] else map (\<lambda>r. Inject (release_event ts r)) rs)"
proof (induction rs arbitrary: n)
  case (Cons r rs)
  let ?n = "n\<lparr>mn_heartbeat := onHeartbeat frm now (mn_heartbeat n)\<rparr>"
  have "handle now frm (make_msg (if rel_isButton r then MouseButton else KeyEvent) 0 0 (rel_code r) 0 ts) n
      = (?n, if mesh_isLocalOwner n then [] else [Inject (release_event ts r)])"
    using handle_release [of KeyEvent now frm "rel_code r" ts n] handle_release [of MouseButton now frm "rel_code r" ts n]
    by (simp add: isFixedType_def release_event_def)
  then show ?case using Cons [of ?n] by (simp add: split_beta mesh_isLocalOwner_def)
qed simp

lemma inject_release: "sink_inject (release_event ts r) s =
    (if rel_isButton r then s\<lparr>sk_buttons := sk_buttons s - {rel_code r}\<rparr> else s\<lparr>sk_keys := sk_keys s - {rel_code r}\<rparr>)"
  by (simp add: sink_inject_def release_event_def make_event_def)

lemma injected_releases: "injected (map (\<lambda>r. Inject (release_event ts r)) rs) s
    = s\<lparr>sk_keys := sk_keys s - rel_code ` {r \<in> set rs. \<not> rel_isButton r},
        sk_buttons := sk_buttons s - rel_code ` {r \<in> set rs. rel_isButton r}\<rparr>"
proof (induction rs arbitrary: s)
  case (Cons r rs)
  have "injected (map (\<lambda>r. Inject (release_event ts r)) (r # rs)) s
      = injected (map (\<lambda>r. Inject (release_event ts r)) rs) (sink_inject (release_event ts r) s)"
    by (simp add: injected_def)
  moreover have "{x \<in> set (r # rs). P x} = (if P r then insert r {x \<in> set rs. P x} else {x \<in> set rs. P x})" for P by auto
  moreover have "X - {a} - Y = X - insert a Y" for X Y and a :: u8 by auto
  ultimately show ?case using Cons [of "sink_inject (release_event ts r) s"]
    by (cases s, cases "rel_isButton r") (simp_all only: inject_release sink.simps image_insert if_True if_False simp_thms)
qed (simp add: injected_def)

text \<open>
  Taking over from the controlled side leaves its keys stuck.  When a machine that is being
  driven makes itself the owner, the releases the former owner sends for the keys and buttons
  it holds are all ignored there; had it stayed a sink, they would have released every one.
\<close>

theorem takeover_leaves_keys_down:
  assumes "mesh_ok b" "\<not> mesh_isLocalOwner b" "os_clock (mn_ownership b) \<noteq> - 1"
  shows "let taken = fst (mesh_requestSwitchTo (mn_self b) b); releases = fst (pipe_releaseAll ts held) in
      injected (snd (run_steps (handle now frm) releases taken)) s = s
    \<and> injected (snd (run_steps (handle now frm) releases b)) s
       = \<lparr>sk_keys = sk_keys s - set (it_keysDown held), sk_buttons = sk_buttons s - set (it_buttonsDown held)\<rparr>"
proof -
  let ?taken = "fst (mesh_requestSwitchTo (mn_self b) b)"
  have "mesh_owner ?taken = mn_self b" by (rule request_owner [OF assms(1,3)]) simp
  moreover have "os_self (mn_ownership ?taken) = mn_self b"
    using assms(1) by (simp add: mesh_ok_def switch_sends requestSwitchTo_def Let_def)
  ultimately have loc: "mesh_isLocalOwner ?taken" by (simp add: mesh_isLocalOwner_def isLocalOwner_def mesh_owner_def owner_def)
  have rel: "fst (pipe_releaseAll ts held) = map (\<lambda>r. make_msg (if rel_isButton r then MouseButton else KeyEvent) 0 0 (rel_code r) 0 ts)
      (fst (drainReleases held))"
    by (simp add: pipe_releaseAll_def split_beta)
  have "rel_code ` {r \<in> set (fst (drainReleases held)). \<not> rel_isButton r} = set (it_keysDown held)"
      "rel_code ` {r \<in> set (fst (drainReleases held)). rel_isButton r} = set (it_buttonsDown held)"
    by (force simp: drainReleases_def image_iff)+
  then have "injected (snd (run_steps (handle now frm) (fst (pipe_releaseAll ts held)) b)) s
       = \<lparr>sk_keys = sk_keys s - set (it_keysDown held), sk_buttons = sk_buttons s - set (it_buttonsDown held)\<rparr>"
    using assms(2) by (simp add: rel release_steps injected_releases)
  moreover have "injected (snd (run_steps (handle now frm) (fst (pipe_releaseAll ts held)) ?taken)) s = s"
    using loc by (simp add: rel release_steps injected_def)
  ultimately show ?thesis by (simp add: Let_def)
qed
theorem takeover_leaves_keys_down_witness:
  "\<exists>b held s. it_keysDown held = [16] \<and> 16 \<in> sk_keys s
    \<and> injected (snd (run_steps (handle 9 ''A'') (fst (pipe_releaseAll 0 held)) (fst (mesh_requestSwitchTo ''B'' b)))) s = s
    \<and> 16 \<notin> sk_keys (injected (snd (run_steps (handle 9 ''A'') (fst (pipe_releaseAll 0 held)) b)) s)"
proof -
  let ?b = "(meshInit ''B'')\<lparr>mn_ownership := (ownershipInit ''B'')\<lparr>os_current := \<lparr>cl_target = ''A'', cl_origin = ''A'', cl_sequence = 0\<rparr>\<rparr>\<rparr>"
  let ?held = "\<lparr>it_keysDown = [16], it_buttonsDown = []\<rparr>"
  let ?s = "\<lparr>sk_keys = {16}, sk_buttons = {}\<rparr>"
  have "mesh_ok ?b" by (simp add: mesh_ok_def meshInit_def ownershipInit_def clock_ok_def omap_ok_def)
  moreover have "\<not> mesh_isLocalOwner ?b"
    by (simp add: mesh_isLocalOwner_def isLocalOwner_def ownershipInit_def)
  moreover have "os_clock (mn_ownership ?b) \<noteq> - 1" "mn_self ?b = ''B''" by (simp_all add: ownershipInit_def meshInit_def)
  ultimately show ?thesis using takeover_leaves_keys_down [of ?b 0 ?held 9 "''A''" ?s]
    by (intro exI [of _ ?b] exI [of _ ?held] exI [of _ ?s]) (simp add: Let_def)
qed

end
