(* ===== verification/FilePaste.thy ===== *)
theory FilePaste
  imports FileTransfer TrayApp KeyStore "HOL-Library.Sublist"
begin

text \<open>
  Copy and paste of files on Windows, \<open>platform/tray_win.cpp\<close> and \<open>platform/filepromise_win.cpp\<close>:
  what the copying machine announces and later serves, the session that pulls the bytes on the
  pasting machine, and the data object and streams Explorer reads.  Paths and names are their
  UTF-8 bytes; the conversion to UTF-16 is the argument \<open>wide\<close>.  The pull session is used by
  its drain thread and by \<open>read\<close>, which never waits while it holds the mutex: an explicit
  schedule says what arrives and how often the drain thread runs between two looks of
  \<open>read\<close>, and what the clock shows.
\<close>

section \<open>The copying machine\<close>

record copied_path =
  cp_path :: string
  cp_isDirectory :: bool
  cp_size :: u64

definition is_slash :: "char \<Rightarrow> bool" where
  "is_slash c \<longleftrightarrow> c = CHR 0x5C \<or> c = CHR ''/''"

definition baseNameUtf8 :: "string \<Rightarrow> string" where
  "baseNameUtf8 path = rev (takeWhile (\<lambda>c. \<not> is_slash c) (rev path))"

definition announced_items :: "copied_path list \<Rightarrow> FilePromiseItem list" where
  "announced_items paths =
     map (\<lambda>p. \<lparr>fi_name = baseNameUtf8 (cp_path p), fi_size = cp_size p\<rparr>) (filter (\<lambda>p. \<not> cp_isDirectory p) paths)"

text \<open>The paths remembered for serving, and what the mesh is told.\<close>

definition on_clipboard_update ::
  "bool \<Rightarrow> copied_path list \<Rightarrow> string option \<Rightarrow> string list \<Rightarrow> string list \<times> 't ui_event option" where
  "on_clipboard_update excluded paths text copied =
     (if excluded then (copied, None)
      else let items = announced_items paths in
        if items \<noteq> [] then (map cp_path (filter (\<lambda>p. \<not> cp_isDirectory p) paths), Some (ClipboardFilesMsg items))
        else (copied, map_option ClipboardTextMsg text))"

text \<open>\<open>disk\<close> is what reading a whole file gives at the time of serving.\<close>

definition served_sender :: "(string \<Rightarrow> bytes option) \<Rightarrow> string list \<Rightarrow> FileSender" where
  "served_sender disk paths =
     fold (\<lambda>p s. case disk p of None \<Rightarrow> s | Some bytes \<Rightarrow> addFile (baseNameUtf8 p) bytes s) paths emptySender"

text \<open>One accepted connection of the server: nothing to serve, or the outcome of \<open>sendAll\<close>.\<close>

definition serve_one ::
  "(bytes \<Rightarrow> 't \<Rightarrow> bool \<times> 't) \<Rightarrow> (string \<Rightarrow> bytes option) \<Rightarrow> string list \<Rightarrow> 't \<Rightarrow> (bool \<times> 't) option" where
  "serve_one send disk paths t =
     (let snd = served_sender disk paths in
      if fs_files snd = [] then None
      else case sendAll send (64 * 1024) t snd of (ok, t', _) \<Rightarrow> Some (ok, t'))"

section \<open>The pull session\<close>

record 't PullSession =
  ps_sourceIp :: string
  ps_sourceId :: PeerId
  ps_hasKey :: bool
  ps_transport :: "'t option"
  ps_receiver :: FileReceiver
  ps_failed :: bool
  ps_dialed :: bool
  ps_draining :: bool

definition newPullSession :: "PeerId \<Rightarrow> string \<Rightarrow> bool \<Rightarrow> 't PullSession" where
  "newPullSession peer ip key =
     \<lparr>ps_sourceIp = ip, ps_sourceId = peer, ps_hasKey = key, ps_transport = None, ps_receiver = emptyReceiver,
      ps_failed = False, ps_dialed = False, ps_draining = False\<rparr>"

text \<open>The session a promise gets: the address of the link to the peer, else of its device entry.\<close>

definition promise_session :: "(PeerId \<times> string) list \<Rightarrow> KeyStore \<Rightarrow> Config \<Rightarrow> PeerId \<Rightarrow> 't PullSession" where
  "promise_session peerIp keys cfg peer =
     (let ip0 = (case map_of peerIp peer of None \<Rightarrow> [] | Some ip \<Rightarrow> ip);
          ip = (if ip0 = [] then fold (\<lambda>d ip. if pd_id d = peer then pd_last_ip d else ip) (cfg_devices cfg) ip0 else ip0) in
      newPullSession peer ip (getPsk peer keys \<noteq> None))"

record PromisedFile =
  pf_name :: string
  pf_size :: u64

definition onRemoteFilePromiseUi ::
  "(PeerId \<times> string) list \<Rightarrow> KeyStore \<Rightarrow> Config \<Rightarrow> PeerId \<Rightarrow> FilePromiseItem list \<Rightarrow> (PromisedFile list \<times> 't PullSession) option" where
  "onRemoteFilePromiseUi peerIp keys cfg peer files =
     (if files = [] then None
      else Some (map (\<lambda>f. \<lparr>pf_name = fi_name f, pf_size = fi_size f\<rparr>) files, promise_session peerIp keys cfg peer))"

text \<open>\<open>dial\<close> is the sealed link the dial gives.\<close>

definition ensureConnected :: "'t option \<Rightarrow> 't PullSession \<Rightarrow> bool \<times> 't PullSession" where
  "ensureConnected dial s =
     (if ps_dialed s then (ps_transport s \<noteq> None, s)
      else let s1 = s\<lparr>ps_dialed := True\<rparr> in
        if ps_sourceIp s = [] \<or> \<not> ps_hasKey s then (False, s1\<lparr>ps_failed := True\<rparr>)
        else case dial of None \<Rightarrow> (False, s1\<lparr>ps_failed := True\<rparr>)
          | Some t \<Rightarrow> (True, s1\<lparr>ps_transport := Some t, ps_draining := True\<rparr>))"

text \<open>One pass of the drain loop; \<open>Inl\<close> is an exception or an access outside a buffer.\<close>

definition drain_step ::
  "'t transport_ops \<Rightarrow> ('t \<Rightarrow> 't) \<Rightarrow> nat \<Rightarrow> 't PullSession \<Rightarrow> (rx_error + 't PullSession) option" where
  "drain_step ops close mem s =
     (if \<not> ps_draining s then Some (Inr s)
      else case ps_transport s of None \<Rightarrow> Some (Inr (s\<lparr>ps_draining := False\<rparr>))
        | Some t \<Rightarrow>
            (case receiveAvailable (op_recv ops) mem t (ps_receiver s) of
               None \<Rightarrow> None
             | Some (Inl e) \<Rightarrow> Some (Inl e)
             | Some (Inr (done, t', r')) \<Rightarrow>
                 let s1 = s\<lparr>ps_transport := Some t', ps_receiver := r'\<rparr> in
                 if done then Some (Inr (s1\<lparr>ps_transport := Some (if op_up ops t' then close t' else t'), ps_draining := False\<rparr>))
                 else if \<not> op_up ops t' then Some (Inr (s1\<lparr>ps_failed := True, ps_draining := False\<rparr>))
                 else Some (Inr s1)))"

section \<open>Reading from the session\<close>

text \<open>What a call of the byte source does: the integer it returns with the bytes it wrote, or a crash.\<close>

datatype pull = Returned int bytes | Crashed rx_error

text \<open>One look at the receiver under the mutex; \<open>None\<close> means wait.\<close>

definition read_have :: "nat \<Rightarrow> FileReceiver \<Rightarrow> nat" where
  "read_have index r = (if index < length (fr_entries r) then received index r else 0)"

definition read_check :: "nat \<Rightarrow> u64 \<Rightarrow> u32 \<Rightarrow> FileReceiver \<Rightarrow> pull option" where
  "read_check index off cap r =
     (let have = read_have index r in
      if unat off < have then
        let n = min (have - unat off) (unat cap) in
        if unat off + n > length (fr_buffers r ! index) then Some (Crashed OutOfBounds)
        else Some (Returned (sint (word_of_nat n :: u32)) (take n (drop (unat off) (fr_buffers r ! index))))
      else if rx_complete index r then Some (Returned 0 [])
      else None)"

text \<open>
  One turn of the read loop: what arrives before each pass of the drain thread, then the
  readings of the clock: at the start of the call, at the look, and at the time-out test.
\<close>

record pull_turn =
  pt_arrive :: "bytes list list"
  pt_start :: u64
  pt_look :: u64
  pt_check :: u64

record 't pull_env =
  pe_ops :: "'t transport_ops"
  pe_deliver :: "bytes list \<Rightarrow> 't \<Rightarrow> 't"
  pe_close :: "'t \<Rightarrow> 't"
  pe_mem :: nat
  pe_dial :: "'t option"

fun drain_passes :: "'t pull_env \<Rightarrow> bytes list list \<Rightarrow> 't PullSession \<Rightarrow> (rx_error + 't PullSession) option" where
  "drain_passes env [] s = Some (Inr s)"
| "drain_passes env (ms # mss) s =
     (case drain_step (pe_ops env) (pe_close env) (pe_mem env)
             (s\<lparr>ps_transport := map_option (pe_deliver env ms) (ps_transport s)\<rparr>) of
        None \<Rightarrow> None
      | Some (Inl e) \<Rightarrow> Some (Inl e)
      | Some (Inr s') \<Rightarrow> drain_passes env mss s')"

fun read_loop ::
  "'t pull_env \<Rightarrow> nat \<Rightarrow> u64 \<Rightarrow> u32 \<Rightarrow> pull_turn list \<Rightarrow> nat \<Rightarrow> u64 \<Rightarrow> 't PullSession
     \<Rightarrow> (pull \<times> 't PullSession \<times> pull_turn list) option" where
  "read_loop env index off cap [] lastHave lastMs s = None"
| "read_loop env index off cap (tn # ts) lastHave lastMs s =
     (case drain_passes env (pt_arrive tn) s of
        None \<Rightarrow> None
      | Some (Inl e) \<Rightarrow> Some (Crashed e, s, ts)
      | Some (Inr s1) \<Rightarrow>
          if ps_failed s1 then Some (Returned (- 1) [], s1, ts)
          else case read_check index off cap (ps_receiver s1) of
              Some p \<Rightarrow> Some (p, s1, ts)
            | None \<Rightarrow>
                let have = read_have index (ps_receiver s1);
                    lastMs' = (if have \<noteq> lastHave then pt_look tn else lastMs) in
                if pt_check tn - lastMs' > 30000 then Some (Returned (- 1) [], s1\<lparr>ps_failed := True\<rparr>, ts)
                else read_loop env index off cap ts have lastMs' s1)"

definition pull_read ::
  "'t pull_env \<Rightarrow> u32 \<Rightarrow> u64 \<Rightarrow> u32 \<Rightarrow> 't PullSession \<times> pull_turn list \<Rightarrow> (pull \<times> 't PullSession \<times> pull_turn list) option" where
  "pull_read env index off cap st =
     (case st of (s, ts) \<Rightarrow>
        if ps_failed s then Some (Returned (- 1) [], s, ts)
        else case ensureConnected (pe_dial env) s of
            (False, s1) \<Rightarrow> Some (Returned (- 1) [], s1, ts)
          | (True, s1) \<Rightarrow>
              (case ts of [] \<Rightarrow> None
               | tn # _ \<Rightarrow> read_loop env (unat index) off cap ts 0 (pt_start tn) s1))"

section \<open>The promised stream\<close>

datatype hresult =
    S_OK | S_FALSE | E_POINTER | E_INVALIDARG | E_NOTIMPL | E_OUTOFMEMORY
  | STG_E_INVALIDPOINTER | STG_E_INVALIDFUNCTION | STG_E_READFAULT | DV_E_FORMATETC | DV_E_LINDEX
  | E_NOINTERFACE | STG_E_ACCESSDENIED | OLE_E_ADVISENOTSUPPORTED

definition FAILED :: "hresult \<Rightarrow> bool" where
  "FAILED hr \<longleftrightarrow> hr \<noteq> S_OK \<and> hr \<noteq> S_FALSE"

record PromiseStream =
  pst_index :: u32
  pst_size :: u64
  pst_pos :: u64
  pst_name :: "u16 list"

text \<open>The result: status, the bytes written to the buffer, their count, the stream and the source.\<close>

partial_function (option) stream_loop ::
  "(u32 \<Rightarrow> u64 \<Rightarrow> u32 \<Rightarrow> 's \<Rightarrow> (pull \<times> 's) option) \<Rightarrow> u32 \<Rightarrow> u32 \<Rightarrow> bytes \<Rightarrow> PromiseStream \<Rightarrow> 's
     \<Rightarrow> (rx_error + hresult \<times> bytes \<times> u32 \<times> PromiseStream \<times> 's) option" where
  "stream_loop src cb cnt out st s =
     (if cnt < cb then
        Option.bind (src (pst_index st) (pst_pos st) (cb - cnt) s) (\<lambda>(p, s').
          case p of
            Crashed e \<Rightarrow> Some (Inl e)
          | Returned n chunk \<Rightarrow>
              if n < 0 then Some (Inr (STG_E_READFAULT, out, cnt, st, s'))
              else if n = 0 then Some (Inr (S_OK, out, cnt, st, s'))
              else stream_loop src cb (cnt + word_of_int n) (out @ chunk) (st\<lparr>pst_pos := pst_pos st + word_of_int n\<rparr>) s')
      else Some (Inr (S_OK, out, cnt, st, s)))"

definition stream_read ::
  "(u32 \<Rightarrow> u64 \<Rightarrow> u32 \<Rightarrow> 's \<Rightarrow> (pull \<times> 's) option) \<Rightarrow> bool \<Rightarrow> u32 \<Rightarrow> PromiseStream \<Rightarrow> 's
     \<Rightarrow> (rx_error + hresult \<times> bytes \<times> u32 \<times> PromiseStream \<times> 's) option" where
  "stream_read src pv cb st s =
     (if \<not> pv then Some (Inr (STG_E_INVALIDPOINTER, [], 0, st, s)) else stream_loop src cb 0 [] st s)"

text \<open>\<open>None\<close> is the overflow of a signed addition, which C++ leaves undefined.\<close>

datatype seek_origin = SeekSet | SeekCur | SeekEnd | SeekOther

definition stream_seek :: "int \<Rightarrow> seek_origin \<Rightarrow> PromiseStream \<Rightarrow> (hresult \<times> PromiseStream) option" where
  "stream_seek move origin st =
     (if origin = SeekOther then Some (STG_E_INVALIDFUNCTION, st)
      else let base = (case origin of SeekCur \<Rightarrow> sint (pst_pos st) | SeekEnd \<Rightarrow> sint (pst_size st) | _ \<Rightarrow> 0);
               np = base + move in
        if np < - (2 ^ 63) \<or> np \<ge> 2 ^ 63 then None
        else if np < 0 then Some (STG_E_INVALIDFUNCTION, st)
        else Some (S_OK, st\<lparr>pst_pos := word_of_int np\<rparr>))"

text \<open>\<open>wr\<close> is the \<open>Write\<close> of the destination stream.\<close>

partial_function (option) copy_loop ::
  "(u32 \<Rightarrow> u64 \<Rightarrow> u32 \<Rightarrow> 's \<Rightarrow> (pull \<times> 's) option) \<Rightarrow> (bytes \<Rightarrow> 'd \<Rightarrow> hresult \<times> u32 \<times> 'd)
     \<Rightarrow> u64 \<Rightarrow> u64 \<Rightarrow> u64 \<Rightarrow> PromiseStream \<Rightarrow> 's \<Rightarrow> 'd \<Rightarrow> (rx_error + hresult \<times> u64 \<times> u64 \<times> PromiseStream \<times> 's \<times> 'd) option" where
  "copy_loop src wr left rd w st s d =
     (if left > 0 then
        Option.bind (stream_read src True (if left < 65536 then ucast left else 65536) st s) (\<lambda>res.
          case res of
            Inl e \<Rightarrow> Some (Inl e)
          | Inr (hr, buf, got, st', s') \<Rightarrow>
              if FAILED hr then Some (Inr (hr, rd, w, st', s', d))
              else if got = 0 then Some (Inr (S_OK, rd, w, st', s', d))
              else (case wr buf d of (hr2, n, d') \<Rightarrow>
                if FAILED hr2 then Some (Inr (hr2, rd, w, st', s', d'))
                else copy_loop src wr (left - ucast got) (rd + ucast got) (w + ucast n) st' s' d'))
      else Some (Inr (S_OK, rd, w, st, s, d)))"

definition stream_copyTo ::
  "(u32 \<Rightarrow> u64 \<Rightarrow> u32 \<Rightarrow> 's \<Rightarrow> (pull \<times> 's) option) \<Rightarrow> (bytes \<Rightarrow> 'd \<Rightarrow> hresult \<times> u32 \<times> 'd) \<Rightarrow> bool
     \<Rightarrow> u64 \<Rightarrow> PromiseStream \<Rightarrow> 's \<Rightarrow> 'd \<Rightarrow> (rx_error + hresult \<times> u64 \<times> u64 \<times> PromiseStream \<times> 's \<times> 'd) option" where
  "stream_copyTo src wr dst cb st s d =
     (if \<not> dst then Some (Inr (STG_E_INVALIDPOINTER, 0, 0, st, s, d)) else copy_loop src wr cb 0 0 st s d)"

definition stream_stat :: "PromiseStream \<Rightarrow> u64" where
  "stream_stat st = pst_size st"

section \<open>The data object\<close>

datatype clip_format = CfDescriptor | CfContents | CfPreferredEffect | CfOther nat

record FORMATETC =
  fmt_cf :: clip_format
  fmt_lindex :: int
  fmt_tymed :: u32

definition TYMED_HGLOBAL :: u32 where "TYMED_HGLOBAL = 1"
definition TYMED_ISTREAM :: u32 where "TYMED_ISTREAM = 4"
definition DROPEFFECT_COPY :: u32 where "DROPEFFECT_COPY = 1"
definition MAX_PATH :: nat where "MAX_PATH = 260"

definition has_tymed :: "u32 \<Rightarrow> FORMATETC \<Rightarrow> bool" where
  "has_tymed m f \<longleftrightarrow> fmt_tymed f AND m \<noteq> 0"

record FileDescriptor =
  fd_sizeHigh :: u32
  fd_sizeLow :: u32
  fd_cFileName :: "u16 list"

text \<open>The name field keeps the terminator: what \<open>memcpy\<close> copies.\<close>

definition file_descriptor :: "(string \<Rightarrow> u16 list) \<Rightarrow> PromisedFile \<Rightarrow> FileDescriptor" where
  "file_descriptor wide f =
     (let w = wide (pf_name f); w' = (if length w \<ge> MAX_PATH then take (MAX_PATH - 1) w else w) in
      \<lparr>fd_sizeHigh = ucast (drop_bit 32 (pf_size f)), fd_sizeLow = ucast (pf_size f AND 0xFFFFFFFF), fd_cFileName = w' @ [0]\<rparr>)"

definition buildDescriptor :: "(string \<Rightarrow> u16 list) \<Rightarrow> PromisedFile list \<Rightarrow> u32 \<times> FileDescriptor list" where
  "buildDescriptor wide files = (word_of_nat (length files), map (file_descriptor wide) files)"

datatype medium = DescriptorMedium u32 "FileDescriptor list" | StreamMedium PromiseStream | EffectMedium u32

text \<open>\<open>alloc\<close> says whether the allocation of this call succeeds.\<close>

definition GetData ::
  "bool \<Rightarrow> (string \<Rightarrow> u16 list) \<Rightarrow> PromisedFile list \<Rightarrow> FORMATETC \<Rightarrow> hresult \<times> medium option" where
  "GetData alloc wide files fmt =
     (if fmt_cf fmt = CfDescriptor \<and> has_tymed TYMED_HGLOBAL fmt then
        if \<not> alloc then (E_OUTOFMEMORY, None)
        else (S_OK, Some (case buildDescriptor wide files of (n, ds) \<Rightarrow> DescriptorMedium n ds))
      else if fmt_cf fmt = CfContents \<and> has_tymed TYMED_ISTREAM fmt then
        let i = (if fmt_lindex fmt < 0 then 0 else fmt_lindex fmt) in
        if nat i \<ge> length files then (DV_E_LINDEX, None)
        else if \<not> alloc then (E_OUTOFMEMORY, None)
        else (S_OK, Some (StreamMedium \<lparr>pst_index = word_of_int i, pst_size = pf_size (files ! nat i), pst_pos = 0,
               pst_name = wide (pf_name (files ! nat i))\<rparr>))
      else if fmt_cf fmt = CfPreferredEffect \<and> has_tymed TYMED_HGLOBAL fmt then
        if \<not> alloc then (E_OUTOFMEMORY, None) else (S_OK, Some (EffectMedium DROPEFFECT_COPY))
      else (DV_E_FORMATETC, None))"

definition QueryGetData :: "FORMATETC \<Rightarrow> hresult" where
  "QueryGetData fmt =
     (if fmt_cf fmt = CfDescriptor \<and> has_tymed TYMED_HGLOBAL fmt then S_OK
      else if fmt_cf fmt = CfContents \<and> has_tymed TYMED_ISTREAM fmt then S_OK
      else if fmt_cf fmt = CfPreferredEffect \<and> has_tymed TYMED_HGLOBAL fmt then S_OK
      else DV_E_FORMATETC)"

record FormatEnum =
  fe_formats :: "FORMATETC list"
  fe_index :: u64

definition offered_formats :: "FORMATETC list" where
  "offered_formats =
     [\<lparr>fmt_cf = CfDescriptor, fmt_lindex = - 1, fmt_tymed = TYMED_HGLOBAL\<rparr>,
      \<lparr>fmt_cf = CfContents, fmt_lindex = - 1, fmt_tymed = TYMED_ISTREAM\<rparr>,
      \<lparr>fmt_cf = CfPreferredEffect, fmt_lindex = - 1, fmt_tymed = TYMED_HGLOBAL\<rparr>]"

definition EnumFormatEtc :: "bool \<Rightarrow> bool \<Rightarrow> hresult \<times> FormatEnum option" where
  "EnumFormatEtc alloc dirGet =
     (if \<not> dirGet then (E_NOTIMPL, None)
      else if \<not> alloc then (E_OUTOFMEMORY, None)
      else (S_OK, Some \<lparr>fe_formats = offered_formats, fe_index = 0\<rparr>))"

definition enum_next :: "u32 \<Rightarrow> FormatEnum \<Rightarrow> hresult \<times> FORMATETC list \<times> FormatEnum" where
  "enum_next celt e =
     (let fs = take (unat celt) (drop (unat (fe_index e)) (fe_formats e)) in
      (if length fs = unat celt then S_OK else S_FALSE, fs, e\<lparr>fe_index := fe_index e + word_of_nat (length fs)\<rparr>))"

definition enum_skip :: "u32 \<Rightarrow> FormatEnum \<Rightarrow> hresult \<times> FormatEnum" where
  "enum_skip celt e =
     (let i = fe_index e + ucast celt in
      (if unat i \<le> length (fe_formats e) then S_OK else S_FALSE, e\<lparr>fe_index := i\<rparr>))"

definition enum_reset :: "FormatEnum \<Rightarrow> FormatEnum" where
  "enum_reset e = e\<lparr>fe_index := 0\<rparr>"

definition createFilePromiseDataObject :: "PromisedFile list \<Rightarrow> PromisedFile list option" where
  "createFilePromiseDataObject files = (if files = [] then None else Some files)"

section \<open>Lemmas: in-order arrival\<close>

text \<open>The receiver while the chunks of a transfer arrive in order: so many bytes of each file.\<close>

definition rx_at :: "(string \<times> bytes) list \<Rightarrow> nat list \<Rightarrow> FileReceiver" where
  "rx_at fs recs =
     \<lparr>fr_entries = map (\<lambda>f. \<lparr>fe_name = fst f, fe_size = word_of_nat (length (snd f))\<rparr>) fs,
      fr_buffers = map2 (\<lambda>f n. take n (snd f) @ replicate (length (snd f) - n) 0) fs recs,
      fr_received = recs\<rparr>"

definition recs_ok :: "(string \<times> bytes) list \<Rightarrow> nat list \<Rightarrow> bool" where
  "recs_ok fs recs \<longleftrightarrow> length recs = length fs \<and> (\<forall>i < length fs. recs ! i \<le> length (snd (fs ! i)))"

definition in_order :: "(string \<times> bytes) list \<Rightarrow> FileReceiver \<Rightarrow> bool" where
  "in_order fs r \<longleftrightarrow> r = emptyReceiver \<or> (\<exists>recs. recs_ok fs recs \<and> r = rx_at fs recs)"

lemma rx_at_fields:
  assumes "recs_ok fs recs" "i < length fs"
  shows "fr_buffers (rx_at fs recs) ! i = take (recs ! i) (snd (fs ! i)) @ replicate (length (snd (fs ! i)) - recs ! i) 0"
    "fr_received (rx_at fs recs) = recs" "length (fr_buffers (rx_at fs recs)) = length fs"
    "length (fr_entries (rx_at fs recs)) = length fs"
  using assms by (simp_all add: rx_at_def recs_ok_def)

lemma rx_at_update:
  assumes "recs_ok fs recs" "i < length fs"
  shows "(rx_at fs recs)\<lparr>fr_buffers := (fr_buffers (rx_at fs recs))[i := take n (snd (fs ! i)) @ replicate (length (snd (fs ! i)) - n) 0],
      fr_received := recs[i := n]\<rparr> = rx_at fs (recs[i := n])"
proof -
  have "map2 (\<lambda>f n. take n (snd f) @ replicate (length (snd f) - n) (0 :: u8)) fs (recs[i := n])
      = (map2 (\<lambda>f n. take n (snd f) @ replicate (length (snd f) - n) 0) fs recs)[i := take n (snd (fs ! i)) @ replicate (length (snd (fs ! i)) - n) 0]"
    using assms by (intro nth_equalityI) (auto simp: recs_ok_def nth_list_update)
  then show ?thesis by (simp add: rx_at_def)
qed

lemma recs_ok_update: "recs_ok fs recs \<Longrightarrow> i < length fs \<Longrightarrow> n \<le> length (snd (fs ! i)) \<Longrightarrow> recs_ok fs (recs[i := n])"
  by (auto simp: recs_ok_def nth_list_update)

lemma prefix_Cons_cases:
  assumes "prefix ms (x # xs)"
  obtains "ms = []" | ms' where "ms = x # ms'" "prefix ms' xs"
  using assms by (cases ms) auto

text \<open>Part of a file's chunks.\<close>

lemma feed_chunk_prefix:
  assumes "prefix ms (chunk_msgs k (word_of_nat i) off (snd (fs ! i)))" "recs_ok fs recs" "i < length fs" "length fs < 2 ^ 32"
    and "recs ! i = off" "length (snd (fs ! i)) < 2 ^ 64" "0 < k" "k \<le> kMaxFileMessage"
  shows "\<exists>n. n \<le> length (snd (fs ! i)) \<and> feed mem ms (rx_at fs recs) = Inr (rx_at fs (recs[i := n]))"
  using assms
proof (induction k "word_of_nat i :: u32" off "snd (fs ! i)" arbitrary: ms recs rule: chunk_msgs.induct)
  case (1 k off)
  let ?d = "snd (fs ! i)"
  have i: "unat (word_of_nat i :: u32) = i" using 1(4,5) by (intro unat_of_nat_fits) simp
  show ?case
  proof (cases "ms = []")
    case True
    have "recs[i := recs ! i] = recs" by simp
    then show ?thesis using 1(3,4) True by (intro exI [of _ "recs ! i"]) (simp add: recs_ok_def)
  next
    case False
    then have off: "off < length ?d"
      using 1(2) by (cases "length ?d \<le> off") (simp_all add: chunk_msgs_done)
    define n where "n = min k (length ?d - off)"
    obtain ms' where ms: "ms = encodeVarMessage FileChunk (encodeFileChunk (word_of_nat i) (word_of_nat off) (take k (drop off ?d))) # ms'"
      "prefix ms' (chunk_msgs k (word_of_nat i) (off + n) ?d)"
      using 1(2,8) False off by (auto simp: chunk_msgs_more n_def elim: prefix_Cons_cases)
    have le: "off + n \<le> length ?d" using off by (simp add: n_def)
    have "acceptChunk (encodeFileChunk (word_of_nat i) (word_of_nat off) (take k (drop off ?d))) (rx_at fs recs)
        = Inr (True, rx_at fs (recs[i := off + n]))"
      using accept_in_order [of "word_of_nat i" "rx_at fs recs" off ?d k] rx_at_fields [OF 1(3,4)] rx_at_update [OF 1(3,4), of "off + n"]
        1(4,6,7,8) off by (simp add: i n_def)
    moreover have "length (take k (drop off ?d)) \<le> kMaxFileMessage" using 1(9) by simp
    ultimately have step: "feed mem ms (rx_at fs recs) = feed mem ms' (rx_at fs (recs[i := off + n]))"
      by (simp add: ms handle_chunk)
    have "\<exists>n'. n' \<le> length ?d \<and> feed mem ms' (rx_at fs (recs[i := off + n])) = Inr (rx_at fs (recs[i := off + n, i := n']))"
    proof (rule 1(1) [folded n_def])
      show "\<not> (k = 0 \<or> length ?d \<le> off)" using off 1(8) by simp
      show "prefix ms' (chunk_msgs k (word_of_nat i) (off + n) ?d)" by (rule ms(2))
      show "recs_ok fs (recs[i := off + n])" by (rule recs_ok_update [OF 1(3,4) le])
      show "recs[i := off + n] ! i = off + n" using 1(3,4) by (simp add: recs_ok_def)
    qed (use 1 in simp_all)
    then show ?thesis by (simp add: step)
  qed
qed

lemma prefix_append_cases:
  assumes "prefix ms (xs @ ys)"
  obtains "prefix ms xs" | ms' where "ms = xs @ ms'" "prefix ms' ys"
  using assms by (auto simp: prefix_append)

text \<open>The files below \<open>j\<close> have arrived whole.\<close>

definition recs_upto :: "(string \<times> bytes) list \<Rightarrow> nat \<Rightarrow> nat list" where
  "recs_upto fs j = map (length \<circ> snd) (take j fs) @ replicate (length fs - j) 0"

lemma recs_upto_ok: "recs_ok fs (recs_upto fs j)"
  by (auto simp: recs_ok_def recs_upto_def nth_append)

lemma recs_upto_nth: "j < length fs \<Longrightarrow> recs_upto fs j ! j = 0"
  by (simp add: recs_upto_def nth_append)

lemma partial_rx_at: "partial_rx fs j = rx_at fs (recs_upto fs j)"
proof -
  have "map2 (\<lambda>f n. take n (snd f) @ replicate (length (snd f) - n) (0 :: u8)) fs (recs_upto fs j)
      = map snd (take j fs) @ map (\<lambda>f. replicate (length (snd f)) 0) (drop j fs)"
    by (intro nth_equalityI) (auto simp: recs_upto_def nth_append)
  then show ?thesis by (simp add: partial_rx_def rx_at_def) (simp add: recs_upto_def)
qed

lemma feed_files_prefix:
  assumes "prefix ms (file_msgs k fs [j..<length fs])" "j + n = length fs" "length fs < 2 ^ 32"
    and "list_all (\<lambda>f. length (fst f) < 2 ^ 16 \<and> length (snd f) < 2 ^ 64) fs" "0 < k" "k \<le> kMaxFileMessage"
  shows "\<exists>recs. recs_ok fs recs \<and> feed mem ms (partial_rx fs j) = Inr (rx_at fs recs)"
  using assms(1,2)
proof (induction n arbitrary: j ms)
  case 0
  then have "ms = []" by (simp add: file_msgs_def)
  then show ?case using recs_upto_ok [of fs j] by (auto simp: partial_rx_at)
next
  case (Suc n)
  then have j: "j < length fs" by simp
  have len: "length (snd (fs ! j)) < 2 ^ 64" using assms(4) j by (simp add: list_all_length)
  have "file_msgs k fs [j..<length fs] = chunk_msgs k (word_of_nat j) 0 (snd (fs ! j)) @ file_msgs k fs [Suc j..<length fs]"
    using j by (simp add: file_msgs_def upt_conv_Cons)
  then consider "prefix ms (chunk_msgs k (word_of_nat j) 0 (snd (fs ! j)))"
    | ms' where "ms = chunk_msgs k (word_of_nat j) 0 (snd (fs ! j)) @ ms'" "prefix ms' (file_msgs k fs [Suc j..<length fs])"
    using Suc.prems(1) by (auto elim: prefix_append_cases)
  then show ?case
  proof cases
    case 1
    then obtain m where m: "m \<le> length (snd (fs ! j))" "feed mem ms (rx_at fs (recs_upto fs j)) = Inr (rx_at fs ((recs_upto fs j)[j := m]))"
      using feed_chunk_prefix [OF 1 recs_upto_ok j assms(3) recs_upto_nth [OF j] len assms(5,6), of mem] by blast
    then show ?thesis using recs_ok_update [OF recs_upto_ok j m(1)] by (auto simp: partial_rx_at)
  next
    case 2
    have "feed mem ms (partial_rx fs j) = feed mem ms' (partial_rx fs (Suc j))"
      using partial_rx_step [OF j assms(3) len assms(5,6)] by (simp add: 2(1) feed_append)
    then show ?thesis using Suc.IH [OF 2(2)] Suc.prems(2) by simp
  qed
qed

lemma feed_prefix:
  assumes "transfer_ok mem k fs" "prefix ms (transfer_msgs k fs)"
  shows "\<exists>r. feed mem ms emptyReceiver = Inr r \<and> in_order fs r"
proof (cases "ms = []")
  case True
  then show ?thesis by (simp add: in_order_def)
next
  case False
  then obtain ms' where ms: "ms = encodeVarMessage FilePromiseMeta (sender_meta (new_sender fs)) # ms'"
    "prefix ms' (file_msgs k fs [0..<length fs])"
    using assms(2) by (auto simp: transfer_msgs_def elim: prefix_Cons_cases)
  have ok: "0 < k" "k \<le> kMaxFileMessage" "length fs < 2 ^ 32" "length (sender_meta (new_sender fs)) \<le> kMaxFileMessage"
    "list_all (\<lambda>f. length (fst f) < 2 ^ 16 \<and> length (snd f) < 2 ^ 64) fs"
    using assms(1) by (simp_all add: transfer_ok_def)
  have "feed mem ms emptyReceiver = feed mem ms' (partial_rx fs 0)"
    using accept_transfer_meta [OF assms(1), of emptyReceiver] ok(4) by (simp add: ms(1) handle_meta)
  then show ?thesis
    using feed_files_prefix [OF ms(2), of "length fs" mem] ok by (auto simp: in_order_def)
qed

section \<open>What one look returns\<close>

text \<open>Right bytes from the offset on, at least one of them, or the end of the file.\<close>

definition right_bytes :: "bytes \<Rightarrow> u64 \<Rightarrow> u32 \<Rightarrow> pull \<Rightarrow> bool" where
  "right_bytes d off cap p \<longleftrightarrow> (\<exists>chunk. p = Returned (int (length chunk)) chunk \<and> length chunk \<le> unat cap
     \<and> chunk = take (length chunk) (drop (unat off) d) \<and> (chunk = [] \<longrightarrow> length d \<le> unat off))"

lemma small_sint: "n < 2 ^ 31 \<Longrightarrow> sint (word_of_nat n :: u32) = int n"
  by (simp add: signed_of_nat signed_take_bit_int_eq_self)

lemma read_check_right:
  assumes "in_order fs r" "i < length fs" "length (snd (fs ! i)) < 2 ^ 64" "0 < cap" "unat cap < 2 ^ 31"
    and "read_check i off cap r = Some p"
  shows "right_bytes (snd (fs ! i)) off cap p"
proof (cases "r = emptyReceiver")
  case True
  then show ?thesis using assms(6) by (simp add: read_check_def read_have_def Let_def emptyReceiver_def rx_complete_def)
next
  case False
  let ?d = "snd (fs ! i)"
  obtain recs where recs: "recs_ok fs recs" "r = rx_at fs recs" using assms(1) False by (auto simp: in_order_def)
  have le: "recs ! i \<le> length ?d" using recs(1) assms(2) by (simp add: recs_ok_def)
  have have': "read_have i r = recs ! i"
    using assms(2) recs rx_at_fields [OF recs(1) assms(2)] by (simp add: read_have_def received_def recs_ok_def)
  have size: "unat (fe_size (fr_entries r ! i)) = length ?d"
    using assms(2,3) by (simp add: recs(2) rx_at_def unat_of_nat_fits)
  show ?thesis
  proof (cases "unat off < recs ! i")
    case True
    define n where "n = min (recs ! i - unat off) (unat cap)"
    have n: "0 < n" "n < 2 ^ 31" "n \<le> unat cap" "unat off + n \<le> recs ! i"
      using True assms(4,5) by (auto simp: n_def unat_gt_0 word_neq_0_conv)
    have "take n (drop (unat off) (fr_buffers r ! i)) = take n (drop (unat off) ?d)"
      using n(4) le by (simp add: recs(2) rx_at_fields [OF recs(1) assms(2)] take_drop)
    moreover have "length (fr_buffers r ! i) = length ?d" using le by (simp add: recs(2) rx_at_fields [OF recs(1) assms(2)])
    moreover have "length (take n (drop (unat off) ?d)) = n" using n(4) le by simp
    ultimately have "p = Returned (int n) (take n (drop (unat off) ?d))"
      using assms(6) True n le by (simp add: read_check_def have' Let_def n_def [symmetric] small_sint)
    then show ?thesis using n le \<open>length (take n (drop (unat off) ?d)) = n\<close> unfolding right_bytes_def
      by (intro exI [of _ "take n (drop (unat off) ?d)"]) auto
  next
    case False
    then have "read_check i off cap r = (if rx_complete i r then Some (Returned 0 []) else None)"
      by (simp add: read_check_def have' Let_def)
    moreover have "rx_complete i r \<longleftrightarrow> length ?d \<le> recs ! i"
      using size assms(2) rx_at_fields [OF recs(1) assms(2)] by (simp add: rx_complete_def recs(2))
    ultimately have "p = Returned 0 []" "recs ! i = length ?d" using assms(6) le by (simp_all split: if_splits)
    then show ?thesis using False by (simp add: right_bytes_def)
  qed
qed

text \<open>A destination that takes everything it is given.\<close>

definition append_write :: "bytes \<Rightarrow> bytes \<Rightarrow> hresult \<times> u32 \<times> bytes" where
  "append_write b d = (S_OK, word_of_nat (length b), d @ b)"

definition copy_want :: "u64 \<Rightarrow> u32" where
  "copy_want left = (if left < 65536 then ucast left else 65536)"

lemma copy_want: "unat (copy_want left) = min (unat left) 65536"
proof (cases "left < 65536")
  case True
  then have "unat left < 65536" by (simp add: word_less_nat_alt)
  then show ?thesis using True by (simp add: copy_want_def unsigned_ucast_eq take_bit_nat_eq_self)
next
  case False
  then show ?thesis by (simp add: copy_want_def word_less_nat_alt)
qed

lemma copy_got:
  fixes left :: u64
  assumes "n \<le> unat left" "n \<le> 65536"
  shows "(0 + word_of_nat n :: u32) = 0 \<longleftrightarrow> n = 0" "unat (left - ucast (0 + word_of_nat n :: u32)) = unat left - n"
proof -
  have n: "unat (word_of_nat n :: u32) = n" using assms(2) by (intro unat_of_nat_fits) simp
  show "(0 + word_of_nat n :: u32) = 0 \<longleftrightarrow> n = 0" using n unat_0_iff [of "word_of_nat n :: u32"] by (simp del: unat_0_iff)
  define g :: u64 where "g = ucast (word_of_nat n :: u32)"
  have g: "unat g = n" using assms(2) unfolding g_def unsigned_ucast_eq n by (simp add: take_bit_nat_eq_self)
  then have "unat (left - g) = unat left - n" using assms(1) unat_sub [of g left] by (simp add: word_le_nat_alt)
  then show "unat (left - ucast (0 + word_of_nat n :: u32)) = unat left - n" unfolding g_def add_0 .
qed

section \<open>The contract of a byte source\<close>

text \<open>
  What the stream needs of its \<open>FileByteSource\<close>: a call that returns gives the right bytes or
  -1, and while \<open>ready n\<close> holds the next \<open>n\<close> calls return and do not fail.
\<close>

locale byte_source =
  fixes src :: "u32 \<Rightarrow> u64 \<Rightarrow> u32 \<Rightarrow> 's \<Rightarrow> (pull \<times> 's) option"
    and ix :: u32
    and good :: "'s \<Rightarrow> bool"
    and ready :: "nat \<Rightarrow> 's \<Rightarrow> bool"
    and content :: bytes
  assumes size: "length content < 2 ^ 64"
    and pulled: "good s \<Longrightarrow> 0 < cap \<Longrightarrow> unat cap < 2 ^ 31 \<Longrightarrow> src ix off cap s = Some (p, s') \<Longrightarrow>
      good s' \<and> (p = Returned (- 1) [] \<or> right_bytes content off cap p)"
    and available: "good s \<Longrightarrow> ready (Suc n) s \<Longrightarrow> 0 < cap \<Longrightarrow> unat cap < 2 ^ 31 \<Longrightarrow>
      \<exists>p s'. src ix off cap s = Some (p, s') \<and> p \<noteq> Returned (- 1) [] \<and> ready n s'"
    and ready_less: "ready n s \<Longrightarrow> m \<le> n \<Longrightarrow> ready m s"
begin

text \<open>What a read from the position of \<open>st\<close> for at most \<open>want\<close> bytes may return.\<close>

definition read_result :: "nat \<Rightarrow> PromiseStream \<Rightarrow> hresult \<Rightarrow> bytes \<Rightarrow> PromiseStream \<Rightarrow> bool" where
  "read_result want st hr chunk st' \<longleftrightarrow>
     (hr = S_OK \<or> hr = STG_E_READFAULT) \<and> length chunk \<le> want
     \<and> chunk = take (length chunk) (drop (unat (pst_pos st)) content)
     \<and> (hr = S_OK \<longrightarrow> chunk = take want (drop (unat (pst_pos st)) content))
     \<and> pst_index st' = pst_index st \<and> unat (pst_pos st') = unat (pst_pos st) + length chunk"

lemma pos_step:
  assumes "right_bytes content pos cap (Returned (int (length chunk)) chunk)" "chunk \<noteq> []"
  shows "unat (pos + word_of_int (int (length chunk))) = unat pos + length chunk \<and> unat pos + length chunk \<le> length content"
proof -
  have "length chunk \<le> length content - unat pos" using assms(1) by (auto simp: right_bytes_def dest!: arg_cong [of _ _ length])
  moreover have "unat pos < length content" using calculation assms(2) by (cases "unat pos < length content") auto
  ultimately have "unat pos + length chunk \<le> length content" by simp
  then show ?thesis using size unat_offset_end [of pos "length chunk"] by simp
qed

lemma read_result_step:
  assumes r: "right_bytes content (pst_pos st) cap (Returned (int (length chunk)) chunk)" "chunk \<noteq> []" "length chunk \<le> want"
    and st1: "pst_index st1 = pst_index st" "unat (pst_pos st1) = unat (pst_pos st) + length chunk"
    and rest: "read_result (want - length chunk) st1 hr later st'"
  shows "read_result want st hr (chunk @ later) st'"
proof -
  let ?d = "drop (unat (pst_pos st)) content"
  have c: "chunk = take (length chunk) ?d" using r(1) by (auto simp: right_bytes_def)
  have split: "take (length chunk + n) ?d = chunk @ take n (drop (unat (pst_pos st1)) content)" for n
    by (metis add.commute c drop_drop st1(2) take_add)
  show ?thesis
    using rest r(3) split [of "length later"] split [of "want - length chunk"] by (auto simp: read_result_def st1)
qed

lemma stream_loop_right:
  assumes "good s" "pst_index st = ix" "unat cb < 2 ^ 31" "cnt \<le> cb" "stream_loop src cb cnt out st s = Some res"
  shows "\<exists>hr chunk st' s'. res = Inr (hr, out @ chunk, cnt + word_of_nat (length chunk), st', s') \<and> good s'
    \<and> read_result (unat cb - unat cnt) st hr chunk st'"
  using assms
proof (induction "unat cb - unat cnt" arbitrary: cnt out st s rule: less_induct)
  case less
  show ?case
  proof (cases "cnt < cb")
    case False
    then show ?thesis using less.prems by (subst (asm) stream_loop.simps) (auto simp: read_result_def)
  next
    case True
    define cap where "cap = cb - cnt"
    have cap: "unat cap = unat cb - unat cnt" "0 < cap" "unat cap < 2 ^ 31"
      using True less.prems(3) by (simp_all add: cap_def unat_sub word_le_nat_alt word_less_nat_alt)
    obtain p s1 where src: "src ix (pst_pos st) cap s = Some (p, s1)"
      using less.prems(2,5) True by (subst (asm) stream_loop.simps) (auto simp: cap_def bind_eq_Some_conv)
    have g: "good s1" "p = Returned (- 1) [] \<or> right_bytes content (pst_pos st) cap p" using pulled [OF less.prems(1) cap(2,3) src] by auto
    show ?thesis
    proof (cases "p = Returned (- 1) []")
      case True
      then have "res = Inr (STG_E_READFAULT, out, cnt, st, s1)"
        using less.prems(2,5) src \<open>cnt < cb\<close> by (subst (asm) stream_loop.simps) (simp add: cap_def)
      then show ?thesis using g(1) by (auto simp: read_result_def)
    next
      case False
      then obtain chunk where p: "p = Returned (int (length chunk)) chunk" "length chunk \<le> unat cap"
        "chunk = [] \<longrightarrow> length content \<le> unat (pst_pos st)" and rb: "right_bytes content (pst_pos st) cap p"
        using g(2) by (auto simp: right_bytes_def)
      show ?thesis
      proof (cases "chunk = []")
        case True
        then have "res = Inr (S_OK, out, cnt, st, s1)"
          using less.prems(2,5) src \<open>cnt < cb\<close> p(1) by (subst (asm) stream_loop.simps) (simp add: cap_def)
        then show ?thesis using g(1) p(3) True by (auto simp: read_result_def)
      next
        case False
        let ?cnt = "cnt + word_of_int (int (length chunk))" and ?st = "st\<lparr>pst_pos := pst_pos st + word_of_int (int (length chunk))\<rparr>"
        have pos: "unat (pst_pos ?st) = unat (pst_pos st) + length chunk"
          using pos_step [of "pst_pos st" cap chunk] rb p(1) False by simp
        have lt: "length chunk < 2 ^ 32" using p(2) cap(3) by simp
        have cnt: "unat ?cnt = unat cnt + length chunk"
          using p(2) cap(1) less.prems(3) True lt by (simp add: unat_word_ariths unat_of_nat_fits word_less_nat_alt)
        have "stream_loop src cb ?cnt (out @ chunk) ?st s1 = Some res"
          using less.prems(2,5) src \<open>cnt < cb\<close> p(1) False by (subst (asm) stream_loop.simps) (simp add: cap_def)
        moreover have "0 < length chunk" using False by simp
        then have dec: "unat cb - unat ?cnt < unat cb - unat cnt" using cnt p(2) cap(1) by linarith
        moreover have le: "?cnt \<le> cb" using cnt p(2) cap(1) \<open>cnt < cb\<close> by (simp add: word_le_nat_alt word_less_nat_alt)
        ultimately obtain hr later st' s' where r: "res = Inr (hr, (out @ chunk) @ later, ?cnt + word_of_nat (length later), st', s')"
          "good s'" "read_result (unat cb - unat ?cnt) ?st hr later st'"
          using less.hyps [OF dec g(1) _ less.prems(3) le, of ?st "out @ chunk"] less.prems(2) by auto
        have "read_result (unat cb - unat cnt) st hr (chunk @ later) st'"
          using read_result_step [of st cap chunk "unat cb - unat cnt" ?st hr later st'] rb p cap(1) False pos r(3) cnt by simp
        then show ?thesis using r(1,2) by (intro exI [of _ hr] exI [of _ "chunk @ later"]) (auto simp: algebra_simps)
      qed
    qed
  qed
qed

lemma stream_loop_returns:
  assumes "good s" "pst_index st = ix" "unat cb < 2 ^ 31" "cnt \<le> cb" "ready (Suc (b + (length content - unat (pst_pos st)))) s"
  shows "\<exists>out' cnt' st' s'. stream_loop src cb cnt out st s = Some (Inr (S_OK, out', cnt', st', s'))
    \<and> ready (b + (length content - unat (pst_pos st'))) s'
    \<and> (cnt' = cb \<longrightarrow> ready (Suc (b + (length content - unat (pst_pos st')))) s')"
  using assms
proof (induction "unat cb - unat cnt" arbitrary: cnt out st s rule: less_induct)
  case less
  show ?case
  proof (cases "cnt < cb")
    case False
    then show ?thesis using less.prems(4,5) ready_less [OF less.prems(5)] by (subst stream_loop.simps) simp
  next
    case True
    define cap where "cap = cb - cnt"
    have cap: "unat cap = unat cb - unat cnt" "0 < cap" "unat cap < 2 ^ 31"
      using True less.prems(3) by (simp_all add: cap_def unat_sub word_le_nat_alt word_less_nat_alt)
    obtain p s1 where src: "src ix (pst_pos st) cap s = Some (p, s1)" "p \<noteq> Returned (- 1) []"
      "ready (b + (length content - unat (pst_pos st))) s1"
      using available [OF less.prems(1,5) cap(2,3)] by blast
    have g: "good s1" "right_bytes content (pst_pos st) cap p" using pulled [OF less.prems(1) cap(2,3) src(1)] src(2) by auto
    then obtain chunk where p: "p = Returned (int (length chunk)) chunk" "length chunk \<le> unat cap" by (auto simp: right_bytes_def)
    have unf: "stream_loop src cb cnt out st s = (if chunk = [] then Some (Inr (S_OK, out, cnt, st, s1))
        else stream_loop src cb (cnt + word_of_int (int (length chunk))) (out @ chunk)
               (st\<lparr>pst_pos := pst_pos st + word_of_int (int (length chunk))\<rparr>) s1)"
      using less.prems(2) src(1) True by (subst stream_loop.simps) (simp add: cap_def p(1))
    show ?thesis
    proof (cases "chunk = []")
      case True
      then show ?thesis using src(3) unf \<open>cnt < cb\<close> by auto
    next
      case False
      let ?cnt = "cnt + word_of_int (int (length chunk))" and ?st = "st\<lparr>pst_pos := pst_pos st + word_of_int (int (length chunk))\<rparr>"
      have pos: "unat (pst_pos ?st) = unat (pst_pos st) + length chunk" "unat (pst_pos st) + length chunk \<le> length content"
        using pos_step [of "pst_pos st" cap chunk] g(2) p(1) False by simp_all
      have lt: "length chunk < 2 ^ 32" using p(2) cap(3) by simp
      have cnt: "unat ?cnt = unat cnt + length chunk"
        using p(2) cap(1) less.prems(3) True lt by (simp add: unat_word_ariths unat_of_nat_fits word_less_nat_alt)
      have pos': "0 < length chunk" using False by simp
      then have dec: "unat cb - unat ?cnt < unat cb - unat cnt" using cnt p(2) cap(1) by linarith
      have le: "?cnt \<le> cb" using cnt p(2) cap(1) \<open>cnt < cb\<close> by (simp add: word_le_nat_alt word_less_nat_alt)
      have "Suc (b + (length content - unat (pst_pos ?st))) \<le> b + (length content - unat (pst_pos st))"
        unfolding pos(1) using pos(2) pos' by linarith
      then show ?thesis
        using less.hyps [OF dec g(1) _ less.prems(3) le ready_less [OF src(3)], of ?st "out @ chunk"] less.prems(2) False by (simp add: unf)
    qed
  qed
qed

lemma copy_unfold:
  "copy_loop src append_write left rd w st s d =
     (if left > 0 then
        Option.bind (stream_loop src (copy_want left) 0 [] st s) (\<lambda>res.
          case res of
            Inl e \<Rightarrow> Some (Inl e)
          | Inr (hr, buf, got, st', s') \<Rightarrow>
              if FAILED hr then Some (Inr (hr, rd, w, st', s', d))
              else if got = 0 then Some (Inr (S_OK, rd, w, st', s', d))
              else copy_loop src append_write (left - ucast got) (rd + ucast got) (w + ucast (word_of_nat (length buf) :: u32)) st' s' (d @ buf))
      else Some (Inr (S_OK, rd, w, st, s, d)))"
  by (subst copy_loop.simps) (simp add: stream_read_def append_write_def copy_want_def FAILED_def cong: if_cong)

lemma copy_right:
  assumes "good s" "pst_index st = ix" "copy_loop src append_write left rd w st s d = Some res"
  shows "\<exists>hr chunk rd' w' st' s'. res = Inr (hr, rd', w', st', s', d @ chunk) \<and> (hr = S_OK \<or> hr = STG_E_READFAULT)
    \<and> chunk = take (length chunk) (drop (unat (pst_pos st)) content)
    \<and> (hr = S_OK \<longrightarrow> chunk = take (unat left) (drop (unat (pst_pos st)) content))"
  using assms
proof (induction "unat left" arbitrary: left rd w st s d rule: less_induct)
  case less
  show ?case
  proof (cases "left > 0")
    case False
    then have "left = 0" by (simp add: word_gt_0)
    then show ?thesis using less.prems(3) by (subst (asm) copy_unfold) (auto intro!: exI [of _ "[]"])
  next
    case True
    have cb: "unat (copy_want left) < 2 ^ 31" by (simp add: copy_want min_less_iff_disj)
    obtain res1 where res1: "stream_loop src (copy_want left) 0 [] st s = Some res1"
      using less.prems(3) True by (subst (asm) copy_unfold) (auto simp: bind_eq_Some_conv)
    obtain hr chunk st' s' where r: "res1 = Inr (hr, chunk, 0 + word_of_nat (length chunk), st', s')" "good s'"
      "read_result (unat (copy_want left)) st hr chunk st'"
      using stream_loop_right [OF less.prems(1,2) cb _ res1] by auto
    have len: "length chunk \<le> unat left" "length chunk \<le> 65536" using r(3) by (simp_all add: read_result_def copy_want)
    note got = copy_got [OF len]
    have unf: "Some res = (if FAILED hr then Some (Inr (hr, rd, w, st', s', d))
              else if chunk = [] then Some (Inr (S_OK, rd, w, st', s', d))
              else copy_loop src append_write (left - ucast (0 + word_of_nat (length chunk) :: u32)) (rd + ucast (0 + word_of_nat (length chunk) :: u32))
                 (w + ucast (word_of_nat (length chunk) :: u32)) st' s' (d @ chunk))"
      using less.prems(3) True got(1) by (subst (asm) copy_unfold) (simp add: res1 r(1) split: if_splits)
    show ?thesis
    proof (cases "FAILED hr \<or> chunk = []")
      case True
      have "take (unat left) (drop (unat (pst_pos st)) content) = []" if "hr = S_OK" "chunk = []"
        using r(3) that \<open>left > 0\<close> by (auto simp: read_result_def copy_want word_less_nat_alt)
      then show ?thesis using True unf r(3) by (auto simp: read_result_def FAILED_def intro!: exI [of _ "[]"])
    next
      case False
      then have hr: "hr = S_OK" using r(3) by (auto simp: read_result_def FAILED_def)
      let ?left = "left - ucast (0 + word_of_nat (length chunk) :: u32)"
      have dec: "unat ?left < unat left" using False got(2) len \<open>left > 0\<close> by (simp add: word_less_nat_alt)
      have st': "pst_index st' = ix" "unat (pst_pos st') = unat (pst_pos st) + length chunk"
        using r(3) less.prems(2) by (simp_all add: read_result_def)
      have "copy_loop src append_write ?left (rd + ucast (0 + word_of_nat (length chunk) :: u32)) (w + ucast (word_of_nat (length chunk) :: u32))
          st' s' (d @ chunk) = Some res" using unf False by simp
      from less.hyps [OF dec r(2) st'(1) this]
      obtain hr' later rd' w' st'' s'' where l: "res = Inr (hr', rd', w', st'', s'', (d @ chunk) @ later)" "hr' = S_OK \<or> hr' = STG_E_READFAULT"
        "later = take (length later) (drop (unat (pst_pos st')) content)"
        "hr' = S_OK \<longrightarrow> later = take (unat left - length chunk) (drop (unat (pst_pos st')) content)"
        unfolding got(2) by blast
      let ?d = "drop (unat (pst_pos st)) content"
      have c: "chunk = take (length chunk) ?d" using r(3) by (simp add: read_result_def)
      have split: "take (length chunk + n) ?d = chunk @ take n (drop (unat (pst_pos st')) content)" for n
        by (metis add.commute c drop_drop st'(2) take_add)
      show ?thesis
      proof (intro exI conjI)
        show "res = Inr (hr', rd', w', st'', s'', d @ (chunk @ later))" using l(1) by simp
        show "hr' = S_OK \<or> hr' = STG_E_READFAULT" by (rule l(2))
        show "chunk @ later = take (length (chunk @ later)) ?d" using split [of "length later"] l(3) by simp
        show "hr' = S_OK \<longrightarrow> chunk @ later = take (unat left) ?d" using split [of "unat left - length chunk"] l(4) len(1) by simp
      qed
    qed
  qed
qed

text \<open>While the source is ready a copy ends well.\<close>

lemma copy_returns:
  assumes "good s" "pst_index st = ix" "ready (Suc (Suc (length content - unat (pst_pos st)))) s
      \<or> (length content \<le> unat (pst_pos st) \<and> ready 1 s)"
  shows "\<exists>rd' w' st' s' d'. copy_loop src append_write left rd w st s d = Some (Inr (S_OK, rd', w', st', s', d'))"
  using assms
proof (induction "unat left" arbitrary: left rd w st s d rule: less_induct)
  case less
  show ?case
  proof (cases "left > 0")
    case False
    then show ?thesis by (subst copy_unfold) simp
  next
    case True
    have cb: "unat (copy_want left) < 2 ^ 31" by (simp add: copy_want min_less_iff_disj)
    define b where "b = (if ready (Suc (Suc (length content - unat (pst_pos st)))) s then Suc 0 else 0)"
    have rdy: "ready (Suc (b + (length content - unat (pst_pos st)))) s" using less.prems(3) by (auto simp: b_def)
    obtain out' cnt' st' s' where r: "stream_loop src (copy_want left) 0 [] st s = Some (Inr (S_OK, out', cnt', st', s'))"
      "ready (b + (length content - unat (pst_pos st'))) s'"
      "cnt' = copy_want left \<longrightarrow> ready (Suc (b + (length content - unat (pst_pos st')))) s'"
      using stream_loop_returns [OF less.prems(1,2) cb _ rdy, of 0 "[]"] by auto
    have rr: "good s'" "cnt' = 0 + word_of_nat (length out')" "read_result (unat (copy_want left)) st S_OK out' st'"
      using stream_loop_right [OF less.prems(1,2) cb _ r(1)] by auto
    have len: "length out' \<le> unat left" "length out' \<le> 65536" using rr(3) by (simp_all add: read_result_def copy_want)
    note got = copy_got [OF len]
    show ?thesis
    proof (cases "out' = []")
      case True
      then show ?thesis using \<open>left > 0\<close> by (subst copy_unfold) (simp add: r(1) rr(2) FAILED_def)
    next
      case False
      let ?left = "left - ucast cnt'"
      have dec: "unat ?left < unat left" using False got(2) len \<open>left > 0\<close> by (simp add: rr(2) word_less_nat_alt)
      have out: "out' = take (unat (copy_want left)) (drop (unat (pst_pos st)) content)" "unat (pst_pos st') = unat (pst_pos st) + length out'"
        "pst_index st' = ix" using rr(3) less.prems(2) by (simp_all add: read_result_def)
      have b: "b = Suc 0" using False out(1) less.prems(3) by (auto simp: b_def)
      have "ready (Suc (Suc (length content - unat (pst_pos st')))) s' \<or> length content \<le> unat (pst_pos st') \<and> ready 1 s'"
      proof (cases "length out' = unat (copy_want left)")
        case True
        then have "cnt' = copy_want left" using rr(2) by simp
        then show ?thesis using r(3) b by simp
      next
        case False
        then have "length content - unat (pst_pos st) = length out'" by (subst out(1), subst (asm) out(1)) simp
        then have "length content \<le> unat (pst_pos st')" using out(2) by simp
        then show ?thesis using r(2) b by simp
      qed
      then show ?thesis
        using less.hyps [OF dec rr(1) out(3), of "rd + ucast cnt'" "w + ucast (word_of_nat (length out') :: u32)" "d @ out'"] False \<open>left > 0\<close> got(1)
        by (subst copy_unfold) (simp add: r(1) FAILED_def rr(2))
    qed
  qed
qed

end

section \<open>The session keeps the contract\<close>

definition lb_ops :: "loopback transport_ops" where
  "lb_ops = \<lparr>op_send = lb_send, op_recv = lb_recv, op_up = lb_connected, op_waiting = length \<circ> lb_inbox\<rparr>"

text \<open>The dial gives a fresh endpoint; arrivals are appended to its inbox.\<close>

definition loop_env :: "nat \<Rightarrow> loopback pull_env" where
  "loop_env mem = \<lparr>pe_ops = lb_ops, pe_deliver = (\<lambda>ms l. l\<lparr>lb_inbox := lb_inbox l @ ms\<rparr>),
     pe_close = (\<lambda>l. l\<lparr>lb_connected := False\<rparr>), pe_mem = mem, pe_dial = Some \<lparr>lb_connected = True, lb_inbox = []\<rparr>\<rparr>"

definition arriving :: "pull_turn list \<Rightarrow> bytes list" where
  "arriving ts = concat (concat (map pt_arrive ts))"

lemma arriving_simps [simp]: "arriving [] = []" "arriving (tn # ts) = concat (pt_arrive tn) @ arriving ts"
  by (simp_all add: arriving_def)

text \<open>A dialed session that has received, holds and will get a part of the transfer.\<close>

definition pull_inv :: "nat \<Rightarrow> nat \<Rightarrow> (string \<times> bytes) list \<Rightarrow> loopback PullSession \<Rightarrow> bytes list \<Rightarrow> bool" where
  "pull_inv mem k fs s later \<longleftrightarrow> \<not> ps_failed s \<and> ps_dialed s
     \<and> (\<exists>got l. ps_transport s = Some l \<and> feed mem got emptyReceiver = Inr (ps_receiver s)
          \<and> (ps_draining s \<longrightarrow> lb_connected l) \<and> prefix (got @ lb_inbox l @ later) (transfer_msgs k fs))"

lemma pull_inv_deliver:
  "pull_inv mem k fs s (ms @ later) \<Longrightarrow>
    pull_inv mem k fs (s\<lparr>ps_transport := map_option (pe_deliver (loop_env mem) ms) (ps_transport s)\<rparr>) later"
  by (auto simp: pull_inv_def loop_env_def)

lemma receive_prefix:
  assumes "transfer_ok mem k fs" "prefix (got @ lb_inbox l @ later) (transfer_msgs k fs)" "feed mem got emptyReceiver = Inr r" "lb_connected l"
  shows "\<exists>l' r'. receiveAvailable lb_recv mem l r = Some (Inr (allComplete r', l', r')) \<and> lb_connected l' \<and> lb_inbox l' = []
    \<and> feed mem (got @ lb_inbox l) emptyReceiver = Inr r'"
proof -
  have pre: "prefix (got @ lb_inbox l) (transfer_msgs k fs)" using assms(2) by (metis append.assoc append_prefixD)
  obtain r' where r': "feed mem (got @ lb_inbox l) emptyReceiver = Inr r'" using feed_prefix [OF assms(1) pre] by blast
  then have "feed mem (lb_inbox l) r = Inr r'" using assms(3) by (simp add: feed_append)
  moreover have "\<forall>m \<in> set (lb_inbox l). m \<noteq> [] \<and> length m \<le> kMaxFileMessage"
    using set_mono_prefix [OF pre] transfer_msgs_bound [OF assms(1)] by auto
  ultimately obtain l' where "drainFiles lb_recv mem l r = Some (Inr (l', r'))" "lb_connected l'" "lb_inbox l' = []"
    using loop.drain_feed [OF assms(4) refl] by blast
  then show ?thesis using r' by (simp add: receiveAvailable_def)
qed

lemma drain_step_inv:
  assumes "transfer_ok mem k fs" "pull_inv mem k fs s later"
  shows "\<exists>s'. drain_step lb_ops (pe_close (loop_env mem)) mem s = Some (Inr s') \<and> pull_inv mem k fs s' later"
proof (cases "ps_draining s")
  case False
  then show ?thesis using assms(2) by (simp add: drain_step_def)
next
  case True
  then obtain got l where s: "ps_transport s = Some l" "feed mem got emptyReceiver = Inr (ps_receiver s)" "lb_connected l"
    "prefix (got @ lb_inbox l @ later) (transfer_msgs k fs)" "\<not> ps_failed s" "ps_dialed s"
    using assms(2) by (auto simp: pull_inv_def)
  obtain l' r' where r: "receiveAvailable lb_recv mem l (ps_receiver s) = Some (Inr (allComplete r', l', r'))" "lb_connected l'"
    "lb_inbox l' = []" "feed mem (got @ lb_inbox l) emptyReceiver = Inr r'"
    using receive_prefix [OF assms(1) s(4,2,3)] by blast
  let ?s1 = "s\<lparr>ps_transport := Some l', ps_receiver := r'\<rparr>"
  let ?s2 = "?s1\<lparr>ps_transport := Some (l'\<lparr>lb_connected := False\<rparr>), ps_draining := False\<rparr>"
  have "drain_step lb_ops (pe_close (loop_env mem)) mem s = Some (Inr (if allComplete r' then ?s2 else ?s1))"
    using r(1,2) s(1) True by (simp add: drain_step_def lb_ops_def loop_env_def Let_def)
  moreover have "pull_inv mem k fs ?s1 later" "pull_inv mem k fs ?s2 later"
    using r s unfolding pull_inv_def by (intro conjI; force)+
  ultimately show ?thesis by simp
qed

lemma drain_passes_inv:
  assumes "transfer_ok mem k fs" "pull_inv mem k fs s (concat mss @ later)"
  shows "\<exists>s'. drain_passes (loop_env mem) mss s = Some (Inr s') \<and> pull_inv mem k fs s' later"
  using assms(2)
proof (induction mss arbitrary: s)
  case (Cons ms mss)
  let ?s = "s\<lparr>ps_transport := map_option (pe_deliver (loop_env mem) ms) (ps_transport s)\<rparr>"
  have "pull_inv mem k fs ?s (concat mss @ later)" using Cons.prems by (intro pull_inv_deliver) simp
  then obtain s1 where "drain_step lb_ops (pe_close (loop_env mem)) mem ?s = Some (Inr s1)" "pull_inv mem k fs s1 (concat mss @ later)"
    using drain_step_inv [OF assms(1)] by blast
  moreover from this(2) obtain s2 where "drain_passes (loop_env mem) mss s1 = Some (Inr s2)" "pull_inv mem k fs s2 later"
    using Cons.IH by blast
  moreover have "pe_ops (loop_env mem) = lb_ops" "pe_mem (loop_env mem) = mem" by (simp_all add: loop_env_def)
  ultimately show ?case by simp
qed simp

lemma pull_inv_in_order:
  assumes "transfer_ok mem k fs" "pull_inv mem k fs s later"
  shows "in_order fs (ps_receiver s)"
proof -
  obtain got and l :: loopback where g: "feed mem got emptyReceiver = Inr (ps_receiver s)" "prefix (got @ lb_inbox l @ later) (transfer_msgs k fs)"
    using assms(2) unfolding pull_inv_def by blast
  then have "prefix got (transfer_msgs k fs)" by (metis append_prefixD)
  then show ?thesis using feed_prefix [OF assms(1)] g(1) by force
qed

lemma read_loop_right:
  assumes "transfer_ok mem k fs" "i < length fs" "0 < cap" "unat cap < 2 ^ 31"
    and "pull_inv mem k fs s (arriving ts)" "read_loop (loop_env mem) i off cap ts lastHave lastMs s = Some (p, s', ts')"
  shows "(p = Returned (- 1) [] \<or> right_bytes (snd (fs ! i)) off cap p) \<and> (ps_failed s' \<or> pull_inv mem k fs s' (arriving ts'))"
  using assms(5,6)
proof (induction ts arbitrary: s lastHave lastMs)
  case (Cons tn ts)
  obtain s1 where s1: "drain_passes (loop_env mem) (pt_arrive tn) s = Some (Inr s1)" "pull_inv mem k fs s1 (arriving ts)"
    using drain_passes_inv [OF assms(1), of s "pt_arrive tn" "arriving ts"] Cons.prems(1) by auto
  have nf: "\<not> ps_failed s1" using s1(2) by (simp add: pull_inv_def)
  have size: "length (snd (fs ! i)) < 2 ^ 64" using assms(1,2) by (simp add: transfer_ok_def list_all_length)
  show ?case
  proof (cases "read_check i off cap (ps_receiver s1)")
    case (Some q)
    then have "p = q" "s' = s1" "ts' = ts" using Cons.prems(2) s1(1) nf by simp_all
    then show ?thesis using read_check_right [OF pull_inv_in_order [OF assms(1) s1(2)] assms(2) size assms(3,4) Some] s1(2) by simp
  next
    case None
    then show ?thesis using Cons.prems(2) Cons.IH [OF s1(2)] s1(1) nf by (auto simp: Let_def split: if_splits)
  qed
qed simp

definition fresh_pull :: "loopback PullSession \<Rightarrow> bool" where
  "fresh_pull s \<longleftrightarrow> \<not> ps_failed s \<and> \<not> ps_dialed s \<and> ps_transport s = None \<and> \<not> ps_draining s \<and> ps_receiver s = emptyReceiver"

definition pull_good :: "nat \<Rightarrow> nat \<Rightarrow> (string \<times> bytes) list \<Rightarrow> u32 \<Rightarrow> loopback PullSession \<times> pull_turn list \<Rightarrow> bool" where
  "pull_good mem k fs ix st \<longleftrightarrow> transfer_ok mem k fs \<and> unat ix < length fs
     \<and> (case st of (s, ts) \<Rightarrow> ps_failed s \<or> pull_inv mem k fs s (arriving ts)
          \<or> fresh_pull s \<and> prefix (arriving ts) (transfer_msgs k fs))"

text \<open>Everything has arrived, or arrives with the first turn, and \<open>n\<close> turns are left.\<close>

definition pull_ready :: "nat \<Rightarrow> (string \<times> bytes) list \<Rightarrow> nat \<Rightarrow> loopback PullSession \<times> pull_turn list \<Rightarrow> bool" where
  "pull_ready k fs n st \<longleftrightarrow> (case st of (s, ts) \<Rightarrow> n \<le> length ts \<and> \<not> ps_failed s \<and> (n = 0
     \<or> ps_dialed s \<and> ps_transport s \<noteq> None \<and> \<not> ps_draining s \<and> ps_receiver s = partial_rx fs (length fs)
     \<or> fresh_pull s \<and> ps_sourceIp s \<noteq> [] \<and> ps_hasKey s \<and> pt_arrive (hd ts) = [transfer_msgs k fs]))"

definition file_content :: "nat \<Rightarrow> nat \<Rightarrow> (string \<times> bytes) list \<Rightarrow> u32 \<Rightarrow> bytes" where
  "file_content mem k fs ix = (if transfer_ok mem k fs \<and> unat ix < length fs then snd (fs ! unat ix) else [])"

lemma file_content: "pull_good mem k fs ix st \<Longrightarrow> file_content mem k fs ix = snd (fs ! unat ix)"
  by (simp add: pull_good_def file_content_def)

lemma dial_fresh:
  assumes "fresh_pull s" "ensureConnected (pe_dial (loop_env mem)) s = (True, s1)"
  shows "s1 = s\<lparr>ps_dialed := True, ps_transport := Some \<lparr>lb_connected = True, lb_inbox = []\<rparr>, ps_draining := True\<rparr>"
  using assms by (auto simp: fresh_pull_def ensureConnected_def loop_env_def Let_def split: if_splits)

lemma dial_good:
  assumes "pull_good mem k fs ix (s, ts)" "\<not> ps_failed s" "ensureConnected (pe_dial (loop_env mem)) s = (True, s1)"
  shows "pull_inv mem k fs s1 (arriving ts)"
proof (cases "pull_inv mem k fs s (arriving ts)")
  case True
  then show ?thesis using assms(3) by (auto simp: pull_inv_def ensureConnected_def)
next
  case False
  then have f: "fresh_pull s" "prefix (arriving ts) (transfer_msgs k fs)" using assms(1,2) by (auto simp: pull_good_def)
  let ?l = "\<lparr>lb_connected = True, lb_inbox = []\<rparr>"
  have "\<exists>got l. Some ?l = Some l \<and> feed mem got emptyReceiver = Inr emptyReceiver \<and> (True \<longrightarrow> lb_connected l)
      \<and> prefix (got @ lb_inbox l @ arriving ts) (transfer_msgs k fs)"
    using f(2) by (intro exI [of _ "[]"] exI [of _ ?l]) simp
  then show ?thesis using f(1) dial_fresh [OF f(1) assms(3)] by (simp add: pull_inv_def fresh_pull_def)
qed

lemma pull_right:
  assumes "pull_good mem k fs ix st" "0 < cap" "unat cap < 2 ^ 31" "pull_read (loop_env mem) ix off cap st = Some (p, st')"
  shows "pull_good mem k fs ix st' \<and> (p = Returned (- 1) [] \<or> right_bytes (file_content mem k fs ix) off cap p)"
proof -
  obtain s ts s' ts' where st: "st = (s, ts)" "st' = (s', ts')" by (cases st, cases st')
  have ok: "transfer_ok mem k fs" "unat ix < length fs" using assms(1) by (simp_all add: pull_good_def)
  show ?thesis
  proof (cases "ps_failed s")
    case True
    then show ?thesis using assms(1,4) st by (auto simp: pull_read_def)
  next
    case nf: False
    obtain b s1 where e: "ensureConnected (pe_dial (loop_env mem)) s = (b, s1)" by fastforce
    show ?thesis
    proof (cases b)
      case False
      then have "ps_failed s1" using e nf assms(1) st
        by (auto simp: ensureConnected_def loop_env_def Let_def pull_good_def pull_inv_def fresh_pull_def split: if_splits)
      then show ?thesis using assms(4) e st False nf ok by (simp add: pull_read_def pull_good_def)
    next
      case True
      then have inv: "pull_inv mem k fs s1 (arriving ts)" using dial_good e assms(1) nf st by simp
      have "read_loop (loop_env mem) (unat ix) off cap ts 0 (pt_start (hd ts)) s1 = Some (p, s', ts')"
        using assms(4) e st True nf by (auto simp: pull_read_def split: list.splits)
      from read_loop_right [OF ok assms(2,3) inv this] show ?thesis using ok by (auto simp: pull_good_def st(2) file_content_def)
    qed
  qed
qed

lemma look_complete:
  assumes "transfer_ok mem k fs" "unat ix < length fs" "0 < cap" "unat cap < 2 ^ 31"
  shows "\<exists>p. read_check (unat ix) off cap (partial_rx fs (length fs)) = Some p \<and> p \<noteq> Returned (- 1) []"
proof -
  have size: "length (snd (fs ! unat ix)) < 2 ^ 64" using assms(1,2) by (simp add: transfer_ok_def list_all_length)
  have "rx_complete (unat ix) (partial_rx fs (length fs))"
    using complete_rx [OF assms(1)] assms(2) by (simp add: allComplete_def partial_rx_def)
  then obtain p where p: "read_check (unat ix) off cap (partial_rx fs (length fs)) = Some p" by (fastforce simp: read_check_def Let_def)
  have "in_order fs (partial_rx fs (length fs))" using recs_upto_ok by (auto simp: in_order_def partial_rx_at)
  then have "p \<noteq> Returned (- 1) []"
    using read_check_right [OF _ assms(2) size assms(3,4) p] by (auto simp: right_bytes_def)
  then show ?thesis using p by blast
qed

lemma passes_idle: "\<not> ps_draining s \<Longrightarrow> ps_transport s \<noteq> None \<Longrightarrow>
    \<exists>s'. drain_passes env mss s = Some (Inr s') \<and> \<not> ps_draining s' \<and> ps_transport s' \<noteq> None \<and> ps_receiver s' = ps_receiver s
      \<and> ps_dialed s' = ps_dialed s \<and> ps_failed s' = ps_failed s"
proof (induction mss arbitrary: s)
  case (Cons ms mss)
  then show ?case
    using Cons.IH [of "s\<lparr>ps_transport := map_option (pe_deliver env ms) (ps_transport s)\<rparr>"] by (simp add: drain_step_def)
qed simp

lemma pull_available:
  assumes "pull_good mem k fs ix st" "pull_ready k fs (Suc n) st" "0 < cap" "unat cap < 2 ^ 31"
  shows "\<exists>p st'. pull_read (loop_env mem) ix off cap st = Some (p, st') \<and> p \<noteq> Returned (- 1) [] \<and> pull_ready k fs n st'"
proof -
  obtain s tn ts where st: "st = (s, tn # ts)" "n \<le> length ts" "\<not> ps_failed s"
    using assms(2) by (cases st) (auto simp: pull_ready_def Suc_le_length_iff)
  have ok: "transfer_ok mem k fs" "unat ix < length fs" using assms(1) by (simp_all add: pull_good_def)
  obtain p where p: "read_check (unat ix) off cap (partial_rx fs (length fs)) = Some p" "p \<noteq> Returned (- 1) []"
    using look_complete [OF ok assms(3,4)] by blast
  have "\<exists>s0 s1. ensureConnected (pe_dial (loop_env mem)) s = (True, s0) \<and> drain_passes (loop_env mem) (pt_arrive tn) s0 = Some (Inr s1)
      \<and> ps_dialed s1 \<and> ps_transport s1 \<noteq> None \<and> \<not> ps_draining s1 \<and> \<not> ps_failed s1 \<and> ps_receiver s1 = partial_rx fs (length fs)"
  proof (cases "ps_dialed s")
    case True
    then have "ps_transport s \<noteq> None" "\<not> ps_draining s" "ps_receiver s = partial_rx fs (length fs)"
      using assms(2) st by (auto simp: pull_ready_def fresh_pull_def)
    then show ?thesis using passes_idle [of s "loop_env mem" "pt_arrive tn"] True st(3) by (auto simp: ensureConnected_def)
  next
    case False
    then have s: "fresh_pull s" "ps_sourceIp s \<noteq> []" "ps_hasKey s" "pt_arrive tn = [transfer_msgs k fs]"
      using assms(2) st by (auto simp: pull_ready_def)
    let ?l = "\<lparr>lb_connected = True, lb_inbox = []\<rparr>"
    let ?s0 = "s\<lparr>ps_dialed := True, ps_transport := Some ?l, ps_draining := True\<rparr>"
    have e: "ensureConnected (pe_dial (loop_env mem)) s = (True, ?s0)"
      using s(1-3) by (simp add: ensureConnected_def fresh_pull_def loop_env_def Let_def)
    obtain l' where "receiveAvailable lb_recv mem \<lparr>lb_connected = True, lb_inbox = transfer_msgs k fs\<rparr> emptyReceiver
        = Some (Inr (True, l', partial_rx fs (length fs)))" "lb_connected l'"
      using receive_prefix [OF ok(1), of "[]" "\<lparr>lb_connected = True, lb_inbox = transfer_msgs k fs\<rparr>" "[]" emptyReceiver]
        feed_transfer [OF ok(1), of emptyReceiver] complete_rx [OF ok(1)] by auto
    then have "drain_passes (loop_env mem) (pt_arrive tn) ?s0 = Some (Inr (?s0\<lparr>ps_transport := Some (l'\<lparr>lb_connected := False\<rparr>),
        ps_receiver := partial_rx fs (length fs), ps_draining := False\<rparr>))"
      using s by (simp add: drain_step_def loop_env_def lb_ops_def Let_def fresh_pull_def)
    then show ?thesis using e s(1) by (simp add: fresh_pull_def)
  qed
  then show ?thesis using st p by (auto simp: pull_read_def pull_ready_def split: prod.split)
qed

interpretation paste: byte_source "pull_read (loop_env mem)" ix "pull_good mem k fs ix" "pull_ready k fs" "file_content mem k fs ix"
  for mem k fs ix
proof
  show "length (file_content mem k fs ix) < 2 ^ 64" by (simp add: file_content_def transfer_ok_def list_all_length)
  show "pull_good mem k fs ix s' \<and> (p = Returned (- 1) [] \<or> right_bytes (file_content mem k fs ix) off cap p)"
    if "pull_good mem k fs ix s" "0 < cap" "unat cap < 2 ^ 31" "pull_read (loop_env mem) ix off cap s = Some (p, s')" for s cap off p s'
    by (rule pull_right [OF that])
  show "\<exists>p s'. pull_read (loop_env mem) ix off cap s = Some (p, s') \<and> p \<noteq> Returned (- 1) [] \<and> pull_ready k fs n s'"
    if "pull_good mem k fs ix s" "pull_ready k fs (Suc n) s" "0 < cap" "unat cap < 2 ^ 31" for s n cap off
    by (rule pull_available [OF that])
  show "pull_ready k fs m s" if "pull_ready k fs n s" "m \<le> n" for n s m
    using that by (auto simp: pull_ready_def)
qed

section \<open>Properties\<close>



lemma pass_silent:
  assumes "ps_transport s = Some l" "lb_inbox l = []" "ps_draining s \<longrightarrow> lb_connected l" "\<not> ps_failed s" "ps_dialed s" "concat mss = []"
  shows "\<exists>s' l'. drain_passes (loop_env mem) mss s = Some (Inr s') \<and> ps_transport s' = Some l' \<and> lb_inbox l' = []
    \<and> (ps_draining s' \<longrightarrow> lb_connected l') \<and> \<not> ps_failed s' \<and> ps_dialed s' \<and> ps_receiver s' = ps_receiver s"
  using assms
proof (induction mss arbitrary: s l)
  case (Cons ms mss)
  have ms: "ms = []" "concat mss = []" using Cons.prems(6) by simp_all
  have same: "s\<lparr>ps_transport := map_option (pe_deliver (loop_env mem) ms) (ps_transport s)\<rparr> = s"
    using Cons.prems(1) by (simp add: ms(1) loop_env_def)
  have env: "pe_ops (loop_env mem) = lb_ops" "pe_mem (loop_env mem) = mem" by (simp_all add: loop_env_def)
  have unf: "drain_passes (loop_env mem) (ms # mss) s = (case drain_step lb_ops (pe_close (loop_env mem)) mem s of
      None \<Rightarrow> None | Some (Inl e) \<Rightarrow> Some (Inl e) | Some (Inr s') \<Rightarrow> drain_passes (loop_env mem) mss s')"
    by (simp only: drain_passes.simps same env)
  show ?case
  proof (cases "ps_draining s")
    case False
    then have "drain_step lb_ops (pe_close (loop_env mem)) mem s = Some (Inr s)" by (simp add: drain_step_def)
    then show ?thesis using Cons.IH [OF Cons.prems(1-5) ms(2)] by (simp add: unf del: drain_passes.simps)
  next
    case True
    then have c: "lb_connected l" using Cons.prems(3) by simp
    obtain l' where "drainFiles lb_recv mem l (ps_receiver s) = Some (Inr (l', ps_receiver s))" "lb_connected l'" "lb_inbox l' = []"
      using loop.drain_feed [OF c Cons.prems(2), of mem "ps_receiver s" "ps_receiver s"] by auto
    then have "drain_step lb_ops (pe_close (loop_env mem)) mem s = Some (Inr (if allComplete (ps_receiver s)
        then s\<lparr>ps_transport := Some (l'\<lparr>lb_connected := False\<rparr>), ps_draining := False\<rparr> else s\<lparr>ps_transport := Some l'\<rparr>))"
      using Cons.prems(1) True by (simp add: drain_step_def lb_ops_def loop_env_def receiveAvailable_def Let_def)
    then show ?thesis
      using Cons.IH [of "s\<lparr>ps_transport := Some (l'\<lparr>lb_connected := False\<rparr>), ps_draining := False\<rparr>" "l'\<lparr>lb_connected := False\<rparr>"]
        Cons.IH [of "s\<lparr>ps_transport := Some l'\<rparr>" l'] Cons.prems(1-5) ms(2) \<open>lb_inbox l' = []\<close> \<open>lb_connected l'\<close> by (simp add: unf del: drain_passes.simps)
  qed
qed simp

lemma loop_silent:
  assumes "ps_transport s = Some l" "lb_inbox l = []" "ps_draining s \<longrightarrow> lb_connected l" "\<not> ps_failed s" "ps_dialed s"
    and "\<forall>tn \<in> set ts. concat (pt_arrive tn) = []" "ts \<noteq> []" "pt_check (last ts) - lastMs > 30000"
    and "lastHave = read_have i (ps_receiver s) \<or> pt_check (last ts) - pt_look (hd ts) > 30000"
  shows "\<exists>p s' ts'. read_loop (loop_env mem) i off cap ts lastHave lastMs s = Some (p, s', ts')
    \<and> (p = Returned (- 1) [] \<and> ps_failed s' \<or> read_check i off cap (ps_receiver s) = Some p)"
  using assms
proof (induction ts arbitrary: s l lastHave lastMs)
  case (Cons tn ts)
  obtain s1 l1 where s1: "drain_passes (loop_env mem) (pt_arrive tn) s = Some (Inr s1)" "ps_transport s1 = Some l1" "lb_inbox l1 = []"
    "ps_draining s1 \<longrightarrow> lb_connected l1" "\<not> ps_failed s1" "ps_dialed s1" "ps_receiver s1 = ps_receiver s"
    using pass_silent [OF Cons.prems(1-5), of "pt_arrive tn" mem] Cons.prems(6) by auto
  show ?case
  proof (cases "read_check i off cap (ps_receiver s)")
    case (Some p)
    then show ?thesis using s1 by simp
  next
    case None
    let ?have = "read_have i (ps_receiver s)" and ?last = "if read_have i (ps_receiver s) \<noteq> lastHave then pt_look tn else lastMs"
    have unf: "read_loop (loop_env mem) i off cap (tn # ts) lastHave lastMs s =
        (if pt_check tn - ?last > 30000 then Some (Returned (- 1) [], s1\<lparr>ps_failed := True\<rparr>, ts)
         else read_loop (loop_env mem) i off cap ts ?have ?last s1)"
      using s1 None by (simp add: Let_def)
    show ?thesis
    proof (cases "pt_check tn - ?last > 30000")
      case True
      then show ?thesis using unf by simp
    next
      case False
      have late: "pt_check (last (tn # ts)) - ?last > 30000" using Cons.prems(8,9) by auto
      then have ts: "ts \<noteq> []" using False by auto
      then show ?thesis
        using Cons.IH [OF s1(2-6) _ ts, of ?last ?have] Cons.prems(6) late False s1(7) by (simp add: unf del: read_loop.simps)
    qed
  qed
qed simp



text \<open>The files that can be read, in order, are the ones served.\<close>

definition readable :: "(string \<Rightarrow> bytes option) \<Rightarrow> string list \<Rightarrow> (string \<times> bytes) list" where
  "readable disk paths = map (\<lambda>p. (baseNameUtf8 p, the (disk p))) (filter (\<lambda>p. disk p \<noteq> None) paths)"

lemma served_readable: "served_sender disk paths = new_sender (readable disk paths)"
proof -
  have "fold (\<lambda>p s. case disk p of None \<Rightarrow> s | Some bytes \<Rightarrow> addFile (baseNameUtf8 p) bytes s) paths s
      = fold (\<lambda>f. addFile (fst f) (snd f)) (readable disk paths) s" for s
    by (induction paths arbitrary: s) (auto simp: readable_def split: option.split)
  then show ?thesis by (simp add: served_sender_def new_sender_def)
qed

text \<open>
  A file that cannot be read when the paste comes shifts all the others.  The server skips
  it, but the receiver and the streams are addressed by the position in the announced
  list: the stream Explorer opened under the name of the missing file yields the bytes of the
  file announced after it, and reports no error.
\<close>

theorem unreadable_file_shifts:
  assumes "cps = pa # pb # rest" "\<not> cp_isDirectory pa" "disk (cp_path pa) = None" "disk (cp_path pb) = Some content"
    and "transfer_ok mem (64 * 1024) (readable disk (map cp_path cps))"
    and "prefix (arriving ts) (transfer_msgs (64 * 1024) (readable disk (map cp_path cps)))"
    and "0 < cap" "unat cap < 2 ^ 31"
    and "pull_read (loop_env mem) 0 off cap (newPullSession peer ip True, ts) = Some (Returned n chunk, st')" "0 < n"
  shows "served_sender disk (map cp_path cps) = new_sender (readable disk (map cp_path cps))
    \<and> fi_name (announced_items cps ! 0) = baseNameUtf8 (cp_path pa)
    \<and> n = int (length chunk) \<and> chunk = take (length chunk) (drop (unat off) content)"
proof -
  let ?fs = "readable disk (map cp_path cps)"
  have fs: "unat (0 :: u32) < length ?fs" "snd (?fs ! unat (0 :: u32)) = content" using assms(1,3,4) by (simp_all add: readable_def)
  let ?s = "newPullSession peer ip True :: loopback PullSession"
  have "fresh_pull ?s" by (simp add: fresh_pull_def newPullSession_def)
  then have good: "pull_good mem (64 * 1024) ?fs 0 (?s, ts)" using assms(5,6) fs(1) by (simp add: pull_good_def)
  have "Returned n chunk = Returned (- 1) [] \<or> right_bytes content off cap (Returned n chunk)"
    using pull_right [OF good assms(7-9)] file_content [OF good] fs(2) by simp
  then show ?thesis using assms(1,2,10) by (auto simp: right_bytes_def announced_items_def served_readable)
qed

definition gone_disk :: "string \<Rightarrow> bytes option" where
  "gone_disk p = (if p = ''C:/b.txt'' then Some [7, 8] else None)"

theorem unreadable_file_shifts_witness:
  "\<exists>cps ts n chunk st'. map fi_name (announced_items cps) = [''a.txt'', ''b.txt'']
    \<and> pull_read (loop_env 100) 0 0 10 (newPullSession ''A'' ''10.0.0.2'' True, ts) = Some (Returned n chunk, st')
    \<and> chunk \<noteq> [] \<and> chunk = take (length chunk) (the (gone_disk (cp_path (cps ! 1))))"
proof -
  let ?a = "\<lparr>cp_path = ''C:/a.txt'', cp_isDirectory = False, cp_size = 1\<rparr>"
  let ?b = "\<lparr>cp_path = ''C:/b.txt'', cp_isDirectory = False, cp_size = 2\<rparr>"
  let ?fs = "[(''b.txt'', [7, 8])] :: (string \<times> bytes) list"
  let ?tn = "\<lparr>pt_arrive = [transfer_msgs (64 * 1024) ?fs], pt_start = 0, pt_look = 1, pt_check = 1\<rparr>"
  let ?s = "newPullSession ''A'' ''10.0.0.2'' True :: loopback PullSession"
  have b: "baseNameUtf8 ''C:/b.txt'' = ''b.txt''" "baseNameUtf8 ''C:/a.txt'' = ''a.txt''"
    by (simp_all add: baseNameUtf8_def is_slash_def)
  have r: "readable gone_disk (map cp_path [?a, ?b]) = ?fs" by (simp add: readable_def gone_disk_def b)
  have ok: "transfer_ok 100 (64 * 1024) ?fs"
    by (simp add: transfer_ok_def kMaxFileMessage_def sender_meta_def new_sender_def
        addFile_def emptySender_def encodeFilePromiseMeta_def putEntry_def putU16_def putU64_def putU32_def)
  have fresh: "fresh_pull ?s" "ps_sourceIp ?s \<noteq> []" "ps_hasKey ?s" "\<not> ps_failed ?s" by (simp_all add: fresh_pull_def newPullSession_def)
  have pre: "prefix (arriving [?tn]) (transfer_msgs (64 * 1024) ?fs)" by simp
  have good: "pull_good 100 (64 * 1024) ?fs 0 (?s, [?tn])" using fresh(1) ok pre by (simp add: pull_good_def)
  have "pull_ready (64 * 1024) ?fs (Suc 0) (?s, [?tn])" using fresh by (simp add: pull_ready_def)
  then obtain p st' where p: "pull_read (loop_env 100) 0 0 10 (?s, [?tn]) = Some (p, st')" "p \<noteq> Returned (- 1) []"
    using pull_available [OF good, of 0 10 0] by auto
  have c: "file_content 100 (64 * 1024) ?fs 0 = [7, 8]" using file_content [OF good] by simp
  have "right_bytes [7, 8] 0 10 p" using pull_right [OF good _ _ p(1)] p(2) c by simp
  then obtain chunk where chunk: "p = Returned (int (length chunk)) chunk" "chunk \<noteq> []" by (auto simp: right_bytes_def)
  have "chunk = take (length chunk) [7, 8]"
    using unreadable_file_shifts [of "[?a, ?b]" ?a ?b "[]" gone_disk "[7, 8]" 100 "[?tn]" 10 0 "''A''" "''10.0.0.2''" "int (length chunk)" chunk st']
      ok pre r p(1) chunk by (simp add: gone_disk_def)
  then show ?thesis using p(1) chunk
    by (intro exI [of _ "[?a, ?b]"] exI [of _ "[?tn]"] exI [of _ "int (length chunk)"] exI [of _ chunk] exI [of _ st'])
      (simp add: announced_items_def b gone_disk_def)
qed

text \<open>
  A chunk that arrives twice makes the reader run off the buffer.  The receiver counts it
  twice, so \<open>read\<close> believes that more bytes are there than the file has: a read that continues
  at the end of the file, where the answer should be the end of file, copies from behind the buffer.
\<close>

theorem repeated_chunk_overreads:
  assumes "transfer_ok mem k [(nm, d)]" "d \<noteq> []" "length d \<le> k" "0 < cap"
  shows "\<exists>r1 r2. feed mem (transfer_msgs k [(nm, d)]) emptyReceiver = Inr r1
    \<and> read_check 0 (word_of_nat (length d)) cap r1 = Some (Returned 0 [])
    \<and> feed mem (transfer_msgs k [(nm, d)] @ [last (transfer_msgs k [(nm, d)])]) emptyReceiver = Inr r2
    \<and> read_check 0 (word_of_nat (length d)) cap r2 = Some (Crashed OutOfBounds)"
proof -
  let ?fs = "[(nm, d)]" and ?c = "encodeFileChunk 0 0 d"
  have len: "length d < 2 ^ 64" "0 < k" "k \<le> kMaxFileMessage" using assms(1) by (simp_all add: transfer_ok_def)
  have chunk: "chunk_msgs k 0 0 d = [encodeVarMessage FileChunk ?c]"
    using assms(2,3) len(2) by (simp add: chunk_msgs_more chunk_msgs_done)
  then have last: "last (transfer_msgs k ?fs) = encodeVarMessage FileChunk ?c" by (simp add: transfer_msgs_def file_msgs_def)
  have size: "unat (word_of_nat (length d) :: u64) = length d" using len(1) by (intro unat_of_nat_fits) simp
  let ?r1 = "partial_rx ?fs 1"
  have r1: "feed mem (transfer_msgs k ?fs) emptyReceiver = Inr ?r1" using feed_transfer [OF assms(1), of emptyReceiver] by simp
  have parts: "fr_buffers ?r1 = [d]" "fr_received ?r1 = [length d]" "length (fr_entries ?r1) = 1" "unat (fe_size (fr_entries ?r1 ! 0)) = length d"
    using size by (simp_all add: partial_rx_def)
  let ?r2 = "?r1\<lparr>fr_received := [length d + length d]\<rparr>"
  have "decodeFileChunk ?c = Some (0, 0, d)" by simp
  then have "acceptChunk ?c ?r1 = Inr (True, ?r2)" using parts size by (simp add: acceptChunk_def)
  moreover have "length d \<le> kMaxFileMessage" using assms(3) len(3) by simp
  ultimately have "feed mem (transfer_msgs k ?fs @ [last (transfer_msgs k ?fs)]) emptyReceiver = Inr ?r2"
    using r1 by (simp add: feed_append last handle_chunk)
  moreover have "read_check 0 (word_of_nat (length d)) cap ?r1 = Some (Returned 0 [])"
    using parts size by (simp add: read_check_def read_have_def received_def rx_complete_def)
  moreover have "0 < unat cap" using assms(4) by (simp add: word_less_nat_alt)
  then have "read_check 0 (word_of_nat (length d)) cap ?r2 = Some (Crashed OutOfBounds)"
    using parts size assms(2) by (simp add: read_check_def read_have_def received_def Let_def)
  ultimately show ?thesis using r1 by blast
qed

theorem repeated_chunk_overreads_witness:
  "\<exists>r. feed 100 (transfer_msgs 8 [(''a'', [1, 2, 3])] @ [last (transfer_msgs 8 [(''a'', [1, 2, 3])])]) emptyReceiver = Inr r
    \<and> read_check 0 3 5 r = Some (Crashed OutOfBounds)"
proof -
  have "transfer_ok 100 8 [(''a'', [1, 2, 3])]"
    by (simp add: transfer_ok_def kMaxFileMessage_def sender_meta_def new_sender_def
        addFile_def emptySender_def encodeFilePromiseMeta_def putEntry_def putU16_def putU64_def putU32_def)
  then show ?thesis using repeated_chunk_overreads [of 100 8 "''a''" "[1, 2, 3]" 5] by auto
qed

lemma size_halves: "unat (ucast (drop_bit 32 s) :: u32) * 2 ^ 32 + unat (ucast (s AND 0xFFFFFFFF) :: u32) = unat (s :: u64)"
proof -
  have "unat s < 2 ^ 64" using unsigned_less [of s, where ?'a = nat] by simp
  then have "unat s div 2 ^ 32 < 2 ^ 32" by (simp add: less_mult_imp_div_less)
  then have high: "unat (ucast (drop_bit 32 s) :: u32) = unat s div 2 ^ 32"
    unfolding unsigned_ucast_eq unsigned_drop_bit_eq by (simp add: drop_bit_eq_div unat_div take_bit_nat_eq_self)
  have "s AND 0xFFFFFFFF = take_bit 32 s" by (simp add: take_bit_eq_mask mask_eq_exp_minus_1)
  then have low: "unat (ucast (s AND 0xFFFFFFFF) :: u32) = unat s mod 2 ^ 32"
    unfolding unsigned_ucast_eq by (simp add: take_bit_eq_mod unat_mod)
  show ?thesis unfolding high low by (rule div_mult_mod_eq)
qed

text \<open>
  What Explorer is offered.  Every name field of the descriptor, the terminator included,
  fits its 260 UTF-16 units whatever the peer announced, and the two halves of each size are
  the size; the stream handed out for an index has that index, its size and the position 0.
\<close>

theorem descriptor_fits:
  "(\<forall>d \<in> set (snd (buildDescriptor wide files)). length (fd_cFileName d) \<le> MAX_PATH \<and> last (fd_cFileName d) = 0)
   \<and> map (\<lambda>d. unat (fd_sizeHigh d) * 2 ^ 32 + unat (fd_sizeLow d)) (snd (buildDescriptor wide files)) = map (unat \<circ> pf_size) files
   \<and> (\<forall>i < length files. \<exists>nm. GetData True wide files \<lparr>fmt_cf = CfContents, fmt_lindex = int i, fmt_tymed = TYMED_ISTREAM\<rparr>
        = (S_OK, Some (StreamMedium \<lparr>pst_index = word_of_nat i, pst_size = pf_size (files ! i), pst_pos = 0, pst_name = nm\<rparr>)))"
proof (intro conjI)
  show "\<forall>d \<in> set (snd (buildDescriptor wide files)). length (fd_cFileName d) \<le> MAX_PATH \<and> last (fd_cFileName d) = 0"
    by (auto simp: buildDescriptor_def file_descriptor_def Let_def MAX_PATH_def)
  show "map (\<lambda>d. unat (fd_sizeHigh d) * 2 ^ 32 + unat (fd_sizeLow d)) (snd (buildDescriptor wide files)) = map (unat \<circ> pf_size) files"
    by (simp add: buildDescriptor_def file_descriptor_def Let_def size_halves [simplified] comp_def)
  show "\<forall>i < length files. \<exists>nm. GetData True wide files \<lparr>fmt_cf = CfContents, fmt_lindex = int i, fmt_tymed = TYMED_ISTREAM\<rparr>
        = (S_OK, Some (StreamMedium \<lparr>pst_index = word_of_nat i, pst_size = pf_size (files ! i), pst_pos = 0, pst_name = nm\<rparr>))"
    by (simp add: GetData_def has_tymed_def TYMED_ISTREAM_def)
qed

theorem descriptor_fits_witness:
  "\<exists>nm. GetData True (map (word_of_nat \<circ> of_char)) [\<lparr>pf_name = ''a'', pf_size = 5\<rparr>] \<lparr>fmt_cf = CfContents, fmt_lindex = 0, fmt_tymed = TYMED_ISTREAM\<rparr>
    = (S_OK, Some (StreamMedium \<lparr>pst_index = 0, pst_size = 5, pst_pos = 0, pst_name = nm\<rparr>))"
  using descriptor_fits [of "map (word_of_nat \<circ> of_char)" "[\<lparr>pf_name = ''a'', pf_size = 5\<rparr>]"] by simp

end
