(* ===== verification/TrayNet.thy ===== *)
theory TrayNet
  imports Pairing SecureLink LanSockets Liveness Config "HOL-Library.Sublist"
begin

text \<open>
  The background threads of the tray application, \<open>platform/tray_win.cpp\<close>: the network
  thread that dials and accepts, the always-on discovery thread, and the pairing
  session with its two competing threads.  The state is the part of \<open>AppState\<close> these threads
  share under the mutexes; a pass of a thread's loop is one function, the clock readings and
  what the sockets give are arguments.  The log, the toasts and the saving of the two files
  after a pairing are left out.
\<close>

section \<open>The network thread\<close>

definition kMeshPort :: u16 where "kMeshPort = 47800"
definition kPairPort :: u16 where "kPairPort = 47801"
definition kDiscoveryPort :: u16 where "kDiscoveryPort = 47802"

record 'r NetState =
  ns_self :: PeerId
  ns_config :: Config
  ns_keys :: KeyStore
  ns_connectedIds :: "PeerId list"
  ns_lastDial :: "(PeerId, u64) omap"
  ns_peerIp :: "(PeerId, string) omap"
  ns_pendingLinks :: "('r SecureLink \<times> bool) list"

record Dialable =
  dd_id :: PeerId
  dd_host :: string
  dd_port :: u16
  dd_psk :: "Psk option"

definition dialables :: "'r NetState \<Rightarrow> Dialable list" where
  "dialables ns =
     map (\<lambda>d. \<lparr>dd_id = pd_id d, dd_host = pd_last_ip d, dd_port = (if pd_port d \<noteq> 0 then pd_port d else kMeshPort),
               dd_psk = getPsk (pd_id d) (ns_keys ns)\<rparr>)
       (filter (\<lambda>d. \<not> (pd_id d = ns_self ns \<or> pd_last_ip d = [])) (cfg_devices (ns_config ns)))"

datatype net_out = Dial PeerId string u16 u64

definition net_dial ::
  "'r transport_ops \<Rightarrow> (string \<Rightarrow> u16 \<Rightarrow> 'r option) \<Rightarrow> u64 \<Rightarrow> Dialable \<Rightarrow> 'r NetState \<Rightarrow> 'r NetState \<times> net_out list" where
  "net_dial ops connect now dd ns =
     (case dd_psk dd of None \<Rightarrow> (ns, [])
      | Some psk \<Rightarrow>
          if dd_id dd \<in> set (ns_connectedIds ns) then (ns, [])
          else if (case map_of (ns_lastDial ns) (dd_id dd) of None \<Rightarrow> False | Some t \<Rightarrow> now - t < 3000) then (ns, [])
          else let ns1 = ns\<lparr>ns_lastDial := omap_set (dd_id dd) now (ns_lastDial ns)\<rparr>;
                   out = [Dial (dd_id dd) (dd_host dd) (dd_port dd) now] in
            case connect (dd_host dd) (dd_port dd) of None \<Rightarrow> (ns1, out)
            | Some raw \<Rightarrow>
                let ns2 = ns1\<lparr>ns_peerIp := omap_set (dd_id dd) (dd_host dd) (ns_peerIp ns1)\<rparr>;
                    link = secureOutbound ops (Some raw) (setPsk (dd_id dd) psk []) (ns_self ns) (dd_id dd) in
                (if sl_transport link \<noteq> None then ns2\<lparr>ns_pendingLinks := ns_pendingLinks ns2 @ [(link, True)]\<rparr> else ns2, out))"

text \<open>An accepted socket is polled at most \<open>n\<close> times.\<close>

fun inbound_loop :: "'r transport_ops \<Rightarrow> KeyStore \<Rightarrow> PeerId \<Rightarrow> nat \<Rightarrow> 'r InboundHandshake \<Rightarrow> 'r SecureLink option" where
  "inbound_loop ops keys self 0 h = None"
| "inbound_loop ops keys self (Suc n) h =
     (case ih_poll ops keys self h of
        (IhOk, h') \<Rightarrow> Some (fst (ih_take h'))
      | (IhNeedMore, h') \<Rightarrow> inbound_loop ops keys self n h'
      | (_, h') \<Rightarrow> None)"

definition secureInboundLink :: "'r transport_ops \<Rightarrow> KeyStore \<Rightarrow> PeerId \<Rightarrow> 'r \<Rightarrow> 'r SecureLink" where
  "secureInboundLink ops keys self raw =
     (case inbound_loop ops keys self 400 (newInbound (Some raw)) of None \<Rightarrow> noLink | Some link \<Rightarrow> link)"

definition net_accept :: "'r transport_ops \<Rightarrow> 'r \<times> string \<Rightarrow> 'r NetState \<Rightarrow> 'r NetState" where
  "net_accept ops accepted ns =
     (case accepted of (raw, ip) \<Rightarrow>
        case inbound_loop ops (ns_keys ns) (ns_self ns) 200 (newInbound (Some raw)) of None \<Rightarrow> ns
        | Some link \<Rightarrow>
            let ns1 = (if ip \<noteq> [] then ns\<lparr>ns_peerIp := omap_set (sl_peerId link) ip (ns_peerIp ns)\<rparr> else ns) in
            ns1\<lparr>ns_pendingLinks := ns_pendingLinks ns1 @ [(link, False)]\<rparr>)"

text \<open>One pass of \<open>netThreadProc\<close>.\<close>

definition net_pass ::
  "'r transport_ops \<Rightarrow> (string \<Rightarrow> u16 \<Rightarrow> 'r option) \<Rightarrow> ('r \<times> string) option \<Rightarrow> u64 \<Rightarrow> 'r NetState \<Rightarrow> 'r NetState \<times> net_out list" where
  "net_pass ops connect accepted now ns =
     (case run_steps (net_dial ops connect now) (dialables ns) ns of (ns1, outs) \<Rightarrow>
        (case accepted of None \<Rightarrow> ns1 | Some a \<Rightarrow> net_accept ops a ns1, outs))"

section \<open>Discovery\<close>

text \<open>The thread's own variables; the counters of its log line are left out.\<close>

record DiscoveryState =
  ds_table :: DiscoveryTable
  ds_lastReply :: "(PeerId, u64) omap"
  ds_lastBroadcast :: u64

definition self_beacon :: "PeerId \<Rightarrow> Beacon" where
  "self_beacon self = \<lparr>b_name = self, b_id = self, b_ip = [], b_port = kMeshPort, b_os = 0, b_wol = 0\<rparr>"

definition refresh_device :: "Beacon \<Rightarrow> PairedDevice \<Rightarrow> PairedDevice" where
  "refresh_device b d = (if pd_id d = b_id b \<and> pd_last_ip d \<noteq> b_ip b then d\<lparr>pd_last_ip := b_ip b\<rparr> else d)"

definition refresh_ip :: "Beacon \<Rightarrow> 'r NetState \<Rightarrow> 'r NetState" where
  "refresh_ip b ns =
     (if b_ip b = [] then ns
      else let devs = cfg_devices (ns_config ns);
               changed = (\<exists>d \<in> set devs. pd_id d = b_id b \<and> pd_last_ip d \<noteq> b_ip b);
               ns1 = ns\<lparr>ns_config := (ns_config ns)\<lparr>cfg_devices := map (refresh_device b) devs\<rparr>\<rparr> in
        if changed then ns1\<lparr>ns_peerIp := omap_set (b_id b) (b_ip b) (ns_peerIp ns1)\<rparr> else ns1)"

definition reply_due :: "u64 \<Rightarrow> u64 \<Rightarrow> bool" where
  "reply_due t lr \<longleftrightarrow> lr = 0 \<or> t - lr \<ge> 700"

record disco_env =
  de_now :: u64
  de_later :: u64
  de_isTimeout :: "int \<Rightarrow> bool"
  de_datagram :: datagram
  de_wsa :: bool
  de_aton :: "string \<Rightarrow> u32 option"
  de_reply :: "os_error option"

datatype disco_out = Broadcast Beacon | Reply string "sent_packet list"

text \<open>A beacon of another machine.\<close>

definition on_peer_beacon :: "disco_env \<Rightarrow> Beacon \<Rightarrow> DiscoveryState \<times> 'r NetState \<Rightarrow> (DiscoveryState \<times> 'r NetState) \<times> disco_out list" where
  "on_peer_beacon env b s =
     (case s of (ds, ns) \<Rightarrow>
        let ds1 = ds\<lparr>ds_table := onBeacon b (de_later env) (ds_table ds)\<rparr>;
            ns1 = refresh_ip b ns;
            lr = (case map_of (ds_lastReply ds1) (b_id b) of None \<Rightarrow> 0 | Some t \<Rightarrow> t) in
        if b_ip b \<noteq> [] \<and> reply_due (de_later env) lr
        then ((ds1\<lparr>ds_lastReply := omap_set (b_id b) (de_later env) (ds_lastReply ds1)\<rparr>, ns1),
              [Reply (b_ip b) (snd (sendBeaconTo (de_wsa env) (de_aton env) (de_reply env) (self_beacon (ns_self ns)) (b_ip b)))])
        else ((ds1\<lparr>ds_lastReply := omap_emplace (b_id b) 0 (ds_lastReply ds1)\<rparr>, ns1), []))"

text \<open>One pass of \<open>discoveryProc\<close>; \<open>rx\<close> is the receiver, if it could be bound.\<close>

definition disco_pass :: "u16 option \<Rightarrow> disco_env \<Rightarrow> DiscoveryState \<times> 'r NetState \<Rightarrow> (DiscoveryState \<times> 'r NetState) \<times> disco_out list" where
  "disco_pass rx env s =
     (case s of (ds, ns) \<Rightarrow>
        let due = (de_now env - ds_lastBroadcast ds \<ge> 400);
            ds1 = (if due then ds\<lparr>ds_lastBroadcast := de_now env\<rparr> else ds);
            o1 = (if due then [Broadcast (self_beacon (ns_self ns))] else []) in
        case pollBeacon (de_isTimeout env) rx (de_datagram env) of (got, _) \<Rightarrow>
          (case got of None \<Rightarrow> ((ds1, ns), o1)
           | Some b \<Rightarrow>
               if b_id b = ns_self ns then ((ds1, ns), o1)
               else (case on_peer_beacon env b (ds1, ns) of (s', o2) \<Rightarrow> (s', o1 @ o2))))"

text \<open>The rows of the picker and the row to select; the old selection is a row of the old items.\<close>

definition refreshDiscoveryList :: "PairedDevice list \<Rightarrow> u64 \<Rightarrow> DiscoveryTable \<Rightarrow> Beacon list \<Rightarrow> nat option \<Rightarrow> Beacon list \<times> nat option" where
  "refreshDiscoveryList devs now table items sel =
     (let shown = filter (\<lambda>b. \<not> (\<exists>d \<in> set devs. pd_id d = b_id b)) (live now 6000 table);
          selId = (case sel of None \<Rightarrow> [] | Some i \<Rightarrow> if i < length items then b_id (items ! i) else []);
          hits = filter (\<lambda>i. b_id (shown ! i) = selId) [0..<length shown] in
      (shown, if hits \<noteq> [] then Some (last hits) else if shown \<noteq> [] \<and> selId = [] then Some 0 else None))"

section \<open>Pairing sessions\<close>

text \<open>The exchange loop of \<open>runPairingSession\<close>: one poll for each reading of the clock before the deadline.\<close>

fun pairing_loop :: "pair_crypto \<Rightarrow> 't transport_ops \<Rightarrow> u64 \<Rightarrow> u64 list \<Rightarrow> px_status \<Rightarrow> PairingExchange \<times> 't \<Rightarrow> px_status \<times> PairingExchange \<times> 't" where
  "pairing_loop pc ops deadline [] st s = (st, s)"
| "pairing_loop pc ops deadline (t # ts) st s =
     (if st = PxNeedMore \<and> t < deadline then case px_poll pc ops s of (st', s') \<Rightarrow> pairing_loop pc ops deadline ts st' s'
      else (st, s))"

definition paired_device :: "PeerId \<Rightarrow> string \<Rightarrow> PairedDevice" where
  "paired_device peer host = \<lparr>pd_id = peer, pd_name = peer, pd_last_ip = host, pd_port = kMeshPort, pd_os = ''windows'',
     pd_wol = False, pd_mac = []\<rparr>"

definition store_pairing :: "PeerId \<Rightarrow> Psk \<Rightarrow> string \<Rightarrow> 'r NetState \<Rightarrow> 'r NetState" where
  "store_pairing peer psk host ns =
     ns\<lparr>ns_keys := setPsk peer psk (ns_keys ns), ns_config := addDevice (paired_device peer host) (ns_config ns)\<rparr>"

text \<open>\<open>confirm\<close> is the user comparing the code; \<open>start\<close> the clock at the beginning.\<close>

definition runPairingSession ::
  "pair_crypto \<Rightarrow> 't transport_ops \<Rightarrow> EcdhKeyPair option \<Rightarrow> bytes \<Rightarrow> (string \<Rightarrow> PeerId \<Rightarrow> bool) \<Rightarrow> u64 \<Rightarrow> u64 list \<Rightarrow> string \<Rightarrow> 't
     \<Rightarrow> 'r NetState \<Rightarrow> bool \<times> 'r NetState" where
  "runPairingSession pc ops generated rnd confirm start clock host t ns =
     (case px_start pc ops generated rnd (newExchange (ns_self ns), t) of (ok, s) \<Rightarrow>
        if \<not> ok then (False, ns)
        else (case pairing_loop pc ops (start + 30000) clock PxNeedMore s of (st, x, t') \<Rightarrow>
          if st \<noteq> PxOk then (False, ns)
          else if \<not> confirm (px_code x) (px_peerId x) then (False, ns)
          else (True, store_pairing (px_peerId x) (px_psk x) host ns)))"

text \<open>The at-rest key of the store: HKDF over the machine's id.\<close>

definition machineProtectionKey :: "hmac_fun \<Rightarrow> bytes \<Rightarrow> bytes" where
  "machineProtectionKey hmac guid =
     (let okm = hkdfSha256 hmac guid (to_bytes ''skittermouse-keystore-v1'') (to_bytes ''psk-at-rest'') 32 in
      if length okm = 32 then okm else replicate 32 0)"

text \<open>The host typed or picked, without the blanks around it.\<close>

definition trim_host :: "string \<Rightarrow> string" where
  "trim_host h = dropWhile (\<lambda>c. c = CHR '' '')
     (rev (dropWhile (\<lambda>c. c = CHR '' '' \<or> c = CHR 0x0D \<or> c = CHR 0x0A) (rev h)))"

section \<open>The two pairing threads\<close>

text \<open>
  A pairing session has an accepting thread, \<open>pairAcceptProc\<close>, and once the user has picked a
  device an initiating one, \<open>pairInitProc\<close>; the atomic flag \<open>pairEngaged\<close> decides which of them
  runs the exchange.  The steps are the accesses to the shared flags; \<open>pt_runs\<close> counts the exchanges.
\<close>

datatype init_pc = Picking | Cancelled | InitClaim | InitDial | InitSession | InitDone
datatype accept_pc = Listening | AcceptClaim | AcceptSession | AcceptDone

record PairThreads =
  pt_active :: bool
  pt_engaged :: bool
  pt_init :: init_pc
  pt_accept :: accept_pc
  pt_runs :: nat

definition pairing_begin :: PairThreads where
  "pairing_begin = \<lparr>pt_active = True, pt_engaged = False, pt_init = Picking, pt_accept = Listening, pt_runs = 0\<rparr>"

inductive pair_step :: "PairThreads \<Rightarrow> PairThreads \<Rightarrow> bool" where
  picked: "pt_init s = Picking \<Longrightarrow> pair_step s (s\<lparr>pt_init := InitClaim\<rparr>)"
| cancel: "pt_init s = Picking \<Longrightarrow> \<not> pt_engaged s \<Longrightarrow> pair_step s (s\<lparr>pt_init := Cancelled, pt_active := False\<rparr>)"
| dismissed: "pt_init s = Picking \<Longrightarrow> pt_engaged s \<Longrightarrow> pair_step s (s\<lparr>pt_init := Cancelled\<rparr>)"
| init_lost: "pt_init s = InitClaim \<Longrightarrow> pt_engaged s \<Longrightarrow> pair_step s (s\<lparr>pt_init := InitDone\<rparr>)"
| init_won: "pt_init s = InitClaim \<Longrightarrow> \<not> pt_engaged s \<Longrightarrow> pair_step s (s\<lparr>pt_engaged := True, pt_init := InitDial\<rparr>)"
| dial_up: "pt_init s = InitDial \<Longrightarrow> pt_active s \<Longrightarrow> pair_step s (s\<lparr>pt_init := InitSession, pt_runs := pt_runs s + 1\<rparr>)"
| dial_given_up: "pt_init s = InitDial \<Longrightarrow> pair_step s (s\<lparr>pt_init := InitDone, pt_active := False\<rparr>)"
| init_end: "pt_init s = InitSession \<Longrightarrow> pair_step s (s\<lparr>pt_init := InitDone, pt_active := False\<rparr>)"
| accept_stop: "pt_accept s = Listening \<Longrightarrow> \<not> pt_active s \<or> pt_engaged s \<Longrightarrow> pair_step s (s\<lparr>pt_accept := AcceptDone\<rparr>)"
| accept_conn: "pt_accept s = Listening \<Longrightarrow> pt_active s \<Longrightarrow> \<not> pt_engaged s \<Longrightarrow> pair_step s (s\<lparr>pt_accept := AcceptClaim\<rparr>)"
| accept_lost: "pt_accept s = AcceptClaim \<Longrightarrow> pt_engaged s \<Longrightarrow> pair_step s (s\<lparr>pt_accept := AcceptDone\<rparr>)"
| accept_won: "pt_accept s = AcceptClaim \<Longrightarrow> \<not> pt_engaged s \<Longrightarrow>
    pair_step s (s\<lparr>pt_engaged := True, pt_accept := AcceptSession, pt_runs := pt_runs s + 1\<rparr>)"
| accept_end: "pt_accept s = AcceptSession \<Longrightarrow> pair_step s (s\<lparr>pt_accept := AcceptDone, pt_active := False\<rparr>)"

inductive pair_reach :: "PairThreads \<Rightarrow> bool" where
  pair_start: "pair_reach pairing_begin"
| pair_next: "pair_reach s \<Longrightarrow> pair_step s t \<Longrightarrow> pair_reach t"

inductive_cases pair_stepE: "pair_step s t"

lemmas pair_intros = pair_step.intros pair_reach.intros

text \<open>The flag is claimed by at most one thread, and the claimant ends the session.\<close>

definition pair_inv :: "PairThreads \<Rightarrow> bool" where
  "pair_inv s \<longleftrightarrow>
     (\<not> pt_engaged s \<longrightarrow> pt_runs s = 0 \<and> pt_init s \<in> {Picking, Cancelled, InitClaim} \<and> pt_accept s \<notin> {AcceptSession})
   \<and> (pt_accept s = AcceptSession \<longrightarrow> pt_runs s = 1 \<and> pt_init s \<in> {Picking, Cancelled, InitClaim, InitDone})
   \<and> (pt_init s = InitDial \<longrightarrow> pt_runs s = 0 \<and> pt_accept s \<noteq> AcceptSession)
   \<and> (pt_init s = InitSession \<longrightarrow> pt_runs s = 1 \<and> pt_accept s \<noteq> AcceptSession)
   \<and> pt_runs s \<le> 1
   \<and> (pt_active s \<longrightarrow> (pt_engaged s \<longrightarrow> pt_init s \<in> {InitDial, InitSession} \<or> pt_accept s = AcceptSession)
        \<and> (\<not> pt_engaged s \<longrightarrow> pt_init s \<in> {Picking, InitClaim} \<and> pt_accept s \<in> {Listening, AcceptClaim}))"

lemma pair_inv_step:
  assumes "pair_step s t" "pair_inv s"
  shows "pair_inv t"
  using assms by (cases rule: pair_step.cases; cases "pt_init s"; cases "pt_accept s"; simp add: pair_inv_def)

lemma pair_inv_reach: "pair_reach s \<Longrightarrow> pair_inv s"
proof (induction rule: pair_reach.induct)
  case pair_start
  show ?case by (simp add: pair_inv_def pairing_begin_def)
next
  case (pair_next s t)
  then show ?case using pair_inv_step by blast
qed



section \<open>Dialling over time\<close>

text \<open>
  A history of the network thread: passes, and whatever the other threads do between them, who
  share everything but the id of the machine and the thread's own \<open>lastDial\<close>.
\<close>

datatype 'r net_event =
    Pass "string \<Rightarrow> u16 \<Rightarrow> 'r option" "('r \<times> string) option" u64
  | OtherThreads "'r NetState \<Rightarrow> 'r NetState"

definition net_event_step :: "'r transport_ops \<Rightarrow> 'r net_event \<Rightarrow> 'r NetState \<Rightarrow> 'r NetState \<times> net_out list" where
  "net_event_step ops e ns =
     (case e of Pass connect accepted now \<Rightarrow> net_pass ops connect accepted now ns
      | OtherThreads g \<Rightarrow> ((g ns)\<lparr>ns_lastDial := ns_lastDial ns, ns_self := ns_self ns\<rparr>, []))"

definition pass_times :: "'r net_event list \<Rightarrow> u64 list" where
  "pass_times es = concat (map (\<lambda>e. case e of Pass c a now \<Rightarrow> [now] | OtherThreads g \<Rightarrow> []) es)"

text \<open>Two dials of one peer, the later at least 3000 ms after the earlier.\<close>

definition spaced :: "net_out \<Rightarrow> net_out \<Rightarrow> bool" where
  "spaced a b = (case a of Dial p h pt t \<Rightarrow> case b of Dial p' h' pt' t' \<Rightarrow> p = p' \<longrightarrow> unat t + 3000 \<le> unat t')"

definition dial_ok :: "u64 \<Rightarrow> 'r NetState \<Rightarrow> net_out list \<Rightarrow> bool" where
  "dial_ok T ns outs \<longleftrightarrow> omap_ok (ns_lastDial ns) \<and> sorted_wrt spaced outs
     \<and> (\<forall>p t. map_of (ns_lastDial ns) p = Some t \<longrightarrow> t \<le> T)
     \<and> (\<forall>p h pt t. Dial p h pt t \<in> set outs \<longrightarrow> p \<noteq> ns_self ns \<and> (\<exists>t'. map_of (ns_lastDial ns) p = Some t' \<and> t \<le> t'))"

lemma dial_ok_later: "dial_ok T ns outs \<Longrightarrow> T \<le> now \<Longrightarrow> dial_ok now ns outs"
  by (force simp: dial_ok_def)

lemma dial_ok_frame:
  "ns_lastDial ns' = ns_lastDial ns \<Longrightarrow> ns_self ns' = ns_self ns \<Longrightarrow> dial_ok T ns' outs = dial_ok T ns outs"
  by (simp add: dial_ok_def)

lemma dial_ok_add:
  assumes "dial_ok now ns outs" "p \<noteq> ns_self ns"
    and "\<not> (case map_of (ns_lastDial ns) p of None \<Rightarrow> False | Some t \<Rightarrow> now - t < 3000)"
    and "ns_lastDial ns' = omap_set p now (ns_lastDial ns)" "ns_self ns' = ns_self ns"
  shows "dial_ok now ns' (outs @ [Dial p h pt now])"
proof -
  have om: "map_of (ns_lastDial ns') = (map_of (ns_lastDial ns))(p \<mapsto> now)"
    using assms(1,4) by (simp add: dial_ok_def map_of_omap_set)
  have "spaced o1 (Dial p h pt now)" if o1: "o1 \<in> set outs" for o1
  proof (cases o1)
    case (Dial p1 h1 pt1 t1)
    show ?thesis
    proof (cases "p1 = p")
      case True
      then obtain t' where t': "map_of (ns_lastDial ns) p = Some t'" "t1 \<le> t'" "t' \<le> now"
        using assms(1) o1 Dial unfolding dial_ok_def by blast
      then have "3000 \<le> unat (now - t')" using assms(3) by (simp add: not_less word_le_nat_alt)
      moreover have "unat (now - t') = unat now - unat t'" by (rule unat_sub [OF t'(3)])
      ultimately have "unat t1 + 3000 \<le> unat now" using t'(2,3) unfolding word_le_nat_alt by linarith
      then show ?thesis using Dial by (simp add: spaced_def)
    qed (simp add: spaced_def Dial)
  qed
  moreover have "t1 \<le> now" if "Dial p1 h1 pt1 t1 \<in> set outs" for p1 h1 pt1 t1
    using assms(1) that unfolding dial_ok_def by (meson order_trans)
  ultimately show ?thesis using assms unfolding dial_ok_def om by (auto simp: sorted_wrt_append omap_set_ok)
qed

lemma net_dial_ok:
  assumes "dial_ok now ns outs" "dd_id dd \<noteq> ns_self ns"
  shows "dial_ok now (fst (net_dial ops connect now dd ns)) (outs @ snd (net_dial ops connect now dd ns))
    \<and> ns_self (fst (net_dial ops connect now dd ns)) = ns_self ns"
proof (cases "dd_psk dd = None \<or> dd_id dd \<in> set (ns_connectedIds ns) \<or> (case map_of (ns_lastDial ns) (dd_id dd) of None \<Rightarrow> False | Some t \<Rightarrow> now - t < 3000)")
  case True
  then have "net_dial ops connect now dd ns = (ns, [])" by (auto simp: net_dial_def split: option.split)
  then show ?thesis using assms(1) by simp
next
  case False
  let ?r = "net_dial ops connect now dd ns"
  have "snd ?r = [Dial (dd_id dd) (dd_host dd) (dd_port dd) now]" "ns_lastDial (fst ?r) = omap_set (dd_id dd) now (ns_lastDial ns)"
    "ns_self (fst ?r) = ns_self ns"
    using False by (cases "dd_psk dd"; simp add: net_dial_def Let_def split: option.split)+
  then show ?thesis using dial_ok_add [OF assms] False by simp
qed

lemma net_dials_ok:
  assumes "dial_ok now ns outs" "\<forall>dd \<in> set dds. dd_id dd \<noteq> ns_self ns"
  shows "dial_ok now (fst (run_steps (net_dial ops connect now) dds ns)) (outs @ snd (run_steps (net_dial ops connect now) dds ns))
    \<and> ns_self (fst (run_steps (net_dial ops connect now) dds ns)) = ns_self ns"
  using assms
proof (induction dds arbitrary: ns outs)
  case (Cons dd dds)
  have "dial_ok now (fst (net_dial ops connect now dd ns)) (outs @ snd (net_dial ops connect now dd ns))"
    "ns_self (fst (net_dial ops connect now dd ns)) = ns_self ns"
    using net_dial_ok [OF Cons.prems(1)] Cons.prems(2) by auto
  then show ?case using Cons.IH [of "fst (net_dial ops connect now dd ns)" "outs @ snd (net_dial ops connect now dd ns)"] Cons.prems(2)
    by (simp add: split_beta)
qed simp

lemma net_accept_frame: "ns_lastDial (net_accept ops a ns) = ns_lastDial ns" "ns_self (net_accept ops a ns) = ns_self ns"
  by (auto simp: net_accept_def Let_def split: prod.split option.split)

lemma net_pass_ok:
  assumes "dial_ok T ns outs" "T \<le> now"
  shows "dial_ok now (fst (net_pass ops connect accepted now ns)) (outs @ snd (net_pass ops connect accepted now ns))"
proof -
  have "\<forall>dd \<in> set (dialables ns). dd_id dd \<noteq> ns_self ns" by (auto simp: dialables_def)
  then have "dial_ok now (fst (run_steps (net_dial ops connect now) (dialables ns) ns)) (outs @ snd (run_steps (net_dial ops connect now) (dialables ns) ns))"
    using net_dials_ok [OF dial_ok_later [OF assms]] by blast
  moreover have "dial_ok now (net_accept ops a ns') out = dial_ok now ns' out" for a ns' out
    by (rule dial_ok_frame) (simp_all add: net_accept_frame)
  ultimately show ?thesis by (simp add: net_pass_def split_beta split: option.split)
qed

lemma net_run_ok:
  assumes "dial_ok T ns outs" "sorted (T # pass_times es)"
  shows "\<exists>T'. dial_ok T' (fst (run_steps (net_event_step ops) es ns)) (outs @ snd (run_steps (net_event_step ops) es ns))"
  using assms
proof (induction es arbitrary: T ns outs)
  case Nil
  then show ?case by auto
next
  case (Cons e es)
  let ?r = "net_event_step ops e ns"
  have "\<exists>T1. dial_ok T1 (fst ?r) (outs @ snd ?r) \<and> sorted (T1 # pass_times es)"
  proof (cases e)
    case (Pass connect accepted now)
    then have "dial_ok now (fst ?r) (outs @ snd ?r)" using net_pass_ok [OF Cons.prems(1)] Cons.prems(2) by (simp add: net_event_step_def pass_times_def)
    then show ?thesis using Cons.prems(2) Pass by (intro exI [of _ now]) (simp add: pass_times_def)
  next
    case (OtherThreads g)
    have "dial_ok T (fst ?r) outs = dial_ok T ns outs" by (rule dial_ok_frame) (simp_all add: OtherThreads net_event_step_def)
    then show ?thesis using Cons.prems OtherThreads by (intro exI [of _ T]) (simp add: net_event_step_def pass_times_def)
  qed
  then show ?case using Cons.IH [of _ "fst ?r" "outs @ snd ?r"] by (auto simp: split_beta)
qed

text \<open>
  C28. Dialling is disciplined, over every history of the network thread and whatever the other
  threads do meanwhile: the machine never dials itself, and two dials of one peer are at
  least three seconds apart.
\<close>

theorem dial_discipline:
  assumes "ns_lastDial ns = []" "sorted (pass_times es)"
  shows "let outs = snd (run_steps (net_event_step ops) es ns) in
    (\<forall>i j p h pt t h' pt' t'. i < j \<and> j < length outs \<and> outs ! i = Dial p h pt t \<and> outs ! j = Dial p h' pt' t' \<longrightarrow> unat t + 3000 \<le> unat t')
  \<and> (\<forall>p h pt t. Dial p h pt t \<in> set outs \<longrightarrow> p \<noteq> ns_self ns)"
proof -
  let ?r = "run_steps (net_event_step ops) es ns"
  have "dial_ok 0 ns []" using assms(1) by (simp add: dial_ok_def)
  moreover have "sorted (0 # pass_times es)" using assms(2) by simp
  ultimately obtain T where ok: "dial_ok T (fst ?r) (snd ?r)" using net_run_ok [of 0 ns "[]" es ops] by auto
  have "ns_self (fst (net_event_step ops e s)) = ns_self s" for e and s :: "'a NetState"
  proof (cases e)
    case (Pass connect accepted now)
    have "ns_self (fst (net_dial ops connect now dd s)) = ns_self s" for dd and s :: "'a NetState"
      by (auto simp: net_dial_def Let_def split: option.split)
    then have "ns_self (fst (run_steps (net_dial ops connect now) dds s)) = ns_self s" for dds
      using run_steps_inv [where I = "\<lambda>x. ns_self x = ns_self s"] by metis
    then show ?thesis by (auto simp: Pass net_event_step_def net_pass_def split_beta net_accept_frame split: option.split)
  qed (simp add: net_event_step_def)
  then have self: "ns_self (fst ?r) = ns_self ns" using run_steps_inv [where I = "\<lambda>x. ns_self x = ns_self ns"] by metis
  have "unat t + 3000 \<le> unat t'" if "i < j" "j < length (snd ?r)" "snd ?r ! i = Dial p h pt t" "snd ?r ! j = Dial p h' pt' t'"
    for i j p h pt t h' pt' t'
    using ok that sorted_wrt_nth_less [of spaced "snd ?r" i j] by (auto simp: dial_ok_def spaced_def)
  moreover have "p \<noteq> ns_self ns" if "Dial p h pt t \<in> set (snd ?r)" for p h pt t using ok that self by (auto simp: dial_ok_def)
  ultimately show ?thesis unfolding Let_def by blast
qed

definition toy_net :: "RawLink NetState" where
  "toy_net = \<lparr>ns_self = ''A'', ns_config = defaultConfig\<lparr>cfg_devices := [(paired_device ''B'' ''10.0.0.9'')\<lparr>pd_mac := ''00:11:22:33:44:55'', pd_wol := True\<rparr>]\<rparr>,
     ns_keys = setPsk ''B'' (replicate 32 7) [], ns_connectedIds = [], ns_lastDial = [], ns_peerIp = [], ns_pendingLinks = []\<rparr>"

lemma toy_dial:
  "net_pass raw_ops (\<lambda>_ _. None) None 5 toy_net = (toy_net\<lparr>ns_lastDial := [(''B'', 5)]\<rparr>, [Dial ''B'' ''10.0.0.9'' kMeshPort 5])"
  by (simp add: net_pass_def dialables_def toy_net_def paired_device_def net_dial_def Let_def getPsk_def setPsk_def kMeshPort_def)

theorem dial_discipline_witness:
  "snd (run_steps (net_event_step raw_ops) [Pass (\<lambda>_ _. None) None 5, Pass (\<lambda>_ _. None) None 1005, Pass (\<lambda>_ _. None) None 3005] toy_net)
      = [Dial ''B'' ''10.0.0.9'' kMeshPort 5, Dial ''B'' ''10.0.0.9'' kMeshPort 3005]
   \<and> unat (5 :: u64) + 3000 \<le> unat (3005 :: u64)"
proof -
  let ?es = "[Pass (\<lambda>_ _. None) None 5, Pass (\<lambda>_ _. None) None 1005, Pass (\<lambda>_ _. None) None 3005] :: RawLink net_event list"
  let ?ns = "toy_net\<lparr>ns_lastDial := [(''B'', 5)]\<rparr>"
  have "net_pass raw_ops (\<lambda>_ _. None) None 1005 ?ns = (?ns, [])"
    "net_pass raw_ops (\<lambda>_ _. None) None 3005 ?ns = (toy_net\<lparr>ns_lastDial := [(''B'', 3005)]\<rparr>, [Dial ''B'' ''10.0.0.9'' kMeshPort 3005])"
    by (simp_all add: net_pass_def dialables_def toy_net_def paired_device_def net_dial_def Let_def getPsk_def setPsk_def kMeshPort_def)
  then have outs: "snd (run_steps (net_event_step raw_ops) ?es toy_net) = [Dial ''B'' ''10.0.0.9'' kMeshPort 5, Dial ''B'' ''10.0.0.9'' kMeshPort 3005]"
    using toy_dial by (simp add: net_event_step_def)
  have "ns_lastDial toy_net = []" "sorted (pass_times ?es)" by (simp_all add: toy_net_def pass_times_def)
  note sp = dial_discipline [OF this, of raw_ops, unfolded Let_def outs, THEN conjunct1, rule_format,
      of 0 1 "''B''" "''10.0.0.9''" kMeshPort 5 "''10.0.0.9''" kMeshPort 3005]
  have "unat (5 :: u64) + 3000 \<le> unat (3005 :: u64)" by (rule sp) simp
  then show ?thesis using outs by blast
qed

section \<open>Beacons\<close>

lemma refreshed_devices:
  assumes "b_ip b \<noteq> []"
  shows "cfg_devices (ns_config (refresh_ip b ns)) = map (refresh_device b) (cfg_devices (ns_config ns))"
  using assms by (simp add: refresh_ip_def Let_def)

lemma refresh_ip_frame:
  "ns_self (refresh_ip b ns) = ns_self ns" "ns_keys (refresh_ip b ns) = ns_keys ns" "ns_connectedIds (refresh_ip b ns) = ns_connectedIds ns"
  "ns_lastDial (refresh_ip b ns) = ns_lastDial ns"
  by (simp_all add: refresh_ip_def Let_def)

lemma disco_pass_beacon:
  assumes "beacon_ok b" "length (encodeBeacon b) \<le> 2048" "src \<noteq> []" "b_id b \<noteq> ns_self ns"
  shows "snd (fst (disco_pass (Some p) (env\<lparr>de_datagram := Datagram (encodeBeacon b) src\<rparr>) (ds, ns))) = refresh_ip (b\<lparr>b_ip := src\<rparr>) ns"
proof -
  obtain d where "recvDecodeOnce (de_isTimeout env) (Datagram (encodeBeacon b) src) = (Some (b\<lparr>b_ip := src\<rparr>), d)"
    using beacon_hop [OF assms(1-3), of "de_isTimeout env"] by blast
  then show ?thesis using assms(4) by (simp add: disco_pass_def pollBeacon_def on_peer_beacon_def Let_def split_beta)
qed

text \<open>What a pass dials: the first entry of an id that is due.\<close>

lemma net_dial_other: "dd_id dd \<noteq> p \<Longrightarrow> omap_ok (ns_lastDial ns) \<Longrightarrow>
    map_of (ns_lastDial (fst (net_dial ops connect now dd ns))) p = map_of (ns_lastDial ns) p
    \<and> omap_ok (ns_lastDial (fst (net_dial ops connect now dd ns))) \<and> ns_connectedIds (fst (net_dial ops connect now dd ns)) = ns_connectedIds ns"
  by (auto simp: net_dial_def Let_def map_of_omap_set omap_set_ok split: option.split)

lemma net_dials_reach:
  assumes "dd \<in> set dds" "\<forall>e \<in> set dds. dd_id e = dd_id dd \<longrightarrow> e = dd" "dd_psk dd \<noteq> None" "omap_ok (ns_lastDial ns)"
    and "dd_id dd \<notin> set (ns_connectedIds ns)" "case map_of (ns_lastDial ns) (dd_id dd) of None \<Rightarrow> True | Some t \<Rightarrow> 3000 \<le> now - t"
  shows "Dial (dd_id dd) (dd_host dd) (dd_port dd) now \<in> set (snd (run_steps (net_dial ops connect now) dds ns))"
  using assms
proof (induction dds arbitrary: ns)
  case (Cons e dds)
  show ?case
  proof (cases "e = dd")
    case True
    have "Dial (dd_id dd) (dd_host dd) (dd_port dd) now \<in> set (snd (net_dial ops connect now dd ns))"
      using Cons.prems(3,5,6) by (auto simp: net_dial_def Let_def not_less split: option.splits)
    then show ?thesis using True by (simp add: split_beta)
  next
    case False
    let ?ns = "fst (net_dial ops connect now e ns)"
    have "dd_id e \<noteq> dd_id dd" using Cons.prems(2) False by auto
    then have "map_of (ns_lastDial ?ns) (dd_id dd) = map_of (ns_lastDial ns) (dd_id dd)" "omap_ok (ns_lastDial ?ns)"
      "ns_connectedIds ?ns = ns_connectedIds ns"
      using net_dial_other [of e "dd_id dd" ns ops connect now] Cons.prems(4) by simp_all
    then show ?thesis using Cons.IH [of ?ns] Cons.prems False by (simp add: split_beta)
  qed
qed simp

text \<open>
  C38. An unauthenticated beacon redirects the dialling.  Whoever on the network sends one
  datagram with the id of a paired device replaces the stored address of that device by
  the datagram's source, and the next pass of the network thread dials that source.
\<close>

theorem beacon_redirects_dial:
  assumes "d \<in> set (cfg_devices (ns_config ns))" "\<forall>e \<in> set (cfg_devices (ns_config ns)). pd_id e = pd_id d \<longrightarrow> e = d"
    and "pd_id d \<noteq> ns_self ns" "getPsk (pd_id d) (ns_keys ns) \<noteq> None" "pd_id d \<notin> set (ns_connectedIds ns)"
    and "omap_ok (ns_lastDial ns)" "case map_of (ns_lastDial ns) (pd_id d) of None \<Rightarrow> True | Some t \<Rightarrow> 3000 \<le> now - t"
    and "beacon_ok b" "length (encodeBeacon b) \<le> 2048" "b_id b = pd_id d" "src \<noteq> []"
  shows "\<exists>ds' ns' out port. disco_pass (Some p) (env\<lparr>de_datagram := Datagram (encodeBeacon b) src\<rparr>) (ds, ns) = ((ds', ns'), out)
    \<and> cfg_devices (ns_config ns') = map (\<lambda>e. if pd_id e = pd_id d then e\<lparr>pd_last_ip := src\<rparr> else e) (cfg_devices (ns_config ns))
    \<and> Dial (pd_id d) src port now \<in> set (snd (net_pass ops connect accepted now ns'))"
proof -
  let ?b = "b\<lparr>b_ip := src\<rparr>" and ?ns = "refresh_ip (b\<lparr>b_ip := src\<rparr>) ns"
  have "b_id b \<noteq> ns_self ns" using assms(3,10) by simp
  note pass = disco_pass_beacon [OF assms(8,9,11) this, of p env ds]
  have devs: "cfg_devices (ns_config ?ns) = map (\<lambda>e. if pd_id e = pd_id d then e\<lparr>pd_last_ip := src\<rparr> else e) (cfg_devices (ns_config ns))"
    using assms(10,11) by (simp add: refreshed_devices refresh_device_def)
  define dd where "dd = \<lparr>dd_id = pd_id d, dd_host = src, dd_port = (if pd_port d \<noteq> 0 then pd_port d else kMeshPort), dd_psk = getPsk (pd_id d) (ns_keys ns)\<rparr>"
  have "d\<lparr>pd_last_ip := src\<rparr> \<in> set (cfg_devices (ns_config ?ns))"
    unfolding devs set_map using assms(1) by (intro image_eqI [where x = d]) simp_all
  then have "d\<lparr>pd_last_ip := src\<rparr> \<in> set (filter (\<lambda>d. \<not> (pd_id d = ns_self ?ns \<or> pd_last_ip d = [])) (cfg_devices (ns_config ?ns)))"
    using assms(3,11) by (simp add: refresh_ip_frame)
  then have mem: "dd \<in> set (dialables ?ns)"
    unfolding dialables_def set_map by (rule rev_image_eqI) (simp add: dd_def refresh_ip_frame)
  have uniq: "\<forall>e \<in> set (dialables ?ns). dd_id e = dd_id dd \<longrightarrow> e = dd"
    using assms(2) by (auto simp: dialables_def devs dd_def refresh_ip_frame)
  have "Dial (dd_id dd) (dd_host dd) (dd_port dd) now \<in> set (snd (run_steps (net_dial ops connect now) (dialables ?ns) ?ns))"
    by (rule net_dials_reach [OF mem uniq]) (use assms(4-7) in \<open>simp_all only: dd_def refresh_ip_frame Dialable.simps simp_thms\<close>)
  then have "Dial (pd_id d) src (dd_port dd) now \<in> set (snd (net_pass ops connect accepted now ?ns))"
    by (simp add: net_pass_def split_beta dd_def)
  moreover have "disco_pass (Some p) (env\<lparr>de_datagram := Datagram (encodeBeacon b) src\<rparr>) (ds, ns) = ((ds', ?ns), out)"
    if "ds' = fst (fst (disco_pass (Some p) (env\<lparr>de_datagram := Datagram (encodeBeacon b) src\<rparr>) (ds, ns)))"
      "out = snd (disco_pass (Some p) (env\<lparr>de_datagram := Datagram (encodeBeacon b) src\<rparr>) (ds, ns))" for ds' out
    unfolding that pass [symmetric] prod.collapse ..
  ultimately show ?thesis using devs by blast
qed

theorem beacon_redirects_dial_witness:
  "\<exists>ds' ns' out port. disco_pass (Some 47802) (\<lparr>de_now = 1, de_later = 1, de_isTimeout = (\<lambda>_. True),
        de_datagram = Datagram (encodeBeacon (self_beacon ''B'')) ''10.6.6.6'', de_wsa = True, de_aton = (\<lambda>_. None), de_reply = None\<rparr>)
      (\<lparr>ds_table = \<lparr>dt_entries = []\<rparr>, ds_lastReply = [], ds_lastBroadcast = 0\<rparr>, toy_net) = ((ds', ns'), out)
    \<and> Dial ''B'' ''10.6.6.6'' port 5 \<in> set (snd (net_pass raw_ops (\<lambda>_ _. None) None 5 ns'))"
proof -
  let ?env = "\<lparr>de_now = 1, de_later = 1, de_isTimeout = (\<lambda>_. True), de_datagram = RecvFailed 0, de_wsa = True, de_aton = (\<lambda>_. None), de_reply = None\<rparr>"
  have "length (encodeBeacon (self_beacon ''B'')) \<le> 2048" "beacon_ok (self_beacon ''B'')"
    by (simp_all add: encodeBeacon_def self_beacon_def kMagic_def beacon_ok_def putStr16_def)
  then show ?thesis
    using beacon_redirects_dial [of "(paired_device ''B'' ''10.0.0.9'')\<lparr>pd_mac := ''00:11:22:33:44:55'', pd_wol := True\<rparr>" toy_net 5 "self_beacon ''B''"
      "''10.6.6.6''" 47802 ?env "\<lparr>ds_table = \<lparr>dt_entries = []\<rparr>, ds_lastReply = [], ds_lastBroadcast = 0\<rparr>" raw_ops "\<lambda>_ _. None" None]
    by (auto simp: toy_net_def paired_device_def self_beacon_def getPsk_def setPsk_def)
qed

section \<open>What a pairing session stores\<close>

lemma px_poll_status: "px_poll pc ops s = (st, s') \<Longrightarrow> st = px_status (fst s')"
  by (auto simp: px_poll_def px_fail_def split_beta split: recv_result.splits if_splits)

lemma px_polls_done: "px_status (fst s) \<noteq> PxNeedMore \<Longrightarrow> px_polls pc ops k s = s"
  by (induction k) (auto simp: px_poll_def split: prod.split)

lemma pairing_loop_completes:
  assumes "px_polls pc ops (length ts) s = (x, t)" "px_status x = PxOk" "px_status (fst s) = PxNeedMore" "\<forall>u \<in> set ts. u < deadline"
  shows "pairing_loop pc ops deadline ts PxNeedMore s = (PxOk, x, t)"
  using assms
proof (induction ts arbitrary: s)
  case (Cons u ts)
  obtain st1 s1 where p: "px_poll pc ops s = (st1, s1)" by (rule prod.exhaust)
  have polls: "px_polls pc ops (length ts) s1 = (x, t)" using Cons.prems(1) p by simp
  show ?case
  proof (cases "px_status (fst s1) = PxNeedMore")
    case True
    then show ?thesis using Cons.IH [OF polls Cons.prems(2) True] Cons.prems(4) p px_poll_status [OF p] by simp
  next
    case False
    then have "s1 = (x, t)" using polls px_polls_done [OF False] by metis
    then have "pairing_loop pc ops deadline (u # ts) PxNeedMore s = pairing_loop pc ops deadline ts PxOk (x, t)"
      using p px_poll_status [OF p] Cons.prems(2,4) by simp
    then show ?thesis by (cases ts) simp_all
  qed
qed simp

lemma pairing_loop_polls:
  assumes "pairing_loop pc ops deadline ts st s = (st', x, t)" "st = px_status (fst s)" "px_status (fst s) = PxNeedMore"
  shows "\<exists>k \<le> length ts. px_polls pc ops k s = (x, t) \<and> (st' = PxOk \<longrightarrow> px_status x = PxOk)"
  using assms
proof (induction ts arbitrary: st s)
  case (Cons u ts)
  show ?case
  proof (cases "u < deadline")
    case True
    obtain st1 s1 where p: "px_poll pc ops s = (st1, s1)" by (rule prod.exhaust)
    have run: "pairing_loop pc ops deadline ts st1 s1 = (st', x, t)" using Cons.prems True p by simp
    have st1: "st1 = px_status (fst s1)"
      using px_poll_status [OF p] by simp
    have "\<exists>k \<le> length ts. px_polls pc ops k s1 = (x, t) \<and> (st' = PxOk \<longrightarrow> px_status x = PxOk)"
    proof (cases "px_status (fst s1) = PxNeedMore")
      case True
      then show ?thesis using Cons.IH [OF run st1] by blast
    next
      case False
      then have "st' = st1" "s1 = (x, t)" using run st1 by (cases ts; simp)+
      then show ?thesis using st1 by (intro exI [of _ 0]) simp
    qed
    then obtain k where "k \<le> length ts" "px_polls pc ops k s1 = (x, t)" "st' = PxOk \<longrightarrow> px_status x = PxOk" by blast
    then show ?thesis using p by (intro exI [of _ "Suc k"]) simp
  next
    case False
    then show ?thesis using Cons.prems by (intro exI [of _ 0]) auto
  qed
qed (auto intro: exI [of _ 0])

lemma stored_pairing:
  "omap_ok (ns_keys ns) \<Longrightarrow>
    getPsk p (ns_keys (store_pairing peer psk host ns)) = (if p = peer then Some psk else getPsk p (ns_keys ns))"
  "findDevice p (ns_config (store_pairing peer psk host ns)) = (if p = peer then Some (paired_device peer host) else findDevice p (ns_config ns))"
  using add_device [of "paired_device peer host" "ns_config ns" p, THEN conjunct1]
    add_device [of "paired_device peer host" "ns_config ns" p, THEN conjunct2, THEN conjunct1]
  by (simp_all add: store_pairing_def getPsk_def setPsk_def map_of_omap_set paired_device_def)

lemma px_started_gate:
  assumes "px_start pc raw_ops generated rnd (newExchange self, \<lparr>rl_up = True, rl_in = script, rl_out = []\<rparr>) = (True, x0, l0)"
  shows "\<exists>kp. generated = Some kp \<and> gate_inv pc kp rnd self (arrived []) (rl_out l0) x0 \<and> rl_in l0 = script \<and> px_status x0 = PxNeedMore"
  using assms
  by (auto simp: px_start_def eh_begin_def Let_def newExchange_def newHandshake_def raw_ops_def raw_send_def split: if_splits option.splits)

text \<open>
  C19. What a pairing session may change, against any peer at all: unless it succeeds nothing
  of the key store and the configuration changes; and if it succeeds the peer has opened the
  commitment it sent first, the user has confirmed the code of that very exchange, and exactly
  one device's key and entry are written, the entry being the fresh one for that id.
\<close>

theorem pairing_stores:
  assumes "omap_ok (ns_keys ns)"
    and "runPairingSession pc raw_ops generated rnd confirm start clock host \<lparr>rl_up = True, rl_in = script, rl_out = []\<rparr> ns = (ok, ns')"
  shows "if ok
    then \<exists>kp x us. generated = Some kp \<and> prefix us script \<and> opened pc kp rnd x (arrived us) \<and> px_self x = ns_self ns
      \<and> confirm (px_code x) (px_peerId x)
      \<and> (\<forall>p. getPsk p (ns_keys ns') = (if p = px_peerId x then Some (px_psk x) else getPsk p (ns_keys ns)))
      \<and> (\<forall>p. findDevice p (ns_config ns') = (if p = px_peerId x then Some (paired_device p host) else findDevice p (ns_config ns)))
    else ns' = ns"
proof (cases ok)
  case False
  then show ?thesis using assms(2) by (auto simp: runPairingSession_def split: prod.splits if_splits)
next
  case True
  let ?l = "\<lparr>rl_up = True, rl_in = script, rl_out = []\<rparr>"
  from assms(2) True obtain x0 l0 x l where
    start: "px_start pc raw_ops generated rnd (newExchange (ns_self ns), ?l) = (True, x0, l0)" and
    loop: "pairing_loop pc raw_ops (start + 30000) clock PxNeedMore (x0, l0) = (PxOk, x, l)" and
    conf: "confirm (px_code x) (px_peerId x)" and ns': "ns' = store_pairing (px_peerId x) (px_psk x) host ns"
    by (auto simp: runPairingSession_def split: prod.splits if_splits)
  obtain kp where kp: "generated = Some kp" "gate_inv pc kp rnd (ns_self ns) (arrived []) (rl_out l0) x0" "rl_in l0 = script"
    "px_status x0 = PxNeedMore" using px_started_gate [OF start] by blast
  obtain k where k: "px_polls pc raw_ops k (x0, l0) = (x, l)" "px_status x = PxOk" using pairing_loop_polls [OF loop] kp(4) by auto
  have "px_status x0 \<noteq> PxError \<longrightarrow> script = [] @ rl_in l0" using kp(3) by simp
  from gate_polls [OF kp(2) this k(1)] obtain us where
    us: "script = us @ rl_in l" "gate_inv pc kp rnd (ns_self ns) (arrived us) (rl_out l) x" using k(2) by auto
  have "opened pc kp rnd x (arrived us) \<and> px_self x = ns_self ns" using us(2) k(2) by simp
  moreover have "prefix us script" using us(1) by (rule prefixI)
  ultimately show ?thesis using True kp(1) conf unfolding ns' by (auto simp: stored_pairing assms(1))
qed

text \<open>``bob'' pairs again: his address and what was known for waking him are forgotten.\<close>

theorem pairing_stores_witness:
  "\<exists>ns' x us. runPairingSession toy_pair_crypto raw_ops (Some (ps_kp (toy_side 3 ''alice''))) (replicate 32 4) (\<lambda>_ _. True) 0 [20, 40] []
      \<lparr>rl_up = True, rl_in = [Incoming (commitment toy_pair_crypto (replicate 64 4) (replicate 32 5) ''bob''),
         Incoming (reveal ''bob'' (replicate 64 4) (replicate 32 5))], rl_out = []\<rparr>
      (toy_net\<lparr>ns_self := ''alice'', ns_config := addDevice (defaultDevice\<lparr>pd_id := ''bob'', pd_last_ip := ''10.0.0.9'', pd_wol := True\<rparr>) defaultConfig\<rparr>)
      = (True, ns')
    \<and> opened toy_pair_crypto (ps_kp (toy_side 3 ''alice'')) (replicate 32 4) x (arrived us)
    \<and> findDevice (px_peerId x) (ns_config ns') = Some (paired_device (px_peerId x) []) \<and> getPsk (px_peerId x) (ns_keys ns') = Some (px_psk x)
    \<and> findDevice ''bob'' (ns_config ns') = Some (paired_device ''bob'' [])"
proof -
  let ?kp = "ps_kp (toy_side 3 ''alice'')"
  let ?c = "commitment toy_pair_crypto (replicate 64 4) (replicate 32 5) ''bob''" and ?r = "reveal ''bob'' (replicate 64 4) (replicate 32 5)"
  let ?x = "px_done toy_pair_crypto ?kp (replicate 32 4) ''alice'' ?c (replicate 32 7) (replicate 32 5) ''bob''"
  let ?l = "\<lparr>rl_up = True, rl_in = [Incoming ?c, Incoming ?r], rl_out = []\<rparr>"
  let ?ns = "toy_net\<lparr>ns_self := ''alice'', ns_config := addDevice (defaultDevice\<lparr>pd_id := ''bob'', pd_last_ip := ''10.0.0.9'', pd_wol := True\<rparr>) defaultConfig\<rparr> :: RawLink NetState"
  have ok: "side_ok ?kp (replicate 32 4) ''alice''" using toy_sides by (simp add: sides_ok_def toy_side_def)
  note start = px_start_raw [OF ok, of toy_pair_crypto "[Incoming ?c, Incoming ?r]"]
  let ?s0 = "(px_started_state ?kp (replicate 32 4) ''alice'', \<lparr>rl_up = True, rl_in = [Incoming ?c, Incoming ?r], rl_out = [commitment toy_pair_crypto (publicPoint ?kp) (replicate 32 4) ''alice'']\<rparr>)"
  obtain l where "px_polls toy_pair_crypto raw_ops (length [20, 40 :: u64]) ?s0 = (?x, l)"
    using toy_run by (auto simp: px_run_def start numeral_2_eq_2)
  then have loop: "pairing_loop toy_pair_crypto raw_ops 30000 [20, 40] PxNeedMore ?s0 = (PxOk, ?x, l)"
    by (rule pairing_loop_completes) (simp_all add: px_states)
  have st: "px_psk ?x = session_psk toy_pair_crypto (replicate 32 7) ''alice'' ''bob''" "px_peerId ?x = ''bob''" by (simp_all add: px_states)
  have run: "runPairingSession toy_pair_crypto raw_ops (Some ?kp) (replicate 32 4) (\<lambda>_ _. True) 0 [20, 40] [] ?l ?ns
      = (True, store_pairing ''bob'' (px_psk ?x) [] ?ns)"
    using start loop st(2) by (simp add: runPairingSession_def)
  have keys: "omap_ok (ns_keys ?ns)" by (simp add: toy_net_def setPsk_def omap_ok_def)
  from pairing_stores [OF keys run, unfolded if_True] obtain x us where
    "opened toy_pair_crypto ?kp (replicate 32 4) x (arrived us)"
    "getPsk (px_peerId x) (ns_keys (store_pairing ''bob'' (px_psk ?x) [] ?ns)) = Some (px_psk x)"
    "findDevice (px_peerId x) (ns_config (store_pairing ''bob'' (px_psk ?x) [] ?ns)) = Some (paired_device (px_peerId x) [])"
    by auto
  then show ?thesis using run stored_pairing(2) [of "''bob''" "''bob''" "px_psk ?x" "[]" ?ns] by auto
qed

end
