(* ===== verification/SocketLayer.thy ===== *)
theory SocketLayer
  imports WebSocket Handshake "HOL-Library.Multiset"
begin

text \<open>
  The socket layer of the two WebSocket transports, \<open>platform/ws_transport_win.cpp\<close> and
  \<open>platform/ws_transport_posix.cpp\<close>: dialling with its bounded wait, the accepting side, closing,
  and the Windows send and receive loops.  What the system calls answer is an argument; the
  sockets, address lists and TLS objects that are open are kept in a table, so that the
  theory can say who owns them.
\<close>

section \<open>Handles\<close>

record OsTable =
  os_socks :: "nat list"
  os_ssls :: nat
  os_infos :: nat

definition open_socket :: "nat \<Rightarrow> OsTable \<Rightarrow> OsTable" where
  "open_socket h os = os\<lparr>os_socks := h # os_socks os\<rparr>"

definition close_socket :: "nat \<Rightarrow> OsTable \<Rightarrow> OsTable" where
  "close_socket h os = os\<lparr>os_socks := remove1 h (os_socks os)\<rparr>"

definition new_ssl :: "OsTable \<Rightarrow> OsTable" where
  "new_ssl os = os\<lparr>os_ssls := os_ssls os + 1\<rparr>"

definition free_ssl :: "OsTable \<Rightarrow> OsTable" where
  "free_ssl os = os\<lparr>os_ssls := os_ssls os - 1\<rparr>"

definition get_info :: "OsTable \<Rightarrow> OsTable" where
  "get_info os = os\<lparr>os_infos := os_infos os + 1\<rparr>"

definition free_info :: "OsTable \<Rightarrow> OsTable" where
  "free_info os = os\<lparr>os_infos := os_infos os - 1\<rparr>"

lemmas os_defs = open_socket_def close_socket_def new_ssl_def free_ssl_def get_info_def free_info_def

text \<open>The members of a transport that own something; the reassembler is that of \<open>WebSocket\<close>.\<close>

record WsSocket =
  sk_sock :: "nat option"
  sk_client :: bool
  sk_connected :: bool
  sk_ssl :: bool

definition createWsClientTransport :: WsSocket where
  "createWsClientTransport = \<lparr>sk_sock = None, sk_client = True, sk_connected = False, sk_ssl = False\<rparr>"

section \<open>Dialling\<close>

datatype connect_result = ConnectDone | ConnectPending | ConnectRefused

record connect_env =
  ce_info :: bool
  ce_socket :: "nat option"
  ce_connect :: connect_result
  ce_writable :: bool
  ce_soError :: int
  ce_sslNew :: bool
  ce_sslConnect :: bool
  ce_rnd :: bytes
  ce_writes :: "sock_write list"
  ce_input :: string

text \<open>The non-blocking connect, waited for at most three seconds.\<close>

definition tcp_up :: "connect_env \<Rightarrow> bool" where
  "tcp_up env = (case ce_connect env of
     ConnectDone \<Rightarrow> True | ConnectPending \<Rightarrow> ce_writable env \<and> ce_soError env = 0 | ConnectRefused \<Rightarrow> False)"

definition upgraded :: "(bytes \<Rightarrow> bytes) \<Rightarrow> string \<Rightarrow> u16 \<Rightarrow> connect_env \<Rightarrow> bool" where
  "upgraded sha1 host port env =
     (clientHandshake sha1 (ce_rnd env) (fst (rawSendAll (ce_writes env) (to_bytes (clientRequest host port (ce_rnd env)))))
        (ce_input env) \<noteq> None)"

definition win_connect ::
  "(bytes \<Rightarrow> bytes) \<Rightarrow> string \<Rightarrow> u16 \<Rightarrow> connect_env \<Rightarrow> WsSocket \<times> OsTable \<Rightarrow> bool \<times> WsSocket \<times> OsTable" where
  "win_connect sha1 host port env s =
     (case s of (t, os) \<Rightarrow>
        if sk_connected t then (True, t, os)
        else if \<not> ce_info env then (False, t, os)
        else
          let os1 = get_info os in
          case ce_socket env of
            None \<Rightarrow> (False, t\<lparr>sk_sock := None\<rparr>, free_info os1)
          | Some h \<Rightarrow>
              let t1 = t\<lparr>sk_sock := Some h\<rparr>; os2 = open_socket h os1 in
              if \<not> tcp_up env then (False, t1\<lparr>sk_sock := None\<rparr>, close_socket h (free_info os2))
              else
                let os3 = free_info os2 in
                if \<not> upgraded sha1 host port env then (False, t1, os3)
                else (True, t1\<lparr>sk_connected := True\<rparr>, os3))"

definition posix_connect ::
  "(bytes \<Rightarrow> bytes) \<Rightarrow> string \<Rightarrow> u16 \<Rightarrow> connect_env \<Rightarrow> WsSocket \<times> OsTable \<Rightarrow> bool \<times> WsSocket \<times> OsTable" where
  "posix_connect sha1 host port env s =
     (case s of (t, os) \<Rightarrow>
        if sk_connected t then (True, t, os)
        else if \<not> ce_info env then (False, t, os)
        else
          let os1 = get_info os in
          case ce_socket env of
            None \<Rightarrow> (False, t\<lparr>sk_sock := None\<rparr>, free_info os1)
          | Some h \<Rightarrow>
              let t1 = t\<lparr>sk_sock := Some h\<rparr>; os2 = open_socket h os1 in
              if \<not> tcp_up env then (False, t1\<lparr>sk_sock := None\<rparr>, close_socket h (free_info os2))
              else
                let os3 = free_info os2 in
                if \<not> ce_sslNew env then (False, t1\<lparr>sk_sock := None, sk_ssl := False\<rparr>, close_socket h os3)
                else
                  let t2 = t1\<lparr>sk_ssl := True\<rparr>; os4 = new_ssl os3 in
                  if \<not> ce_sslConnect env
                  then (False, t2\<lparr>sk_ssl := False, sk_sock := None\<rparr>, close_socket h (free_ssl os4))
                  else if \<not> upgraded sha1 host port env then (False, t2, os4)
                  else (True, t2\<lparr>sk_connected := True\<rparr>, os4))"

definition win_close :: "WsSocket \<times> OsTable \<Rightarrow> WsSocket \<times> OsTable" where
  "win_close s =
     (case s of (t, os) \<Rightarrow>
        case sk_sock t of None \<Rightarrow> (t\<lparr>sk_connected := False\<rparr>, os)
        | Some h \<Rightarrow> (t\<lparr>sk_sock := None, sk_connected := False\<rparr>, close_socket h os))"

definition posix_close :: "WsSocket \<times> OsTable \<Rightarrow> WsSocket \<times> OsTable" where
  "posix_close s =
     (case s of (t, os) \<Rightarrow>
        let (t1, os1) = (if sk_ssl t then (t\<lparr>sk_ssl := False\<rparr>, free_ssl os) else (t, os)) in
        case sk_sock t1 of None \<Rightarrow> (t1\<lparr>sk_connected := False\<rparr>, os1)
        | Some h \<Rightarrow> (t1\<lparr>sk_sock := None, sk_connected := False\<rparr>, close_socket h os1))"

section \<open>Accepting\<close>

record accept_env =
  ae_socket :: "nat option"
  ae_bind :: bool
  ae_listen :: bool
  ae_readable :: bool
  ae_accept :: "nat option"
  ae_peer :: "string option"
  ae_sslNew :: bool
  ae_sslAccept :: bool
  ae_writes :: "sock_write list"
  ae_input :: string

definition write_reply :: "(bytes \<Rightarrow> bytes) \<Rightarrow> accept_env \<Rightarrow> bool" where
  "write_reply sha1 env =
     (case read_head [] (ae_input env) of None \<Rightarrow> False
      | Some (req, rest) \<Rightarrow>
          fst (rawSendAll (ae_writes env) (to_bytes (wsBuildServerResponse sha1 (parseKeyFromRequest req)))))"

text \<open>The listening part both platforms share: the accepted socket, with the listener closed.\<close>

definition accept_socket :: "accept_env \<Rightarrow> OsTable \<Rightarrow> nat option \<times> OsTable" where
  "accept_socket env os =
     (case ae_socket env of None \<Rightarrow> (None, os)
      | Some l \<Rightarrow>
          let os1 = open_socket l os in
          if \<not> ae_bind env \<or> \<not> ae_listen env then (None, close_socket l os1)
          else if \<not> ae_readable env then (None, close_socket l os1)
          else case ae_accept env of None \<Rightarrow> (None, close_socket l os1)
            | Some c \<Rightarrow> (Some c, close_socket l (open_socket c os1)))"

definition win_acceptOne :: "(bytes \<Rightarrow> bytes) \<Rightarrow> accept_env \<Rightarrow> OsTable \<Rightarrow> (WsSocket \<times> string option) option \<times> OsTable" where
  "win_acceptOne sha1 env os =
     (case accept_socket env os of (None, os1) \<Rightarrow> (None, os1)
      | (Some c, os1) \<Rightarrow>
          let t = \<lparr>sk_sock = Some c, sk_client = False, sk_connected = True, sk_ssl = False\<rparr> in
          if acceptServerSide sha1 (write_reply sha1 env) (ae_input env) = None then (None, snd (win_close (t, os1)))
          else (Some (t, ae_peer env), os1))"

definition posix_acceptOne :: "(bytes \<Rightarrow> bytes) \<Rightarrow> accept_env \<Rightarrow> OsTable \<Rightarrow> (WsSocket \<times> string option) option \<times> OsTable" where
  "posix_acceptOne sha1 env os =
     (case accept_socket env os of (None, os1) \<Rightarrow> (None, os1)
      | (Some c, os1) \<Rightarrow>
          if \<not> ae_sslNew env then (None, close_socket c os1)
          else
            let os2 = new_ssl os1 in
            if \<not> ae_sslAccept env then (None, close_socket c (free_ssl os2))
            else
              let t = \<lparr>sk_sock = Some c, sk_client = False, sk_connected = True, sk_ssl = True\<rparr> in
              if serverHandshake sha1 (write_reply sha1 env) (ae_input env) = None then (None, snd (posix_close (t, os2)))
              else (Some (t, ae_peer env), os2))"

section \<open>Who owns what\<close>

definition owned :: "WsSocket \<Rightarrow> nat list" where
  "owned t = (case sk_sock t of None \<Rightarrow> [] | Some h \<Rightarrow> [h])"

text \<open>The table \<open>os'\<close> holds what \<open>os\<close> held and what the transports \<open>ts\<close> own, and nothing else.\<close>

definition accounts :: "WsSocket list \<Rightarrow> OsTable \<Rightarrow> OsTable \<Rightarrow> bool" where
  "accounts ts os os' \<longleftrightarrow> mset (os_socks os') = mset (os_socks os) + mset (concat (map owned ts))
     \<and> os_ssls os' = os_ssls os + length (filter sk_ssl ts) \<and> os_infos os' = os_infos os"

datatype sock_op = DialOp string u16 connect_env | AcceptOp accept_env | DropOp nat

text \<open>
  How the callers use transports: a dial that fails destroys its transport at once, the others are
  kept until they are dropped; the destructor closes.
\<close>

definition sock_step ::
  "(string \<Rightarrow> u16 \<Rightarrow> connect_env \<Rightarrow> WsSocket \<times> OsTable \<Rightarrow> bool \<times> WsSocket \<times> OsTable)
     \<Rightarrow> (accept_env \<Rightarrow> OsTable \<Rightarrow> (WsSocket \<times> string option) option \<times> OsTable)
     \<Rightarrow> (WsSocket \<times> OsTable \<Rightarrow> WsSocket \<times> OsTable)
     \<Rightarrow> sock_op \<Rightarrow> WsSocket list \<times> OsTable \<Rightarrow> WsSocket list \<times> OsTable" where
  "sock_step dial acc shut op s =
     (case s of (ts, os) \<Rightarrow>
        (case op of
           DialOp host port env \<Rightarrow>
             (case dial host port env (createWsClientTransport, os) of
                (ok, t, os1) \<Rightarrow> if ok then (t # ts, os1) else (ts, snd (shut (t, os1))))
         | AcceptOp env \<Rightarrow>
             (case acc env os of (None, os1) \<Rightarrow> (ts, os1) | (Some (t, ip), os1) \<Rightarrow> (t # ts, os1))
         | DropOp i \<Rightarrow>
             if i < length ts then (take i ts @ drop (Suc i) ts, snd (shut (ts ! i, os))) else (ts, os)))"

locale socket_layer =
  fixes dial :: "string \<Rightarrow> u16 \<Rightarrow> connect_env \<Rightarrow> WsSocket \<times> OsTable \<Rightarrow> bool \<times> WsSocket \<times> OsTable"
    and acc :: "accept_env \<Rightarrow> OsTable \<Rightarrow> (WsSocket \<times> string option) option \<times> OsTable"
    and shut :: "WsSocket \<times> OsTable \<Rightarrow> WsSocket \<times> OsTable"
    and sane :: "WsSocket \<Rightarrow> bool"
  assumes dial_law: "dial host port env (createWsClientTransport, os) = (ok, t, os') \<Longrightarrow>
      accounts [t] os os' \<and> sane t \<and> sk_connected t = ok \<and> (ok \<longrightarrow> owned t \<noteq> [])"
    and acc_law: "acc aenv os = (r, os') \<Longrightarrow>
      (case r of None \<Rightarrow> accounts [] os os' | Some (t, ip) \<Rightarrow> accounts [t] os os' \<and> sane t \<and> sk_connected t \<and> owned t \<noteq> [])"
    and shut_law: "accounts [t] os os' \<Longrightarrow> sane t \<Longrightarrow> accounts [] os (snd (shut (t, os')))"
begin

abbreviation socks_ok :: "OsTable \<Rightarrow> WsSocket list \<times> OsTable \<Rightarrow> bool" where
  "socks_ok os s \<equiv> accounts (fst s) os (snd s) \<and> (\<forall>t \<in> set (fst s). sane t \<and> sk_connected t \<and> owned t \<noteq> [])"

lemma accounts_trans: "accounts ts os os1 \<Longrightarrow> accounts us os1 os2 \<Longrightarrow> accounts (us @ ts) os os2"
  by (auto simp: accounts_def)

lemma accounts_split: "accounts (us @ t # vs) os os2 \<Longrightarrow> \<exists>os1. accounts (us @ vs) os os1 \<and> accounts [t] os1 os2"
  by (intro exI [of _ "os\<lparr>os_socks := os_socks os @ concat (map owned (us @ vs)), os_ssls := os_ssls os + length (filter sk_ssl (us @ vs))\<rparr>"])
    (auto simp: accounts_def)

lemma step_keeps:
  assumes "socks_ok os s"
  shows "socks_ok os (sock_step dial acc shut op s)"
proof (cases op)
  case (DialOp host port env)
  obtain ok t os1 where d: "dial host port env (createWsClientTransport, snd s) = (ok, t, os1)" by (rule prod_cases3)
  note l = dial_law [OF d]
  have "accounts ([t] @ fst s) os os1" using accounts_trans assms l by blast
  moreover have "accounts ([] @ fst s) os (snd (shut (t, os1)))" using accounts_trans shut_law assms l by blast
  ultimately show ?thesis using assms l d by (auto simp: DialOp sock_step_def split_beta)
next
  case (AcceptOp env)
  obtain r os1 where a: "acc env (snd s) = (r, os1)" by (rule prod.exhaust)
  note l = acc_law [OF a]
  show ?thesis
  proof (cases r)
    case None
    then have "accounts ([] @ fst s) os os1" using accounts_trans [of "fst s" os "snd s" "[]" os1] assms l by simp
    then show ?thesis using assms a None by (auto simp: AcceptOp sock_step_def split_beta)
  next
    case (Some tp)
    then have "accounts ([fst tp] @ fst s) os os1" using accounts_trans [of "fst s" os "snd s" "[fst tp]" os1] assms l by (simp add: split_beta)
    then show ?thesis using assms a l Some by (auto simp: AcceptOp sock_step_def split_beta)
  qed
next
  case (DropOp i)
  show ?thesis
  proof (cases "i < length (fst s)")
    case True
    let ?us = "take i (fst s)" and ?vs = "drop (Suc i) (fst s)"
    have "accounts (?us @ fst s ! i # ?vs) os (snd s)" using True assms by (simp add: id_take_nth_drop [symmetric])
    then obtain os1 where "accounts (?us @ ?vs) os os1" "accounts [fst s ! i] os1 (snd s)" using accounts_split by blast
    moreover have "sane (fst s ! i)" using True assms nth_mem by blast
    ultimately have "accounts ([] @ ?us @ ?vs) os (snd (shut (fst s ! i, snd s)))" using accounts_trans shut_law by blast
    moreover have "set (?us @ ?vs) \<subseteq> set (fst s)" by (auto dest: in_set_takeD in_set_dropD)
    ultimately show ?thesis using assms True by (auto simp: DropOp sock_step_def split_beta)
  qed (use assms in \<open>simp add: DropOp sock_step_def split_beta\<close>)
qed

lemma run_keeps: "socks_ok os (foldl (\<lambda>s op. sock_step dial acc shut op s) ([], os) ops)"
proof -
  have "socks_ok os s \<Longrightarrow> socks_ok os (foldl (\<lambda>s op. sock_step dial acc shut op s) s ops)" for s
  proof (induction ops arbitrary: s)
    case (Cons op ops)
    show ?case using Cons.IH [OF step_keeps [OF Cons.prems]] by simp
  qed simp
  from this [of "([], os)"] show ?thesis by (simp add: accounts_def)
qed

end

lemma accounts_one: "accounts [t] os os' \<longleftrightarrow> mset (os_socks os') = mset (os_socks os) + mset (owned t)
    \<and> os_ssls os' = os_ssls os + (if sk_ssl t then 1 else 0) \<and> os_infos os' = os_infos os"
  "accounts [] os os' \<longleftrightarrow> mset (os_socks os') = mset (os_socks os) \<and> os_ssls os' = os_ssls os \<and> os_infos os' = os_infos os"
  by (auto simp: accounts_def)

lemmas socket_defs = accounts_one owned_def os_defs Let_def createWsClientTransport_def

interpretation win: socket_layer "win_connect sha1" "win_acceptOne sha1" win_close "\<lambda>t. \<not> sk_ssl t"
proof (unfold_locales, goal_cases)
  case (1 host port env os ok t os')
  then show ?case by (auto simp: win_connect_def socket_defs split: if_splits option.splits)
next
  case (2 env os r os')
  then show ?case by (auto simp: win_acceptOne_def accept_socket_def win_close_def socket_defs split: if_splits option.splits)
next
  case (3 t os os')
  then show ?case by (auto simp: win_close_def socket_defs split: option.splits)
qed

interpretation posix: socket_layer "posix_connect sha1" "posix_acceptOne sha1" posix_close "\<lambda>_. True"
proof (unfold_locales, goal_cases)
  case (1 host port env os ok t os')
  then show ?case by (auto simp: posix_connect_def socket_defs split: if_splits option.splits)
next
  case (2 env os r os')
  then show ?case by (auto simp: posix_acceptOne_def accept_socket_def posix_close_def socket_defs split: if_splits option.splits)
next
  case (3 t os os')
  then show ?case by (auto simp: posix_close_def socket_defs split: option.splits)
qed

text \<open>
  C23. No socket, TLS object or address list is leaked or closed twice, on either platform: over
  every history of dials, accepts and drops, with the system calls failing wherever they like, what
  is open beyond the start is exactly what the live transports own, and each of these is connected.
\<close>

theorem sockets_accounted:
  "(let (ts, os') = foldl (\<lambda>s op. sock_step (win_connect sha1) (win_acceptOne sha1) win_close op s) ([], os) ops in
      accounts ts os os' \<and> list_all (\<lambda>t. sk_connected t \<and> owned t \<noteq> []) ts)
   \<and> (let (ts, os') = foldl (\<lambda>s op. sock_step (posix_connect sha1) (posix_acceptOne sha1) posix_close op s) ([], os) ops in
      accounts ts os os' \<and> list_all (\<lambda>t. sk_connected t \<and> owned t \<noteq> []) ts)"
  using win.run_keeps [where os = os and ops = ops] posix.run_keeps [where os = os and ops = ops] by (auto simp: split_beta list_all_iff)

section \<open>Sending and receiving on Windows\<close>

text \<open>
  A Winsock receive gives bytes (none when the peer has closed) or an error code; a send a count, or
  an error code and, should it be \<open>WSAEWOULDBLOCK\<close>, whether the socket becomes writable in time.
\<close>

definition WSAEWOULDBLOCK :: int where "WSAEWOULDBLOCK = 10035"

datatype wsa_recv = Got bytes | GotError int
datatype wsa_send = Sent nat | SendError int bool

record WinConn =
  wn_connected :: bool
  wn_client :: bool
  wn_asm :: WsFrameAssembler
  wn_in :: "wsa_recv list"
  wn_wr :: "wsa_send list"
  wn_out :: bytes

definition recvRaw :: "WinConn \<Rightarrow> wsa_recv \<times> WinConn" where
  "recvRaw c = (case wn_in c of [] \<Rightarrow> (GotError WSAEWOULDBLOCK, c) | r # q \<Rightarrow> (r, c\<lparr>wn_in := q\<rparr>))"

fun win_sendAll :: "wsa_send list \<Rightarrow> bytes \<Rightarrow> bool \<times> wsa_send list \<times> bytes" where
  "win_sendAll ws [] = (True, ws, [])"
| "win_sendAll [] d = (True, [], d)"
| "win_sendAll (SendError e writable # ws) d =
     (if e = WSAEWOULDBLOCK then if \<not> writable then (False, ws, []) else win_sendAll ws d else (False, ws, []))"
| "win_sendAll (Sent n # ws) d =
     (if n = 0 then (False, ws, [])
      else case win_sendAll ws (drop n d) of (ok, ws1, out) \<Rightarrow> (ok, ws1, take n d @ out))"

definition win_send :: "bytes \<Rightarrow> bytes \<Rightarrow> WinConn \<Rightarrow> bool \<times> WinConn" where
  "win_send rnd data c =
     (if \<not> wn_connected c then (False, c)
      else case win_sendAll (wn_wr c) (wsEncodeFrame WsBinary data (wn_client c) True rnd) of
        (ok, ws, out) \<Rightarrow> (ok, c\<lparr>wn_wr := ws, wn_out := wn_out c @ out\<rparr>))"

definition win_recv :: "nat \<Rightarrow> WinConn \<Rightarrow> recv_result \<times> WinConn" where
  "win_recv cap c =
     (if \<not> wn_connected c then (RecvErr, c)
      else case asm_next (wn_asm c) of
        (Some f, a) \<Rightarrow> (copyFrame cap f, c\<lparr>wn_asm := a\<rparr>)
      | (None, a) \<Rightarrow>
          (case recvRaw (c\<lparr>wn_asm := a\<rparr>) of
             (GotError e, c1) \<Rightarrow>
               if e = WSAEWOULDBLOCK then (RecvNone, c1) else (RecvErr, c1\<lparr>wn_connected := False\<rparr>)
           | (Got d, c1) \<Rightarrow>
               if length d = 0 then (RecvErr, c1\<lparr>wn_connected := False\<rparr>)
               else (case asm_next (asm_feed d (wn_asm c1)) of
                  (Some f, a2) \<Rightarrow> (copyFrame cap f, c1\<lparr>wn_asm := a2\<rparr>)
                | (None, a2) \<Rightarrow> (RecvNone, c1\<lparr>wn_asm := a2\<rparr>))))"

text \<open>The same socket as the POSIX transport sees it.\<close>

fun posix_read :: "wsa_recv \<Rightarrow> sock_read" where
  "posix_read (Got d) = (if d = [] then SockEof else SockData d)"
| "posix_read (GotError e) = (if e = WSAEWOULDBLOCK then SockWouldBlock else SockFail)"

fun posix_write :: "wsa_send \<Rightarrow> sock_write" where
  "posix_write (Sent n) = (if n = 0 then WriteFailed else Wrote n)"
| "posix_write (SendError e writable) = (if e = WSAEWOULDBLOCK then WriteBlocked writable else WriteFailed)"

definition posix_view :: "WinConn \<Rightarrow> WsConn" where
  "posix_view c = \<lparr>wc_connected = wn_connected c, wc_client = wn_client c, wc_asm = wn_asm c,
     wc_in = map posix_read (wn_in c), wc_wr = map posix_write (wn_wr c), wc_out = wn_out c\<rparr>"

lemma sendAll_view: "rawSendAll (map posix_write ws) d = (case win_sendAll ws d of (ok, ws1, out) \<Rightarrow> (ok, map posix_write ws1, out))"
proof (induction ws d rule: win_sendAll.induct)
  case (4 n ws v va)
  then show ?case by (cases n) (simp_all add: split_beta)
qed (auto split: prod.splits)

lemma win_send_view: "ws_send rnd data (posix_view c) = apsnd posix_view (win_send rnd data c)"
  by (simp add: ws_send_def win_send_def posix_view_def sendAll_view split_beta)

lemma win_recv_view: "ws_recv cap (posix_view c) = apsnd posix_view (win_recv cap c)"
proof -
  obtain o1 a where a: "asm_next (wn_asm c) = (o1, a)" by (rule prod.exhaust)
  have v: "wc_connected (posix_view c') = wn_connected c'" "wc_asm (posix_view c') = wn_asm c'"
    "(posix_view c')\<lparr>wc_asm := a'\<rparr> = posix_view (c'\<lparr>wn_asm := a'\<rparr>)"
    "(posix_view c')\<lparr>wc_connected := b\<rparr> = posix_view (c'\<lparr>wn_connected := b\<rparr>)" for c' a' b
    by (simp_all add: posix_view_def)
  have r: "rawRecv (posix_view c') = map_prod posix_read posix_view (recvRaw c')" for c'
    by (cases "wn_in c'") (simp_all add: rawRecv_def recvRaw_def posix_view_def)
  obtain x c1 where x: "recvRaw (c\<lparr>wn_asm := a\<rparr>) = (x, c1)" by (rule prod.exhaust)
  show ?thesis
    by (cases o1; cases x) (simp_all add: ws_recv_def win_recv_def v a r x split: prod.split option.split)
qed

datatype conn_op = SendOp bytes bytes | RecvOp nat
datatype conn_result = SendDone bool | RecvDone recv_result

definition conn_step ::
  "(bytes \<Rightarrow> bytes \<Rightarrow> 'c \<Rightarrow> bool \<times> 'c) \<Rightarrow> (nat \<Rightarrow> 'c \<Rightarrow> recv_result \<times> 'c) \<Rightarrow> conn_op \<Rightarrow> 'c \<Rightarrow> 'c \<times> conn_result list" where
  "conn_step send recv op c =
     (case op of
        SendOp rnd data \<Rightarrow> (case send rnd data c of (ok, c') \<Rightarrow> (c', [SendDone ok]))
      | RecvOp cap \<Rightarrow> (case recv cap c of (r, c') \<Rightarrow> (c', [RecvDone r])))"

lemma conn_step_view: "conn_step ws_send ws_recv op (posix_view c) = apfst posix_view (conn_step win_send win_recv op c)"
  by (cases op) (simp_all add: conn_step_def win_send_view win_recv_view split_beta)

text \<open>
  C22. The Windows transport is the POSIX one: over every history of sends and receives, and
  whatever partial writes, short reads, blocks and errors the socket answers, both give the same
  results, write the same bytes and end in the same state.
\<close>

theorem windows_equals_posix:
  "run_steps (conn_step ws_send ws_recv) ops (posix_view c) = apfst posix_view (run_steps (conn_step win_send win_recv) ops c)"
proof (induction ops arbitrary: c)
  case (Cons op ops)
  then show ?case by (simp add: conn_step_view split_beta)
qed simp

end
