(* ===== verification/Dialogs.thy ===== *)
theory Dialogs
  imports TrayApp TrayNet
begin

text \<open>
  The modal windows: the hotkey picker \<open>ui/picker_window_win.cpp\<close>, the settings window
  \<open>ui/settings_window_win.cpp\<close> and the device picker of \<open>platform/tray_win.cpp\<close>.  A window is
  its state and the messages its loop dispatches; drawing is left out.
\<close>

section \<open>The hotkey picker\<close>

record PickerState =
  pk_sel :: int
  pk_result :: string
  pk_done :: bool

text \<open>\<open>moveSel\<close>: the loop, at most once round; the operands of the code's \<open>%\<close> are not negative.\<close>

fun move_loop :: "MenuItem list \<Rightarrow> int \<Rightarrow> nat \<Rightarrow> int \<Rightarrow> int option" where
  "move_loop items dir 0 s = None"
| "move_loop items dir (Suc k) s =
     (let n = int (length items); s' = (s + dir + n) mod n in
      if mi_online (items ! nat s') then Some s' else move_loop items dir k s')"

definition moveSel :: "MenuItem list \<Rightarrow> int \<Rightarrow> PickerState \<Rightarrow> PickerState" where
  "moveSel items dir ps =
     (if items = [] then ps
      else case move_loop items dir (length items) (pk_sel ps) of None \<Rightarrow> ps | Some s \<Rightarrow> ps\<lparr>pk_sel := s\<rparr>)"

datatype picker_msg = KeyEscape | KeyUp | KeyDown | KeyReturn | KeyOther | KillFocus

definition on_killfocus :: "PickerState \<Rightarrow> PickerState" where
  "on_killfocus ps = ps\<lparr>pk_result := [], pk_done := True\<rparr>"

text \<open>
  \<open>DestroyWindow\<close> takes the keyboard focus from the window; \<open>kf\<close> says whether the window, which
  is still there and whose state is still set, is sent \<open>WM_KILLFOCUS\<close> for it.
\<close>

definition destroy_picker :: "bool \<Rightarrow> PickerState \<Rightarrow> PickerState" where
  "destroy_picker kf ps = (if kf then on_killfocus ps else ps)"

fun picker_proc :: "bool \<Rightarrow> MenuItem list \<Rightarrow> picker_msg \<Rightarrow> PickerState \<Rightarrow> PickerState" where
  "picker_proc kf items KeyEscape ps = destroy_picker kf (ps\<lparr>pk_result := [], pk_done := True\<rparr>)"
| "picker_proc kf items KeyUp ps = moveSel items (- 1) ps"
| "picker_proc kf items KeyDown ps = moveSel items 1 ps"
| "picker_proc kf items KeyReturn ps =
     (let s = pk_sel ps;
          ps1 = (if s \<ge> 0 \<and> s < int (length items) \<and> mi_online (items ! nat s)
                 then ps\<lparr>pk_result := mi_id (items ! nat s)\<rparr> else ps) in
      destroy_picker kf (ps1\<lparr>pk_done := True\<rparr>))"
| "picker_proc kf items KeyOther ps = ps"
| "picker_proc kf items KillFocus ps = on_killfocus ps"

fun first_index :: "(MenuItem \<Rightarrow> bool) \<Rightarrow> nat \<Rightarrow> MenuItem list \<Rightarrow> nat option" where
  "first_index p i [] = None"
| "first_index p i (m # ms) = (if p m then Some i else first_index p (Suc i) ms)"

definition picker_start :: "MenuItem list \<Rightarrow> PickerState" where
  "picker_start items =
     (let s0 = (case first_index (\<lambda>m. mi_owner m \<and> mi_online m) 0 items of None \<Rightarrow> 0 | Some i \<Rightarrow> i);
          s1 = (if s0 \<ge> length items \<or> items \<noteq> [] \<and> \<not> mi_online (items ! s0)
                then case first_index mi_online 0 items of None \<Rightarrow> s0 | Some i \<Rightarrow> i else s0) in
      \<lparr>pk_sel = int s1, pk_result = [], pk_done = False\<rparr>)"

text \<open>The message loop: until the window is done or the queue ends.\<close>

fun picker_loop :: "bool \<Rightarrow> MenuItem list \<Rightarrow> picker_msg list \<Rightarrow> PickerState \<Rightarrow> PickerState" where
  "picker_loop kf items [] ps = ps"
| "picker_loop kf items (m # ms) ps = (if pk_done ps then ps else picker_loop kf items ms (picker_proc kf items m ps))"

definition showPicker :: "bool \<Rightarrow> bool \<Rightarrow> MenuItem list \<Rightarrow> picker_msg list \<Rightarrow> string" where
  "showPicker created kf items msgs =
     (if \<not> created then [] else pk_result (picker_loop kf items msgs (picker_start items)))"

section \<open>Moving the selection\<close>

lemma move_loop_spec:
  assumes "0 \<le> s" "s < int (length items)" "\<bar>dir\<bar> \<le> 1"
  shows "case move_loop items dir k s of
      None \<Rightarrow> \<forall>e. 1 \<le> e \<and> e \<le> k \<longrightarrow> \<not> mi_online (items ! nat ((s + dir * int e) mod int (length items)))
    | Some r \<Rightarrow> \<exists>d. 1 \<le> d \<and> d \<le> k \<and> r = (s + dir * int d) mod int (length items) \<and> mi_online (items ! nat r)
        \<and> (\<forall>e. 1 \<le> e \<and> e < d \<longrightarrow> \<not> mi_online (items ! nat ((s + dir * int e) mod int (length items))))"
  using assms
proof (induction k arbitrary: s)
  case 0
  then show ?case by auto
next
  case (Suc k)
  let ?n = "int (length items)"
  let ?s = "(s + dir + ?n) mod ?n"
  have one: "(s + dir * int 1) mod ?n = ?s" by simp
  have later: "(?s + dir * int e) mod ?n = (s + dir * int (Suc e)) mod ?n" for e
  proof -
    have "(?s + dir * int e) mod ?n = ((s + dir) mod ?n + dir * int e) mod ?n" by simp
    also have "\<dots> = (s + dir * int (Suc e)) mod ?n" unfolding mod_add_left_eq by (simp add: algebra_simps)
    finally show ?thesis .
  qed
  have "0 < ?n" using Suc.prems by linarith
  then have range: "0 \<le> ?s" "?s < ?n" by simp_all
  note ih = Suc.IH [OF range Suc.prems(3), unfolded later]
  show ?case
  proof (cases "mi_online (items ! nat ?s)")
    case True
    then show ?thesis using one by (auto simp: Let_def intro!: exI [of _ 1])
  next
    case False
    show ?thesis
    proof (cases "move_loop items dir k ?s")
      case None
      then have none: "\<forall>e. 1 \<le> e \<and> e \<le> k \<longrightarrow> \<not> mi_online (items ! nat ((s + dir * int (Suc e)) mod ?n))" using ih by simp
      have "\<not> mi_online (items ! nat ((s + dir * int e) mod ?n))" if "1 \<le> e" "e \<le> Suc k" for e
        using that none False one by (cases "e = 1"; cases e) auto
      then show ?thesis using None False by (simp add: Let_def)
    next
      case (Some r)
      then obtain d where d: "1 \<le> d" "d \<le> k" "r = (s + dir * int (Suc d)) mod ?n" "mi_online (items ! nat r)"
        "\<forall>e. 1 \<le> e \<and> e < d \<longrightarrow> \<not> mi_online (items ! nat ((s + dir * int (Suc e)) mod ?n))" using ih by auto
      have "\<not> mi_online (items ! nat ((s + dir * int e) mod ?n))" if "1 \<le> e" "e < Suc d" for e
        using that d(5) False one by (cases "e = 1"; cases e) auto
      then show ?thesis using Some False d(1-4) by (auto simp: Let_def intro!: exI [of _ "Suc d"])
    qed
  qed
qed

text \<open>The selection stays on the list, and on an online row as soon as there is one.\<close>

definition pk_inv :: "MenuItem list \<Rightarrow> PickerState \<Rightarrow> bool" where
  "pk_inv items ps \<longleftrightarrow> (items \<noteq> [] \<longrightarrow> 0 \<le> pk_sel ps \<and> pk_sel ps < int (length items))
     \<and> (list_ex mi_online items \<longrightarrow> mi_online (items ! nat (pk_sel ps)))
     \<and> (pk_result ps \<noteq> [] \<longrightarrow> list_ex (\<lambda>m. mi_online m \<and> mi_id m = pk_result ps) items)"

lemma moveSel_frame: "pk_result (moveSel items dir ps) = pk_result ps" "pk_done (moveSel items dir ps) = pk_done ps"
  by (simp_all add: moveSel_def split: option.split)

lemma moveSel_inv:
  assumes "pk_inv items ps" "\<bar>dir\<bar> \<le> 1"
  shows "pk_inv items (moveSel items dir ps)"
proof (cases "items = []")
  case False
  then have range: "0 \<le> pk_sel ps" "pk_sel ps < int (length items)" using assms(1) by (simp_all add: pk_inv_def)
  note spec = move_loop_spec [OF range assms(2), of "length items"]
  show ?thesis
  proof (cases "move_loop items dir (length items) (pk_sel ps)")
    case None
    then show ?thesis using assms(1) False by (simp add: moveSel_def)
  next
    case (Some r)
    then have "0 \<le> r" "r < int (length items)" "mi_online (items ! nat r)" using spec False by auto
    then show ?thesis using assms(1) False Some by (simp add: moveSel_def pk_inv_def)
  qed
qed (use assms(1) in \<open>simp add: moveSel_def\<close>)

lemma first_index_spec:
  "case first_index p i ms of None \<Rightarrow> \<not> list_ex p ms | Some j \<Rightarrow> i \<le> j \<and> j < i + length ms \<and> p (ms ! (j - i))"
proof (induction p i ms rule: first_index.induct)
  case (2 p i m ms)
  show ?case
  proof (cases "p m")
    case False
    note ih = 2 [OF False]
    show ?thesis
    proof (cases "first_index p (Suc i) ms")
      case (Some j)
      then have "Suc i \<le> j" "j < Suc i + length ms" "p (ms ! (j - Suc i))" using ih by simp_all
      moreover have "(m # ms) ! (j - i) = ms ! (j - Suc i)" using \<open>Suc i \<le> j\<close> by (simp add: nth_Cons' )
      ultimately show ?thesis using False Some by simp
    qed (use ih False in simp)
  qed simp
qed simp

lemma picker_start_inv: "pk_inv items (picker_start items)"
proof -
  let ?s0 = "case first_index (\<lambda>m. mi_owner m \<and> mi_online m) 0 items of None \<Rightarrow> 0 | Some i \<Rightarrow> i"
  let ?s1 = "if ?s0 \<ge> length items \<or> items \<noteq> [] \<and> \<not> mi_online (items ! ?s0)
                then case first_index mi_online 0 items of None \<Rightarrow> ?s0 | Some i \<Rightarrow> i else ?s0"
  have s0: "items \<noteq> [] \<Longrightarrow> ?s0 < length items"
    using first_index_spec [where p = "\<lambda>m. mi_owner m \<and> mi_online m" and i = 0 and ms = items] by (auto split: option.splits)
  have s1: "items \<noteq> [] \<Longrightarrow> ?s1 < length items" "list_ex mi_online items \<Longrightarrow> mi_online (items ! ?s1)"
    using first_index_spec [where p = mi_online and i = 0 and ms = items] s0 by (auto split: option.splits)
  then show ?thesis by (simp add: pk_inv_def picker_start_def Let_def)
qed

lemma picker_proc_inv: "pk_inv items ps \<Longrightarrow> pk_inv items (picker_proc kf items m ps)"
proof (cases m)
  case KeyReturn
  assume inv: "pk_inv items ps"
  let ?ps = "if pk_sel ps \<ge> 0 \<and> pk_sel ps < int (length items) \<and> mi_online (items ! nat (pk_sel ps))
     then ps\<lparr>pk_result := mi_id (items ! nat (pk_sel ps))\<rparr> else ps"
  have "list_ex (\<lambda>m. mi_online m \<and> mi_id m = mi_id (items ! nat (pk_sel ps))) items"
    if "pk_sel ps \<ge> 0" "pk_sel ps < int (length items)" "mi_online (items ! nat (pk_sel ps))"
    using that by (auto simp: list_ex_iff intro!: bexI [of _ "items ! nat (pk_sel ps)"])
  then have "pk_inv items ?ps" using inv by (auto simp: pk_inv_def)
  then show ?thesis by (simp add: KeyReturn Let_def destroy_picker_def on_killfocus_def pk_inv_def)
qed (auto simp: destroy_picker_def on_killfocus_def moveSel_inv, (auto simp: pk_inv_def)?)

lemma picker_loop_inv: "pk_inv items ps \<Longrightarrow> pk_inv items (picker_loop kf items msgs ps)"
  by (induction kf items msgs ps rule: picker_loop.induct) (auto intro: picker_proc_inv)

text \<open>What an arrow key finds from an online row: the nearest online row in its direction, going round.\<close>

lemma moveSel_nearest:
  assumes "0 \<le> s" "s < int (length items)" "mi_online (items ! nat s)" "\<bar>dir\<bar> \<le> 1" "pk_sel ps = s"
  obtains d where "1 \<le> d" "d \<le> length items" "pk_sel (moveSel items dir ps) = (s + dir * int d) mod int (length items)"
    "mi_online (items ! nat (pk_sel (moveSel items dir ps)))"
    "\<forall>e. 1 \<le> e \<and> e < d \<longrightarrow> \<not> mi_online (items ! nat ((s + dir * int e) mod int (length items)))"
proof (cases "move_loop items dir (length items) s")
  case None
  have "1 \<le> length items" using assms(1,2) by (cases items) auto
  then have "\<not> mi_online (items ! nat ((s + dir * int (length items)) mod int (length items)))"
    using move_loop_spec [OF assms(1,2,4), of "length items"] None by auto
  then show ?thesis using assms(1-3) by simp
next
  case (Some r)
  then obtain d where "1 \<le> d" "d \<le> length items" "r = (s + dir * int d) mod int (length items)" "mi_online (items ! nat r)"
    "\<forall>e. 1 \<le> e \<and> e < d \<longrightarrow> \<not> mi_online (items ! nat ((s + dir * int e) mod int (length items)))"
    using move_loop_spec [OF assms(1,2,4), of "length items"] by auto
  moreover have "pk_sel (moveSel items dir ps) = r" using Some assms(1,2,5) by (auto simp: moveSel_def)
  ultimately show ?thesis using that by simp
qed

text \<open>
  The arrow keys of the picker go round the online rows: Down takes the next one, skipping those
  offline, and Up takes it back.
\<close>

theorem arrows_cycle:
  assumes "0 \<le> pk_sel ps" "pk_sel ps < int (length items)" "mi_online (items ! nat (pk_sel ps))"
  shows "moveSel items (- 1) (moveSel items 1 ps) = ps \<and> moveSel items 1 (moveSel items (- 1) ps) = ps"
proof -
  have home: "pk_sel (moveSel items (- dir) (moveSel items dir ps)) = pk_sel ps" if "\<bar>dir\<bar> \<le> 1" for dir
  proof -
    let ?n = "int (length items)" and ?s = "pk_sel ps" and ?ps = "moveSel items dir ps"
    from moveSel_nearest [OF assms that refl] obtain d where d: "1 \<le> d" "d \<le> length items" "pk_sel ?ps = (?s + dir * int d) mod ?n"
      "mi_online (items ! nat (pk_sel ?ps))" "\<forall>e. 1 \<le> e \<and> e < d \<longrightarrow> \<not> mi_online (items ! nat ((?s + dir * int e) mod ?n))" by blast
    have "0 < ?n" using assms(1,2) by linarith
    then have range: "0 \<le> pk_sel ?ps" "pk_sel ?ps < ?n" unfolding d(3) by simp_all
    have "\<bar>- dir\<bar> \<le> 1" using that by simp
    from moveSel_nearest [OF range d(4) this refl] obtain e where e: "1 \<le> e" "e \<le> length items"
      "pk_sel (moveSel items (- dir) ?ps) = (pk_sel ?ps + - dir * int e) mod ?n" "mi_online (items ! nat (pk_sel (moveSel items (- dir) ?ps)))"
      "\<forall>f. 1 \<le> f \<and> f < e \<longrightarrow> \<not> mi_online (items ! nat ((pk_sel ?ps + - dir * int f) mod ?n))" by blast
    have away: "(pk_sel ?ps + - dir * int f) mod ?n = (?s + dir * (int d - int f)) mod ?n" for f
      unfolding d(3) mod_add_left_eq by (simp add: algebra_simps)
    have s: "(?s + dir * (int d - int d)) mod ?n = ?s" using assms(1,2) by simp
    have "\<not> d < e" using e(5) away [of d] s d(1) assms(3) by auto
    moreover have "\<not> e < d"
    proof
      assume "e < d"
      then have "1 \<le> d - e" "d - e < d" "int (d - e) = int d - int e" using e(1) by simp_all
      then have "\<not> mi_online (items ! nat ((?s + dir * (int d - int e)) mod ?n))" using d(5) by metis
      then show False using e(3,4) away [of e] by simp
    qed
    ultimately have "e = d" by simp
    then show ?thesis using e(3) away s by simp
  qed
  have "moveSel items (- dir) (moveSel items dir ps) = ps" if "\<bar>dir\<bar> \<le> 1" for dir
    using home [OF that]
    by (intro PickerState.equality) (simp_all add: moveSel_frame)
  from this [of 1] this [of "- 1"] show ?thesis by simp
qed

text \<open>
  The picker returns nothing or an online machine of the list, whatever is typed and
  however it is closed.
\<close>

theorem picker_offers_online:
  "showPicker created kf items msgs = [] \<or> list_ex (\<lambda>m. mi_online m \<and> mi_id m = showPicker created kf items msgs) items"
  using picker_loop_inv [OF picker_start_inv] by (auto simp: showPicker_def pk_inv_def)

lemma moves_keep:
  "list_all (\<lambda>m. m \<in> {KeyUp, KeyDown, KeyOther}) arrows \<Longrightarrow> \<not> pk_done ps \<Longrightarrow>
    \<exists>ps'. picker_loop kf items (arrows @ rest) ps = picker_loop kf items rest ps' \<and> \<not> pk_done ps' \<and> (pk_inv items ps \<longrightarrow> pk_inv items ps')"
proof (induction arrows arbitrary: ps)
  case (Cons m arrows)
  have "\<not> pk_done (picker_proc kf items m ps)" using Cons.prems by (auto simp: moveSel_frame)
  from Cons.IH [OF _ this] Cons.prems picker_proc_inv [of items ps kf m] show ?case by auto
qed auto

lemma killed_picker: "pk_result ps = [] \<Longrightarrow> pk_result (picker_loop True items msgs ps) = []"
proof (induction msgs arbitrary: ps)
  case (Cons m msgs)
  have "pk_result (picker_proc True items m ps) = []" using Cons.prems
    by (cases m) (simp_all add: destroy_picker_def on_killfocus_def moveSel_frame Let_def)
  then show ?case using Cons by simp
qed simp

text \<open>
  Return chooses nothing when \<open>DestroyWindow\<close> sends \<open>WM_KILLFOCUS\<close>: the handler of that
  message clears the result the Return key has just set, so the picker always returns the
  empty string.  Without that message Return gives the selected online machine.
\<close>

theorem picker_return_lost:
  assumes "list_ex mi_online items" "list_all (\<lambda>m. mi_id m \<noteq> []) items" "list_all (\<lambda>m. m \<in> {KeyUp, KeyDown, KeyOther}) arrows"
  shows "showPicker True True items msgs = []
    \<and> showPicker True False items (arrows @ KeyReturn # rest) \<noteq> []"
proof
  show "showPicker True True items msgs = []" by (simp add: showPicker_def killed_picker picker_start_def Let_def)
  have "\<not> pk_done (picker_start items)" by (simp add: picker_start_def Let_def)
  from moves_keep [OF assms(3) this, of False items "KeyReturn # rest"] obtain ps where
    ps: "picker_loop False items (arrows @ KeyReturn # rest) (picker_start items) = picker_loop False items (KeyReturn # rest) ps"
      "\<not> pk_done ps" "pk_inv items ps" using picker_start_inv by blast
  have on: "0 \<le> pk_sel ps" "pk_sel ps < int (length items)" "mi_online (items ! nat (pk_sel ps))"
    using ps(3) assms(1) by (auto simp: pk_inv_def)
  then have "mi_id (items ! nat (pk_sel ps)) \<noteq> []" using assms(2) by (simp add: list_all_length)
  moreover have "picker_loop False items rest (ps\<lparr>pk_result := r, pk_done := True\<rparr>) = ps\<lparr>pk_result := r, pk_done := True\<rparr>" for r
    by (cases rest) simp_all
  ultimately show "showPicker True False items (arrows @ KeyReturn # rest) \<noteq> []"
    using ps(1,2) on by (simp add: showPicker_def destroy_picker_def Let_def)
qed

theorem picker_return_lost_witness:
  "let items = [\<lparr>mi_id = ''A'', mi_name = ''A'', mi_owner = True, mi_online = True, mi_self = True\<rparr>,
      \<lparr>mi_id = ''B'', mi_name = ''B'', mi_owner = False, mi_online = True, mi_self = False\<rparr>] in
    showPicker True False items [KeyDown, KeyReturn] = ''B'' \<and> showPicker True True items [KeyDown, KeyReturn] = []"
proof -
  let ?items = "[\<lparr>mi_id = ''A'', mi_name = ''A'', mi_owner = True, mi_online = True, mi_self = True\<rparr>,
      \<lparr>mi_id = ''B'', mi_name = ''B'', mi_owner = False, mi_online = True, mi_self = False\<rparr>]"
  have "showPicker True True ?items [KeyDown, KeyReturn] = []"
    by (rule picker_return_lost [of ?items "[KeyDown]", THEN conjunct1]) simp_all
  moreover have "showPicker True False ?items [KeyDown, KeyReturn] = ''B''"
    by (simp add: showPicker_def picker_start_def Let_def moveSel_def destroy_picker_def)
  ultimately show ?thesis by simp
qed

section \<open>The settings window\<close>

record SettingsForm =
  sf_hotkey :: "u16 list"
  sf_broadcast :: bool
  sf_lock :: bool
  sf_startup :: bool

record SettingsState =
  ss_config :: Config
  ss_form :: SettingsForm
  ss_saved :: bool
  ss_done :: bool

datatype settings_msg = EditHotkey "u16 list" | ToggleBroadcast | ToggleLock | ToggleStartup | SaveButton | CancelButton | CloseButton

text \<open>
  \<open>wide\<close> and \<open>narrow\<close> stand for the system's UTF-8 conversions; the edit field gives at most 255
  units, up to a terminator.
\<close>

definition settings_create :: "(string \<Rightarrow> u16 list) \<Rightarrow> Config \<Rightarrow> SettingsState" where
  "settings_create wide cfg = \<lparr>ss_config = cfg,
     ss_form = \<lparr>sf_hotkey = wide (st_hotkey (cfg_settings cfg)), sf_broadcast = st_broadcast (cfg_settings cfg),
       sf_lock = st_lock_optin (cfg_settings cfg), sf_startup = st_run_on_startup (cfg_settings cfg)\<rparr>,
     ss_saved = False, ss_done = False\<rparr>"

definition applyAndClose :: "(u16 list \<Rightarrow> string) \<Rightarrow> bool \<Rightarrow> SettingsState \<Rightarrow> SettingsState" where
  "applyAndClose narrow save ss =
     (let f = ss_form ss;
          ss1 = (if save
            then ss\<lparr>ss_config := (ss_config ss)\<lparr>cfg_settings := (cfg_settings (ss_config ss))
                   \<lparr>st_hotkey := narrow (takeWhile (\<lambda>u. u \<noteq> 0) (take 255 (sf_hotkey f))),
                    st_broadcast := sf_broadcast f, st_lock_optin := sf_lock f, st_run_on_startup := sf_startup f\<rparr>\<rparr>,
                 ss_saved := True\<rparr>
            else ss) in
      ss1\<lparr>ss_done := True\<rparr>)"

definition settings_proc :: "(u16 list \<Rightarrow> string) \<Rightarrow> settings_msg \<Rightarrow> SettingsState \<Rightarrow> SettingsState" where
  "settings_proc narrow m ss =
     (let f = ss_form ss in
      case m of
        EditHotkey t \<Rightarrow> ss\<lparr>ss_form := f\<lparr>sf_hotkey := t\<rparr>\<rparr>
      | ToggleBroadcast \<Rightarrow> ss\<lparr>ss_form := f\<lparr>sf_broadcast := \<not> sf_broadcast f\<rparr>\<rparr>
      | ToggleLock \<Rightarrow> ss\<lparr>ss_form := f\<lparr>sf_lock := \<not> sf_lock f\<rparr>\<rparr>
      | ToggleStartup \<Rightarrow> ss\<lparr>ss_form := f\<lparr>sf_startup := \<not> sf_startup f\<rparr>\<rparr>
      | SaveButton \<Rightarrow> applyAndClose narrow True ss
      | CancelButton \<Rightarrow> applyAndClose narrow False ss
      | CloseButton \<Rightarrow> applyAndClose narrow False ss)"

fun settings_loop :: "(u16 list \<Rightarrow> string) \<Rightarrow> settings_msg list \<Rightarrow> SettingsState \<Rightarrow> SettingsState" where
  "settings_loop narrow [] ss = ss"
| "settings_loop narrow (m # ms) ss = (if ss_done ss then ss else settings_loop narrow ms (settings_proc narrow m ss))"

definition showSettingsWindow ::
  "(string \<Rightarrow> u16 list) \<Rightarrow> (u16 list \<Rightarrow> string) \<Rightarrow> bool \<Rightarrow> settings_msg list \<Rightarrow> Config \<Rightarrow> bool \<times> Config" where
  "showSettingsWindow wide narrow created msgs cfg =
     (if \<not> created then (False, cfg)
      else let ss = settings_loop narrow msgs (settings_create wide cfg) in (ss_saved ss, ss_config ss))"

definition settings_inv :: "Config \<Rightarrow> SettingsState \<Rightarrow> bool" where
  "settings_inv cfg ss \<longleftrightarrow> (\<exists>st. ss_config ss = cfg\<lparr>cfg_settings := st\<rparr>)
     \<and> (\<not> ss_saved ss \<longrightarrow> ss_config ss = cfg) \<and> (ss_saved ss \<longrightarrow> ss_done ss)"

lemma settings_loop_inv: "settings_inv cfg ss \<Longrightarrow> settings_inv cfg (settings_loop narrow msgs ss)"
proof (induction narrow msgs ss rule: settings_loop.induct)
  case (2 narrow m ms ss)
  have "settings_inv cfg (settings_proc narrow m ss)"
    using 2(2) by (cases m) (auto simp: settings_proc_def applyAndClose_def settings_inv_def Let_def)
  then show ?case using 2 by simp
qed simp

text \<open>
  The settings window changes nothing but the settings, and those only when the user saves;
  saving the untouched form writes the same configuration back, as long as the hotkey's text survives the
  conversions and fits the edit field.
\<close>

theorem settings_window:
  assumes "narrow (wide (st_hotkey (cfg_settings cfg))) = st_hotkey (cfg_settings cfg)"
    and "length (wide (st_hotkey (cfg_settings cfg))) \<le> 255" "0 \<notin> set (wide (st_hotkey (cfg_settings cfg)))"
  shows "(case showSettingsWindow wide narrow created msgs cfg of (saved, cfg') \<Rightarrow>
      (\<exists>st. cfg' = cfg\<lparr>cfg_settings := st\<rparr>) \<and> (\<not> saved \<longrightarrow> cfg' = cfg))
    \<and> showSettingsWindow wide narrow True [SaveButton] cfg = (True, cfg)"
proof
  have "settings_inv cfg (settings_create wide cfg)"
    by (simp add: settings_inv_def settings_create_def exI [of _ "cfg_settings cfg"])
  from settings_loop_inv [OF this, of narrow msgs]
  show "case showSettingsWindow wide narrow created msgs cfg of (saved, cfg') \<Rightarrow>
      (\<exists>st. cfg' = cfg\<lparr>cfg_settings := st\<rparr>) \<and> (\<not> saved \<longrightarrow> cfg' = cfg)"
    by (auto simp: showSettingsWindow_def settings_inv_def Let_def intro: exI [of _ "cfg_settings cfg"])
  have "takeWhile (\<lambda>u. u \<noteq> 0) (take 255 (wide (st_hotkey (cfg_settings cfg)))) = wide (st_hotkey (cfg_settings cfg))"
    using assms(2,3) by (auto simp: takeWhile_eq_all_conv)
  then show "showSettingsWindow wide narrow True [SaveButton] cfg = (True, cfg)"
    using assms(1) by (simp add: showSettingsWindow_def settings_create_def settings_proc_def applyAndClose_def Let_def)
qed

definition ascii_wide :: "string \<Rightarrow> u16 list" where "ascii_wide s = map (\<lambda>c. word_of_nat (of_char c)) s"
definition ascii_narrow :: "u16 list \<Rightarrow> string" where "ascii_narrow w = map (\<lambda>u. char_of (unat u)) w"

lemma ascii_units: "ascii_narrow (ascii_wide s) = s"
proof -
  have "char_of (unat (word_of_nat (of_char c) :: u16)) = c" for c :: char
  proof -
    have "(of_char c :: nat) < 256" using of_char_mod_256 [of c] by (metis mod_less_divisor zero_less_numeral)
    then have "(of_char c :: nat) mod 65536 = of_char c" by (intro mod_less) linarith
    then show ?thesis by (simp add: unat_of_nat)
  qed
  then show ?thesis by (simp add: ascii_narrow_def ascii_wide_def map_idI)
qed

theorem settings_window_witness:
  "showSettingsWindow ascii_wide ascii_narrow True [SaveButton] defaultConfig = (True, defaultConfig)"
  by (rule settings_window [THEN conjunct2]) (simp_all add: ascii_units, simp_all add: defaultConfig_def defaultSettings_def ascii_wide_def)

section \<open>The device picker\<close>

record DiscoveryPickState =
  dp_items :: "Beacon list"
  dp_cursel :: "nat option"
  dp_ip :: string
  dp_name :: string
  dp_ok :: bool
  dp_done :: bool

datatype disco_msg = Refresh "PairedDevice list" u64 DiscoveryTable | SelectRow nat | PairButton | DiscoCancel | DiscoClose

definition disco_refresh :: "PairedDevice list \<Rightarrow> u64 \<Rightarrow> DiscoveryTable \<Rightarrow> DiscoveryPickState \<Rightarrow> DiscoveryPickState" where
  "disco_refresh devs now table dp =
     (case refreshDiscoveryList devs now table (dp_items dp) (dp_cursel dp) of (items, sel) \<Rightarrow> dp\<lparr>dp_items := items, dp_cursel := sel\<rparr>)"

fun discoveryPickProc :: "disco_msg \<Rightarrow> DiscoveryPickState \<Rightarrow> DiscoveryPickState" where
  "discoveryPickProc (Refresh devs now table) dp = disco_refresh devs now table dp"
| "discoveryPickProc (SelectRow i) dp = (if i < length (dp_items dp) then dp\<lparr>dp_cursel := Some i\<rparr> else dp)"
| "discoveryPickProc PairButton dp =
     (case dp_cursel dp of None \<Rightarrow> dp
      | Some i \<Rightarrow>
          if i < length (dp_items dp)
          then dp\<lparr>dp_ip := b_ip (dp_items dp ! i), dp_name := b_name (dp_items dp ! i), dp_ok := True, dp_done := True\<rparr>
          else dp)"
| "discoveryPickProc DiscoCancel dp = dp\<lparr>dp_done := True\<rparr>"
| "discoveryPickProc DiscoClose dp = dp\<lparr>dp_done := True\<rparr>"

fun disco_loop :: "disco_msg list \<Rightarrow> DiscoveryPickState \<Rightarrow> DiscoveryPickState" where
  "disco_loop [] dp = dp"
| "disco_loop (m # ms) dp = (if dp_done dp then dp else disco_loop ms (discoveryPickProc m dp))"

text \<open>The creation of the window fills the list first; the message is that first refresh.\<close>

definition showDiscoveryPicker :: "bool \<Rightarrow> PairedDevice list \<times> u64 \<times> DiscoveryTable \<Rightarrow> disco_msg list \<Rightarrow> bool \<times> string \<times> string" where
  "showDiscoveryPicker created first msgs =
     (let empty = \<lparr>dp_items = [], dp_cursel = None, dp_ip = [], dp_name = [], dp_ok = False, dp_done = False\<rparr> in
      if \<not> created then (False, [], [])
      else case first of (devs, now, table) \<Rightarrow>
        let dp = disco_loop msgs (disco_refresh devs now table empty) in (dp_ok dp, dp_ip dp, dp_name dp))"

definition offered :: "PairedDevice list \<times> u64 \<times> DiscoveryTable \<Rightarrow> Beacon \<Rightarrow> bool" where
  "offered r b = (case r of (devs, now, table) \<Rightarrow> b \<in> set (live now 6000 table) \<and> b_id b \<notin> pd_id ` set devs)"

definition dp_inv :: "(PairedDevice list \<times> u64 \<times> DiscoveryTable) set \<Rightarrow> DiscoveryPickState \<Rightarrow> bool" where
  "dp_inv seen dp \<longleftrightarrow> (\<forall>b \<in> set (dp_items dp). \<exists>r \<in> seen. offered r b)
     \<and> (dp_ok dp \<longrightarrow> (\<exists>r \<in> seen. \<exists>b. offered r b \<and> dp_ip dp = b_ip b \<and> dp_name dp = b_name b))"

lemma refresh_inv: "dp_inv seen dp \<Longrightarrow> dp_inv (insert (devs, now, table) seen) (disco_refresh devs now table dp)"
  by (auto simp: dp_inv_def disco_refresh_def refreshDiscoveryList_def Let_def offered_def)

lemma dp_inv_mono: "dp_inv seen dp \<Longrightarrow> seen \<subseteq> seen' \<Longrightarrow> dp_inv seen' dp"
  unfolding dp_inv_def by blast

lemma disco_loop_inv:
  "dp_inv seen dp \<Longrightarrow> dp_inv (seen \<union> {(devs, now, table). Refresh devs now table \<in> set msgs}) (disco_loop msgs dp)"
proof (induction msgs arbitrary: seen dp)
  case (Cons m ms)
  show ?case
  proof (cases "dp_done dp")
    case True
    then show ?thesis using dp_inv_mono [OF Cons.prems] by simp
  next
    case False
    let ?seen = "seen \<union> {(devs, now, table). Refresh devs now table = m}"
    have "dp_inv ?seen (discoveryPickProc m dp)"
    proof (cases m)
      case (Refresh devs now table)
      then show ?thesis using refresh_inv [OF Cons.prems, of devs now table] by (auto elim: dp_inv_mono)
    next
      case PairButton
      have ex: "\<exists>r \<in> seen. offered r (dp_items dp ! i)" if "i < length (dp_items dp)" for i
        using Cons.prems that unfolding dp_inv_def by simp
      have "dp_inv seen (discoveryPickProc PairButton dp)"
      proof (cases "\<exists>i. dp_cursel dp = Some i \<and> i < length (dp_items dp)")
        case True
        then obtain i r where "dp_cursel dp = Some i" "i < length (dp_items dp)" "r \<in> seen" "offered r (dp_items dp ! i)" using ex by blast
        then show ?thesis using Cons.prems by (auto simp: dp_inv_def intro!: bexI [of _ r] exI [of _ "dp_items dp ! i"])
      next
        case False
        then have "discoveryPickProc PairButton dp = dp" by (auto split: option.split)
        then show ?thesis using Cons.prems by simp
      qed
      then show ?thesis unfolding PairButton by (rule dp_inv_mono) simp
    qed (use Cons.prems in \<open>auto simp: dp_inv_def\<close>)
    from Cons.IH [OF this] False show ?thesis by (auto elim: dp_inv_mono)
  qed
qed (auto elim: dp_inv_mono)

text \<open>
  A device picked for pairing comes from a beacon that was live, and whose id was not
  paired, when the list was last filled: the address dialled is the one that beacon came
  from, and nothing is returned from a window closed any other way.
\<close>

theorem picked_from_beacon:
  assumes "showDiscoveryPicker created first msgs = (ok, ip, name)"
  shows "if ok then \<exists>r b. (r = first \<or> r \<in> {(devs, now, table). Refresh devs now table \<in> set msgs})
      \<and> offered r b \<and> ip = b_ip b \<and> name = b_name b
    else ip = [] \<and> name = []"
proof -
  let ?dp = "\<lparr>dp_items = [], dp_cursel = None, dp_ip = [], dp_name = [], dp_ok = False, dp_done = False\<rparr>"
  obtain devs now table where f: "first = (devs, now, table)" by (rule prod_cases3)
  have "dp_inv (insert first {}) (disco_refresh devs now table ?dp)"
    unfolding f by (rule refresh_inv) (simp add: dp_inv_def)
  note inv = disco_loop_inv [OF this, of msgs]
  have quiet: "\<not> dp_ok dp \<longrightarrow> dp_ip dp = [] \<and> dp_name dp = [] \<Longrightarrow>
      \<not> dp_ok (disco_loop ms dp) \<longrightarrow> dp_ip (disco_loop ms dp) = [] \<and> dp_name (disco_loop ms dp) = []" for ms dp
  proof (induction ms arbitrary: dp)
    case (Cons m ms)
    have "\<not> dp_ok (discoveryPickProc m dp) \<longrightarrow> dp_ip (discoveryPickProc m dp) = [] \<and> dp_name (discoveryPickProc m dp) = []"
      using Cons.prems by (cases m) (auto simp: disco_refresh_def split: option.split prod.split)
    then show ?case using Cons by simp
  qed simp
  let ?d = "disco_loop msgs (disco_refresh devs now table ?dp)"
  have "\<not> dp_ok (disco_refresh devs now table ?dp) \<longrightarrow> dp_ip (disco_refresh devs now table ?dp) = [] \<and> dp_name (disco_refresh devs now table ?dp) = []"
    by (simp add: disco_refresh_def split_beta)
  note none = quiet [OF this, of msgs]
  show ?thesis
  proof (cases created)
    case True
    then have r: "ok = dp_ok ?d" "ip = dp_ip ?d" "name = dp_name ?d" using assms by (auto simp: showDiscoveryPicker_def f Let_def)
    show ?thesis
    proof (cases "dp_ok ?d")
      case True
      then obtain q b where "q \<in> {first} \<union> {(devs, now, table). Refresh devs now table \<in> set msgs}" "offered q b" "dp_ip ?d = b_ip b" "dp_name ?d = b_name b"
        using inv unfolding dp_inv_def by blast
      then show ?thesis unfolding r using True by (simp only: if_True) (intro exI [of _ q] exI [of _ b], blast)
    qed (use none r in simp)
  qed (use assms in \<open>simp add: showDiscoveryPicker_def\<close>)
qed

lemma sole_beacon:
  "b_id b \<noteq> [] \<Longrightarrow> showDiscoveryPicker True ([], now, onBeacon b now \<lparr>dt_entries = []\<rparr>) [PairButton] = (True, b_ip b, b_name b)"
proof -
  assume "b_id b \<noteq> []"
  then have "refreshDiscoveryList [] now (onBeacon b now \<lparr>dt_entries = []\<rparr>) [] None = ([b], Some 0)"
    by (simp add: refreshDiscoveryList_def live_def onBeacon_def)
  then show ?thesis by (simp add: showDiscoveryPicker_def disco_refresh_def)
qed

theorem picked_from_beacon_witness:
  "\<exists>r b. offered r b \<and> b_ip b = ''10.0.0.7'' \<and> b_name b = ''B''"
proof -
  let ?b = "(self_beacon ''B'')\<lparr>b_ip := ''10.0.0.7''\<rparr>"
  have "showDiscoveryPicker True ([], 5, onBeacon ?b 5 \<lparr>dt_entries = []\<rparr>) [PairButton] = (True, ''10.0.0.7'', ''B'')"
    using sole_beacon [of ?b 5] by (simp add: self_beacon_def)
  note offer = picked_from_beacon [OF this, unfolded if_True]
  from offer obtain r b where "offered r b" "''10.0.0.7'' = b_ip b" "''B'' = b_name b" by blast
  then show ?thesis by (intro exI [of _ r] exI [of _ b]) simp
qed

end
