(* ===== verification/Shell.thy ===== *)
theory Shell
  imports Dialogs Hotkey
begin

text \<open>
  The shell of the Windows application around its mesh: the injector \<open>platform/inject_win.cpp\<close>,
  starting at login \<open>platform/autostart_win.cpp\<close> with the two menu commands that use it, the
  registration of the hotkey, the ticker that posts the pump messages, and the life of the
  application's threads in \<open>runTrayApp\<close> and \<open>wndProc\<close>.
\<close>

section \<open>Injection\<close>

datatype INPUT = MouseInput int int u32 | KeyInput u8 u32

definition MOUSEEVENTF_MOVE :: u32 where "MOUSEEVENTF_MOVE = 1"
definition KEYEVENTF_KEYUP :: u32 where "KEYEVENTF_KEYUP = 2"

definition button_flag :: "u8 \<Rightarrow> bool \<Rightarrow> u32 option" where
  "button_flag button down =
     (if button = 1 then Some (if down then 0x2 else 0x4)
      else if button = 2 then Some (if down then 0x8 else 0x10)
      else if button = 3 then Some (if down then 0x20 else 0x40)
      else None)"

fun send_input :: "injector_call \<Rightarrow> INPUT option" where
  "send_input (InjMouseMove dx dy) = Some (MouseInput (sint dx) (sint dy) MOUSEEVENTF_MOVE)"
| "send_input (InjMouseButton button down) = map_option (MouseInput 0 0) (button_flag button down)"
| "send_input (InjKey code down) = Some (KeyInput code (if down then 0 else KEYEVENTF_KEYUP))"

section \<open>Starting at login\<close>

text \<open>
  What starts the application at login: the elevated task and the installer's shortcut.
  The answers of the system: whether the elevated command was approved and succeeded, whether the
  shortcut could be deleted, and whether the configuration has a path.
\<close>

record Startup =
  su_task :: bool
  su_shortcut :: bool

record startup_env =
  se_elevated :: bool
  se_deleted :: bool
  se_path :: bool

definition enableAutostart :: "startup_env \<Rightarrow> Startup \<Rightarrow> bool \<times> Startup" where
  "enableAutostart env su = (if se_elevated env then (True, su\<lparr>su_task := True\<rparr>) else (False, su))"

definition disableAutostart :: "startup_env \<Rightarrow> Startup \<Rightarrow> bool \<times> Startup" where
  "disableAutostart env su =
     (let (removed, su1) = (if su_task su then if se_elevated env then (True, su\<lparr>su_task := False\<rparr>) else (False, su) else (False, su)) in
      if su_shortcut su1
      then if se_deleted env then (True, su1\<lparr>su_shortcut := False\<rparr>) else (removed, su1)
      else (removed, su1))"

definition isAutostartEnabled :: "Startup \<Rightarrow> bool" where
  "isAutostartEnabled su \<longleftrightarrow> su_task su \<or> su_shortcut su"

datatype shell_out = ShellToast string | SaveConfig Config

definition set_startup :: "bool \<Rightarrow> Config \<Rightarrow> Config" where
  "set_startup b cfg = cfg\<lparr>cfg_settings := (cfg_settings cfg)\<lparr>st_run_on_startup := b\<rparr>\<rparr>"

definition on_startup_command :: "startup_env \<Rightarrow> Config \<times> Startup \<Rightarrow> (Config \<times> Startup) \<times> shell_out list" where
  "on_startup_command env s =
     (case s of (cfg, su) \<Rightarrow>
        let wasEnabled = isAutostartEnabled su in
        case (if wasEnabled then disableAutostart env su else enableAutostart env su) of (ok, su1) \<Rightarrow>
          if ok then
            let cfg1 = set_startup (\<not> wasEnabled) cfg in
            ((cfg1, su1), (if se_path env then [SaveConfig cfg1] else []) @
               [ShellToast (if wasEnabled then ''Skittermouse will no longer run on startup.'' else ''Skittermouse will run on startup.'')])
          else ((cfg, su1), [ShellToast ''Startup setting unchanged (administrator approval declined).'']))"

text \<open>The settings command; \<open>dialog\<close> is what the settings window returned and left in the configuration.\<close>

definition on_settings_command ::
  "startup_env \<Rightarrow> (Config \<Rightarrow> bool \<times> Config) \<Rightarrow> Config \<times> Startup \<Rightarrow> (Config \<times> Startup) \<times> shell_out list" where
  "on_settings_command env dialog s =
     (case s of (cfg, su) \<Rightarrow>
        let wasStartup = st_run_on_startup (cfg_settings cfg) in
        case dialog cfg of (saved, cfg1) \<Rightarrow>
          if \<not> saved then ((cfg1, su), [])
          else
            let o1 = (if se_path env then [SaveConfig cfg1] else []);
                nowStartup = st_run_on_startup (cfg_settings cfg1);
                bye = [ShellToast ''Settings saved (hotkey applies after restart).''] in
            if nowStartup \<noteq> wasStartup then
              (case (if nowStartup then enableAutostart env su else disableAutostart env su) of (ok, su1) \<Rightarrow>
                 if \<not> ok then
                   let cfg2 = set_startup wasStartup cfg1 in
                   ((cfg2, su1), o1 @ (if se_path env then [SaveConfig cfg2] else [])
                      @ [ShellToast ''Startup change needs administrator approval.''] @ bye)
                 else ((cfg1, su1), o1 @ bye))
            else ((cfg1, su), o1 @ bye))"

section \<open>The hotkey\<close>

definition MOD_NOREPEAT :: u32 where "MOD_NOREPEAT = 0x4000"

definition try_hotkey :: "(u32 \<Rightarrow> u16 \<Rightarrow> bool) \<Rightarrow> Hotkey \<Rightarrow> bool" where
  "try_hotkey register hk \<longleftrightarrow> hk_valid hk \<and> register (hk_modifiers hk OR MOD_NOREPEAT) (hk_key hk)"

text \<open>The combination that is registered, if any, and whether the tooltip names the second one.\<close>

definition register_hotkey :: "(u32 \<Rightarrow> u16 \<Rightarrow> bool) \<Rightarrow> Config \<Rightarrow> (Hotkey option \<times> bool) option" where
  "register_hotkey register cfg =
     (case parseHotkey (st_hotkey (cfg_settings cfg)) of None \<Rightarrow> None
      | Some hk \<Rightarrow>
          if try_hotkey register hk then Some (Some hk, False)
          else (case parseHotkey ''Ctrl+Shift+Alt+Space'' of None \<Rightarrow> None
            | Some fb \<Rightarrow> Some (if try_hotkey register fb then (Some fb, True) else (None, False))))"

section \<open>The life of the application\<close>

text \<open>
  Which threads are joinable, the two flags they watch, and the tray icon.  Destroying a joinable
  thread object ends the process, as the language says, by \<open>std::terminate\<close>.
\<close>

record Threads =
  tr_net :: bool
  tr_file :: bool
  tr_pump :: bool
  tr_discovery :: bool
  tr_promise :: bool
  tr_pair :: bool
  tr_accept :: bool
  tr_running :: bool
  tr_pairing :: bool
  tr_icon :: bool

definition app_start :: Threads where
  "app_start = \<lparr>tr_net = True, tr_file = True, tr_pump = True, tr_discovery = True, tr_promise = True,
     tr_pair = False, tr_accept = False, tr_running = True, tr_pairing = False, tr_icon = True\<rparr>"

text \<open>
  The add-device command carries what its picker returned; \<open>PairingEnds\<close> is the end of a session
  in a thread; \<open>DestroyMsg\<close> is \<open>WM_DESTROY\<close>, whose joins wait for loops that watch the cleared flags.
\<close>

datatype shell_msg = QuitCommand | DestroyMsg | AddDevice bool string bool | PairingEnds | OtherMsg

definition on_destroy :: "Threads \<Rightarrow> Threads" where
  "on_destroy s = s\<lparr>tr_running := False, tr_pairing := False, tr_net := False, tr_pair := False, tr_discovery := False,
     tr_accept := False, tr_file := False, tr_pump := False, tr_promise := False, tr_icon := False\<rparr>"

definition on_add_device :: "bool \<Rightarrow> string \<Rightarrow> bool \<Rightarrow> Threads \<Rightarrow> Threads" where
  "on_add_device picked ip engaged s =
     (if tr_pairing s then s
      else let s1 = s\<lparr>tr_accept := True, tr_pair := False, tr_pairing := True\<rparr> in
        if picked \<and> ip \<noteq> [] then s1\<lparr>tr_pair := True\<rparr>
        else if \<not> engaged then s1\<lparr>tr_pairing := False\<rparr> else s1)"

text \<open>A handler's new state, and whether it posted the quit message.\<close>

fun shell_proc :: "shell_msg \<Rightarrow> Threads \<Rightarrow> Threads \<times> bool" where
  "shell_proc QuitCommand s = (s, True)"
| "shell_proc DestroyMsg s = (on_destroy s, True)"
| "shell_proc (AddDevice picked ip engaged) s = (on_add_device picked ip engaged s, False)"
| "shell_proc PairingEnds s = (s\<lparr>tr_pairing := False\<rparr>, False)"
| "shell_proc OtherMsg s = (s, False)"

fun shell_loop :: "shell_msg list \<Rightarrow> Threads \<Rightarrow> Threads" where
  "shell_loop [] s = s"
| "shell_loop (m # ms) s = (case shell_proc m s of (s1, quit) \<Rightarrow> if quit then s1 else shell_loop ms s1)"

datatype app_end = Returned int | Terminated

definition leave_app :: "Threads \<Rightarrow> app_end" where
  "leave_app s = (if tr_net s \<or> tr_file s \<or> tr_pump s \<or> tr_discovery s \<or> tr_promise s \<or> tr_pair s \<or> tr_accept s
     then Terminated else Returned 0)"

text \<open>The early exits start nothing: another instance is running, or there is no window.\<close>

definition run_app :: "bool \<Rightarrow> bool \<Rightarrow> shell_msg list \<Rightarrow> app_end \<times> bool" where
  "run_app singleton created msgs =
     (if \<not> singleton then (Returned 0, False)
      else if \<not> created then (Returned 1, False)
      else let s = shell_loop msgs app_start in (leave_app s, tr_icon s))"

lemma shell_loop_quit:
  assumes "list_all (\<lambda>m. m \<notin> {QuitCommand, DestroyMsg}) ms" "tr_net s" "tr_icon s"
  shows "\<exists>s'. shell_loop (ms @ rest) s = shell_loop rest s' \<and> tr_net s' \<and> tr_icon s'"
  using assms
proof (induction ms arbitrary: s)
  case (Cons m ms)
  have "tr_net (fst (shell_proc m s))" "tr_icon (fst (shell_proc m s))" "\<not> snd (shell_proc m s)"
    using Cons.prems by (cases m; auto simp: on_add_device_def Let_def)+
  then show ?case using Cons.IH [of "fst (shell_proc m s)"] Cons.prems by (auto simp: split_beta)
qed auto

text \<open>
  Quitting from the menu terminates the process abnormally, whatever was done before: the
  command only posts the quit message, so the threads are never joined, their objects are
  destroyed while joinable and the tray icon is left behind; the clean-up that joins them all is reached by
  the destruction of the window only.
\<close>

theorem quit_terminates:
  assumes "list_all (\<lambda>m. m \<notin> {QuitCommand, DestroyMsg}) ms"
  shows "run_app True True (ms @ QuitCommand # rest) = (Terminated, True)
    \<and> run_app True True (ms @ DestroyMsg # rest) = (Returned 0, False)"
proof -
  have "tr_net app_start" "tr_icon app_start" by (simp_all add: app_start_def)
  from shell_loop_quit [OF assms this, of "QuitCommand # rest"] shell_loop_quit [OF assms this, of "DestroyMsg # rest"]
  show ?thesis by (auto simp: run_app_def leave_app_def on_destroy_def)
qed

theorem quit_terminates_witness:
  "run_app True True [OtherMsg, AddDevice True ''10.0.0.7'' False, PairingEnds, QuitCommand] = (Terminated, True)"
  using quit_terminates [of "[OtherMsg, AddDevice True ''10.0.0.7'' False, PairingEnds]" "[]"] by simp

section \<open>The pump ticker\<close>

text \<open>
  The ticker thread exchanges the flag and then posts; the UI thread takes a pump message, clears the
  flag and pumps.  A post can fail, when the queue is full; \<open>pu_lost\<close> counts that.
\<close>

record Pump =
  pu_flag :: bool
  pu_posting :: bool
  pu_queued :: nat
  pu_taken :: bool
  pu_lost :: nat

definition pump_init :: Pump where
  "pump_init = \<lparr>pu_flag = False, pu_posting = False, pu_queued = 0, pu_taken = False, pu_lost = 0\<rparr>"

inductive pump_step :: "Pump \<Rightarrow> Pump \<Rightarrow> bool" where
  tick: "\<not> pu_posting s \<Longrightarrow> \<not> pu_flag s \<Longrightarrow> pump_step s (s\<lparr>pu_flag := True, pu_posting := True\<rparr>)"
| post: "pu_posting s \<Longrightarrow> pump_step s (s\<lparr>pu_posting := False, pu_queued := pu_queued s + 1\<rparr>)"
| post_fails: "pu_posting s \<Longrightarrow> pump_step s (s\<lparr>pu_posting := False, pu_lost := pu_lost s + 1\<rparr>)"
| take_msg: "pu_queued s > 0 \<Longrightarrow> \<not> pu_taken s \<Longrightarrow> pump_step s (s\<lparr>pu_queued := pu_queued s - 1, pu_taken := True\<rparr>)"
| clear: "pu_taken s \<Longrightarrow> pump_step s (s\<lparr>pu_taken := False, pu_flag := False\<rparr>)"

inductive pump_reach :: "Pump \<Rightarrow> bool" where
  pump_start: "pump_reach pump_init"
| pump_next: "pump_reach s \<Longrightarrow> pump_step s t \<Longrightarrow> pump_reach t"

inductive_cases pump_stepE: "pump_step s t"

definition outstanding :: "Pump \<Rightarrow> nat" where
  "outstanding s = pu_queued s + of_bool (pu_posting s) + of_bool (pu_taken s)"

definition pump_inv :: "Pump \<Rightarrow> bool" where
  "pump_inv s \<longleftrightarrow> outstanding s + pu_lost s = of_bool (pu_flag s)"

lemma pump_inv_reach: "pump_reach s \<Longrightarrow> pump_inv s"
proof (induction rule: pump_reach.induct)
  case pump_start
  show ?case by (simp add: pump_inv_def pump_init_def outstanding_def)
next
  case (pump_next s t)
  from pump_next.hyps(2) pump_next.IH show ?case
    by (cases rule: pump_step.cases) (auto simp: pump_inv_def outstanding_def of_bool_def split: if_splits)
qed

text \<open>
  C11. At most one pump message is outstanding, in every interleaving of the ticker and the UI
  thread; as long as no post has failed a tick is never lost for good, something being always under way
  or the ticker free to post; and after one failed post no pump message is ever posted again.
\<close>

theorem pump_coalesced:
  assumes "pump_reach s"
  shows "pu_queued s \<le> 1 \<and> outstanding s \<le> 1 \<and> (pu_lost s = 0 \<longrightarrow> (\<exists>t. pump_step s t))
    \<and> (pu_lost s > 0 \<longrightarrow> (\<nexists>t. pump_step s t) \<and> pu_queued s = 0)"
proof -
  have inv: "outstanding s + pu_lost s = of_bool (pu_flag s)" using pump_inv_reach [OF assms] by (simp add: pump_inv_def)
  then have one: "outstanding s \<le> 1" "pu_queued s \<le> 1" "pu_queued s \<le> outstanding s" by (auto simp: outstanding_def of_bool_def split: if_splits)
  have "\<exists>t. pump_step s t" if "pu_lost s = 0"
  proof (cases "pu_flag s")
    case True
    then have "pu_posting s \<or> pu_taken s \<or> pu_queued s > 0" using inv that by (auto simp: outstanding_def of_bool_def split: if_splits)
    then show ?thesis using pump_step.intros(2,4,5) by blast
  next
    case False
    then have "\<not> pu_posting s" using inv by (simp add: outstanding_def)
    then show ?thesis using False pump_step.intros(1) by blast
  qed
  moreover have "(\<nexists>t. pump_step s t) \<and> pu_queued s = 0" if "pu_lost s > 0"
  proof -
    have "outstanding s = 0" "pu_flag s" using inv that by (cases "pu_flag s"; simp)+
    then show ?thesis by (auto simp: outstanding_def elim: pump_stepE)
  qed
  ultimately show ?thesis using one by blast
qed

theorem pump_coalesced_witness:
  "\<exists>s. pump_reach s \<and> pu_queued s = 1 \<and> outstanding s \<le> 1"
proof -
  let ?s = "\<lparr>pu_flag = True, pu_posting = True, pu_queued = 0, pu_taken = False, pu_lost = 0\<rparr>"
  have "pump_step pump_init ?s" using pump_step.tick [of pump_init] by (simp add: pump_init_def)
  moreover have "pump_step ?s (?s\<lparr>pu_posting := False, pu_queued := 1\<rparr>)" using pump_step.post [of ?s] by simp
  ultimately have "pump_reach (?s\<lparr>pu_posting := False, pu_queued := 1\<rparr>)" using pump_reach.intros by blast
  from this pump_coalesced [OF this] show ?thesis by (intro exI [of _ "?s\<lparr>pu_posting := False, pu_queued := 1\<rparr>"]) simp
qed

section \<open>What the two start-up commands do to the flag\<close>

text \<open>The configuration tells the truth and only one mechanism is installed.\<close>

definition startup_ok :: "Config \<times> Startup \<Rightarrow> bool" where
  "startup_ok s \<longleftrightarrow> st_run_on_startup (cfg_settings (fst s)) = isAutostartEnabled (snd s) \<and> \<not> (su_task (snd s) \<and> su_shortcut (snd s))"

datatype startup_op = StartupCommand | SettingsCommand "Config \<Rightarrow> bool \<times> Config"

definition startup_step :: "startup_env \<times> startup_op \<Rightarrow> Config \<times> Startup \<Rightarrow> (Config \<times> Startup) \<times> shell_out list" where
  "startup_step e s =
     (case e of (env, StartupCommand) \<Rightarrow> on_startup_command env s | (env, SettingsCommand dialog) \<Rightarrow> on_settings_command env dialog s)"

text \<open>A dialog that is not saved leaves the configuration, as \<open>showSettingsWindow\<close> does.\<close>

definition dialog_ok :: "startup_op \<Rightarrow> bool" where
  "dialog_ok opr \<longleftrightarrow> (case opr of StartupCommand \<Rightarrow> True | SettingsCommand dialog \<Rightarrow> (\<forall>cfg. fst (dialog cfg) \<or> snd (dialog cfg) = cfg))"

lemma startup_step_ok: "startup_ok s \<Longrightarrow> dialog_ok (snd e) \<Longrightarrow> startup_ok (fst (startup_step e s))"
  by (cases e; cases "snd e"; cases s)
    (auto simp: startup_step_def startup_ok_def dialog_ok_def on_startup_command_def on_settings_command_def enableAutostart_def
      disableAutostart_def isAutostartEnabled_def set_startup_def Let_def split_beta)

text \<open>
  The start-up flag stays true: over every history of the two commands, whatever the user approves,
  the flag in the configuration is the actual state of starting at login, and never more than one
  mechanism is installed, provided it was so at the start.
\<close>

theorem startup_flag_true:
  assumes "startup_ok s" "list_all (\<lambda>e. dialog_ok (snd e)) es"
  shows "startup_ok (fst (run_steps startup_step es s))"
  using assms by (intro run_steps_inv [where I = startup_ok]) (auto simp: startup_step_ok list_all_iff)

theorem startup_flag_true_witness:
  "startup_ok (fst (run_steps startup_step
     [(\<lparr>se_elevated = True, se_deleted = False, se_path = True\<rparr>, StartupCommand),
      (\<lparr>se_elevated = False, se_deleted = False, se_path = True\<rparr>, SettingsCommand (showSettingsWindow ascii_wide ascii_narrow True [ToggleStartup, SaveButton]))]
     (defaultConfig, \<lparr>su_task = False, su_shortcut = False\<rparr>)))"
proof (rule startup_flag_true)
  have "fst (showSettingsWindow ascii_wide ascii_narrow True [ToggleStartup, SaveButton] cfg)" for cfg
    by (simp add: showSettingsWindow_def settings_create_def settings_proc_def applyAndClose_def Let_def)
  then show "list_all (\<lambda>e. dialog_ok (snd e))
      [(\<lparr>se_elevated = True, se_deleted = False, se_path = True\<rparr>, StartupCommand),
       (\<lparr>se_elevated = False, se_deleted = False, se_path = True\<rparr>, SettingsCommand (showSettingsWindow ascii_wide ascii_narrow True [ToggleStartup, SaveButton]))]"
    by (simp add: dialog_ok_def)
qed (simp add: startup_ok_def isAutostartEnabled_def defaultConfig_def defaultSettings_def)

text \<open>
  With both the task and the installer's shortcut present, declining the elevation and deleting the
  shortcut counts as success: the flag is switched off and the user is told so, but the
  task still starts the application.
\<close>

theorem startup_half_removed:
  assumes "su_task su" "su_shortcut su" "\<not> se_elevated env" "se_deleted env"
  shows "\<exists>cfg' su' outs. on_startup_command env (cfg, su) = ((cfg', su'), outs)
    \<and> \<not> st_run_on_startup (cfg_settings cfg') \<and> isAutostartEnabled su'
    \<and> ShellToast ''Skittermouse will no longer run on startup.'' \<in> set outs"
  using assms by (auto simp: on_startup_command_def disableAutostart_def isAutostartEnabled_def set_startup_def Let_def)

section \<open>The hotkey and the reclaim chord\<close>

lemma second_hotkey: "parseHotkey ''Ctrl+Shift+Alt+Space'' = Some \<lparr>hk_modifiers = 7, hk_key = 0x20, hk_valid = True\<rparr>"
  by code_simp

text \<open>
  The hotkey and the chord that ends driving can differ.  When the configured text is not a
  hotkey the application registers Ctrl+Shift+Alt+Space, but the chord is Ctrl+Alt+Space; when it is one but another
  program owns it, the second combination is registered and the chord stays the configured one.
\<close>

theorem reclaim_differs:
  assumes "parseHotkey (st_hotkey (cfg_settings cfg)) = Some hk" "\<not> try_hotkey register hk" "register (7 OR MOD_NOREPEAT) 0x20"
  shows "register_hotkey register cfg = Some (Some \<lparr>hk_modifiers = 7, hk_key = 0x20, hk_valid = True\<rparr>, True)
    \<and> escape_hotkey cfg = Some (if hk_valid hk then hk else \<lparr>hk_modifiers = 3, hk_key = 0x20, hk_valid = True\<rparr>)
    \<and> escape_hotkey cfg \<noteq> map_option (the \<circ> fst) (register_hotkey register cfg)"
proof -
  have "try_hotkey register \<lparr>hk_modifiers = 7, hk_key = 0x20, hk_valid = True\<rparr>" using assms(3) by (simp add: try_hotkey_def)
  moreover from this have "hk \<noteq> \<lparr>hk_modifiers = 7, hk_key = 0x20, hk_valid = True\<rparr>" using assms(2) by blast
  ultimately show ?thesis
    using assms(1,2) by (simp add: register_hotkey_def escape_hotkey_def second_hotkey default_hotkey)
qed

theorem reclaim_differs_witness:
  "escape_hotkey (defaultConfig\<lparr>cfg_settings := defaultSettings\<lparr>st_hotkey := []\<rparr>\<rparr>)
     \<noteq> map_option (the \<circ> fst) (register_hotkey (\<lambda>_ _. True) (defaultConfig\<lparr>cfg_settings := defaultSettings\<lparr>st_hotkey := []\<rparr>\<rparr>))"
proof -
  have "parseHotkey [] = Some hotkeyInit" by code_simp
  then show ?thesis
    using reclaim_differs [of "defaultConfig\<lparr>cfg_settings := defaultSettings\<lparr>st_hotkey := []\<rparr>\<rparr>" hotkeyInit "\<lambda>_ _. True"]
    by (simp add: try_hotkey_def hotkeyInit_def)
qed

section \<open>Input is mirrored\<close>

text \<open>What the injector produces for a captured event that reaches the controlled machine.\<close>

definition mirror :: "CapturedEvent \<Rightarrow> INPUT option" where
  "mirror e = (case e of
       CMove dx dy \<Rightarrow> send_input (InjMouseMove (to_i16 dx) (to_i16 dy))
     | CButton code down \<Rightarrow> send_input (InjMouseButton code down)
     | CKey code down \<Rightarrow> send_input (InjKey code down))"

text \<open>
  A motion within the width of the wire is injected as it was made, a button as the same button, a
  key as its virtual code; no captured button is dropped by the injector.
\<close>

lemma mirrored:
  "- (2 ^ 15) \<le> dx \<Longrightarrow> dx < 2 ^ 15 \<Longrightarrow> - (2 ^ 15) \<le> dy \<Longrightarrow> dy < 2 ^ 15 \<Longrightarrow>
     mirror (CMove dx dy) = Some (MouseInput dx dy MOUSEEVENTF_MOVE)"
  "button_of w = Some (code, down) \<Longrightarrow> \<exists>f. mirror (CButton code down) = Some (MouseInput 0 0 f) \<and> f \<noteq> MOUSEEVENTF_MOVE"
proof -
  show "mirror (CMove dx dy) = Some (MouseInput dx dy MOUSEEVENTF_MOVE)"
    if "- (2 ^ 15) \<le> dx" "dx < 2 ^ 15" "- (2 ^ 15) \<le> dy" "dy < 2 ^ 15"
    using that by (simp add: mirror_def to_i16_def sint_sbintrunc' signed_take_bit_int_eq_self)
  show "\<exists>f. mirror (CButton code down) = Some (MouseInput 0 0 f) \<and> f \<noteq> MOUSEEVENTF_MOVE" if "button_of w = Some (code, down)"
    using that by (auto simp: mirror_def button_of_def button_flag_def MOUSEEVENTF_MOVE_def split: mouse_msg.splits)
qed

text \<open>The event a captured one is sent as, and the calls a sink makes for what its mesh node injects.\<close>

definition captured_event :: "CapturedEvent \<Rightarrow> u32 \<Rightarrow> InputEvent" where
  "captured_event e ts = (case e of
       CMove dx dy \<Rightarrow> make_event MouseMove (to_i16 dx) (to_i16 dy) 0 0 ts
     | CButton code down \<Rightarrow> make_event MouseButton 0 0 code (if down then 1 else 0) ts
     | CKey code down \<Rightarrow> make_event KeyEvent 0 0 code (if down then 1 else 0) ts)"

definition forward_captured :: "CapturedEvent \<Rightarrow> u32 \<Rightarrow> MeshNode \<Rightarrow> MeshNode \<times> mesh_out list" where
  "forward_captured e ts n = (case e of
       CMove dx dy \<Rightarrow> forwardMouseMove (to_i16 dx) (to_i16 dy) ts n
     | CButton code down \<Rightarrow> forwardMouseButton code down ts n
     | CKey code down \<Rightarrow> forwardKey code down ts n)"

lemma captureSink_forwards: "captureSink ops env e = mesh_op ops env (forward_captured e (ucast (ue_now env)))"
proof -
  have "forward_captured (CMove dx dy) ts = forwardMouseMove (to_i16 dx) (to_i16 dy) ts" "forward_captured (CButton code down) ts = forwardMouseButton code down ts"
    "forward_captured (CKey code down) ts = forwardKey code down ts" for dx dy code down ts
    by (rule ext, simp add: forward_captured_def)+
  then show ?thesis by (cases e) (simp_all add: captureSink_def)
qed

definition replayed :: "mesh_out list \<Rightarrow> INPUT option list" where
  "replayed outs = concat (map (\<lambda>x. case x of
     Inject e \<Rightarrow> map (\<lambda>a. case a of InjectorCall c \<Rightarrow> send_input c | _ \<Rightarrow> None) (onInject e) | _ \<Rightarrow> []) outs)"

lemma replayed_event: "replayed [Inject (captured_event e ts)] = [mirror e]"
  by (cases e) (auto simp: replayed_def captured_event_def onInject_def make_event_def mirror_def)

lemma forwarded_message:
  assumes "mesh_isLocalOwner n"
  shows "snd (forward_captured e ts n) = broadcast (encodeInputEvent (captured_event e ts)) n"
  using assms by (cases e) (simp_all add: forward_captured_def captured_event_def forwardMouseMove_def forwardMouseButton_def
      forwardKey_def pipe_onMouseMove_def pipe_onMouseButton_def pipe_onKey_def make_msg_def)

text \<open>
  C29. What the user does on the owner happens on the sink: whatever event the hooks report, its
  message goes to every connected peer, and a peer that does not own the input replays for it exactly one
  system input, the same motion within the 16 bits of the wire, the same button or the same
  key; a peer that owns the input replays nothing.
\<close>

theorem captured_is_replayed:
  assumes "mesh_isLocalOwner a" "Some h \<in> snd ` set (mn_peers a)" "hook_proc ev c = (sw, c', outs)" "Sink e \<in> set outs"
  shows "\<exists>m. SendTo h m \<in> set (snd (forward_captured e ts a))
      \<and> replayed (snd (handle now from m b)) = (if mesh_isLocalOwner b then [] else [mirror e])
    \<and> (case e of
         CMove dx dy \<Rightarrow> dx \<in> {- (2 ^ 15)..<2 ^ 15} \<and> dy \<in> {- (2 ^ 15)..<2 ^ 15} \<longrightarrow> mirror e = Some (MouseInput dx dy MOUSEEVENTF_MOVE)
       | CButton code down \<Rightarrow> \<exists>f. mirror e = Some (MouseInput 0 0 f) \<and> button_flag code down = Some f
       | CKey code down \<Rightarrow> mirror e = Some (KeyInput code (if down then 0 else KEYEVENTF_KEYUP)))"
proof -
  have ok: "fixed_ok (captured_event e ts)" "ev_type (captured_event e ts) \<noteq> mt_code Heartbeat"
    by (cases e; simp add: captured_event_def fixed_ok_def make_event_def)+
  have sent: "SendTo h (encodeInputEvent (captured_event e ts)) \<in> set (snd (forward_captured e ts a))"
    using broadcast_reaches [OF assms(2)] by (simp only: forwarded_message [OF assms(1)])
  have played: "replayed (snd (handle now from (encodeInputEvent (captured_event e ts)) b)) = (if mesh_isLocalOwner b then [] else [mirror e])"
    by (simp add: handle_input_event [OF ok] replayed_event) (simp add: replayed_def)
  have button: "\<exists>f. mirror e = Some (MouseInput 0 0 f) \<and> button_flag code down = Some f" if e: "e = CButton code down" for code down
  proof -
    have "\<exists>w. button_of w = Some (code, down)"
      using assms(3,4) e by (cases ev) (auto simp: onMouse_def onKey_def Let_def split: if_splits option.splits)
    then obtain w where "button_of w = Some (code, down)" ..
    then have "button_flag code down \<noteq> None" by (cases w) (auto simp: button_of_def button_flag_def)
    then show ?thesis by (auto simp: e mirror_def)
  qed
  show ?thesis
  proof (intro exI [of _ "encodeInputEvent (captured_event e ts)"] conjI sent played)
    show "case e of
         CMove dx dy \<Rightarrow> dx \<in> {- (2 ^ 15)..<2 ^ 15} \<and> dy \<in> {- (2 ^ 15)..<2 ^ 15} \<longrightarrow> mirror e = Some (MouseInput dx dy MOUSEEVENTF_MOVE)
       | CButton code down \<Rightarrow> \<exists>f. mirror e = Some (MouseInput 0 0 f) \<and> button_flag code down = Some f
       | CKey code down \<Rightarrow> mirror e = Some (KeyInput code (if down then 0 else KEYEVENTF_KEYUP))"
    proof (cases e)
      case (CMove dx dy)
      then show ?thesis using mirrored(1) [of dx dy] by auto
    next
      case (CButton code down)
      then show ?thesis using button [OF CButton] by simp
    next
      case (CKey code down)
      then show ?thesis by (simp add: mirror_def)
    qed
  qed
qed

theorem captured_is_replayed_witness:
  "\<exists>m. SendTo 1 m \<in> set (snd (forward_captured (CKey 65 True) 9 nodeA))
     \<and> replayed (snd (handle 7 ''A'' m (nodeB\<lparr>mn_ownership := snd (requestSwitchTo ''A'' (ownershipInit ''B''))\<rparr>))) = [Some (KeyInput 65 0)]"
proof -
  have own: "mesh_isLocalOwner nodeA" "Some 1 \<in> snd ` set (mn_peers nodeA)"
    by (simp_all add: mesh_isLocalOwner_def isLocalOwner_def ownershipInit_def)
  let ?b = "nodeB\<lparr>mn_ownership := snd (requestSwitchTo ''A'' (ownershipInit ''B''))\<rparr>"
  have sink: "\<not> mesh_isLocalOwner ?b"
    by (simp add: mesh_isLocalOwner_def isLocalOwner_def requestSwitchTo_def ownershipInit_def Let_def applyClaim_def claimSupersedes_def)
  let ?c = "createCapture\<lparr>wc_installed := True\<rparr>"
  have "hook_proc (KeyHook True 65) ?c = (wc_swallow ?c, ?c, [Sink (CKey 65 True)])"
    by (simp add: onKey_def updateModifier_def createCapture_def Let_def)
  from captured_is_replayed [OF own this, of "CKey 65 True" 9 7 "''A''" ?b] sink show ?thesis
    by (auto simp: mirror_def)
qed

end
