(* ===== verification/CryptoBackends.thy ===== *)
theory CryptoBackends
  imports Pairing Transport
begin

text \<open>
  The two implementations of \<open>crypto/crypto.h\<close> as far as they have logic of their own:
  random bytes and the P-256 key exchange of \<open>platform/crypto_posix.cpp\<close> and
  \<open>platform/crypto_win.cpp\<close>.  The curve, and on Windows the key-handle functions of the
  system, are parameters with their documented behaviour as hypotheses.  The hashes, the
  cipher and the handles of all these calls are the subject of \<open>CryptoCalls\<close>.
\<close>

section \<open>Random bytes\<close>

text \<open>\<open>rand\<close> is what the system's generator gave, if it did not fail.\<close>

definition posix_randomBytes :: "bytes option \<Rightarrow> nat \<Rightarrow> bytes" where
  "posix_randomBytes rand n = (case rand of None \<Rightarrow> replicate n 0 | Some b \<Rightarrow> b)"

definition win_randomBytes :: "bytes option \<Rightarrow> nat \<Rightarrow> bytes" where
  "win_randomBytes rand n = (case rand of None \<Rightarrow> [] | Some b \<Rightarrow> b)"

section \<open>Key exchange\<close>

type_synonym u256 = "256 word"

record curve =
  cv_mul :: "u256 \<Rightarrow> u256 \<times> u256 \<Rightarrow> (u256 \<times> u256) option"
  cv_base :: "u256 \<times> u256"
  cv_on :: "u256 \<times> u256 \<Rightarrow> bool"

definition point_bytes :: "u256 \<times> u256 \<Rightarrow> bytes" where
  "point_bytes P = be_bytes 32 (fst P) @ be_bytes 32 (snd P)"

definition posix_ecdhGenerateKeyPair :: "curve \<Rightarrow> u256 \<Rightarrow> EcdhKeyPair option" where
  "posix_ecdhGenerateKeyPair C d =
     (case cv_mul C d (cv_base C) of None \<Rightarrow> None
      | Some pub \<Rightarrow> Some \<lparr>publicPoint = point_bytes pub, privateBlob = be_bytes 32 d\<rparr>)"

definition posix_ecdhComputeShared :: "curve \<Rightarrow> EcdhKeyPair \<Rightarrow> bytes \<Rightarrow> bytes option" where
  "posix_ecdhComputeShared C mine peer =
     (if length peer \<noteq> 64 \<or> length (privateBlob mine) \<noteq> 32 then None
      else
        let priv = be_value (privateBlob mine); px = be_value (take 32 peer); py = be_value (take 32 (drop 32 peer)) in
        if \<not> cv_on C (px, py) then None
        else case cv_mul C priv (px, py) of None \<Rightarrow> None | Some (sx, sy) \<Rightarrow> Some (be_bytes 32 sx))"

text \<open>The key functions of Windows, over private keys and points instead of handles.\<close>

record bcrypt =
  bc_exportPublic :: "u256 \<Rightarrow> bytes option"
  bc_exportPrivate :: "u256 \<Rightarrow> bytes option"
  bc_importPrivate :: "bytes \<Rightarrow> u256 option"
  bc_importPublic :: "bytes \<Rightarrow> (u256 \<times> u256) option"
  bc_rawSecret :: "u256 \<Rightarrow> u256 \<times> u256 \<Rightarrow> bytes option"

definition kEccMagicPublicP256 :: u32 where "kEccMagicPublicP256 = 0x314B4345"
definition kEccCoordLen :: u32 where "kEccCoordLen = 32"

definition win_ecdhGenerateKeyPair :: "bcrypt \<Rightarrow> u256 \<Rightarrow> EcdhKeyPair option" where
  "win_ecdhGenerateKeyPair bc d =
     (case bc_exportPublic bc d of None \<Rightarrow> None
      | Some pub \<Rightarrow>
          if length pub < 8 + 2 * unat kEccCoordLen then None
          else case bc_exportPrivate bc d of None \<Rightarrow> None
            | Some priv \<Rightarrow> Some \<lparr>publicPoint = take (2 * unat kEccCoordLen) (drop 8 pub), privateBlob = priv\<rparr>)"

definition peer_blob :: "bytes \<Rightarrow> bytes" where
  "peer_blob peer = le_bytes 4 kEccMagicPublicP256 @ le_bytes 4 kEccCoordLen @ peer"

definition win_ecdhComputeShared :: "bcrypt \<Rightarrow> EcdhKeyPair \<Rightarrow> bytes \<Rightarrow> bytes option" where
  "win_ecdhComputeShared bc mine peer =
     (if length peer \<noteq> 64 \<or> privateBlob mine = [] then None
      else case bc_importPrivate bc (privateBlob mine) of None \<Rightarrow> None
        | Some d \<Rightarrow>
            (case bc_importPublic bc (peer_blob peer) of None \<Rightarrow> None
             | Some P \<Rightarrow>
                 (case bc_rawSecret bc d P of None \<Rightarrow> None
                  | Some raw \<Rightarrow> if length raw \<noteq> 32 then None else Some (rev raw))))"

section \<open>Documented behaviour\<close>

definition curve_ok :: "curve \<Rightarrow> bool" where
  "curve_ok C \<longleftrightarrow> cv_on C (cv_base C) \<and> (\<forall>d P Q. cv_on C P \<longrightarrow> cv_mul C d P = Some Q \<longrightarrow> cv_on C Q)
     \<and> (\<forall>a b A B. cv_mul C a (cv_base C) = Some A \<longrightarrow> cv_mul C b (cv_base C) = Some B \<longrightarrow> cv_mul C a B = cv_mul C b A)"

text \<open>
  The blobs: an eight-byte header before the coordinates of a public key; a private blob comes back as
  the key it was exported from; a public blob is imported when its point is on the curve; the raw
  secret is the x coordinate in little-endian order.
\<close>

definition bcrypt_ok :: "curve \<Rightarrow> bcrypt \<Rightarrow> bool" where
  "bcrypt_ok C bc \<longleftrightarrow>
     (\<forall>d P. cv_mul C d (cv_base C) = Some P \<longrightarrow> (\<exists>hdr. length hdr = 8 \<and> bc_exportPublic bc d = Some (hdr @ point_bytes P)))
   \<and> (\<forall>d. \<exists>blob. bc_exportPrivate bc d = Some blob \<and> blob \<noteq> [] \<and> bc_importPrivate bc blob = Some d)
   \<and> (\<forall>P. bc_importPublic bc (peer_blob (point_bytes P)) = (if cv_on C P then Some P else None))
   \<and> (\<forall>d P. bc_rawSecret bc d P = map_option (\<lambda>Q. rev (be_bytes 32 (fst Q))) (cv_mul C d P))"

section \<open>Agreement\<close>

lemma length_point [simp]: "length (point_bytes P) = 64"
  by (simp add: point_bytes_def)

lemma point_parts: "be_value (take 32 (point_bytes P)) = fst P" "be_value (drop 32 (point_bytes P)) = snd P"
  by (simp_all add: point_bytes_def be_value_be_bytes)

lemma posix_shared:
  assumes "privateBlob kp = be_bytes 32 d" "cv_on C P"
  shows "posix_ecdhComputeShared C kp (point_bytes P) = map_option (\<lambda>Q. be_bytes 32 (fst Q)) (cv_mul C d P)"
  using assms by (simp add: posix_ecdhComputeShared_def point_parts be_value_be_bytes Let_def split_beta split: option.split)

lemma win_shared:
  assumes "bcrypt_ok C bc" "bc_importPrivate bc (privateBlob kp) = Some d" "privateBlob kp \<noteq> []" "cv_on C P"
  shows "win_ecdhComputeShared bc kp (point_bytes P) = map_option (\<lambda>Q. be_bytes 32 (fst Q)) (cv_mul C d P)"
proof -
  have "bc_importPublic bc (peer_blob (point_bytes P)) = Some P" "bc_rawSecret bc d P = map_option (\<lambda>Q. rev (be_bytes 32 (fst Q))) (cv_mul C d P)"
    using assms(1,4) by (cases P; simp add: bcrypt_ok_def)+
  then show ?thesis using assms(2,3) by (simp add: win_ecdhComputeShared_def split: option.split)
qed

lemma win_generates:
  assumes "bcrypt_ok C bc" "cv_mul C d (cv_base C) = Some P"
  obtains blob where "win_ecdhGenerateKeyPair bc d = Some \<lparr>publicPoint = point_bytes P, privateBlob = blob\<rparr>"
    "blob \<noteq> []" "bc_importPrivate bc blob = Some d"
proof -
  obtain hdr blob where "length hdr = 8" "bc_exportPublic bc d = Some (hdr @ point_bytes P)"
    "bc_exportPrivate bc d = Some blob" "blob \<noteq> []" "bc_importPrivate bc blob = Some d"
    using assms unfolding bcrypt_ok_def by blast
  then show ?thesis using that by (simp add: win_ecdhGenerateKeyPair_def kEccCoordLen_def)
qed

text \<open>
  C16. The two backends agree byte for byte: for the same private keys they publish the same
  points, and each side, on either platform, derives from the other's point the same 32 bytes.
\<close>

theorem ecdh_interop:
  assumes "curve_ok C" "bcrypt_ok C bc" "cv_mul C a (cv_base C) = Some A" "cv_mul C b (cv_base C) = Some B" "cv_mul C a B = Some S"
  shows "\<exists>pa pb wa wb s. posix_ecdhGenerateKeyPair C a = Some pa \<and> posix_ecdhGenerateKeyPair C b = Some pb
    \<and> win_ecdhGenerateKeyPair bc a = Some wa \<and> win_ecdhGenerateKeyPair bc b = Some wb
    \<and> publicPoint wa = publicPoint pa \<and> publicPoint wb = publicPoint pb \<and> length s = 32
    \<and> posix_ecdhComputeShared C pa (publicPoint pb) = Some s \<and> posix_ecdhComputeShared C pb (publicPoint pa) = Some s
    \<and> win_ecdhComputeShared bc wa (publicPoint pb) = Some s \<and> win_ecdhComputeShared bc wb (publicPoint pa) = Some s"
proof -
  have on: "cv_on C A" "cv_on C B" using assms(1,3,4) unfolding curve_ok_def by blast+
  have S: "cv_mul C b A = Some S" using assms(1,3-5) unfolding curve_ok_def by metis
  obtain ba where wa: "win_ecdhGenerateKeyPair bc a = Some \<lparr>publicPoint = point_bytes A, privateBlob = ba\<rparr>"
    "ba \<noteq> []" "bc_importPrivate bc ba = Some a" using win_generates [OF assms(2,3)] .
  obtain bb where wb: "win_ecdhGenerateKeyPair bc b = Some \<lparr>publicPoint = point_bytes B, privateBlob = bb\<rparr>"
    "bb \<noteq> []" "bc_importPrivate bc bb = Some b" using win_generates [OF assms(2,4)] .
  let ?pa = "\<lparr>publicPoint = point_bytes A, privateBlob = be_bytes 32 a\<rparr>" and ?pb = "\<lparr>publicPoint = point_bytes B, privateBlob = be_bytes 32 b\<rparr>"
  have "posix_ecdhGenerateKeyPair C a = Some ?pa" "posix_ecdhGenerateKeyPair C b = Some ?pb"
    using assms(3,4) by (simp_all add: posix_ecdhGenerateKeyPair_def)
  moreover have "posix_ecdhComputeShared C ?pa (point_bytes B) = Some (be_bytes 32 (fst S))"
    "posix_ecdhComputeShared C ?pb (point_bytes A) = Some (be_bytes 32 (fst S))"
    using posix_shared on S assms(5) by simp_all
  moreover have "win_ecdhComputeShared bc \<lparr>publicPoint = point_bytes A, privateBlob = ba\<rparr> (point_bytes B) = Some (be_bytes 32 (fst S))"
    "win_ecdhComputeShared bc \<lparr>publicPoint = point_bytes B, privateBlob = bb\<rparr> (point_bytes A) = Some (be_bytes 32 (fst S))"
    using win_shared [OF assms(2)] on S assms(5) wa(2,3) wb(2,3) by simp_all
  ultimately show ?thesis using wa(1) wb(1)
    by (intro exI [of _ ?pa] exI [of _ ?pb] exI [of _ "\<lparr>publicPoint = point_bytes A, privateBlob = ba\<rparr>"]
      exI [of _ "\<lparr>publicPoint = point_bytes B, privateBlob = bb\<rparr>"] exI [of _ "be_bytes 32 (fst S)"]) simp
qed

text \<open>Points off the curve, the way to a key of the attacker's choosing, are refused by both.\<close>

lemma off_curve_refused:
  assumes "bcrypt_ok C bc" "\<not> cv_on C P"
  shows "posix_ecdhComputeShared C kp (point_bytes P) = None" "win_ecdhComputeShared bc kp (point_bytes P) = None"
  using assms by (cases P; auto simp: posix_ecdhComputeShared_def win_ecdhComputeShared_def point_parts bcrypt_ok_def Let_def split: option.split)+

section \<open>A failing generator\<close>

text \<open>
  When the system's generator fails the Windows code stops the pairing, as the nonce is
  empty; the POSIX code goes on and commits to a nonce of zeros, which a peer can foresee.
\<close>

theorem rng_failure:
  assumes "side_ok kp (replicate 32 0) self" "op_send ops (commitment pc (publicPoint kp) (replicate 32 0) self) t = (True, t')"
  shows "fst (px_start pc ops (Some kp) (win_randomBytes None 32) (newExchange self, t)) = False
    \<and> px_start pc ops (Some kp) (posix_randomBytes None 32) (newExchange self, t) = (True, px_started_state kp (replicate 32 0) self, t')"
proof
  have nonce: "posix_randomBytes None 32 = replicate 32 0" "win_randomBytes None 32 = []"
    by (simp_all only: posix_randomBytes_def win_randomBytes_def option.case)
  show "px_start pc ops (Some kp) (posix_randomBytes None 32) (newExchange self, t) = (True, px_started_state kp (replicate 32 0) self, t')"
    unfolding nonce by (rule px_start_ok [OF assms])
  show "fst (px_start pc ops (Some kp) (win_randomBytes None 32) (newExchange self, t)) = False"
    unfolding nonce by (auto simp: px_start_def newExchange_def newHandshake_def eh_begin_def Let_def)
qed

text \<open>A toy group, and the Windows functions over it.\<close>

definition toy_curve :: curve where
  "toy_curve = \<lparr>cv_mul = (\<lambda>d P. Some (d * fst P, 0)), cv_base = (5, 0), cv_on = (\<lambda>P. snd P = 0)\<rparr>"

definition toy_bcrypt :: bcrypt where
  "toy_bcrypt = \<lparr>bc_exportPublic = (\<lambda>d. Some (replicate 8 0 @ point_bytes (d * 5, 0))),
     bc_exportPrivate = (\<lambda>d. Some (1 # be_bytes 32 d)), bc_importPrivate = (\<lambda>p. Some (be_value (tl p))),
     bc_importPublic = (\<lambda>p. let x = be_value (take 32 (drop 8 p)); y = be_value (drop 40 p) in if y = 0 then Some (x, y) else None),
     bc_rawSecret = (\<lambda>d P. Some (rev (be_bytes 32 (d * fst P))))\<rparr>"

lemma toy_backend: "curve_ok toy_curve" "bcrypt_ok toy_curve toy_bcrypt"
proof -
  show "curve_ok toy_curve" by (auto simp: curve_ok_def toy_curve_def mult.left_commute)
  have "drop 40 (peer_blob (point_bytes P)) = drop 32 (point_bytes P)" "drop 8 (peer_blob (point_bytes P)) = point_bytes P" for P
    by (simp_all add: peer_blob_def)
  then have blob: "bc_importPublic toy_bcrypt (peer_blob (point_bytes P)) = (if snd P = 0 then Some P else None)" for P
    by (cases P) (simp add: toy_bcrypt_def point_parts)
  show "bcrypt_ok toy_curve toy_bcrypt"
    unfolding bcrypt_ok_def blob by (auto simp: toy_curve_def toy_bcrypt_def be_value_be_bytes intro: exI [of _ "replicate 8 0"])
qed

theorem ecdh_interop_witness:
  "\<exists>pa pb s. posix_ecdhGenerateKeyPair toy_curve 3 = Some pa \<and> posix_ecdhGenerateKeyPair toy_curve 7 = Some pb \<and> length s = 32
    \<and> posix_ecdhComputeShared toy_curve pa (publicPoint pb) = Some s"
proof -
  have "cv_mul toy_curve 3 (cv_base toy_curve) = Some (15, 0)" "cv_mul toy_curve 7 (cv_base toy_curve) = Some (35, 0)"
    "cv_mul toy_curve 3 (35, 0) = Some (105, 0)" by (simp_all add: toy_curve_def)
  from ecdh_interop [OF toy_backend this] show ?thesis by blast
qed

theorem rng_failure_witness:
  "\<not> fst (px_start toy_pair_crypto raw_ops (Some (ps_kp (toy_side 3 ''alice''))) (win_randomBytes None 32)
        (newExchange ''alice'', \<lparr>rl_up = True, rl_in = [], rl_out = []\<rparr>))"
proof -
  have ok: "side_ok (ps_kp (toy_side 3 ''alice'')) (replicate 32 0) ''alice''" by (simp add: side_ok_def toy_side_def)
  show ?thesis
    using rng_failure [OF ok, of raw_ops toy_pair_crypto "\<lparr>rl_up = True, rl_in = [], rl_out = []\<rparr>"] by (simp add: raw_ops_def raw_send_def)
qed

end
