(* ===== verification/Handles.thy ===== *)
theory Handles
  imports Prelude "HOL-Library.Multiset"
begin

text \<open>
  Handles and other resources of the system: events that make, use and release them, when a
  sequence of events is balanced, and chains of calls that stop at the first failure.  The
  theories of the platform code describe the order of their calls with these.
\<close>

section \<open>Events\<close>

datatype 'h event = Got 'h | Used 'h | Freed 'h

text \<open>Nothing is made twice, used or released when it is not live, and in the end nothing is live.\<close>

primrec well_used :: "'h list \<Rightarrow> 'h event list \<Rightarrow> bool" where
  "well_used live [] \<longleftrightarrow> live = []"
| "well_used live (e # t) \<longleftrightarrow> (case e of Got h \<Rightarrow> h \<notin> set live \<and> well_used (h # live) t
     | Used h \<Rightarrow> h \<in> set live \<and> well_used live t | Freed h \<Rightarrow> h \<in> set live \<and> well_used (remove1 h live) t)"

text \<open>
  A chain of calls that stops at the first that fails: each names the call, the handles it is
  given and the handle it makes.  \<open>ok\<close> says which calls succeed.
\<close>

primrec chain :: "('c \<Rightarrow> bool) \<Rightarrow> ('c \<times> 'h list \<times> 'h option) list \<Rightarrow> bool \<times> 'h event list" where
  "chain ok [] = (True, [])"
| "chain ok (s # ss) = (case s of (c, hs, made) \<Rightarrow>
     if \<not> ok c then (False, map Used hs)
     else case chain ok ss of (r, t) \<Rightarrow> (r, map Used hs @ (case made of None \<Rightarrow> [] | Some h \<Rightarrow> [Got h]) @ t))"

definition got :: "'h event list \<Rightarrow> 'h list" where
  "got t = map (\<lambda>e. case e of Got h \<Rightarrow> h | Used h \<Rightarrow> h | Freed h \<Rightarrow> h) (filter (\<lambda>e. case e of Got h \<Rightarrow> True | _ \<Rightarrow> False) t)"

text \<open>Releasing those of \<open>hs\<close> that are not null.\<close>

definition release :: "'h list \<Rightarrow> 'h event list \<Rightarrow> 'h event list" where
  "release hs t = map Freed (filter (\<lambda>h. h \<in> set (got t)) hs)"

section \<open>Balance\<close>

primrec fits :: "'h list \<Rightarrow> ('c \<times> 'h list \<times> 'h option) list \<Rightarrow> bool" where
  "fits live [] = True"
| "fits live (s # ss) = (case s of (c, hs, made) \<Rightarrow> set hs \<subseteq> set live
     \<and> (case made of None \<Rightarrow> fits live ss | Some h \<Rightarrow> h \<notin> set live \<and> fits (h # live) ss))"

definition makes :: "('c \<times> 'h list \<times> 'h option) list \<Rightarrow> 'h list" where
  "makes ss = concat (map (\<lambda>(c, hs, made). case made of None \<Rightarrow> [] | Some h \<Rightarrow> [h]) ss)"

lemma got_simps [simp]: "got [] = []" "got (map Used hs) = []" "got (map Got hs) = hs" "got (s @ t) = got s @ got t"
    "got (Got h # t) = h # got t" "got (Used h # t) = got t" "got (Freed h # t) = got t"
  by (simp_all add: got_def comp_def)

lemma well_used_uses: "set hs \<subseteq> set live \<Longrightarrow> well_used live (map Used hs @ t) = well_used live t"
  by (induction hs) auto

lemma well_used_gots: "distinct hs \<Longrightarrow> set hs \<inter> set live = {} \<Longrightarrow> well_used live (map Got hs @ t) = well_used (rev hs @ live) t"
  by (induction hs arbitrary: live) auto

lemma well_used_frees: "mset live = mset hs \<Longrightarrow> well_used live (map Freed hs)"
proof (induction hs arbitrary: live)
  case (Cons h hs)
  then have "h \<in> set live" by (metis list.set_intros(1) mset_eq_setD)
  then show ?case using Cons by simp
qed simp

lemma well_used_chain:
  "fits live ss \<Longrightarrow> well_used live (snd (chain ok ss) @ t) = well_used (rev (got (snd (chain ok ss))) @ live) t"
proof (induction ss arbitrary: live)
  case (Cons s ss)
  obtain c hs made where s: "s = (c, hs, made)" by (cases s)
  have fit: "set hs \<subseteq> set live" using Cons.prems s by simp
  show ?case
  proof (cases made)
    case None
    then show ?thesis using Cons.IH [of live] Cons.prems s
      by (cases "ok c") (simp_all add: well_used_uses fit split_beta)
  next
    case (Some h)
    then show ?thesis using Cons.IH [of "h # live"] Cons.prems s
      by (cases "ok c") (simp_all add: well_used_uses fit split_beta)
  qed
qed simp

lemma got_chain: "\<exists>rest. makes ss = got (snd (chain ok ss)) @ rest"
proof (induction ss)
  case (Cons s ss)
  obtain c hs made where s: "s = (c, hs, made)" by (cases s)
  show ?case using Cons.IH s by (cases "ok c"; cases made) (auto simp: makes_def split_beta)
qed (simp add: makes_def)

lemma mset_released:
  assumes "distinct gs" "distinct hs" "set gs \<subseteq> set hs"
  shows "mset (filter (\<lambda>h. h \<in> set gs) hs) = mset gs"
proof -
  have "set (filter (\<lambda>h. h \<in> set gs) hs) = set gs" using assms(3) by auto
  then show ?thesis using assms(1,2) by (meson distinct_filter set_eq_iff_mset_eq_distinct)
qed

lemma released_all:
  assumes "distinct (got t)" "distinct hs" "set (got t) \<subseteq> set hs"
  shows "well_used (rev (got t)) (release hs t)" "well_used (rev (got t) @ [a]) (release hs t @ [Freed a])"
proof -
  have "mset (filter (\<lambda>h. h \<in> set (got t)) hs) = mset (got t)" using mset_released [OF assms] .
  then have m: "mset (rev (got t)) = mset (filter (\<lambda>h. h \<in> set (got t)) hs)"
      "mset (rev (got t) @ [a]) = mset (filter (\<lambda>h. h \<in> set (got t)) hs @ [a])" by simp_all
  show "well_used (rev (got t)) (release hs t)" unfolding release_def by (rule well_used_frees [OF m(1)])
  show "well_used (rev (got t) @ [a]) (release hs t @ [Freed a])"
    using well_used_frees [OF m(2)] by (simp add: release_def)
qed

lemma chain_no_made: "makes ss = [] \<Longrightarrow> got (snd (chain ok ss)) = []"
  using got_chain by (metis Nil_is_append_conv)

lemma eager_balanced:
  assumes "distinct gs" "distinct hs" "set gs \<subseteq> set hs" "fits (rev gs) ss" "makes ss = []"
  shows "well_used [] (map Got gs @ snd (chain ok ss) @ release hs (map Got gs))"
proof -
  have "well_used (rev gs) (release hs (map Got gs))" using released_all(1) [of "map Got gs" hs] assms(1-3) by simp
  then show ?thesis
    using well_used_chain [OF assms(4), of ok "release hs (map Got gs)"] chain_no_made [OF assms(5), of ok]
      well_used_gots [of gs "[]" "snd (chain ok ss) @ release hs (map Got gs)"] assms(1) by simp
qed

end
