(* ===== verification/CryptoCalls.thy ===== *)
theory CryptoCalls
  imports CryptoBackends Handles "HOL-Library.Monad_Syntax"
begin

text \<open>
  The calls both crypto backends make: the hashes and AES-256-GCM of
  \<open>platform/crypto_win.cpp\<close> and \<open>platform/crypto_posix.cpp\<close> over the system's functions, and
  the order in which handles are made, used and released on every path, the key exchange of
  \<open>CryptoBackends\<close> included.  The system's functions are parameters; \<open>evp_ok\<close> and \<open>cng_ok\<close> say what
  they document, over the abstract cipher \<open>gcm\<close>.
\<close>

section \<open>Hashes\<close>

text \<open>The 32-bit lengths the calls take.\<close>

definition len32 :: "bytes \<Rightarrow> u32" where "len32 p = word_of_nat (length p)"

definition cut32 :: "bytes \<Rightarrow> bytes" where "cut32 p = take (unat (len32 p)) p"

text \<open>The result is a zero-filled array the call writes to; its status is not looked at.\<close>

definition digest_of :: "nat \<Rightarrow> bytes option \<Rightarrow> bytes" where
  "digest_of n r = (case r of None \<Rightarrow> replicate n 0 | Some d \<Rightarrow> d)"

definition win_sha256 :: "(bytes \<Rightarrow> bytes option) \<Rightarrow> bytes \<Rightarrow> bytes" where
  "win_sha256 hash p = digest_of 32 (hash (cut32 p))"

definition win_sha1 :: "(bytes \<Rightarrow> bytes option) \<Rightarrow> bytes \<Rightarrow> bytes" where
  "win_sha1 hash p = digest_of 20 (hash (cut32 p))"

definition win_hmacSha256 :: "(bytes \<Rightarrow> bytes \<Rightarrow> bytes option) \<Rightarrow> bytes \<Rightarrow> bytes \<Rightarrow> bytes" where
  "win_hmacSha256 mac key p = digest_of 32 (mac (cut32 key) (cut32 p))"

definition posix_sha256 :: "(bytes \<Rightarrow> bytes option) \<Rightarrow> bytes \<Rightarrow> bytes" where
  "posix_sha256 hash p = digest_of 32 (hash p)"

definition posix_sha1 :: "(bytes \<Rightarrow> bytes option) \<Rightarrow> bytes \<Rightarrow> bytes" where
  "posix_sha1 hash p = digest_of 20 (hash p)"

definition posix_hmacSha256 :: "(bytes \<Rightarrow> u32 \<Rightarrow> bytes \<Rightarrow> bytes option) \<Rightarrow> bytes \<Rightarrow> bytes \<Rightarrow> bytes" where
  "posix_hmacSha256 mac key p = digest_of 32 (mac key (len32 key) p)"

section \<open>AES-256-GCM with OpenSSL\<close>

text \<open>The cipher-context functions, over contexts \<open>'c\<close>; \<open>None\<close> is a status other than 1.\<close>

record 'c evp =
  evp_new :: "'c option"
  evp_cipher :: "'c \<Rightarrow> 'c option"
  evp_ivlen :: "u32 \<Rightarrow> 'c \<Rightarrow> 'c option"
  evp_key :: "bytes \<Rightarrow> bytes \<Rightarrow> 'c \<Rightarrow> 'c option"
  evp_aad :: "bytes \<Rightarrow> u32 \<Rightarrow> 'c \<Rightarrow> 'c option"
  evp_update :: "bytes \<Rightarrow> u32 \<Rightarrow> 'c \<Rightarrow> ('c \<times> bytes) option"
  evp_final :: "'c \<Rightarrow> ('c \<times> bytes) option"
  evp_get_tag :: "nat \<Rightarrow> 'c \<Rightarrow> bytes option"
  evp_set_tag :: "nat \<Rightarrow> bytes \<Rightarrow> 'c \<Rightarrow> 'c option"

definition evp_setup :: "'c evp \<Rightarrow> bytes \<Rightarrow> bytes \<Rightarrow> bytes \<Rightarrow> 'c option" where
  "evp_setup E key nonce aad = do {
     c \<leftarrow> evp_new E;
     c \<leftarrow> evp_cipher E c;
     c \<leftarrow> evp_ivlen E (len32 nonce) c;
     c \<leftarrow> evp_key E key nonce c;
     if aad \<noteq> [] then evp_aad E aad (len32 aad) c else Some c }"

definition evp_text :: "'c evp \<Rightarrow> bytes \<Rightarrow> 'c \<Rightarrow> ('c \<times> bytes) option" where
  "evp_text E p c = (if p \<noteq> [] then evp_update E p (len32 p) c else Some (c, []))"

definition posix_aesGcmEncrypt :: "'c evp \<Rightarrow> bytes \<Rightarrow> bytes \<Rightarrow> bytes \<Rightarrow> bytes \<Rightarrow> (bytes \<times> bytes) option" where
  "posix_aesGcmEncrypt E key nonce aad pt = do {
     c \<leftarrow> evp_setup E key nonce aad;
     (c, ct) \<leftarrow> evp_text E pt c;
     (c, rest) \<leftarrow> evp_final E c;
     tag \<leftarrow> evp_get_tag E 16 c;
     Some (ct @ rest, tag) }"

text \<open>The result, and what the caller's buffer holds when the call returns.\<close>

definition posix_aesGcmDecrypt :: "'c evp \<Rightarrow> bytes \<Rightarrow> bytes \<Rightarrow> bytes \<Rightarrow> bytes \<Rightarrow> bytes \<Rightarrow> bool \<times> bytes" where
  "posix_aesGcmDecrypt E key nonce aad ct tag =
     (case do { c \<leftarrow> evp_setup E key nonce aad; evp_text E ct c } of
        None \<Rightarrow> (False, [])
      | Some (c, pt) \<Rightarrow>
          (case do { c \<leftarrow> evp_set_tag E 16 tag c; evp_final E c } of
             None \<Rightarrow> (False, pt)
           | Some (_, rest) \<Rightarrow> (True, pt @ rest)))"

section \<open>AES-256-GCM with CNG\<close>

record auth_info =
  ai_nonce :: bytes
  ai_aad :: bytes
  ai_tag :: bytes

text \<open>
  The provider's functions over key handles \<open>'k\<close>.  Encryption also writes the tag buffer.
\<close>

record 'k cng =
  cng_open :: bool
  cng_gcm_mode :: bool
  cng_key :: "bytes \<Rightarrow> 'k option"
  cng_encrypt :: "'k \<Rightarrow> auth_info \<Rightarrow> bytes \<Rightarrow> (bytes \<times> bytes) option"
  cng_decrypt :: "'k \<Rightarrow> auth_info \<Rightarrow> bytes \<Rightarrow> bytes option"

definition win_aesGcm ::
  "'k cng \<Rightarrow> bool \<Rightarrow> bytes \<Rightarrow> bytes \<Rightarrow> bytes \<Rightarrow> bytes \<Rightarrow> bytes \<Rightarrow> (bytes \<times> bytes) option" where
  "win_aesGcm N encrypt key nonce aad inb tag =
     (if \<not> cng_open N then None
      else if \<not> cng_gcm_mode N then None
      else case cng_key N (take 32 key) of None \<Rightarrow> None
        | Some k \<Rightarrow>
            let info = \<lparr>ai_nonce = cut32 nonce, ai_aad = cut32 aad, ai_tag = take 16 tag\<rparr> in
            if encrypt then cng_encrypt N k info (cut32 inb)
            else map_option (\<lambda>out. (out, tag)) (cng_decrypt N k info (cut32 inb)))"

definition win_aesGcmEncrypt :: "'k cng \<Rightarrow> bytes \<Rightarrow> bytes \<Rightarrow> bytes \<Rightarrow> bytes \<Rightarrow> (bytes \<times> bytes) option" where
  "win_aesGcmEncrypt N key nonce aad pt = win_aesGcm N True key nonce aad pt (replicate 16 0)"

definition win_aesGcmDecrypt :: "'k cng \<Rightarrow> bytes \<Rightarrow> bytes \<Rightarrow> bytes \<Rightarrow> bytes \<Rightarrow> bytes \<Rightarrow> bool \<times> bytes" where
  "win_aesGcmDecrypt N key nonce aad ct tag =
     (case win_aesGcm N False key nonce aad ct (take 16 tag) of None \<Rightarrow> (False, []) | Some (pt, _) \<Rightarrow> (True, pt))"

section \<open>The cipher both implement\<close>

text \<open>The key stream applied to a text, and the tag of the additional data and the ciphertext.\<close>

record gcm =
  g_crypt :: "bytes \<Rightarrow> bytes \<Rightarrow> bytes \<Rightarrow> bytes"
  g_tag :: "bytes \<Rightarrow> bytes \<Rightarrow> bytes \<Rightarrow> bytes \<Rightarrow> bytes"

definition gcm_ok :: "gcm \<Rightarrow> bool" where
  "gcm_ok G \<longleftrightarrow> (\<forall>k n d. g_crypt G k n (g_crypt G k n d) = d \<and> length (g_crypt G k n d) = length d)
     \<and> (\<forall>k n a c. length (g_tag G k n a c) = 16)"

text \<open>What a cipher context has taken in.\<close>

record evp_view =
  vw_ivlen :: nat
  vw_key :: bytes
  vw_nonce :: bytes
  vw_aad :: bytes
  vw_ct :: bytes
  vw_tag :: bytes

definition view_tag :: "gcm \<Rightarrow> evp_view \<Rightarrow> bytes" where
  "view_tag G v = g_tag G (vw_key v) (vw_nonce v) (vw_aad v) (vw_ct v)"

text \<open>The documented effect of each call that succeeds; \<open>enc\<close> selects the \<open>Encrypt\<close> or the \<open>Decrypt\<close> functions.\<close>

definition evp_ok :: "bool \<Rightarrow> gcm \<Rightarrow> ('c \<Rightarrow> evp_view) \<Rightarrow> 'c evp \<Rightarrow> bool" where
  "evp_ok enc G v E \<longleftrightarrow>
     (\<forall>n c c'. evp_ivlen E n c = Some c' \<longrightarrow> vw_ivlen (v c') = unat n)
   \<and> (\<forall>k iv c c'. evp_key E k iv c = Some c' \<longrightarrow>
        v c' = \<lparr>vw_ivlen = vw_ivlen (v c), vw_key = take 32 k, vw_nonce = take (vw_ivlen (v c)) iv, vw_aad = [], vw_ct = [], vw_tag = []\<rparr>)
   \<and> (\<forall>a n c c'. evp_aad E a n c = Some c' \<longrightarrow> v c' = (v c)\<lparr>vw_aad := vw_aad (v c) @ take (unat n) a\<rparr>)
   \<and> (\<forall>p n c c' out. evp_update E p n c = Some (c', out) \<and> vw_ct (v c) = [] \<longrightarrow>
        out = g_crypt G (vw_key (v c)) (vw_nonce (v c)) (take (unat n) p)
        \<and> v c' = (v c)\<lparr>vw_ct := (if enc then out else take (unat n) p)\<rparr>)
   \<and> (\<forall>n t c c'. evp_set_tag E n t c = Some c' \<longrightarrow> v c' = (v c)\<lparr>vw_tag := take n t\<rparr>)
   \<and> (\<forall>c c' out. evp_final E c = Some (c', out) \<longrightarrow> out = [] \<and> v c' = v c \<and> (enc \<or> vw_tag (v c) = view_tag G (v c)))
   \<and> (\<forall>n c t. evp_get_tag E n c = Some t \<longrightarrow> t = take n (view_tag G (v c)))"

text \<open>No call fails, but for the final one of a decryption whose tag is wrong.\<close>

definition evp_works :: "bool \<Rightarrow> gcm \<Rightarrow> ('c \<Rightarrow> evp_view) \<Rightarrow> 'c evp \<Rightarrow> bool" where
  "evp_works enc G v E \<longleftrightarrow> evp_new E \<noteq> None
   \<and> (\<forall>c. evp_cipher E c \<noteq> None) \<and> (\<forall>n c. 0 < n \<and> n < 2 ^ 31 \<longrightarrow> evp_ivlen E n c \<noteq> None) \<and> (\<forall>k iv c. evp_key E k iv c \<noteq> None)
   \<and> (\<forall>a n c. n < 2 ^ 31 \<longrightarrow> evp_aad E a n c \<noteq> None) \<and> (\<forall>p n c. n < 2 ^ 31 \<longrightarrow> evp_update E p n c \<noteq> None)
   \<and> (\<forall>n t c. evp_set_tag E n t c \<noteq> None) \<and> (\<forall>n c. evp_get_tag E n c \<noteq> None)
   \<and> (\<forall>c. enc \<or> vw_tag (v c) = view_tag G (v c) \<longrightarrow> evp_final E c \<noteq> None)"

definition cng_ok :: "gcm \<Rightarrow> ('k \<Rightarrow> bytes) \<Rightarrow> 'k cng \<Rightarrow> bool" where
  "cng_ok G keyOf N \<longleftrightarrow>
     (\<forall>b k. cng_key N b = Some k \<longrightarrow> keyOf k = b)
   \<and> (\<forall>k i p ct tag. cng_encrypt N k i p = Some (ct, tag) \<longrightarrow>
        ct = g_crypt G (keyOf k) (ai_nonce i) p \<and> tag = g_tag G (keyOf k) (ai_nonce i) (ai_aad i) ct)
   \<and> (\<forall>k i ct p. cng_decrypt N k i ct = Some p \<longrightarrow>
        p = g_crypt G (keyOf k) (ai_nonce i) ct \<and> ai_tag i = g_tag G (keyOf k) (ai_nonce i) (ai_aad i) ct)"

text \<open>The provider takes 12-byte nonces only.\<close>

definition cng_works :: "gcm \<Rightarrow> ('k \<Rightarrow> bytes) \<Rightarrow> 'k cng \<Rightarrow> bool" where
  "cng_works G keyOf N \<longleftrightarrow> cng_open N \<and> cng_gcm_mode N \<and> (\<forall>b. length b = 32 \<longrightarrow> cng_key N b \<noteq> None)
   \<and> (\<forall>k i p. length (ai_nonce i) = 12 \<longrightarrow> cng_encrypt N k i p \<noteq> None)
   \<and> (\<forall>k i ct. length (ai_nonce i) = 12 \<and> ai_tag i = g_tag G (keyOf k) (ai_nonce i) (ai_aad i) ct \<longrightarrow> cng_decrypt N k i ct \<noteq> None)"


section \<open>Agreement of the backends\<close>

abbreviation short :: "bytes \<Rightarrow> bool" where "short p \<equiv> length p < 2 ^ 31"

lemma unat_len32 [simp]: "short p \<Longrightarrow> unat (len32 p) = length p"
  by (simp add: len32_def unat_of_nat take_bit_nat_eq_self)

lemma len32_small: "short p \<Longrightarrow> len32 p < 2 ^ 31"
  by (simp add: word_less_nat_alt)

lemma cut32_short [simp]: "short p \<Longrightarrow> cut32 p = p"
  by (simp add: cut32_def)

lemma g_crypt_Nil [simp]: "gcm_ok G \<Longrightarrow> g_crypt G k n [] = []"
  unfolding gcm_ok_def by (metis length_0_conv)

lemma evp_okD:
  assumes "evp_ok enc G v E"
  shows "evp_ivlen E n c = Some c' \<Longrightarrow> vw_ivlen (v c') = unat n"
    "evp_key E k iv c = Some c' \<Longrightarrow>
      v c' = \<lparr>vw_ivlen = vw_ivlen (v c), vw_key = take 32 k, vw_nonce = take (vw_ivlen (v c)) iv, vw_aad = [], vw_ct = [], vw_tag = []\<rparr>"
    "evp_aad E a n c = Some c' \<Longrightarrow> v c' = (v c)\<lparr>vw_aad := vw_aad (v c) @ take (unat n) a\<rparr>"
    "evp_update E p n c = Some (c', out) \<Longrightarrow> vw_ct (v c) = [] \<Longrightarrow>
      out = g_crypt G (vw_key (v c)) (vw_nonce (v c)) (take (unat n) p) \<and> v c' = (v c)\<lparr>vw_ct := (if enc then out else take (unat n) p)\<rparr>"
    "evp_set_tag E m p c = Some c' \<Longrightarrow> v c' = (v c)\<lparr>vw_tag := take m p\<rparr>"
    "evp_final E c = Some (c', out) \<Longrightarrow> out = [] \<and> v c' = v c \<and> (enc \<or> vw_tag (v c) = view_tag G (v c))"
    "evp_get_tag E m c = Some p \<Longrightarrow> p = take m (view_tag G (v c))"
proof -
  note A = assms [unfolded evp_ok_def]
  show "evp_ivlen E n c = Some c' \<Longrightarrow> vw_ivlen (v c') = unat n" using conjunct1 [OF A] by blast
  note A = conjunct2 [OF A]
  show "evp_key E k iv c = Some c' \<Longrightarrow>
      v c' = \<lparr>vw_ivlen = vw_ivlen (v c), vw_key = take 32 k, vw_nonce = take (vw_ivlen (v c)) iv, vw_aad = [], vw_ct = [], vw_tag = []\<rparr>"
    using conjunct1 [OF A] by blast
  note A = conjunct2 [OF A]
  show "evp_aad E a n c = Some c' \<Longrightarrow> v c' = (v c)\<lparr>vw_aad := vw_aad (v c) @ take (unat n) a\<rparr>"
    using conjunct1 [OF A] by blast
  note A = conjunct2 [OF A]
  show "evp_update E p n c = Some (c', out) \<Longrightarrow> vw_ct (v c) = [] \<Longrightarrow>
      out = g_crypt G (vw_key (v c)) (vw_nonce (v c)) (take (unat n) p) \<and> v c' = (v c)\<lparr>vw_ct := (if enc then out else take (unat n) p)\<rparr>"
    using conjunct1 [OF A] by blast
  note A = conjunct2 [OF A]
  show "evp_set_tag E m p c = Some c' \<Longrightarrow> v c' = (v c)\<lparr>vw_tag := take m p\<rparr>" using conjunct1 [OF A] by blast
  note A = conjunct2 [OF A]
  show "evp_final E c = Some (c', out) \<Longrightarrow> out = [] \<and> v c' = v c \<and> (enc \<or> vw_tag (v c) = view_tag G (v c))"
    using conjunct1 [OF A] by blast
  show "evp_get_tag E m c = Some p \<Longrightarrow> p = take m (view_tag G (v c))" using conjunct2 [OF A] by blast
qed

lemma setup_view:
  assumes "evp_ok enc G v E" "evp_setup E key nonce aad = Some c" "short nonce" "short aad"
  shows "\<exists>l. v c = \<lparr>vw_ivlen = l, vw_key = take 32 key, vw_nonce = nonce, vw_aad = aad, vw_ct = [], vw_tag = []\<rparr>"
proof -
  obtain a b d where steps: "evp_ivlen E (len32 nonce) a = Some b" "evp_key E key nonce b = Some d"
    "(if aad \<noteq> [] then evp_aad E aad (len32 aad) d else Some d) = Some c"
    using assms(2) by (auto simp: evp_setup_def bind_eq_Some_conv)
  have b: "vw_ivlen (v b) = length nonce" using evp_okD(1) [OF assms(1) steps(1)] assms(3) by simp
  then have d: "v d = \<lparr>vw_ivlen = length nonce, vw_key = take 32 key, vw_nonce = nonce, vw_aad = [], vw_ct = [], vw_tag = []\<rparr>"
    using evp_okD(2) [OF assms(1) steps(2)] by simp
  show ?thesis
  proof (cases "aad = []")
    case False
    then have "v c = (v d)\<lparr>vw_aad := vw_aad (v d) @ take (unat (len32 aad)) aad\<rparr>"
      using evp_okD(3) [OF assms(1), of aad "len32 aad" d c] steps(3) by simp
    then show ?thesis using d assms(4) by simp
  qed (use d steps(3) in simp)
qed

lemma text_view:
  assumes "evp_ok enc G v E" "gcm_ok G" "evp_text E p c = Some (c', out)" "short p" "vw_ct (v c) = []"
  shows "out = g_crypt G (vw_key (v c)) (vw_nonce (v c)) p" "v c' = (v c)\<lparr>vw_ct := (if enc then out else p)\<rparr>"
proof -
  have up: "out = g_crypt G (vw_key (v c)) (vw_nonce (v c)) (take (unat (len32 p)) p)
      \<and> v c' = (v c)\<lparr>vw_ct := (if enc then out else take (unat (len32 p)) p)\<rparr>" if "p \<noteq> []"
    using evp_okD(4) [OF assms(1), of p "len32 p" c c' out] assms(3,5) that unfolding evp_text_def by simp
  have nil: "c' = c \<and> out = []" if "p = []" using assms(3) that by (simp add: evp_text_def)
  show "out = g_crypt G (vw_key (v c)) (vw_nonce (v c)) p" using up nil assms(2,4) by (cases "p = []") simp_all
  show "v c' = (v c)\<lparr>vw_ct := (if enc then out else p)\<rparr>" using up nil assms(4,5) by (cases "p = []") simp_all
qed

lemma posix_encrypts:
  assumes "evp_ok True G v E" "gcm_ok G" "short nonce" "short aad" "short pt"
    and "posix_aesGcmEncrypt E key nonce aad pt = Some (ct, tag)"
  shows "ct = g_crypt G (take 32 key) nonce pt \<and> tag = g_tag G (take 32 key) nonce aad ct"
proof -
  obtain c d out e rest where steps: "evp_setup E key nonce aad = Some c" "evp_text E pt c = Some (d, out)"
    "evp_final E d = Some (e, rest)" "evp_get_tag E 16 e = Some tag" "ct = out @ rest"
    using assms(6) by (auto simp: posix_aesGcmEncrypt_def bind_eq_Some_conv)
  obtain l where c: "v c = \<lparr>vw_ivlen = l, vw_key = take 32 key, vw_nonce = nonce, vw_aad = aad, vw_ct = [], vw_tag = []\<rparr>"
    using setup_view [OF assms(1) steps(1) assms(3,4)] by blast
  have d: "out = g_crypt G (take 32 key) nonce pt" "v d = (v c)\<lparr>vw_ct := out\<rparr>"
    using text_view [OF assms(1,2) steps(2) assms(5)] c by simp_all
  have e: "rest = []" "v e = v d" using evp_okD(6) [OF assms(1) steps(3)] by simp_all
  have "tag = take 16 (view_tag G (v e))" using evp_okD(7) [OF assms(1) steps(4)] .
  then show ?thesis using c d e steps(5) assms(2) by (simp add: view_tag_def gcm_ok_def)
qed

lemma posix_decrypts:
  assumes "evp_ok False G v E" "gcm_ok G" "short nonce" "short aad" "short ct" "length tag = 16"
    and "posix_aesGcmDecrypt E key nonce aad ct tag = (ok, pt)"
  shows "ok \<longrightarrow> pt = g_crypt G (take 32 key) nonce ct \<and> tag = g_tag G (take 32 key) nonce aad ct"
    "\<not> ok \<longrightarrow> pt = [] \<or> pt = g_crypt G (take 32 key) nonce ct"
proof -
  have d: "out = g_crypt G (take 32 key) nonce ct
      \<and> (\<exists>l. v d = \<lparr>vw_ivlen = l, vw_key = take 32 key, vw_nonce = nonce, vw_aad = aad, vw_ct = ct, vw_tag = []\<rparr>)"
    if st: "evp_setup E key nonce aad = Some c" "evp_text E ct c = Some (d, out)" for c d out
  proof -
    obtain l where c: "v c = \<lparr>vw_ivlen = l, vw_key = take 32 key, vw_nonce = nonce, vw_aad = aad, vw_ct = [], vw_tag = []\<rparr>"
      using setup_view [OF assms(1) st(1) assms(3,4)] by blast
    show ?thesis using text_view [OF assms(1,2) st(2) assms(5)] c by simp
  qed
  have tagged: "out = [] \<and> tag = view_tag G ((v c)\<lparr>vw_tag := tag\<rparr>)"
    if "evp_set_tag E 16 tag c = Some d" "evp_final E d = Some (e, out)" for c d e out
  proof -
    have "v d = (v c)\<lparr>vw_tag := tag\<rparr>" using evp_okD(5) [OF assms(1) that(1)] assms(6) by simp
    moreover have "out = [] \<and> vw_tag (v d) = view_tag G (v d)" using evp_okD(6) [OF assms(1) that(2)] by simp
    ultimately show ?thesis by simp
  qed
  show "ok \<longrightarrow> pt = g_crypt G (take 32 key) nonce ct \<and> tag = g_tag G (take 32 key) nonce aad ct"
  proof
    assume ok
    then obtain c d out e f rest where steps: "evp_setup E key nonce aad = Some c" "evp_text E ct c = Some (d, out)"
      "evp_set_tag E 16 tag d = Some e" "evp_final E e = Some (f, rest)" "pt = out @ rest"
      using assms(7) by (auto simp: posix_aesGcmDecrypt_def bind_eq_Some_conv split: option.splits)
    show "pt = g_crypt G (take 32 key) nonce ct \<and> tag = g_tag G (take 32 key) nonce aad ct"
      using d [OF steps(1,2)] tagged [OF steps(3,4)] steps(5) by (auto simp: view_tag_def)
  qed
  show "\<not> ok \<longrightarrow> pt = [] \<or> pt = g_crypt G (take 32 key) nonce ct"
    using assms(7) d by (auto simp: posix_aesGcmDecrypt_def bind_eq_Some_conv split: option.splits)
qed

lemma win_encrypts:
  assumes "cng_ok G keyOf N" "win_aesGcmEncrypt N key nonce aad pt = Some (ct, tag)" "short nonce" "short aad" "short pt"
  shows "ct = g_crypt G (take 32 key) nonce pt \<and> tag = g_tag G (take 32 key) nonce aad ct"
proof -
  obtain k where k: "cng_key N (take 32 key) = Some k"
    and enc: "cng_encrypt N k \<lparr>ai_nonce = nonce, ai_aad = aad, ai_tag = replicate 16 0\<rparr> pt = Some (ct, tag)"
    using assms(2-5) by (auto simp: win_aesGcmEncrypt_def win_aesGcm_def split: if_splits option.splits)
  have "keyOf k = take 32 key" using assms(1) k unfolding cng_ok_def by blast
  then show ?thesis using assms(1) enc unfolding cng_ok_def by fastforce
qed

lemma win_decrypts:
  assumes "cng_ok G keyOf N" "win_aesGcmDecrypt N key nonce aad ct tag = (ok, pt)" "short nonce" "short aad" "short ct" "length tag = 16"
  shows "ok \<longrightarrow> pt = g_crypt G (take 32 key) nonce ct \<and> tag = g_tag G (take 32 key) nonce aad ct" "\<not> ok \<longrightarrow> pt = []"
proof -
  show "ok \<longrightarrow> pt = g_crypt G (take 32 key) nonce ct \<and> tag = g_tag G (take 32 key) nonce aad ct"
  proof
    assume ok
    then obtain k where k: "cng_key N (take 32 key) = Some k"
      and dec: "cng_decrypt N k \<lparr>ai_nonce = nonce, ai_aad = aad, ai_tag = tag\<rparr> ct = Some pt"
      using assms(2-6) by (auto simp: win_aesGcmDecrypt_def win_aesGcm_def split: if_splits option.splits)
    have "keyOf k = take 32 key" using assms(1) k unfolding cng_ok_def by blast
    then show "pt = g_crypt G (take 32 key) nonce ct \<and> tag = g_tag G (take 32 key) nonce aad ct"
      using assms(1) dec unfolding cng_ok_def by fastforce
  qed
  show "\<not> ok \<longrightarrow> pt = []" using assms(2) by (auto simp: win_aesGcmDecrypt_def split: option.splits)
qed

lemma evp_worksD:
  assumes "evp_works enc G v E"
  shows "evp_new E \<noteq> None" "evp_cipher E c \<noteq> None" "0 < n \<Longrightarrow> n < 2 ^ 31 \<Longrightarrow> evp_ivlen E n c \<noteq> None"
    "evp_key E k iv c \<noteq> None" "n < 2 ^ 31 \<Longrightarrow> evp_aad E a n c \<noteq> None" "n < 2 ^ 31 \<Longrightarrow> evp_update E p n c \<noteq> None"
    "evp_set_tag E m t c \<noteq> None" "evp_get_tag E m c \<noteq> None"
    "enc \<or> vw_tag (v c) = view_tag G (v c) \<Longrightarrow> evp_final E c \<noteq> None"
  using assms unfolding evp_works_def by blast+

lemma setup_works:
  assumes "evp_works enc G v E" "nonce \<noteq> []" "short nonce" "short aad"
  shows "\<exists>c. evp_setup E key nonce aad = Some c"
proof -
  have "0 < len32 nonce" using unat_len32 [OF assms(3)] assms(2) by (simp add: word_less_nat_alt)
  then have iv: "evp_ivlen E (len32 nonce) c \<noteq> None" for c using evp_worksD(3) [OF assms(1)] len32_small [OF assms(3)] by blast
  obtain a b d e where "evp_new E = Some a" "evp_cipher E a = Some b" "evp_ivlen E (len32 nonce) b = Some d" "evp_key E key nonce d = Some e"
    using evp_worksD(1,2,4) [OF assms(1)] iv by (metis option.exhaust)
  moreover obtain f where "evp_aad E aad (len32 aad) e = Some f" using evp_worksD(5) [OF assms(1) len32_small [OF assms(4)]] by blast
  ultimately show ?thesis by (simp add: evp_setup_def)
qed

lemma text_works:
  assumes "evp_works enc G v E" "short p"
  shows "\<exists>d out. evp_text E p c = Some (d, out)"
  using evp_worksD(6) [OF assms(1) len32_small [OF assms(2)], of p c] by (auto simp: evp_text_def)

lemma posix_encrypt_works:
  assumes "evp_works True G v E" "nonce \<noteq> []" "short nonce" "short aad" "short pt"
  shows "\<exists>ct tag. posix_aesGcmEncrypt E key nonce aad pt = Some (ct, tag)"
proof -
  obtain c where c: "evp_setup E key nonce aad = Some c" using setup_works [OF assms(1-4)] by blast
  obtain d out where d: "evp_text E pt c = Some (d, out)" using text_works [OF assms(1,5)] by blast
  obtain e rest where e: "evp_final E d = Some (e, rest)" using evp_worksD(9) [OF assms(1), of d] by auto
  obtain tag where "evp_get_tag E 16 e = Some tag" using evp_worksD(8) [OF assms(1)] by blast
  with c d e show ?thesis by (simp add: posix_aesGcmEncrypt_def)
qed

lemma posix_decrypt_exact:
  assumes "evp_ok False G v E" "evp_works False G v E" "gcm_ok G" "nonce \<noteq> []" "short nonce" "short aad" "short ct" "length tag = 16"
  shows "posix_aesGcmDecrypt E key nonce aad ct tag
    = (tag = g_tag G (take 32 key) nonce aad ct, g_crypt G (take 32 key) nonce ct)"
proof -
  obtain c where c: "evp_setup E key nonce aad = Some c" using setup_works [OF assms(2,4-6)] by blast
  obtain l where vc: "v c = \<lparr>vw_ivlen = l, vw_key = take 32 key, vw_nonce = nonce, vw_aad = aad, vw_ct = [], vw_tag = []\<rparr>"
    using setup_view [OF assms(1) c assms(5,6)] by blast
  obtain d out where d: "evp_text E ct c = Some (d, out)" using text_works [OF assms(2,7)] by blast
  note vd = text_view [OF assms(1,3) d assms(7)]
  obtain e where e: "evp_set_tag E 16 tag d = Some e" using evp_worksD(7) [OF assms(2)] by blast
  have ve: "v e = (v d)\<lparr>vw_tag := tag\<rparr>" using evp_okD(5) [OF assms(1) e] assms(8) by simp
  have good: "vw_tag (v e) = view_tag G (v e) \<longleftrightarrow> tag = g_tag G (take 32 key) nonce aad ct"
    using vc vd ve by (simp add: view_tag_def)
  show ?thesis
  proof (cases "evp_final E e")
    case None
    then have "tag \<noteq> g_tag G (take 32 key) nonce aad ct" using evp_worksD(9) [OF assms(2), of e] good by blast
    then show ?thesis using c d e None vc vd(1) by (simp add: posix_aesGcmDecrypt_def)
  next
    case (Some r)
    obtain f rest where r: "r = (f, rest)" by force
    have "rest = [] \<and> tag = g_tag G (take 32 key) nonce aad ct" using evp_okD(6) [OF assms(1) Some [unfolded r]] good by blast
    then show ?thesis using c d e Some r vc vd(1) by (simp add: posix_aesGcmDecrypt_def)
  qed
qed

lemma win_encrypt_works:
  assumes "cng_works G keyOf N" "length key = 32" "length nonce = 12"
  shows "\<exists>ct tag. win_aesGcmEncrypt N key nonce aad pt = Some (ct, tag)"
proof -
  obtain k where "cng_key N key = Some k" using assms(1,2) unfolding cng_works_def by blast
  moreover have "cng_encrypt N k \<lparr>ai_nonce = nonce, ai_aad = cut32 aad, ai_tag = replicate 16 0\<rparr> (cut32 pt) \<noteq> None" for k
    using assms(1,3) unfolding cng_works_def by simp
  ultimately show ?thesis using assms by (auto simp: win_aesGcmEncrypt_def win_aesGcm_def cng_works_def)
qed

lemma win_decrypt_exact:
  assumes "cng_ok G keyOf N" "cng_works G keyOf N" "length key = 32" "length nonce = 12" "short aad" "short ct" "length tag = 16"
  shows "win_aesGcmDecrypt N key nonce aad ct tag
    = (if tag = g_tag G key nonce aad ct then (True, g_crypt G key nonce ct) else (False, []))"
proof -
  obtain k where k: "cng_key N key = Some k" "keyOf k = key"
    using assms(1-3) unfolding cng_works_def cng_ok_def by blast
  let ?i = "\<lparr>ai_nonce = nonce, ai_aad = aad, ai_tag = tag\<rparr>"
  have "cng_decrypt N k ?i ct \<noteq> None" if "tag = g_tag G key nonce aad ct"
    using assms(2,4) k(2) that unfolding cng_works_def by simp
  moreover have "p = g_crypt G key nonce ct \<and> tag = g_tag G key nonce aad ct" if "cng_decrypt N k ?i ct = Some p" for p
    using assms(1) k(2) that unfolding cng_ok_def by fastforce
  ultimately have "cng_decrypt N k ?i ct = (if tag = g_tag G key nonce aad ct then Some (g_crypt G key nonce ct) else None)"
    by (cases "cng_decrypt N k ?i ct") auto
  then show ?thesis using assms k(1) by (simp add: win_aesGcmDecrypt_def win_aesGcm_def cng_works_def)
qed

text \<open>
  AES-256-GCM of the two backends is one function: both seal to the same ciphertext and
  tag, what either sealed either opens to the same text, and given any ciphertext and tag both accept it
  or both refuse it.  On a refusal the Windows code writes nothing, while the OpenSSL code has
  already left the unauthenticated plaintext in the caller's buffer.
\<close>

theorem gcm_interop:
  assumes "gcm_ok G" "evp_ok True G ve E" "evp_works True G ve E" "evp_ok False G vd D" "evp_works False G vd D"
    and "cng_ok G keyOf N" "cng_works G keyOf N"
    and "length key = 32" "length nonce = 12" "length aad < 2 ^ 31" "length pt < 2 ^ 31" "length ct' < 2 ^ 31" "length tag' = 16"
  shows "(\<exists>ct tag. posix_aesGcmEncrypt E key nonce aad pt = Some (ct, tag) \<and> win_aesGcmEncrypt N key nonce aad pt = Some (ct, tag)
      \<and> length ct = length pt \<and> length tag = 16
      \<and> posix_aesGcmDecrypt D key nonce aad ct tag = (True, pt) \<and> win_aesGcmDecrypt N key nonce aad ct tag = (True, pt))
    \<and> fst (posix_aesGcmDecrypt D key nonce aad ct' tag') = fst (win_aesGcmDecrypt N key nonce aad ct' tag')
    \<and> snd (posix_aesGcmDecrypt D key nonce aad ct' tag') = g_crypt G key nonce ct'
    \<and> snd (win_aesGcmDecrypt N key nonce aad ct' tag')
        = (if fst (win_aesGcmDecrypt N key nonce aad ct' tag') then g_crypt G key nonce ct' else [])"
proof -
  have key: "take 32 key = key" and nonce: "nonce \<noteq> []" "short nonce" using assms(8,9) by auto
  note posix = posix_decrypt_exact [OF assms(4,5,1) nonce assms(10), where key = key, unfolded key]
  note win = win_decrypt_exact [OF assms(6-10)]
  let ?ct = "g_crypt G key nonce pt" and ?tag = "g_tag G key nonce aad (g_crypt G key nonce pt)"
  have len: "length ?ct = length pt" "length ?tag = 16" "g_crypt G key nonce ?ct = pt"
    using assms(1) unfolding gcm_ok_def by blast+
  have "posix_aesGcmEncrypt E key nonce aad pt = Some (?ct, ?tag)"
    using posix_encrypt_works [OF assms(3) nonce assms(10,11), of key] posix_encrypts [OF assms(2,1) nonce(2) assms(10,11), of key] key by auto
  moreover have "win_aesGcmEncrypt N key nonce aad pt = Some (?ct, ?tag)"
    using win_encrypt_works [OF assms(7-9), of aad pt] win_encrypts [OF assms(6) _ nonce(2) assms(10,11), of key] key by auto
  moreover have "posix_aesGcmDecrypt D key nonce aad ?ct ?tag = (True, pt)" "win_aesGcmDecrypt N key nonce aad ?ct ?tag = (True, pt)"
    using posix [of ?ct ?tag] win [of ?ct ?tag] assms(11) len by simp_all
  ultimately show ?thesis
    using len posix [of ct' tag'] win [of ct' tag'] assms(12,13) by simp
qed

text \<open>A toy cipher, and both libraries over it.\<close>

definition toy_gcm :: gcm where
  "toy_gcm = \<lparr>g_crypt = (\<lambda>k n d. map (\<lambda>b. b XOR hd k XOR hd n) d), g_tag = (\<lambda>k n a c. replicate 16 (hd k + sum_list a + 3 * sum_list c))\<rparr>"

definition toy_evp :: "bool \<Rightarrow> evp_view evp" where
  "toy_evp enc = \<lparr>evp_new = Some \<lparr>vw_ivlen = 12, vw_key = [], vw_nonce = [], vw_aad = [], vw_ct = [], vw_tag = []\<rparr>,
     evp_cipher = Some, evp_ivlen = (\<lambda>n c. Some (c\<lparr>vw_ivlen := unat n\<rparr>)),
     evp_key = (\<lambda>k iv c. Some \<lparr>vw_ivlen = vw_ivlen c, vw_key = take 32 k, vw_nonce = take (vw_ivlen c) iv, vw_aad = [], vw_ct = [], vw_tag = []\<rparr>),
     evp_aad = (\<lambda>a n c. Some (c\<lparr>vw_aad := vw_aad c @ take (unat n) a\<rparr>)),
     evp_update = (\<lambda>p n c. let out = g_crypt toy_gcm (vw_key c) (vw_nonce c) (take (unat n) p) in
        Some (c\<lparr>vw_ct := (if enc then out else take (unat n) p)\<rparr>, out)),
     evp_final = (\<lambda>c. if enc \<or> vw_tag c = view_tag toy_gcm c then Some (c, []) else None),
     evp_get_tag = (\<lambda>n c. Some (take n (view_tag toy_gcm c))), evp_set_tag = (\<lambda>n t c. Some (c\<lparr>vw_tag := take n t\<rparr>))\<rparr>"

definition toy_cng :: "bytes cng" where
  "toy_cng = \<lparr>cng_open = True, cng_gcm_mode = True, cng_key = Some,
     cng_encrypt = (\<lambda>k i p. let ct = g_crypt toy_gcm k (ai_nonce i) p in Some (ct, g_tag toy_gcm k (ai_nonce i) (ai_aad i) ct)),
     cng_decrypt = (\<lambda>k i ct. if ai_tag i = g_tag toy_gcm k (ai_nonce i) (ai_aad i) ct then Some (g_crypt toy_gcm k (ai_nonce i) ct) else None)\<rparr>"

lemma toy_gcm_ok: "gcm_ok toy_gcm"
  by (simp add: gcm_ok_def toy_gcm_def comp_def xor.assoc xor.left_commute)

lemma toy_evp_ok: "evp_ok enc toy_gcm (\<lambda>v. v) (toy_evp enc)" "evp_works enc toy_gcm (\<lambda>v. v) (toy_evp enc)"
  by (auto simp: evp_ok_def evp_works_def toy_evp_def Let_def)

lemma toy_cng_ok: "cng_ok toy_gcm (\<lambda>k. k) toy_cng" "cng_works toy_gcm (\<lambda>k. k) toy_cng"
  by (auto simp: cng_ok_def cng_works_def toy_cng_def Let_def)

theorem gcm_interop_witness:
  "\<exists>ct tag. posix_aesGcmEncrypt (toy_evp True) (replicate 32 7) (replicate 12 9) [5] [1, 2, 3] = Some (ct, tag)
    \<and> win_aesGcmDecrypt toy_cng (replicate 32 7) (replicate 12 9) [5] ct tag = (True, [1, 2, 3])"
  using gcm_interop [OF toy_gcm_ok toy_evp_ok [of True] toy_evp_ok [of False] toy_cng_ok _ _ _ _ _ _, of "replicate 32 7" "replicate 12 9" "[5]" "[1, 2, 3]" "[]" "replicate 16 0"]
  by auto

text \<open>
  A hash call that fails gives a digest of zeros with no sign of the failure: both ends of such a
  machine then agree on any commitment.
\<close>

lemma hash_failure: "win_sha256 (\<lambda>_. None) p = replicate 32 0" "posix_sha256 (\<lambda>_. None) p = replicate 32 0"
  by (simp_all add: win_sha256_def posix_sha256_def digest_of_def)

text \<open>On texts shorter than four gigabytes the two hashes are the system's; a longer one the Windows code cuts.\<close>

lemma hashes_agree:
  assumes "\<And>q. hash q = Some (digest q)" "length p < 2 ^ 32"
  shows "win_sha256 hash p = digest p \<and> posix_sha256 hash p = digest p \<and> win_sha1 hash p = digest p \<and> posix_sha1 hash p = digest p"
  using assms by (simp add: win_sha256_def posix_sha256_def win_sha1_def posix_sha1_def digest_of_def cut32_def len32_def unat_of_nat take_bit_nat_eq_self)

section \<open>Handles\<close>

datatype cng_handle = HAlg | HKey | HMine | HPeer | HSecret

datatype cng_call = OpenAlgorithm | SetChaining | GenerateSymmetric | Crypt | GeneratePair | FinalizePair | SizePublic | ExportPublic
  | PublicLongEnough | SizePrivate | ExportPrivate | ImportMine | ImportPeer | Agree | SizeSecret | SecretIs32 | DeriveSecret

definition with_alg :: "(cng_call \<Rightarrow> bool) \<Rightarrow> (cng_call \<times> cng_handle list \<times> cng_handle option) list \<Rightarrow> cng_handle list \<Rightarrow> bool \<times> cng_handle event list" where
  "with_alg ok steps hs = (if \<not> ok OpenAlgorithm then (False, [])
     else case chain ok steps of (r, t) \<Rightarrow> (r, Got HAlg # t @ release hs t @ [Freed HAlg]))"

definition win_gcm_calls :: "(cng_call \<Rightarrow> bool) \<Rightarrow> bool \<times> cng_handle event list" where
  "win_gcm_calls ok = with_alg ok [(SetChaining, [HAlg], None), (GenerateSymmetric, [HAlg], Some HKey), (Crypt, [HKey], None)] [HKey]"

definition win_generate_calls :: "(cng_call \<Rightarrow> bool) \<Rightarrow> bool \<times> cng_handle event list" where
  "win_generate_calls ok = with_alg ok
     [(GeneratePair, [HAlg], Some HKey), (FinalizePair, [HKey], None), (SizePublic, [HKey], None), (ExportPublic, [HKey], None),
      (PublicLongEnough, [], None), (SizePrivate, [HKey], None), (ExportPrivate, [HKey], None)] [HKey]"

definition win_shared_calls :: "(cng_call \<Rightarrow> bool) \<Rightarrow> bool \<times> cng_handle event list" where
  "win_shared_calls ok = with_alg ok
     [(ImportMine, [HAlg], Some HMine), (ImportPeer, [HAlg], Some HPeer), (Agree, [HMine, HPeer], Some HSecret), (SizeSecret, [HSecret], None),
      (SecretIs32, [], None), (DeriveSecret, [HSecret], None)] [HSecret, HPeer, HMine]"

datatype ossl_handle = Ctx | EcKey | BnX | BnY | BnPriv | BnSx | PtPeer | PtSecret

datatype ossl_call = New ossl_handle | InitCipher | SetIvLen | InitKey | UpdateAad | UpdateText | Final | GcmTag
  | GenerateKey | PubCoordinates | SetPrivate | SetCoordinates | OnCurve | Mul | SecretCoordinate

text \<open>Allocations that are all tried before any is looked at.\<close>

definition allocs :: "(ossl_call \<Rightarrow> bool) \<Rightarrow> ossl_handle list \<Rightarrow> ossl_handle event list" where
  "allocs ok hs = map Got (filter (\<lambda>h. ok (New h)) hs)"

definition all_made :: "(ossl_call \<Rightarrow> bool) \<Rightarrow> ossl_handle list \<Rightarrow> bool" where
  "all_made ok hs = list_all (\<lambda>h. ok (New h)) hs"

text \<open>One cipher context; the data and the additional data may be empty, the tag is set before the final call or read after it.\<close>

definition posix_gcm_calls :: "bool \<Rightarrow> bool \<Rightarrow> bool \<Rightarrow> (ossl_call \<Rightarrow> bool) \<Rightarrow> bool \<times> ossl_handle event list" where
  "posix_gcm_calls enc has_aad has_text ok = (if \<not> ok (New Ctx) then (False, [])
     else case chain ok ([(InitCipher, [Ctx], None), (SetIvLen, [Ctx], None), (InitKey, [Ctx], None)]
         @ (if has_aad then [(UpdateAad, [Ctx], None)] else []) @ (if has_text then [(UpdateText, [Ctx], None)] else [])
         @ (if enc then [(Final, [Ctx], None), (GcmTag, [Ctx], None)] else [(GcmTag, [Ctx], None), (Final, [Ctx], None)])) of
       (r, t) \<Rightarrow> (r, Got Ctx # t @ [Freed Ctx]))"

definition posix_generate_calls :: "(ossl_call \<Rightarrow> bool) \<Rightarrow> bool \<times> ossl_handle event list" where
  "posix_generate_calls ok =
     (let made = allocs ok [EcKey, BnX, BnY];
          (r, t) = (if all_made ok [EcKey, BnX, BnY] then chain ok [(GenerateKey, [EcKey], None), (PubCoordinates, [EcKey, BnX, BnY], None)] else (False, []))
      in (r, made @ t @ release [BnX, BnY, EcKey] made))"

definition posix_shared_calls :: "(ossl_call \<Rightarrow> bool) \<Rightarrow> bool \<times> ossl_handle event list" where
  "posix_shared_calls ok =
     (let five = [EcKey, BnPriv, BnX, BnY, BnSx]; made = allocs ok five;
          pts = (if all_made ok five then allocs ok [PtPeer, PtSecret] else []);
          (r, t) = (if all_made ok (five @ [PtPeer, PtSecret]) then chain ok
             [(SetPrivate, [EcKey, BnPriv], None), (SetCoordinates, [EcKey, PtPeer, BnX, BnY], None), (OnCurve, [EcKey, PtPeer], None),
              (Mul, [EcKey, PtSecret, PtPeer, BnPriv], None), (SecretCoordinate, [EcKey, PtSecret, BnSx], None)] else (False, []))
      in (r, made @ pts @ t @ release [PtPeer, PtSecret, BnPriv, BnX, BnY, BnSx, EcKey] (made @ pts)))"

lemma with_alg_balanced:
  assumes "fits [HAlg] ss" "distinct (makes ss)" "set (makes ss) \<subseteq> set hs" "distinct hs"
  shows "well_used [] (snd (with_alg ok ss hs))"
proof -
  let ?t = "snd (chain ok ss)"
  obtain rest where "makes ss = got ?t @ rest" using got_chain by blast
  then have d: "distinct (got ?t)" "set (got ?t) \<subseteq> set hs" using assms(2,3) by auto
  show ?thesis
    using well_used_chain [OF assms(1), of ok] released_all(2) [OF d(1) assms(4) d(2)]
    by (simp add: with_alg_def split_beta)
qed

lemma allocs_filter: "allocs ok hs = map Got (filter (\<lambda>h. ok (New h)) hs)" "all_made ok hs \<Longrightarrow> allocs ok hs = map Got hs"
  by (simp_all add: allocs_def all_made_def list_all_iff)

text \<open>
  C24. No path of either backend leaks a handle, uses one it does not have or releases one
  twice, whichever of the system's calls fail: sealing, opening, generating a key pair and
  computing the shared secret.
\<close>

theorem handles_released:
  "well_used [] (snd (win_gcm_calls ok)) \<and> well_used [] (snd (win_generate_calls ok)) \<and> well_used [] (snd (win_shared_calls ok))
   \<and> well_used [] (snd (posix_gcm_calls enc has_aad has_text ok')) \<and> well_used [] (snd (posix_generate_calls ok'))
   \<and> well_used [] (snd (posix_shared_calls ok'))"
proof (intro conjI)
  show "well_used [] (snd (win_gcm_calls ok))" "well_used [] (snd (win_generate_calls ok))" "well_used [] (snd (win_shared_calls ok))"
    unfolding win_gcm_calls_def win_generate_calls_def win_shared_calls_def by (rule with_alg_balanced; simp add: makes_def)+
  show "well_used [] (snd (posix_gcm_calls enc has_aad has_text ok'))"
  proof -
    let ?ss = "[(InitCipher, [Ctx], None), (SetIvLen, [Ctx], None), (InitKey, [Ctx], None)]
         @ (if has_aad then [(UpdateAad, [Ctx], None)] else []) @ (if has_text then [(UpdateText, [Ctx], None)] else [])
         @ (if enc then [(Final, [Ctx], None), (GcmTag, [Ctx], None)] else [(GcmTag, [Ctx], None), (Final, [Ctx], None)])"
    have "fits [Ctx] ?ss" "makes ?ss = []" by (simp_all add: makes_def)
    then show ?thesis using well_used_chain [of "[Ctx]" ?ss ok' "[Freed Ctx]"] chain_no_made [of ?ss ok']
      unfolding posix_gcm_calls_def by (simp add: split_beta del: chain.simps fits.simps)
  qed
  show "well_used [] (snd (posix_generate_calls ok'))"
  proof (cases "all_made ok' [EcKey, BnX, BnY]")
    case True
    then show ?thesis
      using eager_balanced [of "[EcKey, BnX, BnY]" "[BnX, BnY, EcKey]" "[(GenerateKey, [EcKey], None), (PubCoordinates, [EcKey, BnX, BnY], None)]" ok']
      unfolding posix_generate_calls_def by (simp add: allocs_filter(2) Let_def split_beta makes_def del: chain.simps)
  next
    case False
    have "set (filter (\<lambda>h. ok' (New h)) [EcKey, BnX, BnY]) \<subseteq> set [BnX, BnY, EcKey]" by (rule subset_trans [OF filter_is_subset]) simp
    from eager_balanced [OF _ _ this, of "[]"] False show ?thesis
      unfolding posix_generate_calls_def allocs_filter(1) by (simp add: Let_def split_beta makes_def del: filter.simps)
  qed
  show "well_used [] (snd (posix_shared_calls ok'))"
  proof -
    let ?five = "[EcKey, BnPriv, BnX, BnY, BnSx]" and ?hs = "[PtPeer, PtSecret, BnPriv, BnX, BnY, BnSx, EcKey]"
    let ?ss = "[(SetPrivate, [EcKey, BnPriv], None), (SetCoordinates, [EcKey, PtPeer, BnX, BnY], None), (OnCurve, [EcKey, PtPeer], None),
              (Mul, [EcKey, PtSecret, PtPeer, BnPriv], None), (SecretCoordinate, [EcKey, PtSecret, BnSx], None)]"
    let ?gs = "filter (\<lambda>h. ok' (New h)) ?five @ (if all_made ok' ?five then filter (\<lambda>h. ok' (New h)) [PtPeer, PtSecret] else [])"
    let ?run = "if all_made ok' (?five @ [PtPeer, PtSecret]) then ?ss else []"
    have gs: "snd (posix_shared_calls ok') = map Got ?gs @ snd (chain ok' ?run) @ release ?hs (map Got ?gs)"
      unfolding posix_shared_calls_def allocs_filter(1) by (simp add: Let_def split_beta del: filter.simps chain.simps(2) append.simps)
    have "distinct ?gs" "set ?gs \<subseteq> set ?hs" by auto
    moreover have "fits (rev ?gs) ?run" by (simp add: all_made_def)
    ultimately show ?thesis unfolding gs by (intro eager_balanced) (auto simp: makes_def)
  qed
qed

text \<open>The calls succeed as the functions of \<open>CryptoBackends\<close> and of the cipher say: the paths above are theirs.\<close>

definition gcm_outcome :: "'k cng \<Rightarrow> bool \<Rightarrow> bytes \<Rightarrow> auth_info \<Rightarrow> bytes \<Rightarrow> cng_call \<Rightarrow> bool" where
  "gcm_outcome N enc key info inb c = (case c of OpenAlgorithm \<Rightarrow> cng_open N | SetChaining \<Rightarrow> cng_gcm_mode N
     | GenerateSymmetric \<Rightarrow> cng_key N key \<noteq> None
     | _ \<Rightarrow> if enc then cng_encrypt N (the (cng_key N key)) info inb \<noteq> None else cng_decrypt N (the (cng_key N key)) info inb \<noteq> None)"

definition shared_outcome :: "bcrypt \<Rightarrow> EcdhKeyPair \<Rightarrow> bytes \<Rightarrow> cng_call \<Rightarrow> bool" where
  "shared_outcome bc mine peer c =
     (let d = bc_importPrivate bc (privateBlob mine); P = bc_importPublic bc (peer_blob peer); raw = bc_rawSecret bc (the d) (the P) in
      case c of ImportMine \<Rightarrow> d \<noteq> None | ImportPeer \<Rightarrow> P \<noteq> None | SizeSecret \<Rightarrow> raw \<noteq> None | SecretIs32 \<Rightarrow> length (the raw) = 32 | _ \<Rightarrow> True)"

lemma calls_refine:
  "fst (win_gcm_calls (gcm_outcome N enc (take 32 key) \<lparr>ai_nonce = cut32 nonce, ai_aad = cut32 aad, ai_tag = take 16 tag\<rparr> (cut32 inb)))
     \<longleftrightarrow> win_aesGcm N enc key nonce aad inb tag \<noteq> None"
  "length peer = 64 \<Longrightarrow> privateBlob mine \<noteq> [] \<Longrightarrow>
     fst (win_shared_calls (shared_outcome bc mine peer)) \<longleftrightarrow> win_ecdhComputeShared bc mine peer \<noteq> None"
  by (auto simp: win_gcm_calls_def with_alg_def gcm_outcome_def win_aesGcm_def win_shared_calls_def shared_outcome_def win_ecdhComputeShared_def
      Let_def split: option.split)

end
