(* ===== verification/OsServices.thy ===== *)
theory OsServices
  imports Handles MeshNode Handshake
begin

text \<open>
  The small services of the operating system as the program uses them on Windows: the
  text clipboard (\<open>platform/clipboard_win.cpp\<close>) and its part in the clipboard sync of the mesh,
  the code dialog (\<open>pairing/pairing_dialog_win.cpp\<close>), the log (\<open>core/log.cpp\<close>), the Wake-on-LAN
  diagnosis (\<open>platform/wol_diag_win.cpp\<close>) and locking (\<open>platform/lock_win.cpp\<close>).  \<open>wide\<close> and
  \<open>narrow\<close> are the system's UTF-8 conversions.
\<close>

section \<open>Clipboard\<close>

text \<open>A string as the C interfaces see it: up to its first null character.\<close>

definition c_str :: "string \<Rightarrow> string" where
  "c_str s = takeWhile (\<lambda>c. c \<noteq> CHR 0x00) s"

datatype clip_handle = HClip | HMem | HLock

text \<open>Which of the system's calls succeed.\<close>

record clip_calls =
  ck_open :: bool
  ck_alloc :: bool
  ck_lock :: bool
  ck_set :: bool

text \<open>The clipboard holds a null-terminated text or none.  The result, what it holds after, and the events.\<close>

definition win_setClipboardText ::
  "(string \<Rightarrow> u16 list) \<Rightarrow> clip_calls \<Rightarrow> string \<Rightarrow> u16 list option \<Rightarrow> bool \<times> u16 list option \<times> clip_handle event list" where
  "win_setClipboardText wide k s held =
     (let w = wide (c_str s) in
      if \<not> ck_open k then (False, held, [])
      else let (ok, now, t) =
            (if \<not> ck_alloc k then (False, None, [])
             else if \<not> ck_lock k then (False, None, [Got HMem, Freed HMem])
             else if ck_set k then (True, Some (w @ [0]), [Got HMem, Got HLock, Used HLock, Freed HLock, Freed HMem])
             else (False, None, [Got HMem, Got HLock, Used HLock, Freed HLock, Freed HMem]))
        in (ok, now, Got HClip # Used HClip # t @ [Freed HClip]))"

definition win_getClipboardText ::
  "(u16 list \<Rightarrow> string) \<Rightarrow> clip_calls \<Rightarrow> u16 list option \<Rightarrow> string option \<times> clip_handle event list" where
  "win_getClipboardText narrow k held =
     (if \<not> ck_open k then (None, [])
      else let (r, t) = (case held of None \<Rightarrow> (None, [])
            | Some u \<Rightarrow> if ck_lock k then (Some (narrow (takeWhile (\<lambda>x. x \<noteq> 0) u)), [Got HLock, Used HLock, Freed HLock]) else (None, []))
        in (r, Got HClip # Used HClip # t @ [Freed HClip]))"

text \<open>The format's number, zero when registering fails, and the formats on the clipboard.\<close>

definition clipboardExcludedFromMonitoring :: "nat \<Rightarrow> nat set \<Rightarrow> bool" where
  "clipboardExcludedFromMonitoring fmt on_clipboard \<longleftrightarrow> fmt \<noteq> 0 \<and> fmt \<in> on_clipboard"

text \<open>
  The conversions: a converted text has no null in it, and a text that came from the system goes
  back to it unchanged.
\<close>

definition conversions_ok :: "(string \<Rightarrow> u16 list) \<Rightarrow> (u16 list \<Rightarrow> string) \<Rightarrow> bool" where
  "conversions_ok wide narrow \<longleftrightarrow> (\<forall>s. 0 \<notin> set (wide (c_str s))) \<and> (\<forall>u. CHR 0x00 \<notin> set (narrow (takeWhile (\<lambda>x. x \<noteq> 0) u)))
     \<and> (\<forall>u. narrow (wide (narrow (takeWhile (\<lambda>x. x \<noteq> 0) u))) = narrow (takeWhile (\<lambda>x. x \<noteq> 0) u))"

lemma c_str_id: "CHR 0x00 \<notin> set s \<Longrightarrow> c_str s = s"
  unfolding c_str_def by (induction s) auto

lemma c_str_cut: "CHR 0x00 \<notin> set a \<Longrightarrow> c_str (a @ CHR 0x00 # b) = a"
  unfolding c_str_def by (induction a) auto

lemma takeWhile_terminated: "0 \<notin> set w \<Longrightarrow> takeWhile (\<lambda>x. x \<noteq> 0) (w @ [0]) = (w :: u16 list)"
  by (induction w) auto

lemma read_back:
  assumes "conversions_ok wide narrow" "win_setClipboardText wide k s held = (True, now, t)" "ck_open k'" "ck_lock k'"
  shows "fst (win_getClipboardText narrow k' now) = Some (narrow (wide (c_str s)))"
proof -
  have now: "now = Some (wide (c_str s) @ [0])"
    using assms(2) by (auto simp: win_setClipboardText_def Let_def split: if_splits)
  have "0 \<notin> set (wide (c_str s))" using assms(1) unfolding conversions_ok_def by blast
  then show ?thesis using assms(3,4) by (simp add: now win_getClipboardText_def takeWhile_terminated split_beta)
qed

text \<open>
  Every path of the two clipboard calls closes the clipboard and unlocks and frees its
  memory or hands it over; and a failure after the clipboard was opened has already emptied it,
  so the user's own text is lost.
\<close>

theorem clipboard_calls_balanced:
  "well_used [] (snd (snd (win_setClipboardText wide k s held))) \<and> well_used [] (snd (win_getClipboardText narrow k held))
   \<and> (fst (win_setClipboardText wide k s held) \<longleftrightarrow> ck_open k \<and> ck_alloc k \<and> ck_lock k \<and> ck_set k)
   \<and> fst (snd (win_setClipboardText wide k s held)) =
       (if \<not> ck_open k then held else if fst (win_setClipboardText wide k s held) then Some (wide (c_str s) @ [0]) else None)"
  by (cases "ck_open k"; cases "ck_alloc k"; cases "ck_lock k"; cases "ck_set k"; cases held)
     (simp_all add: win_setClipboardText_def win_getClipboardText_def Let_def)

section \<open>The sync over the clipboard\<close>

text \<open>\<open>setClipboardText\<close> on what the node reports, and the change event that follows a change.\<close>

definition apply_remote :: "(string \<Rightarrow> u16 list) \<Rightarrow> clip_calls \<Rightarrow> mesh_out list \<Rightarrow> u16 list option \<Rightarrow> u16 list option" where
  "apply_remote wide k outs held =
     fold (\<lambda>out h. case out of RemoteClipboard t \<Rightarrow> fst (snd (win_setClipboardText wide k t h)) | _ \<Rightarrow> h) outs held"

definition text_changed :: "(u16 list \<Rightarrow> string) \<Rightarrow> clip_calls \<Rightarrow> u16 list option \<Rightarrow> MeshNode \<Rightarrow> MeshNode \<times> mesh_out list" where
  "text_changed narrow k held n =
     (case fst (win_getClipboardText narrow k held) of None \<Rightarrow> (n, []) | Some t \<Rightarrow> onLocalClipboardChange t n)"

text \<open>What a machine does with an announced text: the message handled, the clipboard set, the change event.\<close>

definition receive_text ::
  "(string \<Rightarrow> u16 list) \<Rightarrow> (u16 list \<Rightarrow> string) \<Rightarrow> clip_calls \<Rightarrow> u64 \<Rightarrow> PeerId \<Rightarrow> bytes \<Rightarrow> u16 list option \<Rightarrow> MeshNode \<Rightarrow>
    u16 list option \<times> MeshNode \<times> mesh_out list" where
  "receive_text wide narrow k now from m held n =
     (let (n1, outs) = handle now from m n; held1 = apply_remote wide k outs held; (n2, outs2) = text_changed narrow k held1 n1 in (held1, n2, outs2))"

definition calls_fine :: clip_calls where
  "calls_fine = \<lparr>ck_open = True, ck_alloc = True, ck_lock = True, ck_set = True\<rparr>"

lemma handle_text:
  assumes "payload_fits (to_bytes t)"
  shows "handle now from (encodeVarMessage ClipboardUpdate (to_bytes t)) n
    = (n\<lparr>mn_heartbeat := onHeartbeat from now (mn_heartbeat n), mn_clipboard := noteAppliedRemote t (mn_clipboard n)\<rparr>, [RemoteClipboard t])"
  using decode_var_message [OF _ _ assms, of ClipboardUpdate "[]" emptyMessage]
  by (simp add: handle_def handle_var_def isFixedType_def Let_def)

lemma receive_text_fine:
  assumes "conversions_ok wide narrow" "payload_fits (to_bytes t)"
    and u: "u = narrow (wide (c_str t))"
    and n1: "n1 = n\<lparr>mn_heartbeat := onHeartbeat from now (mn_heartbeat n), mn_clipboard := noteAppliedRemote t (mn_clipboard n)\<rparr>"
  shows "receive_text wide narrow calls_fine now from (encodeVarMessage ClipboardUpdate (to_bytes t)) held n
    = (Some (wide (c_str t) @ [0]), onLocalClipboardChange u n1)"
proof -
  have set: "win_setClipboardText wide calls_fine t held = (True, Some (wide (c_str t) @ [0]),
      Got HClip # Used HClip # [Got HMem, Got HLock, Used HLock, Freed HLock, Freed HMem] @ [Freed HClip])"
    by (simp add: win_setClipboardText_def calls_fine_def Let_def)
  have "fst (win_getClipboardText narrow calls_fine (Some (wide (c_str t) @ [0]))) = Some u"
    unfolding u by (rule read_back [OF assms(1) set]) (simp_all add: calls_fine_def)
  then show ?thesis
    unfolding n1 receive_text_def handle_text [OF assms(2)]
    by (simp add: apply_remote_def text_changed_def set split_beta)
qed


text \<open>A stand-in conversion: one unit per byte, and a question mark for the rest.\<close>

definition toy_wide :: "string \<Rightarrow> u16 list" where
  "toy_wide s = map (\<lambda>c. ucast (byte_of_char c)) s"

definition toy_narrow :: "u16 list \<Rightarrow> string" where
  "toy_narrow u = map (\<lambda>x. char_of_byte (if x < 256 then ucast x else 63)) u"

lemma char_of_byte_0: "char_of_byte b = CHR 0x00 \<longleftrightarrow> b = 0"
proof -
  have "byte_of_char (CHR 0x00) = 0" by (simp add: byte_of_char_def)
  then show ?thesis by (metis byte_of_char_of_byte char_of_byte_of_char)
qed

lemma narrow_byte: "(x :: u16) < 256 \<Longrightarrow> unat (ucast x :: u8) = unat x"
  by (simp add: unsigned_ucast_eq word_less_nat_alt take_bit_nat_eq_self)

lemma byte_bound: "unat (b :: u8) < 256"
proof -
  have "unat b < 2 ^ LENGTH(8)" by (rule unsigned_less)
  then show ?thesis by simp
qed

lemma wide_byte: "unat (ucast (b :: u8) :: u16) = unat b"
  using byte_bound [of b] by (simp add: unsigned_ucast_eq take_bit_nat_eq_self)

lemma byte_nonzero: "(x :: u16) \<noteq> 0 \<Longrightarrow> (if x < 256 then ucast x else 63 :: u8) \<noteq> 0"
  using narrow_byte [of x] unat_eq_zero [of "ucast x :: u8"] unat_eq_zero [of x] by auto

lemma toy_wide_narrow: "toy_narrow (toy_wide s) = s"
proof -
  have "(ucast (b :: u8) :: u16) < 256" for b
    using byte_bound [of b] by (simp add: word_less_nat_alt wide_byte)
  moreover from this have "(ucast (ucast (b :: u8) :: u16) :: u8) = b" for b
    by (intro word_unat_eq_iff [THEN iffD2]) (simp add: narrow_byte wide_byte)
  ultimately show ?thesis by (simp add: toy_wide_def toy_narrow_def comp_def)
qed

lemma toy_conversions: "conversions_ok toy_wide toy_narrow"
proof -
  have "0 \<notin> set (toy_wide (c_str s))" for s
  proof
    assume "0 \<in> set (toy_wide (c_str s))"
    then obtain c where c: "c \<in> set (c_str s)" "(ucast (byte_of_char c) :: u16) = 0" unfolding toy_wide_def by auto
    then have "byte_of_char c = 0" using wide_byte [of "byte_of_char c"] by (simp add: unat_eq_zero)
    then have "c = CHR 0x00" by (metis char_of_byte_0 char_of_byte_of_char)
    then show False using set_takeWhileD [OF c(1) [unfolded c_str_def]] by simp
  qed
  moreover have "CHR 0x00 \<notin> set (toy_narrow (takeWhile (\<lambda>x. x \<noteq> 0) u))" for u
  proof
    assume "CHR 0x00 \<in> set (toy_narrow (takeWhile (\<lambda>x. x \<noteq> 0) u))"
    then obtain x where x: "x \<in> set (takeWhile (\<lambda>x. x \<noteq> 0) u)" "char_of_byte (if x < 256 then ucast x else 63) = CHR 0x00"
      unfolding toy_narrow_def by auto
    then show False using set_takeWhileD [OF x(1)] byte_nonzero [of x] by (simp add: char_of_byte_0)
  qed
  ultimately show ?thesis unfolding conversions_ok_def toy_wide_narrow by blast
qed


section \<open>The code dialog\<close>

text \<open>\<open>ask\<close> is the message box: whether the user answers yes.  The literals are ASCII.\<close>

definition ascii_wide :: "string \<Rightarrow> u16 list" where
  "ascii_wide s = map (\<lambda>c. ucast (byte_of_char c)) s"

abbreviation nl :: string where "nl \<equiv> [CHR 0x0A]"

definition dialog_text :: "u16 list \<Rightarrow> u16 list \<Rightarrow> u16 list" where
  "dialog_text name code = ascii_wide ''Confirm this code matches the one shown on '' @ name @ ascii_wide ('':'' @ nl @ nl @ ''        '')
     @ code @ ascii_wide (nl @ nl @ ''Do the codes match?'')"

definition confirmPairingCode :: "(string \<Rightarrow> u16 list) \<Rightarrow> (u16 list \<Rightarrow> bool) \<Rightarrow> string \<Rightarrow> string \<Rightarrow> bool" where
  "confirmPairingCode wide ask code peerName = ask (dialog_text (wide (c_str peerName)) (wide (c_str code)))"

text \<open>
  The dialog shows the peer's own id, unchecked, before the code.  A machine may therefore
  choose an id of at most 255 bytes, as the exchange allows, with which the dialog begins, whatever the
  real code, exactly like the genuine dialog of another machine and another code.
\<close>

theorem dialog_spoofed:
  assumes "\<And>s. list_all (\<lambda>c. 0 < byte_of_char c \<and> byte_of_char c < 128) s \<Longrightarrow> wide s = ascii_wide s"
    and "list_all (\<lambda>c. 0 < byte_of_char c \<and> byte_of_char c < 128) (claimed @ wanted)" "length claimed + length wanted \<le> 200"
  shows "\<exists>peerName. length peerName \<le> 255
    \<and> (\<forall>code. take (length (dialog_text (wide claimed) (wide wanted))) (dialog_text (wide (c_str peerName)) (wide (c_str code)))
          = dialog_text (wide claimed) (wide wanted))"
proof (intro exI conjI allI)
  let ?name = "claimed @ ('':'' @ nl @ nl @ ''        '') @ wanted @ nl @ nl @ ''Do the codes match?''"
  show "length ?name \<le> 255" using assms(3) by simp
  have ok: "list_all (\<lambda>c. 0 < byte_of_char c \<and> byte_of_char c < 128) ?name" using assms(2) by (simp add: byte_of_char_def)
  have "CHR 0x00 \<notin> set ?name"
  proof
    assume "CHR 0x00 \<in> set ?name"
    then show False using ok unfolding list_all_iff by (metis byte_of_char_of_byte char_of_byte_0 less_irrefl)
  qed
  then have "wide (c_str ?name) = ascii_wide ?name" unfolding c_str_id [OF \<open>CHR 0x00 \<notin> set ?name\<close>] by (intro assms(1) ok)
  moreover have "wide claimed = ascii_wide claimed" "wide wanted = ascii_wide wanted" using assms(1,2) by simp_all
  ultimately have "dialog_text (wide (c_str ?name)) (wide (c_str code))
      = dialog_text (wide claimed) (wide wanted) @ ascii_wide ('':'' @ nl @ nl @ ''        '') @ wide (c_str code) @ ascii_wide (nl @ nl @ ''Do the codes match?'')"
    for code by (simp only: dialog_text_def ascii_wide_def map_append append_assoc)
  then show "take (length (dialog_text (wide claimed) (wide wanted))) (dialog_text (wide (c_str ?name)) (wide (c_str code)))
      = dialog_text (wide claimed) (wide wanted)" for code
    by (simp only: append_eq_conv_conj [symmetric]) (simp only: take_append_exact)
qed

theorem dialog_spoofed_witness:
  "\<exists>peerName. length peerName \<le> 255 \<and>
     take (length (dialog_text (ascii_wide ''desk'') (ascii_wide ''123456''))) (dialog_text (ascii_wide (c_str peerName)) (ascii_wide (c_str ''654321'')))
       = dialog_text (ascii_wide ''desk'') (ascii_wide ''123456'')"
proof -
  have "list_all (\<lambda>c. 0 < byte_of_char c \<and> byte_of_char c < 128) (''desk'' @ ''123456'')" by (simp add: byte_of_char_def)
  from dialog_spoofed [OF refl this] show ?thesis by auto
qed

section \<open>Log\<close>

record log =
  lg_path :: string
  lg_enabled :: bool

definition log_init :: "string \<Rightarrow> log \<Rightarrow> log" where
  "log_init path g = \<lparr>lg_path = path, lg_enabled = (path \<noteq> [])\<rparr>"

text \<open>One line appended; \<open>writable\<close> says whether the file opens, \<open>stamp\<close> is the time as text.\<close>

definition log_write :: "bool \<Rightarrow> string \<Rightarrow> string \<Rightarrow> log \<Rightarrow> (string \<Rightarrow> string) \<Rightarrow> string \<Rightarrow> string" where
  "log_write writable stamp msg g files =
     (if \<not> lg_enabled g then files
      else if \<not> writable then files
      else files(lg_path g := files (lg_path g) @ stamp @ '' '' @ msg @ nl))"

lemma log_only_when_enabled:
  "lg_enabled (log_init path g) \<longleftrightarrow> path \<noteq> []" "log_write writable stamp msg (log_init [] g) files = files"
  "p \<noteq> lg_path g \<Longrightarrow> log_write writable stamp msg g files p = files p"
  by (simp_all add: log_init_def log_write_def)

text \<open>
  A message is written as it is.  Machine ids and names from the network are part of messages, so
  one with a line break in it leaves a line no reader can tell from one the program wrote.
\<close>

lemma log_line_forged:
  "log_write True stamp (msg @ nl @ stamp' @ '' '' @ forged) g files = log_write True stamp' forged g (log_write True stamp msg g files)"
  by (simp add: log_write_def)

section \<open>Wake-on-LAN diagnosis\<close>

text \<open>A command's output comes in pieces, each appended as a C string; \<open>None\<close> when it cannot be run.\<close>

definition runCapture :: "string list option \<Rightarrow> string" where
  "runCapture out = (case out of None \<Rightarrow> [] | Some pieces \<Rightarrow> concat (map c_str pieces))"

definition containsNic :: "string \<Rightarrow> bool" where
  "containsNic s \<longleftrightarrow> find_sub ''Ethernet'' s \<noteq> None \<or> find_sub ''Wi-Fi'' s \<noteq> None \<or> find_sub ''Wireless'' s \<noteq> None
     \<or> find_sub ''Network'' s \<noteq> None \<or> find_sub ''802.11'' s \<noteq> None \<or> find_sub ''NIC'' s \<noteq> None"

record WolStatus =
  nic_supported :: bool
  os_wake_enabled :: bool
  bios_checkable :: bool
  wol_note :: string

definition diagnoseWol :: "string list option \<Rightarrow> string list option \<Rightarrow> WolStatus" where
  "diagnoseWol programmable armed =
     (let nic = containsNic (runCapture programmable); os = containsNic (runCapture armed) in
      \<lparr>nic_supported = nic, os_wake_enabled = os, bios_checkable = False,
       wol_note = (if os then ''A network adapter is armed to wake this PC.''
         else if nic then ''A network adapter can wake this PC, but is not currently armed ''
           @ ''(enable \"Allow this device to wake the computer\").''
         else ''No wake-capable network adapter detected; also check the BIOS/UEFI ''
           @ ''Wake-on-LAN setting and disable Fast Startup.'')\<rparr>)"

text \<open>When the tool cannot be run, the diagnosis says that there is no adapter.\<close>

lemma wol_not_run: "\<not> nic_supported (diagnoseWol None None) \<and> \<not> os_wake_enabled (diagnoseWol None None)"
  by (simp add: diagnoseWol_def runCapture_def containsNic_def Let_def)

section \<open>Locking\<close>

definition lockScreen :: "nat \<Rightarrow> bool" where
  "lockScreen lockWorkStation = (lockWorkStation \<noteq> 0)"

end
