(* ===== verification/Tools.thy ===== *)
theory Tools
  imports Pairing FileTransfer Connections LanSockets
begin

text \<open>
  The command-line drivers of the network tests under \<open>tools/\<close>: \<open>netpair\<close> (two machines derive the same
  code and key), \<open>netfile\<close> (one file is sent and compared) and \<open>netcheck\<close> (the connection
  service and the mesh, with keys forwarded from the dialer to the listener).  The transports and the clock readings
  are parameters; a number that does not parse ends the program by an uncaught exception.
\<close>

section \<open>Arguments\<close>

text \<open>\<open>args\<close> is \<open>argv\<close> without the program's name.\<close>

fun argVal :: "string list \<Rightarrow> string \<Rightarrow> string" where
  "argVal (a # b # rest) flag = (if flag = a then b else argVal (b # rest) flag)"
| "argVal _ flag = []"

text \<open>\<open>std::stoi\<close>: blanks, a sign, digits; \<open>None\<close> is an exception.\<close>

definition sto_int :: "string \<Rightarrow> int option" where
  "sto_int s =
     (let (neg, r) = strip_sign (dropWhile isspace s); ds = takeWhile isDigit r; v = int (digits_value 0 ds) in
      if ds = [] then None else Some (if neg then - v else v))"

definition stoi :: "string \<Rightarrow> int option" where
  "stoi s = (case sto_int s of None \<Rightarrow> None | Some v \<Rightarrow> if - (2 ^ 31) \<le> v \<and> v < 2 ^ 31 then Some v else None)"

text \<open>\<open>std::stoull\<close> takes a sign as well, and negates modulo \<open>2 ^ 64\<close>.\<close>

definition stoull :: "string \<Rightarrow> u64 option" where
  "stoull s = (case sto_int s of None \<Rightarrow> None | Some v \<Rightarrow> if \<bar>v\<bar> < 2 ^ 64 then Some (word_of_int v) else None)"

definition to_port :: "int \<Rightarrow> u16" where "to_port v = word_of_int v"

text \<open>\<open>HOST:PORT\<close> at the last colon; without one the port is 0.\<close>

definition endpoint :: "string \<Rightarrow> (string \<times> u16) option" where
  "endpoint s =
     (if CHR '':'' \<notin> set s then Some (s, 0)
      else let tail = rev (takeWhile (\<lambda>c. c \<noteq> CHR '':'') (rev s)); host = take (length s - length tail - 1) s in
        map_option (\<lambda>v. (host, to_port v)) (stoi tail))"

text \<open>The time limit: 1000 ms times the given seconds, converted to 64 bits.\<close>

definition deadline_of :: "u64 \<Rightarrow> int \<Rightarrow> string \<Rightarrow> u64 option" where
  "deadline_of start seconds sec =
     (if sec = [] then Some (start + word_of_int seconds * 1000)
      else map_option (\<lambda>v. start + word_of_int v * 1000) (stoi sec))"

section \<open>Keys as text\<close>

definition hex_lower :: "nat \<Rightarrow> char" where
  "hex_lower n = ''0123456789abcdef'' ! n"

definition toHex :: "bytes \<Rightarrow> string" where
  "toHex b = concat (map (\<lambda>x. [hex_lower (unat (drop_bit 4 x)), hex_lower (unat (x AND 0xF))]) b)"

fun hex_bytes :: "string \<Rightarrow> bytes option" where
  "hex_bytes [] = Some []"
| "hex_bytes [c] = None"
| "hex_bytes (c # d # r) =
     (case (hex_digit c, hex_digit d) of
        (Some hi, Some lo) \<Rightarrow> map_option (\<lambda>bs. (push_bit 4 (word_of_nat hi) OR word_of_nat lo) # bs) (hex_bytes r)
      | _ \<Rightarrow> None)"

definition parseHexPsk :: "string \<Rightarrow> bytes option" where
  "parseHexPsk hex = (if length hex \<noteq> 64 then None else hex_bytes hex)"

lemma hex_lower_digit: "n < 16 \<Longrightarrow> hex_digit (hex_lower n) = Some n"
proof -
  assume "n < 16"
  have "list_all (\<lambda>n. hex_digit (hex_lower n) = Some n) [0..<16]" by code_simp
  then show ?thesis using \<open>n < 16\<close> by (simp add: list_all_iff)
qed

lemma nibbles: "unat (drop_bit 4 x) < 16" "unat (x AND 0xF) < 16"
  "push_bit 4 (word_of_nat (unat (drop_bit 4 x))) OR word_of_nat (unat (x AND 0xF)) = (x :: u8)"
proof -
  have d: "unat (drop_bit 4 x) = unat x div 16" by (simp add: drop_bit_eq_div unat_div)
  have m: "x AND 0xF = take_bit 4 x" by (simp add: take_bit_eq_mask mask_eq_exp_minus_1)
  have "unat x < 2 ^ LENGTH(8)" by (rule unsigned_less)
  then show "unat (drop_bit 4 x) < 16" using d by simp
  show "unat (x AND 0xF) < 16" unfolding m by (simp add: take_bit_eq_mod unat_mod)
  show "push_bit 4 (word_of_nat (unat (drop_bit 4 x))) OR word_of_nat (unat (x AND 0xF)) = x"
    unfolding m by (rule bit_word_eqI) (auto simp: bit_or_iff bit_push_bit_iff bit_drop_bit_eq bit_take_bit_iff)
qed

lemma hex_bytes_toHex: "hex_bytes (toHex b) = Some b"
proof (induction b)
  case (Cons x b)
  have "toHex (x # b) = hex_lower (unat (drop_bit 4 x)) # hex_lower (unat (x AND 0xF)) # toHex b" by (simp add: toHex_def)
  then show ?case using Cons.IH by (simp only: hex_bytes.simps hex_lower_digit nibbles option.case prod.case option.map)
qed (simp add: toHex_def)

lemma length_toHex: "length (toHex b) = 2 * length b"
  by (induction b) (simp_all add: toHex_def)

text \<open>The key \<open>netpair\<close> prints is the one \<open>netcheck\<close> reads from it.\<close>

lemma psk_text_roundtrip: "length psk = 32 \<Longrightarrow> parseHexPsk (toHex psk) = Some psk"
  by (simp add: parseHexPsk_def length_toHex hex_bytes_toHex)

lemma parsed_psk_length: "parseHexPsk s = Some psk \<Longrightarrow> length psk = 32"
proof -
  have "hex_bytes t = Some bs \<Longrightarrow> length t = 2 * length bs" for t bs
    by (induction t arbitrary: bs rule: hex_bytes.induct) (auto split: option.splits)
  then show "parseHexPsk s = Some psk \<Longrightarrow> length psk = 32" by (force simp: parseHexPsk_def split: if_splits)
qed

section \<open>Connecting\<close>

datatype tool_result =
    Usage
  | Uncaught
  | Failed string
  | Paired string string string
  | FileSent nat bool
  | FileCompared bool nat string
  | Injected string
  | Forwarded string nat

text \<open>What \<open>main\<close> returns; an exception ends the process without a return.\<close>

definition exit_code :: "tool_result \<Rightarrow> nat option" where
  "exit_code r = (case r of Usage \<Rightarrow> Some 2 | Uncaught \<Rightarrow> None | Failed _ \<Rightarrow> Some 1 | Paired _ _ _ \<Rightarrow> Some 0
     | FileSent _ ok \<Rightarrow> Some (if ok then 0 else 1) | FileCompared same _ _ \<Rightarrow> Some (if same then 0 else 1)
     | Injected _ \<Rightarrow> Some 0 | Forwarded _ _ \<Rightarrow> Some 0)"

text \<open>
  The connect loop: a clock reading and what \<open>dial\<close> or the accept gave, per turn; \<open>dial\<close> is tried
  when the program was given an endpoint, which is parsed on every turn.
\<close>

fun establish :: "string \<Rightarrow> u64 \<Rightarrow> (u64 \<times> (string \<Rightarrow> u16 \<Rightarrow> 'r option) \<times> 'r option) list \<Rightarrow> tool_result + 'r" where
  "establish connect deadline [] = Inl (Failed ''no connection'')"
| "establish connect deadline ((now, dial, accepted) # rest) =
     (if \<not> now < deadline then Inl (Failed ''no connection'')
      else if connect \<noteq> [] then
        (case endpoint connect of None \<Rightarrow> Inl Uncaught
         | Some (host, port) \<Rightarrow> (case dial host port of Some t \<Rightarrow> Inr t | None \<Rightarrow> establish connect deadline rest))
      else (case accepted of Some t \<Rightarrow> Inr t | None \<Rightarrow> establish connect deadline rest))"

section \<open>netpair\<close>

text \<open>Waiting for the peer's point: anything but 64 bytes is passed over.\<close>

fun await_point :: "'r transport_ops \<Rightarrow> u64 \<Rightarrow> u64 list \<Rightarrow> 'r \<Rightarrow> (tool_result + bytes) \<times> 'r" where
  "await_point ops deadline [] t = (Inl (Failed ''no peer key''), t)"
| "await_point ops deadline (now # rest) t =
     (if \<not> now < deadline then (Inl (Failed ''no peer key''), t)
      else case op_recv ops 256 t of
          (RecvErr, t') \<Rightarrow> (Inl (Failed ''link dropped''), t')
        | (RecvNone, t') \<Rightarrow> await_point ops deadline rest t'
        | (RecvMsg m, t') \<Rightarrow> if length m = 64 then (Inr m, t') else await_point ops deadline rest t')"

definition netpair_exchange ::
  "pair_crypto \<Rightarrow> 'r transport_ops \<Rightarrow> PeerId \<Rightarrow> PeerId \<Rightarrow> u64 \<Rightarrow> u64 list \<Rightarrow> EcdhHandshake \<Rightarrow> 'r \<Rightarrow> tool_result \<times> 'r" where
  "netpair_exchange pc ops self peer deadline clocks hs t =
     (let t1 = snd (op_send ops (publicPoint (eh_kp hs)) t) in
      case await_point ops deadline clocks t1 of
        (Inl r, t2) \<Rightarrow> (r, t2)
      | (Inr pub, t2) \<Rightarrow>
          (case computeShared pc pub hs of
             (False, _) \<Rightarrow> (Failed ''ecdh'', t2)
           | (True, hs1) \<Rightarrow>
               (case derivePsk pc self peer hs1 of None \<Rightarrow> (Failed ''hkdf'', t2)
                | Some psk \<Rightarrow> (Paired self (eh_plainCode pc hs1) (toHex psk), t2))))"

definition netpair_main ::
  "pair_crypto \<Rightarrow> 'r transport_ops \<Rightarrow> EcdhKeyPair option \<Rightarrow> string list \<Rightarrow> u64 \<Rightarrow>
    (u64 \<times> (string \<Rightarrow> u16 \<Rightarrow> 'r option) \<times> 'r option) list \<Rightarrow> u64 list \<Rightarrow> tool_result \<times> 'r option" where
  "netpair_main pc ops generated args start tries clocks =
     (let self = argVal args ''--self''; peer = argVal args ''--peer''; listen = argVal args ''--listen'';
          connect = argVal args ''--connect''; sec = argVal args ''--seconds'' in
      if self = [] \<or> peer = [] \<or> listen = [] then (Usage, None)
      else case (stoi listen, deadline_of start 30 sec) of
          (Some _, Some deadline) \<Rightarrow>
            (case eh_begin generated newHandshake of
               (False, _) \<Rightarrow> (Failed ''keygen'', None)
             | (True, hs) \<Rightarrow>
                 (case establish connect deadline tries of
                    Inl r \<Rightarrow> (r, None)
                  | Inr t \<Rightarrow> (case netpair_exchange pc ops self peer deadline clocks hs t of (r, t') \<Rightarrow> (r, Some t'))))
        | _ \<Rightarrow> (Uncaught, None))"

text \<open>Idle turns and messages of other lengths, then the point.\<close>

lemma await_point_finds:
  assumes "list_all (\<lambda>e. case e of Idle \<Rightarrow> True | Incoming m \<Rightarrow> length (take 256 m) \<noteq> 64 \<and> m \<noteq> [] | _ \<Rightarrow> False) noise"
    and "length pub = 64" "length clocks > length noise" "list_all (\<lambda>now. now < deadline) clocks"
  shows "await_point raw_ops deadline clocks \<lparr>rl_up = True, rl_in = noise @ Incoming pub # q, rl_out = out\<rparr>
    = (Inr pub, \<lparr>rl_up = True, rl_in = q, rl_out = out\<rparr>)"
  using assms
proof (induction noise arbitrary: clocks)
  case Nil
  then obtain now rest where "clocks = now # rest" by (cases clocks) auto
  then show ?case using Nil by (auto simp: raw_ops_def raw_recv_def recv_of_bytes_def)
next
  case (Cons e noise)
  then obtain now rest where c: "clocks = now # rest" by (cases clocks) auto
  then have "await_point raw_ops deadline rest \<lparr>rl_up = True, rl_in = noise @ Incoming pub # q, rl_out = out\<rparr>
      = (Inr pub, \<lparr>rl_up = True, rl_in = q, rl_out = out\<rparr>)" using Cons by simp
  then show ?case using Cons.prems c
    by (cases e) (auto simp: raw_ops_def raw_recv_def recv_of_bytes_def)
qed

text \<open>
  C15. Two machines running \<open>netpair\<close> against each other, whichever of them dials and
  whatever else arrives first, print the same six digits and the same key, and the key's text is one that
  \<open>netcheck\<close> accepts; each sends nothing but its public point.
\<close>

theorem netpair_agrees:
  assumes "pc_ecdh pcA kpA (publicPoint kpB) = Some s" "pc_ecdh pcB kpB (publicPoint kpA) = Some s"
    and "pc_hmac pcA = pc_hmac pcB" "hmac_ok (pc_hmac pcA)" "length s = 32" "length (publicPoint kpA) = 64" "length (publicPoint kpB) = 64"
    and args: "argVal argsA ''--self'' = a" "argVal argsA ''--peer'' = b" "argVal argsB ''--self'' = b" "argVal argsB ''--peer'' = a" "a \<noteq> []" "b \<noteq> []"
    and ports: "stoi (argVal argsA ''--listen'') \<noteq> None" "stoi (argVal argsB ''--listen'') \<noteq> None"
    and until: "deadline_of startA 30 (argVal argsA ''--seconds'') = Some dA" "deadline_of startB 30 (argVal argsB ''--seconds'') = Some dB"
    and conn: "establish (argVal argsA ''--connect'') dA triesA = Inr \<lparr>rl_up = True, rl_in = noiseA @ Incoming (publicPoint kpB) # qA, rl_out = []\<rparr>"
      "establish (argVal argsB ''--connect'') dB triesB = Inr \<lparr>rl_up = True, rl_in = noiseB @ Incoming (publicPoint kpA) # qB, rl_out = []\<rparr>"
    and noise: "list_all (\<lambda>e. case e of Idle \<Rightarrow> True | Incoming m \<Rightarrow> length (take 256 m) \<noteq> 64 \<and> m \<noteq> [] | _ \<Rightarrow> False) (noiseA @ noiseB)"
    and clocks: "length clA > length noiseA" "length clB > length noiseB" "list_all (\<lambda>now. now < dA) clA" "list_all (\<lambda>now. now < dB) clB"
  shows "\<exists>code key tA tB. netpair_main pcA raw_ops (Some kpA) argsA startA triesA clA = (Paired a code key, Some tA)
    \<and> netpair_main pcB raw_ops (Some kpB) argsB startB triesB clB = (Paired b code key, Some tB)
    \<and> length code = 6 \<and> parseHexPsk key \<noteq> None \<and> rl_out tA = [publicPoint kpA] \<and> rl_out tB = [publicPoint kpB]"
proof -
  let ?psk = "hkdfSha256 (pc_hmac pcA) s (psk_salt a b) (to_bytes ''skittermouse-psk-v1'') 32"
  have psk: "length ?psk = 32" using hkdf_length [OF assms(4)] by simp
  have listen: "argVal argsA ''--listen'' \<noteq> []" "argVal argsB ''--listen'' \<noteq> []"
    using ports by (auto simp: stoi_def sto_int_def strip_sign_def Let_def)
  have exch: "netpair_exchange pc raw_ops x y d cl (newHandshake\<lparr>eh_kp := kp\<rparr>) \<lparr>rl_up = True, rl_in = ns @ Incoming pub # q, rl_out = []\<rparr>
      = (Paired x (plainCode (pc_hmac pc) s) (toHex (hkdfSha256 (pc_hmac pc) s (psk_salt x y) (to_bytes ''skittermouse-psk-v1'') 32)),
         \<lparr>rl_up = True, rl_in = q, rl_out = [publicPoint kp]\<rparr>)"
    if "pc_ecdh pc kp pub = Some s" "length pub = 64" "hmac_ok (pc_hmac pc)" "length cl > length ns" "list_all (\<lambda>now. now < d) cl"
      "list_all (\<lambda>e. case e of Idle \<Rightarrow> True | Incoming m \<Rightarrow> length (take 256 m) \<noteq> 64 \<and> m \<noteq> [] | _ \<Rightarrow> False) ns"
    for pc x y d cl kp ns pub q
    using that await_point_finds [OF that(6,2,4,5), of q "[publicPoint kp]"] assms(5) hkdf_length [OF that(3)]
    by (simp add: netpair_exchange_def raw_ops_def raw_send_def computeShared_def derivePsk_def hasShared_def eh_plainCode_def Let_def)
  have "netpair_main pcA raw_ops (Some kpA) argsA startA triesA clA
      = (Paired a (plainCode (pc_hmac pcA) s) (toHex ?psk), Some \<lparr>rl_up = True, rl_in = qA, rl_out = [publicPoint kpA]\<rparr>)"
    using ports(1) until(1) conn(1) args listen(1) exch [OF assms(1,7,4) clocks(1,3)] noise
    by (auto simp: netpair_main_def eh_begin_def Let_def)
  moreover have "netpair_main pcB raw_ops (Some kpB) argsB startB triesB clB
      = (Paired b (plainCode (pc_hmac pcA) s) (toHex ?psk), Some \<lparr>rl_up = True, rl_in = qB, rl_out = [publicPoint kpB]\<rparr>)"
  proof -
    have "netpair_exchange pcB raw_ops b a dB clB (newHandshake\<lparr>eh_kp := kpB\<rparr>)
        \<lparr>rl_up = True, rl_in = noiseB @ Incoming (publicPoint kpA) # qB, rl_out = []\<rparr>
      = (Paired b (plainCode (pc_hmac pcA) s) (toHex ?psk), \<lparr>rl_up = True, rl_in = qB, rl_out = [publicPoint kpB]\<rparr>)"
      using exch [OF assms(2,6) _ clocks(2,4)] noise assms(3,4) by (simp add: psk_salt_sym [of b a])
    moreover obtain p where "stoi (argVal argsB ''--listen'') = Some p" using ports(2) by blast
    ultimately show ?thesis using until(2) conn(2) args listen(2) by (simp add: netpair_main_def eh_begin_def Let_def)
  qed
  moreover have "length (plainCode (pc_hmac pcA) s) = 6" using six_digits by (simp add: plainCode_def)
  ultimately show ?thesis using psk_text_roundtrip [OF psk] by auto
qed

section \<open>netfile\<close>

definition makeBlob :: "nat \<Rightarrow> bytes" where
  "makeBlob n = map (\<lambda>i. ucast ((word_of_nat i * 31 + 7 :: u64) AND 0xFF)) [0..<n]"

text \<open>The sender stays until the deadline or the peer closes; what it gets is not looked at.\<close>

fun linger :: "'r transport_ops \<Rightarrow> u64 \<Rightarrow> u64 list \<Rightarrow> 'r \<Rightarrow> 'r" where
  "linger ops deadline [] t = t"
| "linger ops deadline (now # rest) t =
     (if \<not> now < deadline then t
      else case op_recv ops 256 t of (RecvErr, t') \<Rightarrow> t' | (_, t') \<Rightarrow> linger ops deadline rest t')"

text \<open>\<open>mem\<close> bounds what can be allocated; \<open>None\<close> is a receive loop that never ends.\<close>

fun netfile_receive ::
  "'r transport_ops \<Rightarrow> nat \<Rightarrow> u64 \<Rightarrow> bytes \<Rightarrow> u64 list \<Rightarrow> FileReceiver \<Rightarrow> 'r \<Rightarrow> (tool_result \<times> 'r) option" where
  "netfile_receive ops mem deadline expected [] rcv t = Some (Failed ''timeout'', t)"
| "netfile_receive ops mem deadline expected (now # rest) rcv t =
     (if \<not> now < deadline then Some (Failed ''timeout'', t)
      else case receiveAvailable (op_recv ops) mem t rcv of
          None \<Rightarrow> None
        | Some (Inl e) \<Rightarrow> Some (Uncaught, t)
        | Some (Inr (fin, t', rcv')) \<Rightarrow>
            if fin \<and> length (fr_entries rcv') > 0 then
              (let data = fr_buffers rcv' ! 0 in
               Some (FileCompared (length data = length expected \<and> list_all (\<lambda>i. data ! i = expected ! i) [0..<length data]) (length data)
                  (fe_name (fr_entries rcv' ! 0)), t'))
            else netfile_receive ops mem deadline expected rest rcv' t')"

definition netfile_main ::
  "'r transport_ops \<Rightarrow> nat \<Rightarrow> string list \<Rightarrow> u64 \<Rightarrow> (u64 \<times> (string \<Rightarrow> u16 \<Rightarrow> 'r option) \<times> 'r option) list \<Rightarrow> u64 list
     \<Rightarrow> (tool_result \<times> 'r option) option" where
  "netfile_main ops mem args start tries clocks =
     (let role = argVal args ''--role''; listen = argVal args ''--listen''; connect = argVal args ''--connect'';
          sz = argVal args ''--size''; sec = argVal args ''--seconds'' in
      if role = [] \<or> listen = [] \<or> sz = [] then Some (Usage, None)
      else case (stoi listen, stoull sz, deadline_of start 40 sec) of
          (Some _, Some n, Some deadline) \<Rightarrow>
            if unat n > mem then Some (Uncaught, None)
            else let expected = makeBlob (unat n) in
              (case establish connect deadline tries of
                 Inl r \<Rightarrow> Some (r, None)
               | Inr t \<Rightarrow>
                   if role = ''sender'' then
                     (case sendAll (op_send ops) 4096 t (addFile ''payload.bin'' expected emptySender) of
                        (ok, t1, _) \<Rightarrow> Some (FileSent (unat n) ok, Some (linger ops deadline clocks t1)))
                   else map_option (\<lambda>(r, t1). (r, Some t1)) (netfile_receive ops mem deadline expected clocks emptyReceiver t))
        | _ \<Rightarrow> Some (Uncaught, None))"

text \<open>The two ends of a wire: the peer reads what was sent; what the peer sends comes in.\<close>

definition far_recv :: "nat \<Rightarrow> RawLink \<Rightarrow> recv_result \<times> RawLink" where
  "far_recv cap l = (case rl_out l of [] \<Rightarrow> (RecvNone, l) | m # q \<Rightarrow> (recv_of_bytes (take cap m), l\<lparr>rl_out := q\<rparr>))"

definition far_send :: "bytes \<Rightarrow> RawLink \<Rightarrow> bool \<times> RawLink" where
  "far_send m l = (True, l\<lparr>rl_in := rl_in l @ [Incoming m]\<rparr>)"

interpretation outward: fifo_transport raw_send far_recv rl_out rl_up "\<lambda>_ _. True" "\<lambda>_. True"
  by unfold_locales (auto simp: raw_send_def far_recv_def)

definition arrived_of :: "RawLink \<Rightarrow> bytes list" where
  "arrived_of l = map (\<lambda>e. case e of Incoming m \<Rightarrow> m | _ \<Rightarrow> []) (rl_in l)"

definition all_arrivals :: "RawLink \<Rightarrow> bool" where
  "all_arrivals l \<longleftrightarrow> rl_up l \<and> (\<exists>ms. rl_in l = map Incoming ms)"

lemma arrived_of_map [simp]: "rl_in l = map Incoming ms \<Longrightarrow> arrived_of l = ms"
  by (simp add: arrived_of_def comp_def)

interpretation inward: fifo_transport far_send raw_recv arrived_of all_arrivals "\<lambda>_ _. True" "\<lambda>_. True"
proof unfold_locales
  fix t m and n :: nat assume "all_arrivals t"
  then obtain ms where "rl_up t" "rl_in t = map Incoming ms" by (auto simp: all_arrivals_def)
  then show "fst (far_send m t) \<and> all_arrivals (snd (far_send m t)) \<and> True \<and> arrived_of (snd (far_send m t)) = arrived_of t @ [m]"
    by (auto simp: far_send_def all_arrivals_def arrived_of_def intro: exI [of _ "ms @ [m]"])
qed (auto simp: raw_recv_def all_arrivals_def)

abbreviation payload :: "nat \<Rightarrow> (string \<times> bytes) list" where "payload n \<equiv> [(''payload.bin'', makeBlob n)]"

lemma length_makeBlob [simp]: "length (makeBlob n) = n"
  by (simp add: makeBlob_def)

lemma payload_ok: "n \<le> mem \<Longrightarrow> n < 2 ^ 64 \<Longrightarrow> transfer_ok mem 4096 (payload n)"
  by (simp add: transfer_ok_def kMaxFileMessage_def sender_meta_def new_sender_def addFile_def emptySender_def
      encodeFilePromiseMeta_def putEntry_def putU16_def putU64_def putU32_def)

lemma linger_out: "rl_out (linger raw_ops deadline clocks t) = rl_out t"
  by (induction clocks arbitrary: t)
     (auto simp: raw_ops_def raw_recv_def split: recv_result.split list.split link_event.split)

lemma stoi_listen: "stoi s \<noteq> None \<Longrightarrow> s \<noteq> []" "stoull s \<noteq> None \<Longrightarrow> s \<noteq> []"
  by (auto simp: stoi_def stoull_def sto_int_def strip_sign_def Let_def)

text \<open>
  A run of \<open>netfile\<close> passes for every size that fits the memory: the sender reports success, and the receiver,
  given what the sender put on the wire, ends on its first turn with all bytes equal to
  the expected ones, under the name the sender gave.
\<close>

theorem netfile_passes:
  assumes "argVal argsS ''--role'' = ''sender''" "argVal argsR ''--role'' \<noteq> ''sender''" "argVal argsR ''--role'' \<noteq> []"
    and "stoi (argVal argsS ''--listen'') \<noteq> None" "stoi (argVal argsR ''--listen'') \<noteq> None"
    and "stoull (argVal argsS ''--size'') = Some n" "stoull (argVal argsR ''--size'') = Some n" "unat n \<le> mem"
    and "deadline_of startS 40 (argVal argsS ''--seconds'') = Some dS" "deadline_of startR 40 (argVal argsR ''--seconds'') = Some dR"
    and "establish (argVal argsS ''--connect'') dS triesS = Inr \<lparr>rl_up = True, rl_in = fromR, rl_out = []\<rparr>"
    and "establish (argVal argsR ''--connect'') dR triesR
      = Inr \<lparr>rl_up = True, rl_in = map Incoming (transfer_msgs 4096 (payload (unat n))), rl_out = []\<rparr>"
    and "now < dR"
  shows "(\<exists>tS. netfile_main raw_ops mem argsS startS triesS clS = Some (FileSent (unat n) True, Some tS)
        \<and> rl_out tS = transfer_msgs 4096 (payload (unat n)))
    \<and> (\<exists>tR. netfile_main raw_ops mem argsR startR triesR (now # clR) = Some (FileCompared True (unat n) ''payload.bin'', Some tR))"
proof
  have "unat n < 2 ^ LENGTH(64)" by (rule unsigned_less)
  then have ok: "transfer_ok mem 4096 (payload (unat n))" using payload_ok assms(8) by simp
  let ?snd = "addFile ''payload.bin'' (makeBlob (unat n)) emptySender"
  have snd: "new_sender (payload (unat n)) = ?snd" by (simp add: new_sender_def)
  obtain p q where pq: "stoi (argVal argsS ''--listen'') = Some p" "stoi (argVal argsR ''--listen'') = Some q"
    using assms(4,5) by blast
  have given: "argVal argsS ''--listen'' \<noteq> []" "argVal argsR ''--listen'' \<noteq> []" "argVal argsS ''--size'' \<noteq> []" "argVal argsR ''--size'' \<noteq> []"
    using stoi_listen assms(4-7) by auto
  obtain tS sS where sent: "sendAll raw_send 4096 \<lparr>rl_up = True, rl_in = fromR, rl_out = []\<rparr> ?snd = (True, tS, sS)"
    "rl_out tS = transfer_msgs 4096 (payload (unat n))"
    using outward.sendAll_pending [of "\<lparr>rl_up = True, rl_in = fromR, rl_out = []\<rparr>" mem 4096 "payload (unat n)"] ok snd by auto
  then show "\<exists>tS. netfile_main raw_ops mem argsS startS triesS clS = Some (FileSent (unat n) True, Some tS)
        \<and> rl_out tS = transfer_msgs 4096 (payload (unat n))"
    using assms(1,6,8,9,11) pq(1) given linger_out [of dS clS tS] by (simp add: netfile_main_def raw_ops_def Let_def)
  let ?r = "\<lparr>rl_up = True, rl_in = map Incoming (transfer_msgs 4096 (payload (unat n))), rl_out = []\<rparr>"
  have "all_arrivals ?r" "arrived_of ?r = transfer_msgs 4096 (payload (unat n))" by (auto simp: all_arrivals_def arrived_of_def comp_def)
  then obtain tR where "drainFiles raw_recv mem ?r emptyReceiver = Some (Inr (tR, partial_rx (payload (unat n)) 1))"
    using inward.drain_feed [of ?r "transfer_msgs 4096 (payload (unat n))" mem emptyReceiver] transfer_msgs_bound [OF ok]
      feed_transfer [OF ok, of emptyReceiver] by auto
  then have "receiveAvailable raw_recv mem ?r emptyReceiver = Some (Inr (True, tR, partial_rx (payload (unat n)) 1))"
    using complete_rx [OF ok] by (simp add: receiveAvailable_def)
  then show "\<exists>tR. netfile_main raw_ops mem argsR startR triesR (now # clR) = Some (FileCompared True (unat n) ''payload.bin'', Some tR)"
    using assms(2,3,7,8,10,12,13) pq(2) given
    by (simp add: netfile_main_def raw_ops_def partial_rx_def list_all_iff Let_def)
qed

section \<open>netcheck\<close>

record 'r checker =
  nc_cs :: "'r ConnectionService"
  nc_switched :: bool
  nc_sent :: nat
  nc_last :: u64
  nc_injected :: bool

definition saw_inject :: "cm_out list \<Rightarrow> bool" where
  "saw_inject outs = list_ex (\<lambda>x. case x of MeshCall (Inject e) \<Rightarrow> True | _ \<Rightarrow> False) outs"

text \<open>The dialer's part: take the ownership once, then at most 20 times the key down and up, 251 ms apart.\<close>

definition netcheck_keys :: "'r sealed transport_ops \<Rightarrow> PeerId \<Rightarrow> u64 \<Rightarrow> 'r checker \<Rightarrow> 'r checker" where
  "netcheck_keys ops self now st =
     (let cm0 = cs_cm (nc_cs st);
          cm1 = (if nc_switched st then cm0 else fst (with_mesh ops (mesh_requestSwitchTo self) cm0));
          st1 = st\<lparr>nc_switched := True, nc_cs := (nc_cs st)\<lparr>cs_cm := cm1\<rparr>\<rparr> in
      if mesh_isLocalOwner (cm_mesh cm1) \<and> nc_sent st1 < 20 \<and> now - nc_last st1 > 250 then
        let cm2 = fst (with_mesh ops (forwardKey 0x41 True (ucast now)) cm1);
            cm3 = fst (with_mesh ops (forwardKey 0x41 False (ucast now)) cm2) in
          st1\<lparr>nc_cs := (nc_cs st1)\<lparr>cs_cm := cm3\<rparr>, nc_sent := Suc (nc_sent st1), nc_last := now\<rparr>
      else st1)"

definition netcheck_turn ::
  "gcm_enc \<Rightarrow> gcm_dec \<Rightarrow> 'r transport_ops \<Rightarrow> string \<Rightarrow> PeerId \<Rightarrow> PeerId \<Rightarrow> u64 \<Rightarrow> (string \<Rightarrow> u16 \<Rightarrow> 'r option) \<Rightarrow> 'r option \<Rightarrow> 'r checker \<Rightarrow> 'r checker" where
  "netcheck_turn enc dec ops role self peer now dial accepted st =
     (let cs1 = fst (pollConnections enc dec ops (Some dial) accepted now (nc_cs st));
          (cm1, outs) = cm_poll (sealed_ops enc dec ops) now (cs_cm cs1);
          st1 = st\<lparr>nc_cs := cs1\<lparr>cs_cm := cm1\<rparr>, nc_injected := nc_injected st \<or> saw_inject outs\<rparr> in
      if role = ''dialer'' \<and> cm_isConnected peer cm1 then netcheck_keys (sealed_ops enc dec ops) self now st1 else st1)"

definition netcheck_end :: "string \<Rightarrow> PeerId \<Rightarrow> PeerId \<Rightarrow> 'r checker \<Rightarrow> tool_result" where
  "netcheck_end role self peer st =
     (if role = ''dialer'' \<and> cm_isConnected peer (cs_cm (nc_cs st)) \<and> nc_sent st > 0 then Forwarded self (nc_sent st)
      else Failed ''timed out'')"

text \<open>Per turn: the reading that is compared with the deadline, the one that is used, and what the factories give.\<close>

fun netcheck_loop ::
  "gcm_enc \<Rightarrow> gcm_dec \<Rightarrow> 'r transport_ops \<Rightarrow> string \<Rightarrow> PeerId \<Rightarrow> PeerId \<Rightarrow> u64 \<Rightarrow>
    (u64 \<times> u64 \<times> (string \<Rightarrow> u16 \<Rightarrow> 'r option) \<times> 'r option) list \<Rightarrow> 'r checker \<Rightarrow> tool_result \<times> 'r checker" where
  "netcheck_loop enc dec ops role self peer deadline [] st = (netcheck_end role self peer st, st)"
| "netcheck_loop enc dec ops role self peer deadline ((t0, now, dial, accepted) # rest) st =
     (if \<not> t0 < deadline then (netcheck_end role self peer st, st)
      else let st1 = netcheck_turn enc dec ops role self peer now dial accepted st in
        if nc_injected st1 then (Injected self, st1) else netcheck_loop enc dec ops role self peer deadline rest st1)"

definition netcheck_main ::
  "gcm_enc \<Rightarrow> gcm_dec \<Rightarrow> 'r transport_ops \<Rightarrow> string list \<Rightarrow> u64 \<Rightarrow>
    (u64 \<times> u64 \<times> (string \<Rightarrow> u16 \<Rightarrow> 'r option) \<times> 'r option) list \<Rightarrow> tool_result \<times> 'r checker option" where
  "netcheck_main enc dec ops args start turns =
     (let self = argVal args ''--self''; peer = argVal args ''--peer''; role = argVal args ''--role''; connect = argVal args ''--connect'';
          pskHex = argVal args ''--psk''; listen = argVal args ''--listen''; sec = argVal args ''--seconds'' in
      if self = [] \<or> peer = [] \<or> pskHex = [] \<or> listen = [] then (Usage, None)
      else case (stoi listen, deadline_of start 30 sec) of
          (Some port, Some deadline) \<Rightarrow>
            (case parseHexPsk pskHex of None \<Rightarrow> (Usage, None)
             | Some psk \<Rightarrow>
                 let mesh = (mesh_setPriority [self, peer] (meshInit self))\<lparr>mn_intervalMs := 200, mn_timeoutMs := 3000\<rparr>;
                     cs = csInit (cmInit mesh) (setPsk peer psk []) self (to_port port);
                     go = (\<lambda>cs1. case netcheck_loop enc dec ops role self peer deadline turns
                         \<lparr>nc_cs = cs1, nc_switched = False, nc_sent = 0, nc_last = 0, nc_injected = False\<rparr> of (r, st) \<Rightarrow> (r, Some st)) in
                 if connect = [] then go cs
                 else (case endpoint connect of None \<Rightarrow> (Uncaught, None)
                   | Some (host, p) \<Rightarrow> go (setPeers [\<lparr>dp_id = peer, dp_host = host, dp_port = p\<rparr>] cs)))
        | _ \<Rightarrow> (Uncaught, None))"

lemma netcheck_keys_bound:
  "nc_sent st \<le> 20 \<Longrightarrow> nc_sent (netcheck_keys ops self now st) \<le> 20" "nc_sent st \<le> nc_sent (netcheck_keys ops self now st)"
  "nc_injected (netcheck_keys ops self now st) = nc_injected st"
  by (simp_all add: netcheck_keys_def Let_def)

lemma netcheck_turn_bound:
  assumes "nc_sent st \<le> 20"
  shows "nc_sent (netcheck_turn enc dec ops role self peer now dial accepted st) \<le> 20"
    "role \<noteq> ''dialer'' \<Longrightarrow> nc_sent (netcheck_turn enc dec ops role self peer now dial accepted st) = nc_sent st"
  using assms by (simp_all add: netcheck_turn_def netcheck_keys_bound Let_def split_beta)

lemma netcheck_loop_verdict:
  assumes "netcheck_loop enc dec ops role self peer deadline turns st = (r, st')" "nc_sent st \<le> 20"
  shows "nc_sent st' \<le> 20 \<and> (role \<noteq> ''dialer'' \<longrightarrow> nc_sent st' = nc_sent st)
    \<and> (r = Injected self \<and> nc_injected st' \<or> r = Forwarded self (nc_sent st') \<and> role = ''dialer'' \<and> 0 < nc_sent st' \<and> cm_isConnected peer (cs_cm (nc_cs st'))
       \<or> r = Failed ''timed out'')"
  using assms
proof (induction enc dec ops role self peer deadline turns st rule: netcheck_loop.induct)
  case (1 enc dec ops role self peer deadline st)
  then show ?case by (auto simp: netcheck_end_def split: if_splits)
next
  case (2 enc dec ops role self peer deadline t0 now dial accepted rest st)
  let ?st = "netcheck_turn enc dec ops role self peer now dial accepted st"
  note b = netcheck_turn_bound(1) [OF 2(3), of enc dec ops role self peer now dial accepted]
    netcheck_turn_bound(2) [OF 2(3), of role enc dec ops self peer now dial accepted]
  show ?case
  proof (cases "\<not> t0 < deadline")
    case True
    then show ?thesis using 2(2,3) by (auto simp: netcheck_end_def split: if_splits)
  next
    case False
    show ?thesis
    proof (cases "nc_injected ?st")
      case True
      then show ?thesis using 2(2) False b by (auto simp: Let_def)
    next
      case inj: False
      then show ?thesis using 2(1) [OF _ refl] 2(2) False b by (auto simp: Let_def)
    qed
  qed
qed


text \<open>Command lines for concrete runs.\<close>

definition pair_args :: "string \<Rightarrow> string \<Rightarrow> string list" where
  "pair_args a b = [''--self'', a, ''--peer'', b, ''--listen'', ''9000'']"

lemma port_9000: "stoi ''9000'' = Some 9000"
  by (simp add: stoi_def sto_int_def strip_sign_def isspace_def isDigit_def digit_val_def Let_def)

lemma toy_kp_length: "length (publicPoint (ps_kp (toy_side n x))) = 64"
  by (simp add: toy_side_def)

theorem netpair_agrees_witness:
  "\<exists>code key tA tB.
      netpair_main toy_pair_crypto raw_ops (Some (ps_kp (toy_side 3 ''alice''))) (pair_args ''alice'' ''bob'') 0
        [(1, \<lambda>_ _. None, Some \<lparr>rl_up = True, rl_in = [Idle, Incoming [1]] @ Incoming (publicPoint (ps_kp (toy_side 4 ''bob''))) # [], rl_out = []\<rparr>)] [1, 2, 3]
        = (Paired ''alice'' code key, Some tA)
    \<and> netpair_main toy_pair_crypto raw_ops (Some (ps_kp (toy_side 4 ''bob''))) (pair_args ''bob'' ''alice'') 0
        [(1, \<lambda>_ _. None, Some \<lparr>rl_up = True, rl_in = [] @ Incoming (publicPoint (ps_kp (toy_side 3 ''alice''))) # [], rl_out = []\<rparr>)] [1]
        = (Paired ''bob'' code key, Some tB) \<and> length code = 6"
proof -
  note s = toy_sides [unfolded sides_ok_def]
  have ecdh: "pc_ecdh toy_pair_crypto (ps_kp (toy_side 3 ''alice'')) (publicPoint (ps_kp (toy_side 4 ''bob''))) = Some (replicate 32 7)"
    "pc_ecdh toy_pair_crypto (ps_kp (toy_side 4 ''bob'')) (publicPoint (ps_kp (toy_side 3 ''alice''))) = Some (replicate 32 7)"
    and hm: "hmac_ok (pc_hmac toy_pair_crypto)" and len: "length (replicate 32 7 :: bytes) = 32" using s by blast+
  show ?thesis
    using netpair_agrees [OF ecdh refl hm len toy_kp_length toy_kp_length, of "pair_args ''alice'' ''bob''" "''alice''" "''bob''" "pair_args ''bob'' ''alice''"
      0 30000 0 30000 "[(1, \<lambda>_ _. None, Some \<lparr>rl_up = True, rl_in = [Idle, Incoming [1]] @ Incoming (publicPoint (ps_kp (toy_side 4 ''bob''))) # [], rl_out = []\<rparr>)]"
      "[Idle, Incoming [1]]" "[]" "[(1, \<lambda>_ _. None, Some \<lparr>rl_up = True, rl_in = [] @ Incoming (publicPoint (ps_kp (toy_side 3 ''alice''))) # [], rl_out = []\<rparr>)]"
      "[]" "[]" "[1, 2, 3]" "[1]"]
    by (auto simp: pair_args_def port_9000 deadline_of_def)
qed

definition file_args :: "string \<Rightarrow> string list" where
  "file_args role = [''--role'', role, ''--listen'', ''9000'', ''--size'', ''5000'']"

theorem netfile_passes_witness:
  "\<exists>tR. netfile_main raw_ops 10000 (file_args ''receiver'') 0
      [(1, \<lambda>_ _. None, Some \<lparr>rl_up = True, rl_in = map Incoming (transfer_msgs 4096 (payload 5000)), rl_out = []\<rparr>)] [7]
    = Some (FileCompared True 5000 ''payload.bin'', Some tR)"
proof -
  have sz: "stoull ''5000'' = Some 5000"
    by (simp add: stoull_def sto_int_def strip_sign_def isspace_def isDigit_def digit_val_def Let_def)
  show ?thesis
    using netfile_passes [of "file_args ''sender''" "file_args ''receiver''" 5000 10000 0 40000 0 40000
        "[(1, \<lambda>_ _. None, Some \<lparr>rl_up = True, rl_in = [], rl_out = []\<rparr>)]" "[]"
        "[(1, \<lambda>_ _. None, Some \<lparr>rl_up = True, rl_in = map Incoming (transfer_msgs 4096 (payload 5000)), rl_out = []\<rparr>)]" 7 "[]" "[]"]
    by (simp add: file_args_def port_9000 sz deadline_of_def)
qed


end
