(* ===== verification/ComObjects.thy ===== *)
theory ComObjects
  imports FilePaste "HOL-Library.Multiset"
begin

text \<open>
  The life of the COM objects of \<open>platform/filepromise_win.cpp\<close>: the promised stream, the
  format enumerator and the data object with their reference counts, the methods that hand out
  references, those with a fixed answer, and \<open>putFilePromiseOnClipboard\<close>.  What the objects contain
  is \<open>FilePaste\<close>.
\<close>

section \<open>Objects\<close>

datatype iid = IID_IUnknown | IID_ISequentialStream | IID_IStream | IID_IEnumFORMATETC | IID_IDataObject | IID_Other nat

datatype com_obj = StreamObj PromiseStream | EnumObj FormatEnum | DataObj "PromisedFile list"

definition supports :: "com_obj \<Rightarrow> iid \<Rightarrow> bool" where
  "supports x i = (case x of
     StreamObj _ \<Rightarrow> i = IID_IUnknown \<or> i = IID_ISequentialStream \<or> i = IID_IStream
   | EnumObj _ \<Rightarrow> i = IID_IUnknown \<or> i = IID_IEnumFORMATETC
   | DataObj _ \<Rightarrow> i = IID_IUnknown \<or> i = IID_IDataObject)"

text \<open>The objects that exist, each with its 32-bit count, and the next address.\<close>

record com_heap =
  ch_objs :: "nat \<Rightarrow> (com_obj \<times> u32) option"
  ch_next :: nat

definition com_empty :: com_heap where
  "com_empty = \<lparr>ch_objs = (\<lambda>_. None), ch_next = 0\<rparr>"

definition put_obj :: "nat \<Rightarrow> (com_obj \<times> u32) option \<Rightarrow> com_heap \<Rightarrow> com_heap" where
  "put_obj p x h = h\<lparr>ch_objs := (ch_objs h)(p := x)\<rparr>"

text \<open>A fresh object has one reference, the caller's.\<close>

definition new_obj :: "com_obj \<Rightarrow> com_heap \<Rightarrow> nat \<times> com_heap" where
  "new_obj x h = (ch_next h, (put_obj (ch_next h) (Some (x, 1)) h)\<lparr>ch_next := Suc (ch_next h)\<rparr>)"

section \<open>Methods\<close>

text \<open>A method of an object that is gone is \<open>None\<close>: the code would read freed memory.\<close>

definition com_AddRef :: "nat \<Rightarrow> com_heap \<Rightarrow> (u32 \<times> com_heap) option" where
  "com_AddRef p h = (case ch_objs h p of None \<Rightarrow> None | Some (x, r) \<Rightarrow> Some (r + 1, put_obj p (Some (x, r + 1)) h))"

definition com_Release :: "nat \<Rightarrow> com_heap \<Rightarrow> (u32 \<times> com_heap) option" where
  "com_Release p h = (case ch_objs h p of None \<Rightarrow> None
     | Some (x, r) \<Rightarrow> Some (r - 1, put_obj p (if r - 1 = 0 then None else Some (x, r - 1)) h))"

text \<open>The status, the pointer given out, and the heap.\<close>

definition com_QueryInterface :: "nat \<Rightarrow> bool \<Rightarrow> iid \<Rightarrow> com_heap \<Rightarrow> (hresult \<times> nat option \<times> com_heap) option" where
  "com_QueryInterface p ppv i h = (case ch_objs h p of None \<Rightarrow> None
     | Some (x, r) \<Rightarrow>
         if \<not> ppv then Some (E_POINTER, None, h)
         else if supports x i then map_option (\<lambda>(_, h'). (S_OK, Some p, h')) (com_AddRef p h)
         else Some (E_NOINTERFACE, None, h))"

text \<open>Streams and enumerators can be cloned, position and all; \<open>alloc\<close> is whether the allocation succeeds.\<close>

definition com_Clone :: "nat \<Rightarrow> bool \<Rightarrow> bool \<Rightarrow> com_heap \<Rightarrow> (hresult \<times> nat option \<times> com_heap) option" where
  "com_Clone p outp alloc h = (case ch_objs h p of
       Some (StreamObj s, _) \<Rightarrow>
         Some (if \<not> outp then (STG_E_INVALIDPOINTER, None, h) else if \<not> alloc then (E_OUTOFMEMORY, None, h)
               else case new_obj (StreamObj s) h of (q, h') \<Rightarrow> (S_OK, Some q, h'))
     | Some (EnumObj e, _) \<Rightarrow>
         Some (if \<not> outp then (E_POINTER, None, h) else if \<not> alloc then (E_OUTOFMEMORY, None, h)
               else case new_obj (EnumObj e) h of (q, h') \<Rightarrow> (S_OK, Some q, h'))
     | _ \<Rightarrow> None)"

definition data_GetData ::
  "(string \<Rightarrow> u16 list) \<Rightarrow> nat \<Rightarrow> bool \<Rightarrow> bool \<Rightarrow> FORMATETC \<Rightarrow> com_heap \<Rightarrow> (hresult \<times> nat option \<times> com_heap) option" where
  "data_GetData wide p ptrs alloc fmt h = (case ch_objs h p of
       Some (DataObj files, _) \<Rightarrow>
         Some (if \<not> ptrs then (E_INVALIDARG, None, h)
               else case GetData alloc wide files fmt of
                   (hr, Some (StreamMedium s)) \<Rightarrow> (case new_obj (StreamObj s) h of (q, h') \<Rightarrow> (hr, Some q, h'))
                 | (hr, _) \<Rightarrow> (hr, None, h))
     | _ \<Rightarrow> None)"

definition data_EnumFormatEtc :: "nat \<Rightarrow> bool \<Rightarrow> bool \<Rightarrow> bool \<Rightarrow> com_heap \<Rightarrow> (hresult \<times> nat option \<times> com_heap) option" where
  "data_EnumFormatEtc p dirGet outp alloc h = (case ch_objs h p of
       Some (DataObj files, _) \<Rightarrow>
         Some (if dirGet \<and> \<not> outp then (E_POINTER, None, h)
               else case EnumFormatEtc alloc dirGet of
                   (hr, Some e) \<Rightarrow> (case new_obj (EnumObj e) h of (q, h') \<Rightarrow> (hr, Some q, h'))
                 | (hr, None) \<Rightarrow> (hr, None, h))
     | _ \<Rightarrow> None)"

text \<open>Methods that always give the same answer.\<close>

datatype fixed_call = CallWrite | CallSetSize | CallCommit | CallRevert | CallLockRegion | CallUnlockRegion
  | CallGetDataHere | CallCanonicalFormat | CallSetData | CallDAdvise | CallDUnadvise | CallEnumDAdvise

definition fixed_answer :: "fixed_call \<Rightarrow> hresult" where
  "fixed_answer c = (case c of CallWrite \<Rightarrow> STG_E_ACCESSDENIED | CallSetSize \<Rightarrow> STG_E_ACCESSDENIED | CallCommit \<Rightarrow> S_OK | CallRevert \<Rightarrow> S_OK
     | CallLockRegion \<Rightarrow> STG_E_INVALIDFUNCTION | CallUnlockRegion \<Rightarrow> STG_E_INVALIDFUNCTION | CallGetDataHere \<Rightarrow> E_NOTIMPL
     | CallCanonicalFormat \<Rightarrow> E_NOTIMPL | CallSetData \<Rightarrow> E_NOTIMPL | CallDAdvise \<Rightarrow> OLE_E_ADVISENOTSUPPORTED
     | CallDUnadvise \<Rightarrow> OLE_E_ADVISENOTSUPPORTED | CallEnumDAdvise \<Rightarrow> OLE_E_ADVISENOTSUPPORTED)"

text \<open>The size, and a copy of the name when it is asked for and memory is there.\<close>

definition stream_Stat :: "bool \<Rightarrow> bool \<Rightarrow> bool \<Rightarrow> PromiseStream \<Rightarrow> hresult \<times> (u64 \<times> u16 list option) option" where
  "stream_Stat statp noname alloc s =
     (if \<not> statp then (STG_E_INVALIDPOINTER, None)
      else (S_OK, Some (stream_stat s, if \<not> noname \<and> pst_name s \<noteq> [] \<and> alloc then Some (pst_name s @ [0]) else None)))"

text \<open>\<open>OleSetClipboard\<close> takes a reference of its own when it succeeds; the creator's is released.\<close>

definition putFilePromiseOnClipboard :: "PromisedFile list \<Rightarrow> bool \<Rightarrow> bool \<Rightarrow> bool \<Rightarrow> com_heap \<Rightarrow> (bool \<times> nat option \<times> com_heap) option" where
  "putFilePromiseOnClipboard files src alloc ole h =
     (case (if src \<and> alloc then createFilePromiseDataObject files else None) of
        None \<Rightarrow> Some (False, None, h)
      | Some fs \<Rightarrow>
          case new_obj (DataObj fs) h of (p, h1) \<Rightarrow>
            (case (if ole then map_option snd (com_AddRef p h1) else Some h1) of None \<Rightarrow> None
             | Some h2 \<Rightarrow> map_option (\<lambda>(_, h3). (ole, if ole then Some p else None, h3)) (com_Release p h2)))"

section \<open>Clients\<close>

text \<open>
  The calls the shell and the clipboard make.  A client may call a method on a pointer of that type it holds a reference to,
  and release a reference it holds; \<open>held\<close> are the references outstanding, the system's included.
\<close>

datatype com_op =
    OpAddRef nat
  | OpRelease nat
  | OpQuery nat bool iid
  | OpClone nat bool bool
  | OpGetData nat bool bool FORMATETC
  | OpEnum nat bool bool bool
  | OpPut "PromisedFile list" bool bool bool

definition is_data :: "com_heap \<Rightarrow> nat \<Rightarrow> bool" where
  "is_data h p = (case ch_objs h p of Some (DataObj _, _) \<Rightarrow> True | _ \<Rightarrow> False)"

definition may_call :: "com_op \<Rightarrow> com_heap \<Rightarrow> nat multiset \<Rightarrow> bool" where
  "may_call op h held = (case op of OpAddRef p \<Rightarrow> p \<in># held | OpRelease p \<Rightarrow> p \<in># held | OpQuery p _ _ \<Rightarrow> p \<in># held
     | OpClone p _ _ \<Rightarrow> p \<in># held \<and> \<not> is_data h p | OpGetData p _ _ _ \<Rightarrow> p \<in># held \<and> is_data h p
     | OpEnum p _ _ _ \<Rightarrow> p \<in># held \<and> is_data h p | OpPut _ _ _ _ \<Rightarrow> True)"

definition com_step :: "(string \<Rightarrow> u16 list) \<Rightarrow> com_op \<Rightarrow> com_heap \<times> nat multiset \<Rightarrow> (com_heap \<times> nat multiset) option" where
  "com_step wide op s = (case s of (h, held) \<Rightarrow>
     let gained = map_option (\<lambda>(_, q, h'). (h', case q of None \<Rightarrow> held | Some p \<Rightarrow> add_mset p held)) in
     (case op of
        OpAddRef p \<Rightarrow> map_option (\<lambda>(_, h'). (h', add_mset p held)) (com_AddRef p h)
      | OpRelease p \<Rightarrow> map_option (\<lambda>(_, h'). (h', held - {#p#})) (com_Release p h)
      | OpQuery p ppv i \<Rightarrow> gained (com_QueryInterface p ppv i h)
      | OpClone p outp alloc \<Rightarrow> gained (com_Clone p outp alloc h)
      | OpGetData p ptrs alloc fmt \<Rightarrow> gained (data_GetData wide p ptrs alloc fmt h)
      | OpEnum p dirGet outp alloc \<Rightarrow> gained (data_EnumFormatEtc p dirGet outp alloc h)
      | OpPut files src alloc ole \<Rightarrow>
          map_option (\<lambda>(_, q, h'). (h', case q of None \<Rightarrow> held | Some p \<Rightarrow> add_mset p held)) (putFilePromiseOnClipboard files src alloc ole h)))"

text \<open>A run of such clients: a call the rules forbid is not made; \<open>None\<close> is an access to a freed object.\<close>

fun com_run :: "(string \<Rightarrow> u16 list) \<Rightarrow> com_op list \<Rightarrow> com_heap \<times> nat multiset \<Rightarrow> (com_heap \<times> nat multiset) option" where
  "com_run wide [] s = Some s"
| "com_run wide (op # ops) s =
     (if \<not> may_call op (fst s) (snd s) then com_run wide ops s
      else case com_step wide op s of None \<Rightarrow> None | Some s' \<Rightarrow> com_run wide ops s')"

text \<open>Every object's count is the number of references to it, and nothing unreferenced exists.\<close>

definition counted :: "(com_obj \<times> u32) option \<Rightarrow> nat \<Rightarrow> bool" where
  "counted y n \<longleftrightarrow> (case y of None \<Rightarrow> n = 0 | Some (x, r) \<Rightarrow> 0 < n \<and> r = word_of_nat n)"

definition com_ok :: "com_heap \<Rightarrow> nat multiset \<Rightarrow> bool" where
  "com_ok h held \<longleftrightarrow> (\<forall>p. counted (ch_objs h p) (count held p)) \<and> (\<forall>p\<ge>ch_next h. ch_objs h p = None) \<and> size held < 2 ^ 32"

lemma com_okD:
  assumes "com_ok h held"
  shows "counted (ch_objs h p) (count held p)" "ch_next h \<le> p \<Longrightarrow> ch_objs h p = None" "size held < 2 ^ 32"
  using assms unfolding com_ok_def by blast+

lemma com_ok_alive:
  assumes "com_ok h held" "p \<in># held"
  obtains x where "ch_objs h p = Some (x, word_of_nat (count held p))"
proof -
  have pos: "count held p \<noteq> 0" using assms(2) by (meson count_eq_zero_iff)
  have c: "counted (ch_objs h p) (count held p)" by (rule com_okD(1) [OF assms(1)])
  show ?thesis
  proof (cases "ch_objs h p")
    case None
    then show ?thesis using c pos unfolding counted_def by (simp only: option.case)
  next
    case (Some y)
    then show ?thesis using c that by (cases y) (simp add: counted_def)
  qed
qed

lemma com_ok_update:
  assumes "com_ok h held" "ch_objs h p \<noteq> None"
    and "\<And>q. q \<noteq> p \<Longrightarrow> count held' q = count held q" "size held' < 2 ^ 32" "counted y (count held' p)"
  shows "com_ok (put_obj p y h) held'"
proof -
  have lt: "p < ch_next h" using assms(2) com_okD(2) [OF assms(1)] by (meson not_less)
  have "counted (ch_objs (put_obj p y h) q) (count held' q)" for q
    using com_okD(1) [OF assms(1), of q] assms(3) [of q] assms(5) by (cases "q = p") (simp_all add: put_obj_def)
  moreover have "ch_objs (put_obj p y h) q = None" if "ch_next (put_obj p y h) \<le> q" for q
    using lt that com_okD(2) [OF assms(1), of q] by (auto simp: put_obj_def)
  ultimately show ?thesis using assms(4) unfolding com_ok_def by blast
qed

lemma com_ok_AddRef:
  assumes "com_ok h held" "p \<in># held" "Suc (size held) < 2 ^ 32"
  shows "\<exists>r h'. com_AddRef p h = Some (r, h') \<and> com_ok h' (add_mset p held)"
proof -
  obtain x where x: "ch_objs h p = Some (x, word_of_nat (count held p))" using com_ok_alive [OF assms(1,2)] .
  have "com_ok (put_obj p (Some (x, word_of_nat (count held p) + 1)) h) (add_mset p held)"
    using x assms(3) by (intro com_ok_update [OF assms(1)]) (simp_all add: counted_def add.commute)
  then show ?thesis using x by (simp add: com_AddRef_def)
qed

lemma small_zero: "k < 2 ^ 32 \<Longrightarrow> (word_of_nat k :: u32) = 0 \<longleftrightarrow> k = 0"
  using dvd_imp_le [of "2 ^ 32" k] by (auto simp: word_of_nat_eq_0_iff)

lemma com_ok_Release:
  assumes "com_ok h held" "p \<in># held"
  shows "\<exists>r h'. com_Release p h = Some (r, h') \<and> com_ok h' (held - {#p#})"
proof -
  obtain x where x: "ch_objs h p = Some (x, word_of_nat (count held p))" using com_ok_alive [OF assms(1,2)] .
  obtain k where k: "count held p = Suc k" using assms(2) by (metis count_greater_zero_iff gr0_conv_Suc)
  have "k < 2 ^ 32" using count_le_size [of held p] k com_okD(3) [OF assms(1)] by simp
  then have z: "(word_of_nat k :: u32) = 0 \<longleftrightarrow> k = 0" by (rule small_zero)
  have m: "(word_of_nat (count held p) :: u32) - 1 = word_of_nat k" by (simp add: k)
  have sz: "size (held - {#p#}) < 2 ^ 32" using com_okD(3) [OF assms(1)] assms(2) by (simp add: size_Diff_singleton)
  have "com_ok (put_obj p (if (word_of_nat k :: u32) = 0 then None else Some (x, word_of_nat k)) h) (held - {#p#})"
    using x k z sz by (intro com_ok_update [OF assms(1)]) (simp_all add: counted_def)
  then show ?thesis unfolding com_Release_def x option.case prod.case m by blast
qed

lemma com_ok_new:
  assumes "com_ok h held" "Suc (size held) < 2 ^ 32" "new_obj x h = (q, h')"
  shows "com_ok h' (add_mset q held)"
proof -
  have q: "q = ch_next h" and h': "ch_objs h' = (ch_objs h)(q := Some (x, 1))" "ch_next h' = Suc (ch_next h)"
    using assms(3) by (auto simp: new_obj_def put_obj_def)
  have "count held q = 0" using com_okD(1) [OF assms(1), of q] com_okD(2) [OF assms(1), of q] q by (simp add: counted_def)
  then have "counted (ch_objs h' p) (count (add_mset q held) p)" for p
    using com_okD(1) [OF assms(1), of p] by (cases "p = q") (simp_all add: h' counted_def)
  moreover have "ch_objs h' p = None" if "ch_next h' \<le> p" for p
    using com_okD(2) [OF assms(1), of p] that q by (simp add: h')
  ultimately show ?thesis using assms(2) unfolding com_ok_def by simp
qed

text \<open>A result that leaves the heap, or gives one new reference.\<close>

definition fair :: "nat multiset \<Rightarrow> (com_heap \<times> nat multiset) option \<Rightarrow> bool" where
  "fair held r \<longleftrightarrow> (\<exists>h' held'. r = Some (h', held') \<and> com_ok h' held' \<and> size held' \<le> Suc (size held))"

lemma fairI: "r = Some (h', held') \<Longrightarrow> com_ok h' held' \<Longrightarrow> size held' \<le> Suc (size held) \<Longrightarrow> fair held r"
  unfolding fair_def by blast

lemma fair_new:
  assumes "com_ok h held" "Suc (size held) < 2 ^ 32"
  shows "fair held (Some (case new_obj x h of (q, h') \<Rightarrow> (h', add_mset q held)))"
proof -
  obtain q h' where n: "new_obj x h = (q, h')" by force
  show ?thesis by (rule fairI [OF _ com_ok_new [OF assms n]]) (simp_all add: n)
qed

lemma com_step_fair:
  assumes ok: "com_ok h held" and may: "may_call op h held" and room: "Suc (size held) < 2 ^ 32"
  shows "fair held (com_step wide op (h, held))"
proof -
  have same: "fair held (Some (h, held))" by (rule fairI [OF refl ok]) simp
  note new = fair_new [OF ok room]
  show ?thesis
  proof (cases op)
    case (OpAddRef p)
    then show ?thesis using com_ok_AddRef [OF ok, of p] may room by (auto simp: may_call_def com_step_def fair_def)
  next
    case (OpRelease p)
    then have p: "p \<in># held" using may by (simp add: may_call_def)
    then show ?thesis using com_ok_Release [OF ok p] OpRelease by (auto simp: com_step_def fair_def size_Diff_singleton)
  next
    case (OpQuery p ppv i)
    then have p: "p \<in># held" using may by (simp add: may_call_def)
    obtain x where x: "ch_objs h p = Some (x, word_of_nat (count held p))" using com_ok_alive [OF ok p] .
    show ?thesis using com_ok_AddRef [OF ok p room] same x OpQuery
      by (auto simp: com_step_def com_QueryInterface_def fair_def)
  next
    case (OpClone p outp alloc)
    then have p: "p \<in># held" "\<not> is_data h p" using may by (simp_all add: may_call_def)
    obtain x where x: "ch_objs h p = Some (x, word_of_nat (count held p))" using com_ok_alive [OF ok p(1)] .
    show ?thesis using x p(2) same new OpClone
      by (cases x; cases outp; cases alloc) (simp_all add: com_step_def com_Clone_def is_data_def split_beta)
  next
    case (OpGetData p ptrs alloc fmt)
    then have p: "p \<in># held" "is_data h p" using may by (simp_all add: may_call_def)
    obtain x where x: "ch_objs h p = Some (x, word_of_nat (count held p))" using com_ok_alive [OF ok p(1)] .
    then obtain files where f: "x = DataObj files" using p(2) by (cases x) (simp_all add: is_data_def)
    obtain hr m where m: "GetData alloc wide files fmt = (hr, m)" by force
    show ?thesis
      using x f m same new OpGetData
      by (cases m rule: option.exhaust; cases "the m"; cases ptrs) (simp_all add: com_step_def data_GetData_def split_beta)
  next
    case (OpEnum p dirGet outp alloc)
    then have p: "p \<in># held" "is_data h p" using may by (simp_all add: may_call_def)
    obtain x where x: "ch_objs h p = Some (x, word_of_nat (count held p))" using com_ok_alive [OF ok p(1)] .
    then obtain files where f: "x = DataObj files" using p(2) by (cases x) (simp_all add: is_data_def)
    show ?thesis using x f same new OpEnum
      by (cases dirGet; cases outp; cases alloc) (simp_all add: com_step_def data_EnumFormatEtc_def EnumFormatEtc_def split_beta)
  next
    case (OpPut files src alloc ole)
    show ?thesis
    proof (cases "src \<and> alloc \<and> files \<noteq> []")
      case False
      then show ?thesis using same OpPut by (auto simp: com_step_def putFilePromiseOnClipboard_def createFilePromiseDataObject_def)
    next
      case True
      obtain p h1 where n: "new_obj (DataObj files) h = (p, h1)" by force
      have o1: "com_ok h1 (add_mset p held)" by (rule com_ok_new [OF ok room n])
      show ?thesis
      proof (cases ole)
        case False
        then show ?thesis using True n com_ok_Release [OF o1, of p] OpPut
          by (auto simp: com_step_def putFilePromiseOnClipboard_def createFilePromiseDataObject_def fair_def)
      next
        case ole: True
        have alive: "ch_objs h1 p = Some (DataObj files, 1)" using n by (auto simp: new_obj_def put_obj_def)
        have two: "(1 :: u32) + 1 - 1 \<noteq> 0" by simp
        then have "com_Release p (put_obj p (Some (DataObj files, 1 + 1)) h1) = Some (1, h1)"
          using alive by (simp add: com_Release_def put_obj_def fun_upd_idem)
        then show ?thesis using True ole n alive o1 OpPut
          by (auto simp: com_step_def putFilePromiseOnClipboard_def createFilePromiseDataObject_def com_AddRef_def fair_def)
      qed
    qed
  qed
qed

lemma com_run_ok:
  "com_ok h held \<Longrightarrow> size held + length ops < 2 ^ 32 \<Longrightarrow> \<exists>h' held'. com_run wide ops (h, held) = Some (h', held') \<and> com_ok h' held'"
proof (induction ops arbitrary: h held)
  case (Cons op ops)
  show ?case
  proof (cases "may_call op h held")
    case True
    obtain h' held' where s: "com_step wide op (h, held) = Some (h', held')" "com_ok h' held'" "size held' \<le> Suc (size held)"
      using com_step_fair [OF Cons.prems(1) True, of wide] Cons.prems(2) unfolding fair_def by auto
    then show ?thesis using Cons.IH [OF s(2)] Cons.prems(2) True by simp
  next
    case False
    then show ?thesis using Cons.IH [OF Cons.prems(1)] Cons.prems(2) by simp
  qed
qed auto

text \<open>
  C8. The promised files cannot dangle or leak.  Whatever the shell and the clipboard do
  with them, as long as they keep COM's rules, no method runs on a freed object; after every
  history an object exists exactly as long as somebody holds a reference to it, its count being that number; so when all are
  released nothing is left.  The bound is the width of the count.
\<close>

theorem com_lifetime:
  assumes "length ops < 2 ^ 32"
  shows "\<exists>h held. com_run wide ops (com_empty, {#}) = Some (h, held)
    \<and> (\<forall>p. ch_objs h p = None \<longleftrightarrow> p \<notin># held) \<and> (\<forall>p x r. ch_objs h p = Some (x, r) \<longrightarrow> unat r = count held p)
    \<and> (held = {#} \<longrightarrow> ch_objs h = (\<lambda>_. None))"
proof -
  have "com_ok com_empty {#}" by (simp add: com_ok_def com_empty_def counted_def)
  then obtain h held where r: "com_run wide ops (com_empty, {#}) = Some (h, held)" "com_ok h held"
    using com_run_ok assms by fastforce
  have c: "counted (ch_objs h p) (count held p)" for p by (rule com_okD(1) [OF r(2)])
  have none: "ch_objs h p = None \<longleftrightarrow> p \<notin># held" for p
    using c [of p] by (cases "ch_objs h p") (auto simp: counted_def not_in_iff)
  have "unat q = count held p" if "ch_objs h p = Some (x, q)" for p x q
  proof -
    have "q = word_of_nat (count held p)" using c [of p] that by (simp add: counted_def)
    moreover have "count held p < 2 ^ 32" using count_le_size [of held p] com_okD(3) [OF r(2)] by simp
    ultimately show ?thesis by (simp add: unat_of_nat take_bit_nat_eq_self)
  qed
  then show ?thesis using r(1) none by auto
qed

theorem com_lifetime_witness:
  "\<exists>h held. com_run (\<lambda>_. [65]) [OpPut [\<lparr>pf_name = ''a'', pf_size = 3\<rparr>] True True True, OpGetData 0 True True \<lparr>fmt_cf = CfContents, fmt_lindex = 0, fmt_tymed = TYMED_ISTREAM\<rparr>,
      OpRelease 0, OpClone 1 True True, OpRelease 1, OpRelease 2, OpRelease 2] (com_empty, {#}) = Some (h, held)
    \<and> (\<forall>p. ch_objs h p = None \<longleftrightarrow> p \<notin># held)"
  using com_lifetime [of "[OpPut [\<lparr>pf_name = ''a'', pf_size = 3\<rparr>] True True True, OpGetData 0 True True \<lparr>fmt_cf = CfContents, fmt_lindex = 0, fmt_tymed = TYMED_ISTREAM\<rparr>,
      OpRelease 0, OpClone 1 True True, OpRelease 1, OpRelease 2, OpRelease 2]" "\<lambda>_. [65]"] by auto

end
