(* ===== verification/FileThreads.thy ===== *)
theory FileThreads
  imports ComObjects OsServices "HOL-Library.Sublist"
begin

text \<open>
  The threads of \<open>platform/tray_win.cpp\<close> around a file paste: what is read of the files on the
  clipboard, the server's pass over one connection, and the OLE thread that publishes the promises the
  UI thread queues for it.
\<close>

section \<open>Files on the clipboard\<close>

text \<open>
  \<open>hdrop\<close> are the names the drop handle answers with, none for a query that fails; the buffer takes
  259 units and the terminator.
\<close>

definition clipboardFilePaths :: "bool \<Rightarrow> bool \<Rightarrow> u16 list option list option \<Rightarrow> u16 list list \<times> clip_handle event list" where
  "clipboardFilePaths available opened hdrop =
     (if \<not> available \<or> \<not> opened then ([], [])
      else (case hdrop of None \<Rightarrow> [] | Some fs \<Rightarrow> filter (\<lambda>p. p \<noteq> []) (map (\<lambda>f. case f of None \<Rightarrow> [] | Some p \<Rightarrow> take 259 p) fs),
            [Got HClip, Used HClip, Freed HClip]))"

text \<open>The attributes: the directory flag and the two halves of the size.\<close>

definition fileSizeOf :: "(bool \<times> u32 \<times> u32) option \<Rightarrow> u64" where
  "fileSizeOf fad = (case fad of None \<Rightarrow> 0 | Some (dir, hi, lo) \<Rightarrow> if dir then 0 else push_bit 32 (ucast hi) OR ucast lo)"

definition isDirectory :: "(bool \<times> u32 \<times> u32) option \<Rightarrow> bool" where
  "isDirectory fad = (case fad of None \<Rightarrow> False | Some (dir, _) \<Rightarrow> dir)"

text \<open>The size found first, what the read then gives, and whether it fails for another reason than the end.\<close>

definition readWholeFile :: "(int \<times> bytes \<times> bool) option \<Rightarrow> bytes option" where
  "readWholeFile file = (case file of None \<Rightarrow> None
     | Some (sz, content, broken) \<Rightarrow>
         if sz < 0 then None
         else if broken then None
         else Some (take (nat sz) content @ replicate (nat sz - length content) 0))"

lemma paths_balanced: "well_used [] (snd (clipboardFilePaths available opened hdrop))"
  by (simp add: clipboardFilePaths_def)

lemma file_size_halves: "fileSizeOf (Some (False, ucast (drop_bit 32 v), ucast (v AND 0xFFFFFFFF))) = v"
proof -
  have m: "v AND 0xFFFFFFFF = take_bit 32 v" by (simp add: take_bit_eq_mask mask_eq_exp_minus_1)
  show ?thesis unfolding fileSizeOf_def option.case prod.case if_False m
    by (rule bit_word_eqI) (auto simp: bit_or_iff bit_push_bit_iff bit_ucast_iff bit_drop_bit_eq bit_take_bit_iff)
qed

text \<open>A file that became shorter between the two is read as a success, with zeros for what is gone.\<close>

lemma shrunk_file: "length content \<le> n \<Longrightarrow> readWholeFile (Some (int n, content, False)) = Some (content @ replicate (n - length content) 0)"
  by (simp add: readWholeFile_def)

section \<open>The file server\<close>

text \<open>The connection is kept until the peer closes it, for at most the given number of polls.\<close>

fun keep_open :: "'t transport_ops \<Rightarrow> nat \<Rightarrow> 't \<Rightarrow> nat \<times> 't" where
  "keep_open ops 0 t = (0, t)"
| "keep_open ops (Suc n) t =
     (if \<not> op_up ops t then (0, t)
      else case op_recv ops 64 t of
          (RecvErr, t') \<Rightarrow> (1, t')
        | (_, t') \<Rightarrow> (case keep_open ops n t' of (k, t'') \<Rightarrow> (Suc k, t'')))"

text \<open>One pass: the accepted and secured link, the paths copied last, and the disk. The result is \<open>sendAll\<close>'s, the polls made after it, and the link.\<close>

definition serve_pass :: "'t transport_ops \<Rightarrow> 't option \<Rightarrow> string list \<Rightarrow> (string \<Rightarrow> (int \<times> bytes \<times> bool) option) \<Rightarrow> (bool \<times> nat \<times> 't) option" where
  "serve_pass ops link paths disk =
     (case link of None \<Rightarrow> None
      | Some t \<Rightarrow> (case serve_one (op_send ops) (readWholeFile \<circ> disk) paths t of None \<Rightarrow> None
         | Some (ok, t1) \<Rightarrow> (case keep_open ops 12000 t1 of (k, t2) \<Rightarrow> Some (ok, k, t2))))"

lemma keep_open_bound: "fst (keep_open ops n t) \<le> n"
  by (induction n arbitrary: t) (auto simp: split_beta split: recv_result.split)

lemma serve_pass_bound: "serve_pass ops link paths disk = Some (ok, k, t) \<Longrightarrow> k \<le> 12000"
proof -
  assume a: "serve_pass ops link paths disk = Some (ok, k, t)"
  then obtain t1 where "keep_open ops 12000 t1 = (k, t)" by (auto simp: serve_pass_def split: option.splits prod.splits)
  then show "k \<le> 12000" using keep_open_bound [of ops 12000 t1] by simp
qed

section \<open>The promise thread\<close>

text \<open>
  The UI thread appends a request under the mutex and then sets the event; the OLE thread waits for
  the event, which resets it, swaps the queue away and publishes the batch in order.  \<open>'q\<close> are the requests.
\<close>

datatype ole_phase = Waiting | Woken | Publishing

record 'q Promises =
  pm_queue :: "'q list"
  pm_event :: bool
  pm_unsignalled :: bool
  pm_phase :: ole_phase
  pm_batch :: "'q list"
  pm_published :: "'q list"
  pm_requested :: "'q list"

definition promises_init :: "'q Promises" where
  "promises_init = \<lparr>pm_queue = [], pm_event = False, pm_unsignalled = False, pm_phase = Waiting, pm_batch = [], pm_published = [], pm_requested = []\<rparr>"

text \<open>The steps after a request was queued; \<open>pm_requested\<close> is the history of all requests.\<close>

inductive ole_step :: "'q Promises \<Rightarrow> 'q Promises \<Rightarrow> bool" where
  signal: "pm_unsignalled s \<Longrightarrow> ole_step s (s\<lparr>pm_unsignalled := False, pm_event := True\<rparr>)"
| wake: "pm_phase s = Waiting \<Longrightarrow> pm_event s \<Longrightarrow> ole_step s (s\<lparr>pm_event := False, pm_phase := Woken\<rparr>)"
| swap: "pm_phase s = Woken \<Longrightarrow> ole_step s (s\<lparr>pm_batch := pm_queue s, pm_queue := [], pm_phase := Publishing\<rparr>)"
| publish: "pm_phase s = Publishing \<Longrightarrow> pm_batch s = q # rest \<Longrightarrow>
    ole_step s (s\<lparr>pm_batch := rest, pm_published := pm_published s @ [q]\<rparr>)"
| batch_done: "pm_phase s = Publishing \<Longrightarrow> pm_batch s = [] \<Longrightarrow> ole_step s (s\<lparr>pm_phase := Waiting\<rparr>)"

inductive promise_step :: "'q Promises \<Rightarrow> 'q Promises \<Rightarrow> bool" where
  request: "\<not> pm_unsignalled s \<Longrightarrow>
    promise_step s (s\<lparr>pm_queue := pm_queue s @ [q], pm_requested := pm_requested s @ [q], pm_unsignalled := True\<rparr>)"
| ole: "ole_step s t \<Longrightarrow> promise_step s t"

inductive promise_reach :: "'q Promises \<Rightarrow> bool" where
  promise_start: "promise_reach promises_init"
| promise_next: "promise_reach s \<Longrightarrow> promise_step s t \<Longrightarrow> promise_reach t"

inductive_cases ole_stepE: "ole_step s t"

text \<open>Nothing is lost, doubled or out of order, and whatever waits has a signal pending.\<close>

definition promise_inv :: "'q Promises \<Rightarrow> bool" where
  "promise_inv s \<longleftrightarrow> pm_published s @ pm_batch s @ pm_queue s = pm_requested s
     \<and> (pm_queue s \<noteq> [] \<longrightarrow> pm_event s \<or> pm_unsignalled s \<or> pm_phase s = Woken)
     \<and> (pm_phase s \<noteq> Publishing \<longrightarrow> pm_batch s = [])"

lemma promise_inv_ole: "ole_step s t \<Longrightarrow> promise_inv s \<Longrightarrow> promise_inv t"
  by (cases rule: ole_step.cases) (auto simp: promise_inv_def)

lemma promise_inv_reach: "promise_reach s \<Longrightarrow> promise_inv s"
proof (induction rule: promise_reach.induct)
  case promise_start
  show ?case by (simp add: promise_inv_def promises_init_def)
next
  case (promise_next s t)
  from promise_next.hyps(2) show ?case
  proof cases
    case (request q)
    then show ?thesis using promise_next.IH by (auto simp: promise_inv_def)
  next
    case ole
    then show ?thesis using promise_inv_ole promise_next.IH by blast
  qed
qed

definition ole_work :: "'q Promises \<Rightarrow> nat" where
  "ole_work s = (if pm_unsignalled s then 4 else 0) + (if pm_event s then 3 else 0)
     + (case pm_phase s of Waiting \<Rightarrow> 0 | Publishing \<Rightarrow> 1 | Woken \<Rightarrow> 2) + length (pm_queue s) + length (pm_batch s)"

lemma ole_work_decreases: "ole_step s t \<Longrightarrow> ole_work t < ole_work s"
  by (cases rule: ole_step.cases) (auto simp: ole_work_def)

lemma ole_stuck: "promise_inv s \<Longrightarrow> (\<And>t. \<not> ole_step s t) \<Longrightarrow> pm_published s = pm_requested s"
proof -
  assume i: "promise_inv s" and stuck: "\<And>t. \<not> ole_step s t"
  have "\<not> pm_unsignalled s" "\<not> (pm_phase s = Waiting \<and> pm_event s)" "pm_phase s \<noteq> Woken" "pm_phase s \<noteq> Publishing"
    using stuck ole_step.intros by (blast, blast, blast, metis list.exhaust ole_step.publish ole_step.batch_done)
  then show ?thesis using i by (cases "pm_phase s") (auto simp: promise_inv_def)
qed

lemma ole_finishes:
  "ole_step\<^sup>*\<^sup>* s t \<Longrightarrow> promise_inv s \<Longrightarrow> promise_inv t \<and> pm_requested t = pm_requested s"
proof (induction rule: rtranclp_induct)
  case (step t u)
  then have "promise_inv u" using promise_inv_ole by blast
  moreover have "pm_requested u = pm_requested t" using step.hyps(2) by (cases rule: ole_step.cases) auto
  ultimately show ?case using step by simp
qed simp



end
