(* ===== verification/LoginStart.thy ===== *)
theory LoginStart
  imports Shell Handles
begin

text \<open>
  Starting at login in detail: the command lines, processes and files of
  \<open>platform/autostart_win.cpp\<close>, which implement the operations of \<open>Shell\<close>, and the paths and
  notifications of \<open>platform/tray_win.cpp\<close>.  Wide strings are written as strings; the task scheduler, the
  folders and the file system are parameters.
\<close>

section \<open>Processes\<close>

datatype proc_handle = HProcess | HThread

text \<open>
  The system: a hidden command line and one that asks for elevation, each with the exit code unless it could not
  be started, the start-up folder, and files.
\<close>

record 's login_os =
  lo_run :: "string \<Rightarrow> 's \<Rightarrow> u32 option \<times> 's"
  lo_runas :: "string \<Rightarrow> string \<Rightarrow> 's \<Rightarrow> u32 option \<times> 's"
  lo_module :: string
  lo_startup :: "string option"
  lo_exists :: "string \<Rightarrow> 's \<Rightarrow> bool"
  lo_delete :: "string \<Rightarrow> 's \<Rightarrow> bool \<times> 's"

definition kTaskName :: string where "kTaskName = ''Skittermouse''"

definition exePath :: "'s login_os \<Rightarrow> string" where
  "exePath os = take 260 (lo_module os)"

definition schtasks_cmd :: "string \<Rightarrow> string" where
  "schtasks_cmd args = ''schtasks.exe '' @ args"

definition runSchtasks :: "'s login_os \<Rightarrow> string \<Rightarrow> 's \<Rightarrow> int \<times> proc_handle event list \<times> 's" where
  "runSchtasks os args s = (case lo_run os (schtasks_cmd args) s of
     (None, s') \<Rightarrow> (- 1, [], s')
   | (Some code, s') \<Rightarrow> (sint code, [Got HProcess, Got HThread, Used HProcess, Freed HProcess, Freed HThread], s'))"

definition runSchtasksElevated :: "'s login_os \<Rightarrow> string \<Rightarrow> 's \<Rightarrow> int \<times> proc_handle event list \<times> 's" where
  "runSchtasksElevated os args s = (case lo_runas os ''schtasks.exe'' args s of
     (None, s') \<Rightarrow> (- 1, [], s')
   | (Some code, s') \<Rightarrow> (sint code, [Got HProcess, Used HProcess, Freed HProcess], s'))"

definition startupShortcutPath :: "'s login_os \<Rightarrow> string" where
  "startupShortcutPath os = (case lo_startup os of None \<Rightarrow> [] | Some p \<Rightarrow> p @ [CHR 0x5C] @ ''Skittermouse.lnk'')"

abbreviation quote :: string where "quote \<equiv> [CHR 0x22]"

definition create_args :: "'s login_os \<Rightarrow> string" where
  "create_args os = ''/Create /TN '' @ kTaskName @ '' /TR '' @ quote @ exePath os @ quote @ '' /SC ONLOGON /RL HIGHEST /F''"

definition query_args :: string where "query_args = ''/Query /TN '' @ kTaskName"
definition delete_args :: string where "delete_args = ''/Delete /TN '' @ kTaskName @ '' /F''"

section \<open>The three operations\<close>

definition os_enableAutostart :: "'s login_os \<Rightarrow> 's \<Rightarrow> bool \<times> 's" where
  "os_enableAutostart os s = (case runSchtasksElevated os (create_args os) s of (code, _, s') \<Rightarrow> (code = 0, s'))"

definition shortcut_there :: "'s login_os \<Rightarrow> 's \<Rightarrow> bool" where
  "shortcut_there os s \<longleftrightarrow> startupShortcutPath os \<noteq> [] \<and> lo_exists os (startupShortcutPath os) s"

definition os_disableAutostart :: "'s login_os \<Rightarrow> 's \<Rightarrow> bool \<times> 's" where
  "os_disableAutostart os s =
     (case runSchtasks os query_args s of (code, _, s1) \<Rightarrow>
       case (if code = 0 then case runSchtasksElevated os delete_args s1 of (c, _, s2) \<Rightarrow> (c = 0, s2) else (False, s1)) of (removed, s2) \<Rightarrow>
         if shortcut_there os s2 then (case lo_delete os (startupShortcutPath os) s2 of (gone, s3) \<Rightarrow> (gone \<or> removed, s3))
         else (removed, s2))"

definition os_isAutostartEnabled :: "'s login_os \<Rightarrow> 's \<Rightarrow> bool \<times> 's" where
  "os_isAutostartEnabled os s =
     (case runSchtasks os query_args s of (code, _, s1) \<Rightarrow> if code = 0 then (True, s1) else (shortcut_there os s1, s1))"

text \<open>
  What the task scheduler and the file system document, over what starts the program (\<open>view\<close>) and
  the answers of the user and the system (\<open>env\<close>).
\<close>

definition login_os_ok :: "startup_env \<Rightarrow> ('s \<Rightarrow> Startup) \<Rightarrow> 's login_os \<Rightarrow> bool" where
  "login_os_ok env view os \<longleftrightarrow>
     (\<forall>s. (fst (lo_run os (schtasks_cmd query_args) s) = Some 0 \<longleftrightarrow> su_task (view s))
        \<and> view (snd (lo_run os (schtasks_cmd query_args) s)) = view s)
   \<and> (\<forall>s. (fst (lo_runas os ''schtasks.exe'' (create_args os) s) = Some 0 \<longleftrightarrow> se_elevated env)
        \<and> view (snd (lo_runas os ''schtasks.exe'' (create_args os) s)) = (if se_elevated env then (view s)\<lparr>su_task := True\<rparr> else view s))
   \<and> (\<forall>s. su_task (view s) \<longrightarrow> (fst (lo_runas os ''schtasks.exe'' delete_args s) = Some 0 \<longleftrightarrow> se_elevated env)
        \<and> view (snd (lo_runas os ''schtasks.exe'' delete_args s)) = (if se_elevated env then (view s)\<lparr>su_task := False\<rparr> else view s))
   \<and> (\<forall>s. shortcut_there os s = su_shortcut (view s))
   \<and> (\<forall>s. fst (lo_delete os (startupShortcutPath os) s) = se_deleted env
        \<and> view (snd (lo_delete os (startupShortcutPath os) s)) = (if se_deleted env then (view s)\<lparr>su_shortcut := False\<rparr> else view s))"

lemma login_os_okD:
  assumes "login_os_ok env view os"
  shows "fst (lo_run os (schtasks_cmd query_args) s) = Some 0 \<longleftrightarrow> su_task (view s)"
    "view (snd (lo_run os (schtasks_cmd query_args) s)) = view s"
    "fst (lo_runas os ''schtasks.exe'' (create_args os) s) = Some 0 \<longleftrightarrow> se_elevated env"
    "view (snd (lo_runas os ''schtasks.exe'' (create_args os) s)) = (if se_elevated env then (view s)\<lparr>su_task := True\<rparr> else view s)"
    "su_task (view s) \<Longrightarrow> fst (lo_runas os ''schtasks.exe'' delete_args s) = Some 0 \<longleftrightarrow> se_elevated env"
    "su_task (view s) \<Longrightarrow> view (snd (lo_runas os ''schtasks.exe'' delete_args s)) = (if se_elevated env then (view s)\<lparr>su_task := False\<rparr> else view s)"
    "shortcut_there os s = su_shortcut (view s)"
    "fst (lo_delete os (startupShortcutPath os) s) = se_deleted env"
    "view (snd (lo_delete os (startupShortcutPath os) s)) = (if se_deleted env then (view s)\<lparr>su_shortcut := False\<rparr> else view s)"
  using assms unfolding login_os_ok_def by blast+

lemma sint_zero: "sint (c :: u32) = 0 \<longleftrightarrow> c = 0"
  by (metis signed_eq_0_iff)

lemma schtasks_zero:
  "fst (runSchtasks os args s) = 0 \<longleftrightarrow> fst (lo_run os (schtasks_cmd args) s) = Some 0"
  "snd (snd (runSchtasks os args s)) = snd (lo_run os (schtasks_cmd args) s)"
  "fst (runSchtasksElevated os args s) = 0 \<longleftrightarrow> fst (lo_runas os ''schtasks.exe'' args s) = Some 0"
  "snd (snd (runSchtasksElevated os args s)) = snd (lo_runas os ''schtasks.exe'' args s)"
  by (auto simp: runSchtasks_def runSchtasksElevated_def sint_zero split: prod.splits option.splits)

lemma schtasks_handles: "well_used [] (fst (snd (runSchtasks os args s)))" "well_used [] (fst (snd (runSchtasksElevated os args s)))"
  by (simp_all add: runSchtasks_def runSchtasksElevated_def split: prod.split option.split)


text \<open>A system whose state is what starts the program.\<close>

definition toy_login :: "startup_env \<Rightarrow> Startup login_os" where
  "toy_login env =
     \<lparr>lo_run = (\<lambda>cmd s. (if su_task s then Some 0 else Some 1, s)),
      lo_runas = (\<lambda>file args s. if \<not> se_elevated env then (None, s)
        else if args = delete_args then (Some 0, s\<lparr>su_task := False\<rparr>) else (Some 0, s\<lparr>su_task := True\<rparr>)),
      lo_module = ''skittermouse.exe'', lo_startup = Some ''startup'', lo_exists = (\<lambda>p s. su_shortcut s),
      lo_delete = (\<lambda>p s. if se_deleted env then (True, s\<lparr>su_shortcut := False\<rparr>) else (False, s))\<rparr>"

lemma toy_login_ok: "login_os_ok env (\<lambda>s. s) (toy_login env)"
proof -
  have "create_args (toy_login env) \<noteq> delete_args" by (simp add: create_args_def delete_args_def)
  then show ?thesis by (auto simp: login_os_ok_def toy_login_def shortcut_there_def startupShortcutPath_def)
qed


section \<open>Paths and notifications\<close>

text \<open>The application-data folder, when the system has one, and the conversion to UTF-8.\<close>

definition app_path :: "(string \<Rightarrow> string) \<Rightarrow> string option \<Rightarrow> string \<Rightarrow> string" where
  "app_path utf8 appdata name = (case appdata of None \<Rightarrow> [] | Some d \<Rightarrow> utf8 (d @ [CHR 0x5C] @ ''Skittermouse'' @ [CHR 0x5C] @ name))"

definition configPath :: "(string \<Rightarrow> string) \<Rightarrow> string option \<Rightarrow> string" where
  "configPath utf8 appdata = app_path utf8 appdata ''config.txt''"

definition logPath :: "(string \<Rightarrow> string) \<Rightarrow> string option \<Rightarrow> string" where
  "logPath utf8 appdata = app_path utf8 appdata ''log.txt''"

definition keyStorePath :: "(string \<Rightarrow> string) \<Rightarrow> string option \<Rightarrow> string" where
  "keyStorePath utf8 appdata = app_path utf8 appdata ''keys.dat''"

text \<open>Title and text of a notification: the fields hold 63 and 255 units and the terminator.\<close>

definition showToast :: "bool \<Rightarrow> string \<Rightarrow> string \<Rightarrow> (string \<times> string) option" where
  "showToast running title msg = (if \<not> running then None else Some (take 63 title, take 255 msg))"

lemma app_files_distinct:
  assumes "inj utf8"
  shows "configPath utf8 (Some d) \<noteq> logPath utf8 (Some d) \<and> configPath utf8 (Some d) \<noteq> keyStorePath utf8 (Some d)
    \<and> logPath utf8 (Some d) \<noteq> keyStorePath utf8 (Some d)"
  by (simp add: configPath_def logPath_def keyStorePath_def app_path_def inj_eq [OF assms])

end
