(* ===== verification/TlsContexts.thy ===== *)
theory TlsContexts
  imports SocketLayer Handles
begin

text \<open>
  The TLS layer of \<open>platform/ws_transport_posix.cpp\<close>: the two contexts, which are made at their first
  use and kept, the self-signed certificate, and what a POSIX and a Windows build do when they
  dial each other.  What the TLS library answers is a parameter; \<open>tls_ok\<close> says what is
  used of it.
\<close>

section \<open>The certificate\<close>

record X509 =
  x_serial :: int
  x_notBefore :: int
  x_notAfter :: int
  x_pubkey :: bytes
  x_subject :: string
  x_issuer :: string
  x_signed :: "bytes option"

record TlsCtx =
  tc_server :: bool
  tc_verify :: bool
  tc_cert :: "X509 option"
  tc_key :: "bytes option"

datatype tls_handle = PKey | Cert

text \<open>Which calls succeed; keys are known by their public part.\<close>

record tls_env =
  te_ctx :: bool
  te_keygen :: "bytes option"
  te_x509 :: bool
  te_sign :: bool
  te_useCert :: bool
  te_useKey :: bool
  te_now :: int

definition selfSigned :: "bytes \<Rightarrow> int \<Rightarrow> X509" where
  "selfSigned pub now = \<lparr>x_serial = 1, x_notBefore = now + 0, x_notAfter = now + 60 * 60 * 24 * 3650, x_pubkey = pub,
     x_subject = ''CN=Skittermouse'', x_issuer = ''CN=Skittermouse'', x_signed = None\<rparr>"

definition installSelfSignedCert :: "tls_env \<Rightarrow> TlsCtx \<Rightarrow> bool \<times> TlsCtx \<times> tls_handle event list" where
  "installSelfSignedCert env c =
     (case te_keygen env of None \<Rightarrow> (False, c, [])
      | Some pub \<Rightarrow>
          if \<not> te_x509 env then (False, c, [Got PKey, Freed PKey])
          else
            let x = selfSigned pub (te_now env); done = [Used Cert, Used PKey, Freed Cert, Freed PKey] in
            if \<not> te_sign env then (False, c, Got PKey # Got Cert # done)
            else let x = x\<lparr>x_signed := Some pub\<rparr> in
              if \<not> te_useCert env then (False, c, Got PKey # Got Cert # done)
              else let c1 = c\<lparr>tc_cert := Some x\<rparr> in
                if \<not> te_useKey env then (False, c1, Got PKey # Got Cert # done)
                else (True, c1\<lparr>tc_key := Some pub\<rparr>, Got PKey # Got Cert # done))"

section \<open>The contexts\<close>

text \<open>The two function-local statics: \<open>None\<close> before the first call, then its result for good.\<close>

record TlsStatics =
  ts_client :: "TlsCtx option option"
  ts_server :: "TlsCtx option option"

definition tls_start :: TlsStatics where
  "tls_start = \<lparr>ts_client = None, ts_server = None\<rparr>"

definition new_ctx :: "bool \<Rightarrow> TlsCtx" where
  "new_ctx server = \<lparr>tc_server = server, tc_verify = False, tc_cert = None, tc_key = None\<rparr>"

definition clientTlsCtx :: "tls_env \<Rightarrow> TlsStatics \<Rightarrow> TlsCtx option \<times> TlsStatics" where
  "clientTlsCtx env st =
     (case ts_client st of Some c \<Rightarrow> (c, st)
      | None \<Rightarrow> let c = (if te_ctx env then Some ((new_ctx False)\<lparr>tc_verify := False\<rparr>) else None) in
          (c, st\<lparr>ts_client := Some c\<rparr>))"

definition serverTlsCtx :: "tls_env \<Rightarrow> TlsStatics \<Rightarrow> TlsCtx option \<times> TlsStatics" where
  "serverTlsCtx env st =
     (case ts_server st of Some c \<Rightarrow> (c, st)
      | None \<Rightarrow> let c = (if te_ctx env then Some (fst (snd (installSelfSignedCert env (new_ctx True)))) else None) in
          (c, st\<lparr>ts_server := Some c\<rparr>))"

lemma cert_balanced: "installSelfSignedCert env c = (ok, c', t) \<Longrightarrow> well_used [] t"
  by (auto simp: installSelfSignedCert_def Let_def split: option.splits if_splits)

lemma cert_installed:
  "installSelfSignedCert env c = (True, c', t) \<Longrightarrow>
     \<exists>pub. te_keygen env = Some pub \<and> tc_key c' = Some pub \<and> tc_cert c' = Some ((selfSigned pub (te_now env))\<lparr>x_signed := Some pub\<rparr>)"
  by (auto simp: installSelfSignedCert_def Let_def split: option.splits if_splits)

lemma cert_refused: "installSelfSignedCert env c = (False, c', t) \<Longrightarrow> tc_key c' = tc_key c"
  by (auto simp: installSelfSignedCert_def Let_def split: option.splits if_splits)

text \<open>A context can serve once it has a certificate and its key.\<close>

definition can_serve :: "TlsCtx option \<Rightarrow> bool" where
  "can_serve c = (case c of None \<Rightarrow> False | Some d \<Rightarrow> tc_cert d \<noteq> None \<and> tc_key d \<noteq> None)"

lemma server_first:
  "can_serve (fst (serverTlsCtx env tls_start)) \<longleftrightarrow> te_ctx env \<and> fst (installSelfSignedCert env (new_ctx True))"
  using cert_installed [of env "new_ctx True"] cert_refused [of env "new_ctx True"]
  by (cases "installSelfSignedCert env (new_ctx True)"; cases "fst (installSelfSignedCert env (new_ctx True))")
    (auto simp: serverTlsCtx_def tls_start_def can_serve_def new_ctx_def Let_def)

section \<open>Connections\<close>

text \<open>
  The library at work: the bytes a client opens with, and whether a side completes its handshake when
  these are the peer's first bytes.
\<close>

record tls_lib =
  tl_hello :: string
  tl_connect :: "TlsCtx \<Rightarrow> string \<Rightarrow> bool"
  tl_accept :: "TlsCtx \<Rightarrow> string \<Rightarrow> bool"

definition record_first :: "string \<Rightarrow> bool" where
  "record_first s \<longleftrightarrow> s \<noteq> [] \<and> hd s = CHR 0x16"

definition tls_ok :: "tls_lib \<Rightarrow> bool" where
  "tls_ok L \<longleftrightarrow> (\<forall>c s. tl_connect L c s \<longrightarrow> record_first s) \<and> (\<forall>c s. tl_accept L c s \<longrightarrow> record_first s \<and> can_serve (Some c))"

text \<open>What a library that gives up writes: one fatal alert.\<close>

definition tls_alert :: "char \<Rightarrow> char \<Rightarrow> string" where
  "tls_alert version description = [CHR 0x15, CHR 0x03, version, CHR 0x00, CHR 0x02, CHR 0x02, description]"

definition posix_dial ::
  "tls_lib \<Rightarrow> tls_env \<Rightarrow> TlsStatics \<Rightarrow> (bytes \<Rightarrow> bytes) \<Rightarrow> string \<Rightarrow> u16 \<Rightarrow> connect_env \<Rightarrow> string \<Rightarrow> WsSocket \<times> OsTable
     \<Rightarrow> (bool \<times> WsSocket \<times> OsTable) \<times> TlsStatics" where
  "posix_dial L env st sha1 host port ce answer s =
     (case clientTlsCtx env st of (c, st1) \<Rightarrow>
        (posix_connect sha1 host port
           (ce\<lparr>ce_sslNew := ce_sslNew ce \<and> c \<noteq> None, ce_sslConnect := (case c of None \<Rightarrow> False | Some d \<Rightarrow> tl_connect L d answer)\<rparr>) s, st1))"

definition posix_answer ::
  "tls_lib \<Rightarrow> tls_env \<Rightarrow> TlsStatics \<Rightarrow> (bytes \<Rightarrow> bytes) \<Rightarrow> accept_env \<Rightarrow> string \<Rightarrow> OsTable
     \<Rightarrow> ((WsSocket \<times> string option) option \<times> OsTable) \<times> TlsStatics" where
  "posix_answer L env st sha1 ae opening os =
     (case serverTlsCtx env st of (c, st1) \<Rightarrow>
        (posix_acceptOne sha1
           (ae\<lparr>ae_sslNew := ae_sslNew ae \<and> c \<noteq> None, ae_sslAccept := (case c of None \<Rightarrow> False | Some d \<Rightarrow> tl_accept L d opening)\<rparr>) os, st1))"

lemma dial_needs_tls: "\<not> ce_sslConnect ce \<Longrightarrow> fst (posix_connect sha1 host port ce (createWsClientTransport, os)) = False"
  by (auto simp: posix_connect_def createWsClientTransport_def Let_def split: option.splits)

lemma answer_needs_tls: "\<not> ae_sslAccept ae \<Longrightarrow> fst (posix_acceptOne sha1 ae os) = None"
  by (auto simp: posix_acceptOne_def Let_def split: option.splits prod.splits)

lemma plain_needs_key: "find_sub key_tag inp = None \<Longrightarrow> fst (win_acceptOne sha1 (ae\<lparr>ae_input := inp\<rparr>) os) = None"
proof -
  assume no: "find_sub key_tag inp = None"
  have "parseKeyFromRequest h = []" if "read_head [] inp = Some (h, r)" for h r
  proof -
    have "inp = h @ r" using read_head_bounded [OF that] by simp
    then have "find_sub key_tag h = None" using no find_none_prefix by metis
    then show ?thesis by (simp add: parseKeyFromRequest_def)
  qed
  then have "acceptServerSide sha1 wr inp = None" for wr
    by (auto simp: acceptServerSide_def Let_def split: option.split)
  then show ?thesis by (auto simp: win_acceptOne_def accept_socket_def Let_def split: option.splits)
qed

lemma alert_no_head: "eoh (tls_alert v d) = None"
  by (simp add: eoh_def crlf_def tls_alert_def)

lemma plain_needs_head: "eoh (ce_input ce) = None \<Longrightarrow> fst (win_connect sha1 host port ce (createWsClientTransport, os)) = False"
proof -
  assume no: "eoh (ce_input ce) = None"
  have "read_head [] (ce_input ce) = None"
  proof (cases "read_head [] (ce_input ce)")
    case (Some hr)
    then obtain h r where "read_head [] (ce_input ce) = Some (h, r)" by (cases hr) simp
    from read_head_bounded [OF this] have "ce_input ce = h @ r" "eoh h \<noteq> None" by simp_all
    then show ?thesis using no find_none_prefix unfolding eoh_def by metis
  qed
  then have "\<not> upgraded sha1 host port ce" by (simp add: upgraded_def clientHandshake_def Let_def)
  then show ?thesis by (auto simp: win_connect_def createWsClientTransport_def Let_def split: option.splits)
qed

text \<open>
  C37. A POSIX and a Windows build never connect, whichever of them dials: the Windows side reads
  the TLS greeting as a request without a key and hangs up, which the POSIX side sees as the end of
  the stream; and the POSIX side answers the plain request with an alert, which is no response.
\<close>

theorem builds_never_connect:
  assumes "tls_ok L" "find_sub key_tag (tl_hello L) = None"
  shows "\<not> fst (fst (posix_dial L env st sha1 host port ce [] (createWsClientTransport, os)))
    \<and> fst (win_acceptOne sha1 (ae\<lparr>ae_input := tl_hello L\<rparr>) os) = None
    \<and> \<not> fst (win_connect sha1 host port (ce\<lparr>ce_input := tls_alert v d\<rparr>) (createWsClientTransport, os))
    \<and> fst (fst (posix_answer L env st sha1 ae (clientRequest host port (ce_rnd ce)) os)) = None"
proof (intro conjI)
  have noconn: "\<not> tl_connect L c []" for c using assms(1) unfolding tls_ok_def record_first_def by blast
  show "\<not> fst (fst (posix_dial L env st sha1 host port ce [] (createWsClientTransport, os)))"
    by (auto simp: posix_dial_def noconn dial_needs_tls split: prod.splits option.splits)
  show "fst (win_acceptOne sha1 (ae\<lparr>ae_input := tl_hello L\<rparr>) os) = None"
    by (rule plain_needs_key [OF assms(2)])
  show "\<not> fst (win_connect sha1 host port (ce\<lparr>ce_input := tls_alert v d\<rparr>) (createWsClientTransport, os))"
    using plain_needs_head [of "ce\<lparr>ce_input := tls_alert v d\<rparr>"] alert_no_head by simp
  have "hd (clientRequest host port (ce_rnd ce)) = CHR ''G''"
    by (simp add: clientRequest_def wsBuildClientHandshake_def)
  then have "\<not> tl_accept L c (clientRequest host port (ce_rnd ce))" for c
    using assms(1) unfolding tls_ok_def record_first_def by auto
  then show "fst (fst (posix_answer L env st sha1 ae (clientRequest host port (ce_rnd ce)) os)) = None"
    by (auto simp: posix_answer_def answer_needs_tls split: prod.splits option.splits)
qed

text \<open>
  The server's context is made once: when the certificate cannot be made at the first inbound
  connection, whose result is not looked at, no later connection is ever accepted, although
  every call would succeed then.
\<close>

definition serve_all ::
  "tls_lib \<Rightarrow> (bytes \<Rightarrow> bytes) \<Rightarrow> OsTable \<Rightarrow> (tls_env \<times> accept_env \<times> string) list \<Rightarrow> TlsStatics \<Rightarrow> (WsSocket \<times> string option) option list" where
  "serve_all L sha1 os conns st =
     fst (fold (\<lambda>(env, ae, opening) (acc, st). case posix_answer L env st sha1 ae opening os of (r, st1) \<Rightarrow> (acc @ [fst r], st1)) conns ([], st))"

lemma dead_context: "tls_ok L \<Longrightarrow> ts_server st = Some c \<Longrightarrow> \<not> can_serve c \<Longrightarrow>
    fst (fst (posix_answer L env st sha1 ae opening os)) = None \<and> snd (posix_answer L env st sha1 ae opening os) = st"
proof -
  assume a: "tls_ok L" "ts_server st = Some c" "\<not> can_serve c"
  have "\<not> (case c of None \<Rightarrow> False | Some d \<Rightarrow> tl_accept L d opening)"
    using a(1,3) unfolding tls_ok_def by (auto split: option.splits)
  then show ?thesis using a(2) by (simp add: posix_answer_def serverTlsCtx_def answer_needs_tls)
qed

theorem failed_certificate_sticks:
  assumes "tls_ok L" "\<not> (te_ctx env \<and> fst (installSelfSignedCert env (new_ctx True)))"
  shows "list_all (\<lambda>r. r = None) (serve_all L sha1 os ((env, ae, opening) # conns) tls_start)"
proof -
  let ?step = "\<lambda>(env, ae, opening) (acc, st). case posix_answer L env st sha1 ae opening os of (r, st1) \<Rightarrow> (acc @ [fst r], st1)"
  have run: "list_all (\<lambda>r. r = None) (fst (fold ?step cs (acc, st)))"
    if "list_all (\<lambda>r. r = None) acc" "ts_server st = Some c" "\<not> can_serve c" for cs acc st c
    using that
  proof (induction cs arbitrary: acc)
    case (Cons x cs)
    obtain e a g where x: "x = (e, a, g)" by (rule prod_cases3)
    show ?case using Cons dead_context [OF assms(1) Cons.prems(2,3)] by (simp add: x split_beta)
  qed simp
  define c where "c = fst (serverTlsCtx env tls_start)"
  have dead: "\<not> can_serve c" using assms(2) server_first unfolding c_def by blast
  have st: "snd (serverTlsCtx env tls_start) = tls_start\<lparr>ts_server := Some c\<rparr>"
    by (simp add: serverTlsCtx_def tls_start_def Let_def c_def)
  have "\<not> (case c of None \<Rightarrow> False | Some d \<Rightarrow> tl_accept L d opening)"
    using assms(1) dead unfolding tls_ok_def by (auto split: option.splits)
  then have "fst (fst (posix_answer L env tls_start sha1 ae opening os)) = None"
    "snd (posix_answer L env tls_start sha1 ae opening os) = tls_start\<lparr>ts_server := Some c\<rparr>"
    using st by (simp_all add: posix_answer_def split_beta answer_needs_tls flip: c_def)
  then show ?thesis using run [of "[None]" "tls_start\<lparr>ts_server := Some c\<rparr>" c conns] dead by (simp add: serve_all_def split_beta)
qed

section \<open>Instances\<close>

definition toy_tls :: tls_lib where
  "toy_tls = \<lparr>tl_hello = [CHR 0x16, CHR 0x03, CHR 0x01], tl_connect = (\<lambda>c s. record_first s),
     tl_accept = (\<lambda>c s. record_first s \<and> can_serve (Some c))\<rparr>"

lemma toy_tls_ok: "tls_ok toy_tls"
  by (simp add: tls_ok_def toy_tls_def)

definition works :: tls_env where
  "works = \<lparr>te_ctx = True, te_keygen = Some [1, 2, 3], te_x509 = True, te_sign = True, te_useCert = True, te_useKey = True, te_now = 0\<rparr>"

definition plain_accept :: "string \<Rightarrow> accept_env" where
  "plain_accept inp = \<lparr>ae_socket = Some 1, ae_bind = True, ae_listen = True, ae_readable = True, ae_accept = Some 2, ae_peer = None,
     ae_sslNew = True, ae_sslAccept = True, ae_writes = [], ae_input = inp\<rparr>"

definition no_handles :: OsTable where
  "no_handles = \<lparr>os_socks = [], os_ssls = 0, os_infos = 0\<rparr>"

theorem builds_never_connect_witness:
  "fst (win_acceptOne toy_sha1 (plain_accept [CHR 0x16, CHR 0x03, CHR 0x01]) no_handles) = None"
proof -
  have "find_sub key_tag (tl_hello toy_tls) = None" by (simp add: toy_tls_def key_tag_def)
  from builds_never_connect [OF toy_tls_ok this, of _ _ toy_sha1 _ _ _ _ "plain_accept []"]
  show ?thesis by (simp add: plain_accept_def toy_tls_def)
qed

theorem failed_certificate_sticks_witness:
  "list_all (\<lambda>r. r = None) (serve_all toy_tls toy_sha1 no_handles
     [(works\<lparr>te_keygen := None\<rparr>, plain_accept [], [CHR 0x16]), (works, plain_accept [], [CHR 0x16])] tls_start)"
proof -
  have "\<not> (te_ctx (works\<lparr>te_keygen := None\<rparr>) \<and> fst (installSelfSignedCert (works\<lparr>te_keygen := None\<rparr>) (new_ctx True)))"
    by (simp add: installSelfSignedCert_def)
  from failed_certificate_sticks [OF toy_tls_ok this] show ?thesis .
qed

end
