(* ===== verification/AppStart.thy ===== *)
theory AppStart
  imports Prelude
begin

text \<open>
  The entry of \<open>runTrayApp\<close> in \<open>platform/tray_win.cpp\<close>: the named mutex that keeps a second copy from
  running, over every interleaving of starts and ends of processes with and without elevation.
\<close>

section \<open>The named mutex\<close>

text \<open>
  The object exists while a process holds a handle to it.  \<open>mx_everyone\<close> says that it was made with a
  null access list, otherwise only processes of its creator's integrity level may open it.
\<close>

record NamedMutex =
  mx_everyone :: bool
  mx_elevated :: bool

record Instances =
  in_mutex :: "NamedMutex option"
  in_holders :: "nat list"
  in_running :: "nat list"

definition no_instance :: Instances where
  "no_instance = \<lparr>in_mutex = None, in_holders = [], in_running = []\<rparr>"

text \<open>A process, and whether the two calls that fill its security descriptor succeed.\<close>

record process =
  pr_id :: nat
  pr_elevated :: bool
  pr_descriptor :: bool

text \<open>The result: whether there is a handle, and whether the mutex existed.\<close>

definition createMutex :: "process \<Rightarrow> Instances \<Rightarrow> bool \<times> bool \<times> Instances" where
  "createMutex p s =
     (case in_mutex s of
        None \<Rightarrow> (True, False, s\<lparr>in_mutex := Some \<lparr>mx_everyone = pr_descriptor p, mx_elevated = pr_elevated p\<rparr>,
                                 in_holders := pr_id p # in_holders s\<rparr>)
      | Some m \<Rightarrow>
          if mx_everyone m \<or> mx_elevated m = pr_elevated p then (True, True, s\<lparr>in_holders := pr_id p # in_holders s\<rparr>)
          else (False, False, s))"

definition runTrayApp_entry :: "process \<Rightarrow> Instances \<Rightarrow> Instances" where
  "runTrayApp_entry p s =
     (case createMutex p s of (singleton, existed, s1) \<Rightarrow>
        if singleton \<and> existed then s1 else s1\<lparr>in_running := pr_id p # in_running s1\<rparr>)"

text \<open>The end of a process, which closes its handle; with the last handle the mutex goes.\<close>

definition process_ends :: "nat \<Rightarrow> Instances \<Rightarrow> Instances" where
  "process_ends i s =
     (let hs = filter (\<lambda>h. h \<noteq> i) (in_holders s) in
      s\<lparr>in_holders := hs, in_running := filter (\<lambda>h. h \<noteq> i) (in_running s), in_mutex := (if hs = [] then None else in_mutex s)\<rparr>)"

inductive inst_step :: "(process \<Rightarrow> bool) \<Rightarrow> Instances \<Rightarrow> Instances \<Rightarrow> bool" for allowed where
  launch: "allowed p \<Longrightarrow> pr_id p \<notin> set (in_holders s) \<Longrightarrow> pr_id p \<notin> set (in_running s) \<Longrightarrow> inst_step allowed s (runTrayApp_entry p s)"
| ends: "inst_step allowed s (process_ends i s)"

section \<open>One copy\<close>

definition single_inv :: "Instances \<Rightarrow> bool" where
  "single_inv s \<longleftrightarrow> (in_mutex s = None \<longleftrightarrow> in_holders s = []) \<and> (\<forall>m. in_mutex s = Some m \<longrightarrow> mx_everyone m)
     \<and> set (in_running s) \<subseteq> set (in_holders s) \<and> length (in_running s) \<le> 1"

lemma entry_keeps: "single_inv s \<Longrightarrow> pr_descriptor p \<Longrightarrow> single_inv (runTrayApp_entry p s)"
  by (cases "in_mutex s") (auto simp: single_inv_def runTrayApp_entry_def createMutex_def)

lemma ends_keeps: "single_inv s \<Longrightarrow> single_inv (process_ends i s)"
proof -
  assume i: "single_inv s"
  have "length (filter (\<lambda>h. h \<noteq> i) (in_running s)) \<le> 1" using i length_filter_le order_trans unfolding single_inv_def by blast
  then show ?thesis using i by (auto simp: single_inv_def process_ends_def Let_def filter_empty_conv)
qed

lemma single_inv_reach: "(inst_step pr_descriptor)\<^sup>*\<^sup>* no_instance s \<Longrightarrow> single_inv s"
proof (induction rule: rtranclp_induct)
  case base
  show ?case by (simp add: single_inv_def no_instance_def)
next
  case (step s t)
  from step.hyps(2) show ?case using step.IH entry_keeps ends_keeps by cases auto
qed

text \<open>
  At most one copy runs at a time: over every order of launches and ends, elevated or not, as
  long as the security descriptor could be filled; and when no process is left, the next launch
  runs.
\<close>

theorem single_instance:
  assumes "(inst_step pr_descriptor)\<^sup>*\<^sup>* no_instance s"
  shows "length (in_running s) \<le> 1 \<and> (in_holders s \<noteq> [] \<or> in_running (runTrayApp_entry p s) = [pr_id p])"
proof -
  have i: "single_inv s" using single_inv_reach assms .
  then have "in_running s = []" "in_mutex s = None" if "in_holders s = []" using that unfolding single_inv_def by auto
  then show ?thesis using i by (auto simp: single_inv_def runTrayApp_entry_def createMutex_def)
qed

text \<open>
  Without the null access list the guard fails open: an elevated copy cannot open the mutex of a
  plain one, and as a missing handle does not stop it, both run.
\<close>

lemma without_descriptor_two:
  "in_running (runTrayApp_entry \<lparr>pr_id = 2, pr_elevated = True, pr_descriptor = False\<rparr>
     (runTrayApp_entry \<lparr>pr_id = 1, pr_elevated = False, pr_descriptor = False\<rparr> no_instance)) = [2, 1]"
  by (simp add: runTrayApp_entry_def createMutex_def no_instance_def)

text \<open>The copy that leaves holds the mutex until its process ends, so a launch meanwhile may leave none running.\<close>

lemma leaver_blocks:
  assumes "in_mutex s = Some m" "mx_everyone m" "in_running s = [i]" "in_holders s = [j, i]" "i \<noteq> j"
  shows "in_running (runTrayApp_entry p (process_ends i s)) = []"
  using assms by (simp add: process_ends_def runTrayApp_entry_def createMutex_def Let_def)

theorem single_instance_witness:
  "length (in_running (runTrayApp_entry \<lparr>pr_id = 2, pr_elevated = True, pr_descriptor = True\<rparr>
     (runTrayApp_entry \<lparr>pr_id = 1, pr_elevated = False, pr_descriptor = True\<rparr> no_instance))) \<le> 1"
proof -
  let ?a = "\<lparr>pr_id = 1, pr_elevated = False, pr_descriptor = True\<rparr>" and ?b = "\<lparr>pr_id = 2, pr_elevated = True, pr_descriptor = True\<rparr>"
  have a: "inst_step pr_descriptor no_instance (runTrayApp_entry ?a no_instance)"
    by (rule launch) (simp_all add: no_instance_def)
  have b: "inst_step pr_descriptor (runTrayApp_entry ?a no_instance) (runTrayApp_entry ?b (runTrayApp_entry ?a no_instance))"
    by (rule launch) (simp_all add: no_instance_def runTrayApp_entry_def createMutex_def)
  have "(inst_step pr_descriptor)\<^sup>*\<^sup>* no_instance (runTrayApp_entry ?b (runTrayApp_entry ?a no_instance))"
    using a b by (meson rtranclp.rtrancl_into_rtrancl rtranclp.rtrancl_refl)
  from single_instance [OF this] show ?thesis by blast
qed

end
