(* ===== verification/LanPlatforms.thy ===== *)
theory LanPlatforms
  imports LanSockets Handles
begin

text \<open>
  The parts of \<open>net/discovery_socket.cpp\<close> that differ by platform, the interface list of POSIX, the receive
  time limit and its error codes, and the sockets and the Winsock start-up every function makes and gives back.
\<close>

section \<open>Interfaces on POSIX\<close>

text \<open>One entry of \<open>getifaddrs\<close>; an address that is missing or not IPv4 is \<open>None\<close>.\<close>

record ifaddr =
  if_addr :: "u32 option"
  if_loopback :: bool
  if_up :: bool
  if_broadcast :: bool
  if_broadaddr :: "u32 option"

definition ifaddr_nic :: "ifaddr \<Rightarrow> NicAddr option" where
  "ifaddr_nic a =
     (case if_addr a of None \<Rightarrow> None
      | Some ip \<Rightarrow>
          if if_loopback a \<or> \<not> if_up a then None
          else if \<not> if_broadcast a then None
          else case if_broadaddr a of None \<Rightarrow> None | Some b \<Rightarrow> Some \<lparr>nic_local = ip, nic_bcast = b\<rparr>)"

definition posix_localInterfaces :: "ifaddr list option \<Rightarrow> NicAddr list" where
  "posix_localInterfaces r = (case r of None \<Rightarrow> [] | Some l \<Rightarrow> List.map_filter ifaddr_nic l)"

text \<open>An adapter as the two systems describe it, its addresses with their prefix lengths.\<close>

record lan_nic =
  ln_up :: bool
  ln_loopback :: bool
  ln_point_to_point :: bool
  ln_addrs :: "(u32 \<times> nat) list"

definition as_adapter :: "lan_nic \<Rightarrow> adapter" where
  "as_adapter n = \<lparr>ad_up = ln_up n, ad_loopback = ln_loopback n, ad_addrs = None # map Some (ln_addrs n)\<rparr>"

definition as_ifaddrs :: "lan_nic \<Rightarrow> ifaddr list" where
  "as_ifaddrs n =
     \<lparr>if_addr = None, if_loopback = ln_loopback n, if_up = ln_up n, if_broadcast = \<not> ln_point_to_point n, if_broadaddr = None\<rparr>
     # map (\<lambda>(ip, p). \<lparr>if_addr = Some ip, if_loopback = ln_loopback n, if_up = ln_up n, if_broadcast = \<not> ln_point_to_point n,
         if_broadaddr = (if ln_point_to_point n then None else Some (subnet_bcast ip p))\<rparr>) (ln_addrs n)"

lemma map_filter_Cons: "List.map_filter f (x # xs) = (case f x of None \<Rightarrow> [] | Some y \<Rightarrow> [y]) @ List.map_filter f xs"
  by (simp add: List.map_filter_def split: option.split)

lemma map_filter_append: "List.map_filter f (xs @ ys) = List.map_filter f xs @ List.map_filter f ys"
  by (simp add: List.map_filter_def)

lemma map_filter_concat: "List.map_filter f (concat xss) = concat (map (List.map_filter f) xss)"
  by (induction xss) (simp_all add: map_filter_append List.map_filter_def)

lemma nics_agree:
  assumes "\<forall>(ip, p) \<in> set (ln_addrs n). 0 < p \<and> p \<le> 32" "ln_loopback n \<or> \<not> ln_point_to_point n"
  shows "adapter_nics (as_adapter n) = List.map_filter ifaddr_nic (as_ifaddrs n)"
proof -
  have "List.map_filter (\<lambda>ua. case ua of None \<Rightarrow> None | Some (ip, prefix) \<Rightarrow>
            if prefix = 0 \<or> prefix > 32 then None else Some \<lparr>nic_local = ip, nic_bcast = subnet_bcast ip prefix\<rparr>) (map Some as)
      = map (\<lambda>(ip, p). \<lparr>nic_local = ip, nic_bcast = subnet_bcast ip p\<rparr>) as"
    if "\<forall>(ip, p) \<in> set as. 0 < p \<and> p \<le> 32" for as
    using that by (induction as) (auto simp: map_filter_Cons List.map_filter_def)
  moreover have "List.map_filter ifaddr_nic (map (\<lambda>(ip, p). \<lparr>if_addr = Some ip, if_loopback = ln_loopback n, if_up = ln_up n,
          if_broadcast = \<not> ln_point_to_point n, if_broadaddr = (if ln_point_to_point n then None else Some (subnet_bcast ip p))\<rparr>) as)
      = (if ln_loopback n \<or> \<not> ln_up n then [] else map (\<lambda>(ip, p). \<lparr>nic_local = ip, nic_bcast = subnet_bcast ip p\<rparr>) as)" for as
  proof (induction as)
    case (Cons a as)
    have "ifaddr_nic \<lparr>if_addr = Some ip, if_loopback = ln_loopback n, if_up = ln_up n,
        if_broadcast = \<not> ln_point_to_point n, if_broadaddr = (if ln_point_to_point n then None else Some (subnet_bcast ip p))\<rparr>
      = (if ln_loopback n \<or> \<not> ln_up n then None else Some \<lparr>nic_local = ip, nic_bcast = subnet_bcast ip p\<rparr>)" for ip p
      using assms(2) by (cases "ln_loopback n"; cases "ln_up n"; cases "ln_point_to_point n"; simp add: ifaddr_nic_def)
    then show ?case using Cons by (cases "ln_loopback n \<or> \<not> ln_up n"; simp add: map_filter_Cons split_beta)
  qed (simp add: List.map_filter_def)
  ultimately show ?thesis
    using assms(1) by (auto simp: adapter_nics_def as_adapter_def as_ifaddrs_def map_filter_Cons ifaddr_nic_def)
qed

text \<open>
  Both platforms beacon on the same addresses: of adapters with proper prefixes, none of which is a
  point-to-point link, the Windows and the POSIX enumeration give the same list.
\<close>

theorem enumerations_agree:
  assumes "\<forall>n \<in> set nics. (ln_loopback n \<or> \<not> ln_point_to_point n) \<and> (\<forall>(ip, p) \<in> set (ln_addrs n). 0 < p \<and> p \<le> 32)"
  shows "localInterfaces (Some (map as_adapter nics)) = posix_localInterfaces (Some (concat (map as_ifaddrs nics)))"
  using assms by (induction nics) (auto simp: localInterfaces_def posix_localInterfaces_def map_filter_append map_filter_concat nics_agree)

text \<open>A VPN that is a point-to-point link is skipped on POSIX and beaconed on by Windows.\<close>

lemma tunnel_differs:
  "localInterfaces (Some [as_adapter \<lparr>ln_up = True, ln_loopback = False, ln_point_to_point = True, ln_addrs = [(0x0A080002, 24)]\<rparr>])
     = [\<lparr>nic_local = 0x0A080002, nic_bcast = 0x0A0800FF\<rparr>]"
  "posix_localInterfaces (Some (as_ifaddrs \<lparr>ln_up = True, ln_loopback = False, ln_point_to_point = True, ln_addrs = [(0x0A080002, 24)]\<rparr>)) = []"
  by (simp_all add: localInterfaces_def posix_localInterfaces_def adapter_nics_def as_adapter_def as_ifaddrs_def map_filter_Cons
      ifaddr_nic_def subnet_bcast_def List.map_filter_def Let_def)

theorem enumerations_agree_witness:
  "localInterfaces (Some (map as_adapter [\<lparr>ln_up = True, ln_loopback = False, ln_point_to_point = False, ln_addrs = [(0xC0A80107, 24)]\<rparr>]))
     = posix_localInterfaces (Some (concat (map as_ifaddrs
         [\<lparr>ln_up = True, ln_loopback = False, ln_point_to_point = False, ln_addrs = [(0xC0A80107, 24)]\<rparr>])))"
  by (rule enumerations_agree) simp

section \<open>The receive time limit\<close>

definition posix_rcvTimeout :: "int \<Rightarrow> int \<times> int" where
  "posix_rcvTimeout ms = (ms div 1000, (ms mod 1000) * 1000)"

definition win_rcvTimeout :: "int \<Rightarrow> u32" where
  "win_rcvTimeout ms = word_of_int ms"

definition win_isTimeoutErr :: "int \<Rightarrow> bool" where
  "win_isTimeoutErr e \<longleftrightarrow> e = 10060"

text \<open>The values of \<open>EAGAIN\<close> and \<open>EWOULDBLOCK\<close> are the system's.\<close>

definition posix_isTimeoutErr :: "int \<Rightarrow> int \<Rightarrow> int \<Rightarrow> bool" where
  "posix_isTimeoutErr eagain ewouldblock e \<longleftrightarrow> e = eagain \<or> e = ewouldblock"

lemma timeouts_equal:
  assumes "0 \<le> ms" "ms < 2 ^ 31"
  shows "fst (posix_rcvTimeout ms) * 1000000 + snd (posix_rcvTimeout ms) = 1000 * uint (win_rcvTimeout ms)
    \<and> 0 \<le> snd (posix_rcvTimeout ms) \<and> snd (posix_rcvTimeout ms) < 1000000"
  using assms by (simp add: posix_rcvTimeout_def win_rcvTimeout_def uint_word_of_int_eq take_bit_int_eq_self) presburger

section \<open>Sockets\<close>

datatype lan_handle = WsaStarted | UdpSocket nat

definition receiver_calls :: "socket_io \<Rightarrow> bool \<times> lan_handle event list" where
  "receiver_calls io =
     (if \<not> so_wsa io then (False, [])
      else if so_socket io \<noteq> None then (False, [Got WsaStarted, Freed WsaStarted])
      else if so_bind io \<noteq> None then (False, [Got WsaStarted, Got (UdpSocket 0), Freed (UdpSocket 0), Freed WsaStarted])
      else (True, [Got WsaStarted, Got (UdpSocket 0)]))"

definition closeBeaconReceiver :: "bool \<Rightarrow> lan_handle event list" where
  "closeBeaconReceiver opened = (if opened then [Freed (UdpSocket 0), Freed WsaStarted] else [])"

definition poll_calls :: "bool \<Rightarrow> lan_handle event list" where
  "poll_calls opened = (if opened then [Used (UdpSocket 0)] else [])"

definition receiveBeacon_calls :: "socket_io \<Rightarrow> lan_handle event list" where
  "receiveBeacon_calls io = (case receiver_calls io of (ok, t) \<Rightarrow>
     t @ (if ok then [Used (UdpSocket 0), Freed (UdpSocket 0), Freed WsaStarted] else []))"

fun nic_calls :: "nat \<Rightarrow> nic_io option list \<Rightarrow> lan_handle event list" where
  "nic_calls i [] = []"
| "nic_calls i (None # ios) = nic_calls (Suc i) ios"
| "nic_calls i (Some io # ios) = [Got (UdpSocket i), Used (UdpSocket i), Used (UdpSocket i), Freed (UdpSocket i)] @ nic_calls (Suc i) ios"

definition broadcastBeacon_calls :: "bool \<Rightarrow> nic_io option list \<Rightarrow> os_error option \<Rightarrow> lan_handle event list" where
  "broadcastBeacon_calls wsa ios fallback =
     (if \<not> wsa then []
      else Got WsaStarted # nic_calls 0 ios
        @ (if ios = [] \<and> fallback \<noteq> None then [Got (UdpSocket 0), Used (UdpSocket 0), Freed (UdpSocket 0)] else []) @ [Freed WsaStarted])"

definition sendBeaconTo_calls :: "bool \<Rightarrow> u32 option \<Rightarrow> os_error option \<Rightarrow> lan_handle event list" where
  "sendBeaconTo_calls wsa dst io =
     (if \<not> wsa then []
      else case dst of None \<Rightarrow> [Got WsaStarted, Freed WsaStarted]
        | Some d \<Rightarrow>
            if \<not> isPrivateAddr d \<or> io = None then [Got WsaStarted, Freed WsaStarted]
            else [Got WsaStarted, Got (UdpSocket 0), Used (UdpSocket 0), Freed (UdpSocket 0), Freed WsaStarted])"

lemma nic_calls_used: "well_used [WsaStarted] (nic_calls i ios @ t) \<longleftrightarrow> well_used [WsaStarted] t"
  by (induction i ios rule: nic_calls.induct) auto

lemma polls_used: "h \<in> set live \<Longrightarrow> well_used live (replicate n (Used h) @ t) \<longleftrightarrow> well_used live t"
  by (induction n) simp_all

text \<open>
  No datagram socket and no Winsock start-up is left behind: each of the sending and receiving functions,
  on every path, gives back what it took, and so does a receiver that is opened, polled any number of times and closed.
\<close>

theorem lan_sockets_released:
  "well_used [] (receiveBeacon_calls io) \<and> well_used [] (broadcastBeacon_calls wsa ios fallback) \<and> well_used [] (sendBeaconTo_calls wsa dst io')
   \<and> well_used [] (case receiver_calls io of (ok, t) \<Rightarrow> t @ concat (replicate n (poll_calls ok)) @ closeBeaconReceiver ok)"
proof (intro conjI)
  show "well_used [] (receiveBeacon_calls io)" by (simp add: receiveBeacon_calls_def receiver_calls_def)
  show "well_used [] (broadcastBeacon_calls wsa ios fallback)" by (simp add: broadcastBeacon_calls_def nic_calls_used)
  show "well_used [] (sendBeaconTo_calls wsa dst io')" by (simp add: sendBeaconTo_calls_def split: option.split)
  have "concat (replicate n []) = ([] :: lan_handle event list)" by (induction n) simp_all
  then show "well_used [] (case receiver_calls io of (ok, t) \<Rightarrow> t @ concat (replicate n (poll_calls ok)) @ closeBeaconReceiver ok)"
    by (cases "fst (receiver_calls io)") (auto simp: receiver_calls_def poll_calls_def closeBeaconReceiver_def polls_used)
qed

end
