(* ===== verification/MacCrypto.thy ===== *)
theory MacCrypto
  imports CryptoCalls SocketLayer
begin

text \<open>
  The macOS backends that must agree with the others: AES-256-GCM and the P-256 key exchange of
  \<open>platform/crypto_mac.mm\<close>, and the dialling and accepting of \<open>platform/ws_transport_mac.mm\<close>, the
  third instance of \<open>socket_layer\<close>.  The functions of CommonCrypto and Security are parameters;
  \<open>cc_ok\<close> and \<open>sec_ok\<close> say what they document, over the same \<open>gcm\<close> and \<open>curve\<close> as the other backends.
\<close>

section \<open>AES-256-GCM in pieces\<close>

record 'c common_crypto =
  cc_create :: "bytes \<Rightarrow> 'c option"
  cc_iv :: "bytes \<Rightarrow> 'c \<Rightarrow> 'c option"
  cc_aad :: "bytes \<Rightarrow> 'c \<Rightarrow> 'c option"
  cc_encrypt :: "bytes \<Rightarrow> 'c \<Rightarrow> ('c \<times> bytes) option"
  cc_decrypt :: "bytes \<Rightarrow> 'c \<Rightarrow> ('c \<times> bytes) option"
  cc_final :: "'c \<Rightarrow> bytes option"

text \<open>The comparison that does not stop early.\<close>

definition tag_diff :: "bytes \<Rightarrow> bytes \<Rightarrow> u8" where
  "tag_diff computed tag = fold (\<lambda>(c, t) d. d OR (c XOR t)) (zip computed tag) 0"

text \<open>The result, what the output buffer holds and what the tag buffer holds.\<close>

definition mac_gcm :: "'c common_crypto \<Rightarrow> bool \<Rightarrow> bytes \<Rightarrow> bytes \<Rightarrow> bytes \<Rightarrow> bytes \<Rightarrow> bytes \<Rightarrow> bool \<times> bytes \<times> bytes" where
  "mac_gcm C encrypt key nonce aad inp tag =
     (case do { c \<leftarrow> cc_create C (take 32 key); c \<leftarrow> cc_iv C nonce c;
                c \<leftarrow> (if aad \<noteq> [] then cc_aad C aad c else Some c);
                if inp = [] then Some (c, []) else if encrypt then cc_encrypt C inp c else cc_decrypt C inp c } of
        None \<Rightarrow> (False, [], tag)
      | Some (c, out) \<Rightarrow>
          (case cc_final C c of None \<Rightarrow> (False, out, tag)
           | Some computed \<Rightarrow>
               if length computed \<noteq> 16 then (False, out, tag)
               else if encrypt then (True, out, computed)
               else (tag_diff computed tag = 0, out, tag)))"

definition mac_aesGcmEncrypt :: "'c common_crypto \<Rightarrow> bytes \<Rightarrow> bytes \<Rightarrow> bytes \<Rightarrow> bytes \<Rightarrow> (bytes \<times> bytes) option" where
  "mac_aesGcmEncrypt C key nonce aad pt =
     (case mac_gcm C True key nonce aad pt [] of (ok, ct, tag) \<Rightarrow> if ok then Some (ct, tag) else None)"

definition mac_aesGcmDecrypt :: "'c common_crypto \<Rightarrow> bytes \<Rightarrow> bytes \<Rightarrow> bytes \<Rightarrow> bytes \<Rightarrow> bytes \<Rightarrow> bool \<times> bytes" where
  "mac_aesGcmDecrypt C key nonce aad ct tag =
     (case mac_gcm C False key nonce aad ct (take 16 tag) of (ok, pt, _) \<Rightarrow> (ok, pt))"

lemma fold_or_zero: "fold (\<lambda>(c, t) d. d OR (c XOR t)) ps d = 0 \<longleftrightarrow> d = (0 :: u8) \<and> list_all (\<lambda>(c, t). c = t) ps"
proof (induction ps arbitrary: d)
  case (Cons p ps)
  obtain c t where p: "p = (c, t)" by force
  have "c XOR t = 0 \<longleftrightarrow> c = t" 
  proof
    assume "c XOR t = 0"
    then have "(c XOR t) XOR t = 0 XOR t" by simp
    then show "c = t" by (simp add: xor.assoc)
  qed simp
  then have "d OR (c XOR t) = 0 \<longleftrightarrow> d = 0 \<and> c = t" by (simp only: or_eq_0_iff)
  then show ?case using Cons.IH by (auto simp: p)
qed simp

lemma zip_same: "length a = length b \<Longrightarrow> list_all (\<lambda>(c, t). c = t) (zip a b) \<longleftrightarrow> a = b"
  by (induction a b rule: list_induct2) simp_all

lemma tag_diff_zero: "length a = length b \<Longrightarrow> tag_diff a b = 0 \<longleftrightarrow> a = b"
  by (simp add: tag_diff_def fold_or_zero zip_same)

definition cc_ok :: "gcm \<Rightarrow> ('c \<Rightarrow> evp_view) \<Rightarrow> 'c common_crypto \<Rightarrow> bool" where
  "cc_ok G v C \<longleftrightarrow>
     (\<forall>k c. cc_create C k = Some c \<longrightarrow> v c = \<lparr>vw_ivlen = 0, vw_key = k, vw_nonce = [], vw_aad = [], vw_ct = [], vw_tag = []\<rparr>)
   \<and> (\<forall>n c c'. cc_iv C n c = Some c' \<longrightarrow> v c' = (v c)\<lparr>vw_nonce := n\<rparr>)
   \<and> (\<forall>a c c'. cc_aad C a c = Some c' \<longrightarrow> v c' = (v c)\<lparr>vw_aad := a\<rparr>)
   \<and> (\<forall>p c c' out. cc_encrypt C p c = Some (c', out) \<longrightarrow> out = g_crypt G (vw_key (v c)) (vw_nonce (v c)) p \<and> v c' = (v c)\<lparr>vw_ct := out\<rparr>)
   \<and> (\<forall>p c c' out. cc_decrypt C p c = Some (c', out) \<longrightarrow> out = g_crypt G (vw_key (v c)) (vw_nonce (v c)) p \<and> v c' = (v c)\<lparr>vw_ct := p\<rparr>)
   \<and> (\<forall>c t. cc_final C c = Some t \<longrightarrow> t = view_tag G (v c))"

definition cc_works :: "'c common_crypto \<Rightarrow> bool" where
  "cc_works C \<longleftrightarrow> (\<forall>k. length k = 32 \<longrightarrow> cc_create C k \<noteq> None) \<and> (\<forall>n c. cc_iv C n c \<noteq> None) \<and> (\<forall>a c. cc_aad C a c \<noteq> None)
     \<and> (\<forall>p c. cc_encrypt C p c \<noteq> None) \<and> (\<forall>p c. cc_decrypt C p c \<noteq> None) \<and> (\<forall>c. cc_final C c \<noteq> None)"

lemma mac_gcm_exact:
  assumes "gcm_ok G" "cc_ok G v C" "cc_works C" "length key = 32" "encrypt \<or> length tag = 16"
  shows "mac_gcm C encrypt key nonce aad inp tag =
    (let out = g_crypt G key nonce inp; t = g_tag G key nonce aad (if encrypt then out else inp) in
     (encrypt \<or> tag = t, out, if encrypt then t else tag))"
proof -
  note ok = assms(2) [unfolded cc_ok_def] and works = assms(3) [unfolded cc_works_def]
  obtain a where a: "cc_create C key = Some a" using works assms(4) by blast
  have va: "v a = \<lparr>vw_ivlen = 0, vw_key = key, vw_nonce = [], vw_aad = [], vw_ct = [], vw_tag = []\<rparr>" using ok a by blast
  obtain b where b: "cc_iv C nonce a = Some b" using works by blast
  have vb: "v b = (v a)\<lparr>vw_nonce := nonce\<rparr>" using ok b by blast
  obtain c where c: "(if aad \<noteq> [] then cc_aad C aad b else Some b) = Some c" "v c = (v b)\<lparr>vw_aad := aad\<rparr>"
  proof (cases "aad = []")
    case False
    obtain c where "cc_aad C aad b = Some c" using works by blast
    moreover from this have "v c = (v b)\<lparr>vw_aad := aad\<rparr>" using ok by blast
    ultimately show thesis using that False by simp
  qed (use that vb va in simp)
  obtain d where d: "(if inp = [] then Some (c, []) else if encrypt then cc_encrypt C inp c else cc_decrypt C inp c) = Some (d, g_crypt G key nonce inp)"
    "v d = (v c)\<lparr>vw_ct := (if encrypt then g_crypt G key nonce inp else inp)\<rparr>"
  proof (cases "inp = []")
    case True
    then show thesis using that [of c] assms(1) c(2) vb va by simp
  next
    case False
    have view: "vw_key (v c) = key" "vw_nonce (v c) = nonce" using c(2) vb va by simp_all
    obtain r where r: "(if encrypt then cc_encrypt C inp c else cc_decrypt C inp c) = Some r" using works by (cases encrypt) (metis not_None_eq)+
    obtain d out where rd: "r = (d, out)" by force
    have "out = g_crypt G key nonce inp \<and> v d = (v c)\<lparr>vw_ct := (if encrypt then out else inp)\<rparr>"
      using ok r view unfolding rd by (cases encrypt) auto
    then show thesis using that [of d] r rd False by simp
  qed
  obtain t where t: "cc_final C d = Some t" using works by blast
  have "t = view_tag G (v d)" using ok t by blast
  then have tv: "t = g_tag G key nonce aad (if encrypt then g_crypt G key nonce inp else inp)"
    using d(2) c(2) vb va by (simp add: view_tag_def)
  then have len: "length t = 16" using assms(1) by (simp add: gcm_ok_def)
  have "mac_gcm C encrypt key nonce aad inp tag
      = (if encrypt then (True, g_crypt G key nonce inp, t) else (tag_diff t tag = 0, g_crypt G key nonce inp, tag))"
    using a b c(1) d(1) t len assms(4) unfolding mac_gcm_def by (simp cong: if_cong)
  then show ?thesis using tag_diff_zero [of t tag] assms(5) len tv by (cases encrypt) (auto simp: Let_def)
qed

text \<open>
  The macOS cipher is the one of the other platforms: it seals to the ciphertext and tag Windows
  seals to, each opens what the other sealed, and both accept the same frames; like the OpenSSL code it
  has written the plaintext before it compares the tag.
\<close>

theorem mac_gcm_interop:
  assumes "gcm_ok G" "cc_ok G v C" "cc_works C" "cng_ok G keyOf N" "cng_works G keyOf N"
    and "length key = 32" "length nonce = 12" "length aad < 2 ^ 31" "length pt < 2 ^ 31" "length ct' < 2 ^ 31" "length tag' = 16"
  shows "(\<exists>ct tag. mac_aesGcmEncrypt C key nonce aad pt = Some (ct, tag) \<and> win_aesGcmEncrypt N key nonce aad pt = Some (ct, tag)
      \<and> mac_aesGcmDecrypt C key nonce aad ct tag = (True, pt) \<and> win_aesGcmDecrypt N key nonce aad ct tag = (True, pt))
    \<and> fst (mac_aesGcmDecrypt C key nonce aad ct' tag') = fst (win_aesGcmDecrypt N key nonce aad ct' tag')
    \<and> snd (mac_aesGcmDecrypt C key nonce aad ct' tag') = g_crypt G key nonce ct'"
proof -
  have key: "take 32 key = key" and nonce: "short nonce" using assms(6,7) by auto
  note mac = mac_gcm_exact [OF assms(1-3,6)] and win = win_decrypt_exact [OF assms(4-8)]
  let ?ct = "g_crypt G key nonce pt" and ?tag = "g_tag G key nonce aad (g_crypt G key nonce pt)"
  have len: "length ?ct = length pt" "length ?tag = 16" "g_crypt G key nonce ?ct = pt"
    using assms(1) unfolding gcm_ok_def by blast+
  have "mac_aesGcmEncrypt C key nonce aad pt = Some (?ct, ?tag)" using mac [of True] by (simp add: mac_aesGcmEncrypt_def Let_def)
  moreover have "win_aesGcmEncrypt N key nonce aad pt = Some (?ct, ?tag)"
    using win_encrypt_works [OF assms(5-7), of aad pt] win_encrypts [OF assms(4) _ nonce assms(8,9), of key] key by auto
  moreover have dec: "mac_aesGcmDecrypt C key nonce aad c t = (t = g_tag G key nonce aad c, g_crypt G key nonce c)" if "length t = 16" for c t
    using mac [of False t] that by (simp add: mac_aesGcmDecrypt_def Let_def)
  ultimately show ?thesis
    using win [of ?ct ?tag] win [of ct' tag'] dec [of ?tag ?ct] dec [of tag' ct'] assms(9-11) len by simp
qed

definition toy_cc :: "evp_view common_crypto" where
  "toy_cc = \<lparr>cc_create = (\<lambda>k. Some \<lparr>vw_ivlen = 0, vw_key = k, vw_nonce = [], vw_aad = [], vw_ct = [], vw_tag = []\<rparr>),
     cc_iv = (\<lambda>n c. Some (c\<lparr>vw_nonce := n\<rparr>)), cc_aad = (\<lambda>a c. Some (c\<lparr>vw_aad := a\<rparr>)),
     cc_encrypt = (\<lambda>p c. let out = g_crypt toy_gcm (vw_key c) (vw_nonce c) p in Some (c\<lparr>vw_ct := out\<rparr>, out)),
     cc_decrypt = (\<lambda>p c. Some (c\<lparr>vw_ct := p\<rparr>, g_crypt toy_gcm (vw_key c) (vw_nonce c) p)),
     cc_final = (\<lambda>c. Some (view_tag toy_gcm c))\<rparr>"

lemma toy_cc_ok: "cc_ok toy_gcm (\<lambda>v. v) toy_cc" "cc_works toy_cc"
  by (auto simp: cc_ok_def cc_works_def toy_cc_def Let_def)

theorem mac_gcm_interop_witness:
  "\<exists>ct tag. mac_aesGcmEncrypt toy_cc (replicate 32 7) (replicate 12 9) [5] [1, 2, 3] = Some (ct, tag)
    \<and> win_aesGcmDecrypt toy_cng (replicate 32 7) (replicate 12 9) [5] ct tag = (True, [1, 2, 3])"
  using mac_gcm_interop [OF toy_gcm_ok toy_cc_ok toy_cng_ok, of "replicate 32 7" "replicate 12 9" "[5]" "[1, 2, 3]" "[]" "replicate 16 0"]
  by auto

section \<open>Key exchange\<close>

text \<open>The key functions, over private keys and points instead of key references.\<close>

record sec_keys =
  sc_public :: "u256 \<Rightarrow> (u256 \<times> u256) option"
  sc_exportPublic :: "u256 \<times> u256 \<Rightarrow> bytes option"
  sc_exportPrivate :: "u256 \<Rightarrow> bytes option"
  sc_importPrivate :: "bytes \<Rightarrow> u256 option"
  sc_importPublic :: "bytes \<Rightarrow> (u256 \<times> u256) option"
  sc_exchange :: "u256 \<Rightarrow> u256 \<times> u256 \<Rightarrow> bytes option"

definition mac_ecdhGenerateKeyPair :: "sec_keys \<Rightarrow> u256 option \<Rightarrow> EcdhKeyPair option" where
  "mac_ecdhGenerateKeyPair S created =
     (case created of None \<Rightarrow> None
      | Some d \<Rightarrow>
          (case sc_public S d of None \<Rightarrow> None
           | Some P \<Rightarrow>
               (case (sc_exportPublic S P, sc_exportPrivate S d) of
                  (Some pb, Some kb) \<Rightarrow>
                    if length pb \<ge> 1 + 64 then
                      let kp = \<lparr>publicPoint = take 64 (drop 1 pb), privateBlob = kb\<rparr> in
                      if length (publicPoint kp) = 64 \<and> privateBlob kp \<noteq> [] then Some kp else None
                    else None
                | _ \<Rightarrow> None)))"

definition mac_ecdhComputeShared :: "sec_keys \<Rightarrow> EcdhKeyPair \<Rightarrow> bytes \<Rightarrow> bytes option" where
  "mac_ecdhComputeShared S mine peer =
     (if length peer \<noteq> 64 \<or> privateBlob mine = [] then None
      else case sc_importPrivate S (privateBlob mine) of None \<Rightarrow> None
        | Some d \<Rightarrow>
            (case sc_importPublic S (4 # peer) of None \<Rightarrow> None
             | Some P \<Rightarrow>
                 (case sc_exchange S d P of None \<Rightarrow> None
                  | Some s \<Rightarrow> if length s = 32 then Some s else None)))"

text \<open>
  A public key is exported as an uncompressed point and imported when it is one of the curve; a private key comes
  back as it was exported; the exchange gives the x coordinate in big-endian order.
\<close>

definition sec_ok :: "curve \<Rightarrow> sec_keys \<Rightarrow> bool" where
  "sec_ok C S \<longleftrightarrow> (\<forall>d. sc_public S d = cv_mul C d (cv_base C)) \<and> (\<forall>P. sc_exportPublic S P = Some (4 # point_bytes P))
     \<and> (\<forall>d. \<exists>blob. sc_exportPrivate S d = Some blob \<and> blob \<noteq> [] \<and> sc_importPrivate S blob = Some d)
     \<and> (\<forall>P. sc_importPublic S (4 # point_bytes P) = (if cv_on C P then Some P else None))
     \<and> (\<forall>d P. sc_exchange S d P = map_option (\<lambda>Q. be_bytes 32 (fst Q)) (cv_mul C d P))"

text \<open>
  A Mac and a machine of another platform derive the same secret: the Mac publishes the point the
  other code would have published for its key, and for every pair of keys both ends agree.
\<close>

theorem mac_ecdh_interop:
  assumes "curve_ok C" "sec_ok C S" "cv_mul C a (cv_base C) = Some A" "cv_mul C b (cv_base C) = Some B" "cv_mul C a B = Some Q"
  shows "\<exists>ma pb s. mac_ecdhGenerateKeyPair S (Some a) = Some ma \<and> posix_ecdhGenerateKeyPair C b = Some pb \<and> length s = 32
    \<and> map_option publicPoint (posix_ecdhGenerateKeyPair C a) = Some (publicPoint ma)
    \<and> mac_ecdhComputeShared S ma (publicPoint pb) = Some s \<and> posix_ecdhComputeShared C pb (publicPoint ma) = Some s"
proof -
  have on: "cv_on C A" "cv_on C B" using assms(1,3,4) unfolding curve_ok_def by blast+
  have Q: "cv_mul C b A = Some Q" using assms(1,3-5) unfolding curve_ok_def by metis
  obtain blob where blob: "sc_exportPrivate S a = Some blob" "blob \<noteq> []" "sc_importPrivate S blob = Some a"
    using assms(2) unfolding sec_ok_def by blast
  have laws: "sc_public S a = Some A" "sc_exportPublic S A = Some (4 # point_bytes A)" "sc_importPublic S (4 # point_bytes B) = Some B"
    "sc_exchange S a B = Some (be_bytes 32 (fst Q))"
    using assms(2,3,5) on by (cases A; cases B; simp add: sec_ok_def)+
  let ?ma = "\<lparr>publicPoint = point_bytes A, privateBlob = blob\<rparr>" and ?pb = "\<lparr>publicPoint = point_bytes B, privateBlob = be_bytes 32 b\<rparr>"
  have "mac_ecdhGenerateKeyPair S (Some a) = Some ?ma" using laws(1,2) blob(1,2) by (simp add: mac_ecdhGenerateKeyPair_def)
  moreover have "mac_ecdhComputeShared S ?ma (point_bytes B) = Some (be_bytes 32 (fst Q))"
    using laws(3,4) blob(2,3) by (simp add: mac_ecdhComputeShared_def)
  moreover have "posix_ecdhGenerateKeyPair C b = Some ?pb" "map_option publicPoint (posix_ecdhGenerateKeyPair C a) = Some (point_bytes A)"
    using assms(3,4) by (simp_all add: posix_ecdhGenerateKeyPair_def)
  moreover have "posix_ecdhComputeShared C ?pb (point_bytes A) = Some (be_bytes 32 (fst Q))" using posix_shared on Q by simp
  ultimately show ?thesis by (intro exI [of _ ?ma] exI [of _ ?pb] exI [of _ "be_bytes 32 (fst Q)"]) simp
qed

definition toy_sec :: sec_keys where
  "toy_sec = \<lparr>sc_public = (\<lambda>d. Some (d * 5, 0)), sc_exportPublic = (\<lambda>P. Some (4 # point_bytes P)),
     sc_exportPrivate = (\<lambda>d. Some (be_bytes 32 d)), sc_importPrivate = (\<lambda>p. Some (be_value p)),
     sc_importPublic = (\<lambda>p. let x = be_value (take 32 (tl p)); y = be_value (drop 32 (tl p)) in if y = 0 then Some (x, y) else None),
     sc_exchange = (\<lambda>d P. Some (be_bytes 32 (d * fst P)))\<rparr>"

lemma toy_sec_ok: "sec_ok toy_curve toy_sec"
proof -
  have blob: "be_bytes 32 d \<noteq> []" for d :: u256 by (metis length_be_bytes list.size(3) zero_neq_numeral)
  have blob: "\<exists>b. sc_exportPrivate toy_sec d = Some b \<and> b \<noteq> [] \<and> sc_importPrivate toy_sec b = Some d" for d
    by (simp add: toy_sec_def be_value_be_bytes blob)
  have pub: "sc_importPublic toy_sec (4 # point_bytes P) = (if cv_on toy_curve P then Some P else None)" for P
    by (cases P) (simp add: toy_sec_def toy_curve_def point_parts Let_def)
  show ?thesis unfolding sec_ok_def using blob pub by (simp add: toy_sec_def toy_curve_def)
qed

theorem mac_ecdh_interop_witness:
  "\<exists>ma s. mac_ecdhGenerateKeyPair toy_sec (Some 3) = Some ma \<and> length s = 32
    \<and> mac_ecdhComputeShared toy_sec ma (point_bytes (35, 0)) = Some s"
proof -
  have "cv_mul toy_curve 3 (cv_base toy_curve) = Some (15, 0)" "cv_mul toy_curve 7 (cv_base toy_curve) = Some (35, 0)"
    "cv_mul toy_curve 3 (35, 0) = Some (105, 0)" by (simp_all add: toy_curve_def)
  from mac_ecdh_interop [OF toy_backend(1) toy_sec_ok this] show ?thesis
    by (auto simp: posix_ecdhGenerateKeyPair_def toy_curve_def)
qed

section \<open>Dialling and accepting\<close>

text \<open>
  Every failure after the TLS object exists goes through \<open>close\<close>.  The identity of the server is made once per process and
  may be missing; \<open>cert\<close> says whether it could be set.
\<close>

definition mac_connect ::
  "(bytes \<Rightarrow> bytes) \<Rightarrow> string \<Rightarrow> u16 \<Rightarrow> connect_env \<Rightarrow> WsSocket \<times> OsTable \<Rightarrow> bool \<times> WsSocket \<times> OsTable" where
  "mac_connect sha1 host port env s =
     (case s of (t, os) \<Rightarrow>
        if sk_connected t then (True, t, os)
        else if \<not> ce_info env then (False, t, os)
        else
          let os1 = get_info os in
          case ce_socket env of
            None \<Rightarrow> (False, t\<lparr>sk_sock := None\<rparr>, free_info os1)
          | Some h \<Rightarrow>
              let t1 = t\<lparr>sk_sock := Some h\<rparr>; os2 = free_info (open_socket h os1) in
              if \<not> tcp_up env then (False, t1\<lparr>sk_sock := None\<rparr>, close_socket h os2)
              else if \<not> ce_sslNew env then (False, t1\<lparr>sk_sock := None, sk_ssl := False\<rparr>, close_socket h os2)
              else
                let t2 = t1\<lparr>sk_ssl := True\<rparr>; os3 = new_ssl os2 in
                if \<not> ce_sslConnect env then (False, posix_close (t2, os3))
                else if \<not> upgraded sha1 host port env then (False, posix_close (t2, os3))
                else (True, t2\<lparr>sk_connected := True\<rparr>, os3))"

definition mac_acceptOne ::
  "(bytes \<Rightarrow> bytes) \<Rightarrow> bool \<Rightarrow> bool \<Rightarrow> accept_env \<Rightarrow> OsTable \<Rightarrow> (WsSocket \<times> string option) option \<times> OsTable" where
  "mac_acceptOne sha1 identity cert env os =
     (case accept_socket env os of (None, os1) \<Rightarrow> (None, os1)
      | (Some c, os1) \<Rightarrow>
          let t = \<lparr>sk_sock = Some c, sk_client = False, sk_connected = True, sk_ssl = False\<rparr> in
          if \<not> identity \<or> \<not> ae_sslNew env then (None, snd (posix_close (t, os1)))
          else
            let t1 = t\<lparr>sk_ssl := True\<rparr>; os2 = new_ssl os1 in
            if \<not> cert \<or> \<not> ae_sslAccept env \<or> serverHandshake sha1 (write_reply sha1 env) (ae_input env) = None
            then (None, snd (posix_close (t1, os2)))
            else (Some (t1, ae_peer env), os2))"

interpretation mac: socket_layer "mac_connect sha1" "mac_acceptOne sha1 identity cert" posix_close "\<lambda>_. True"
proof (unfold_locales, goal_cases)
  case (1 host port env os ok t os')
  then show ?case by (auto simp: mac_connect_def posix_close_def socket_defs split: if_splits option.splits)
next
  case (2 env os r os')
  then show ?case by (auto simp: mac_acceptOne_def accept_socket_def posix_close_def socket_defs split: if_splits option.splits)
next
  case (3 t os os')
  then show ?case by (auto simp: posix_close_def socket_defs split: option.splits)
qed

lemma mac_sockets_accounted:
  "let (ts, os') = foldl (\<lambda>s op. sock_step (mac_connect sha1) (mac_acceptOne sha1 identity cert) posix_close op s) ([], os) ops in
     accounts ts os os' \<and> list_all (\<lambda>t. sk_connected t \<and> owned t \<noteq> []) ts"
  using mac.run_keeps [where os = os and ops = ops] by (auto simp: split_beta list_all_iff)

text \<open>A dial gives the same answer as on POSIX; only what it leaves in a transport that is thrown away differs.\<close>

lemma mac_dials_like_posix:
  "fst (mac_connect sha1 host port env (createWsClientTransport, os)) = fst (posix_connect sha1 host port env (createWsClientTransport, os))"
  by (auto simp: mac_connect_def posix_connect_def createWsClientTransport_def Let_def split: option.split)

end
