(* ===== verification/MacInput.thy ===== *)
theory MacInput
  imports Shell Handles
begin

text \<open>
  The macOS side of the input path: the event tap of \<open>platform/capture_mac.mm\<close>, the injector of
  \<open>platform/inject_mac.mm\<close>, the hotkey of \<open>platform/hotkey_mac.mm\<close> and the menu of \<open>platform/tray_mac.mm\<close>,
  against the Windows side in \<open>Capture\<close> and \<open>Shell\<close>.
\<close>

section \<open>The hotkey\<close>

definition toCarbonModifiers :: "u32 \<Rightarrow> u32" where
  "toCarbonModifiers mods =
     (let c = 0;
          c = (if mods AND 2 \<noteq> 0 then c OR 0x1000 else c);
          c = (if mods AND 1 \<noteq> 0 then c OR 0x0800 else c);
          c = (if mods AND 4 \<noteq> 0 then c OR 0x0200 else c)
      in if mods AND 8 \<noteq> 0 then c OR 0x0100 else c)"

definition mac_keys :: "(u16 \<times> u32) list" where
  "mac_keys =
    [(0x41, 0x00), (0x42, 0x0B), (0x43, 0x08), (0x44, 0x02), (0x45, 0x0E), (0x46, 0x03), (0x47, 0x05), (0x48, 0x04),
     (0x49, 0x22), (0x4A, 0x26), (0x4B, 0x28), (0x4C, 0x25), (0x4D, 0x2E), (0x4E, 0x2D), (0x4F, 0x1F), (0x50, 0x23),
     (0x51, 0x0C), (0x52, 0x0F), (0x53, 0x01), (0x54, 0x11), (0x55, 0x20), (0x56, 0x09), (0x57, 0x0D), (0x58, 0x07),
     (0x59, 0x10), (0x5A, 0x06), (0x30, 0x1D), (0x31, 0x12), (0x32, 0x13), (0x33, 0x14), (0x34, 0x15), (0x35, 0x17),
     (0x36, 0x16), (0x37, 0x1A), (0x38, 0x1C), (0x39, 0x19), (0x20, 0x31), (0x0D, 0x24), (0x09, 0x30), (0x1B, 0x35),
     (0x08, 0x33), (0x2E, 0x75), (0x2D, 0x72), (0x24, 0x73), (0x23, 0x77), (0x21, 0x74), (0x22, 0x79), (0x25, 0x7B),
     (0x26, 0x7E), (0x27, 0x7C), (0x28, 0x7D), (0x70, 0x7A), (0x71, 0x78), (0x72, 0x63), (0x73, 0x76), (0x74, 0x60),
     (0x75, 0x61), (0x76, 0x62), (0x77, 0x64), (0x78, 0x65), (0x79, 0x6D), (0x7A, 0x67), (0x7B, 0x6F), (0x7C, 0x69),
     (0x7D, 0x6B), (0x7E, 0x71), (0x7F, 0x6A), (0x80, 0x40), (0x81, 0x4F), (0x82, 0x50), (0x83, 0x5A)]"

definition toMacKeyCode :: "u16 \<Rightarrow> u32" where
  "toMacKeyCode vk = (case map_of mac_keys vk of None \<Rightarrow> 0xFFFF | Some c \<Rightarrow> c)"

text \<open>The three globals: whether there is a callback and a handler, and the registered combination.\<close>

record MacHotkey =
  mh_callback :: bool
  mh_handler :: bool
  mh_ref :: "(u32 \<times> u32) option"

definition hotkey_start :: MacHotkey where
  "hotkey_start = \<lparr>mh_callback = False, mh_handler = False, mh_ref = None\<rparr>"

definition registerGlobalHotkey :: "bool \<Rightarrow> (u32 \<Rightarrow> u32 \<Rightarrow> bool) \<Rightarrow> Hotkey \<Rightarrow> MacHotkey \<Rightarrow> bool \<times> MacHotkey" where
  "registerGlobalHotkey installs free hk g =
     (if \<not> hk_valid hk then (False, g)
      else
        let code = toMacKeyCode (hk_key hk) in
        if code = 0xFFFF then (False, g)
        else
          let g1 = g\<lparr>mh_callback := True, mh_handler := mh_handler g \<or> installs, mh_ref := None\<rparr>;
              mods = toCarbonModifiers (hk_modifiers hk) in
          if free code mods then (True, g1\<lparr>mh_ref := Some (code, mods)\<rparr>) else (False, g1))"

definition unregisterGlobalHotkey :: "MacHotkey \<Rightarrow> MacHotkey" where
  "unregisterGlobalHotkey g = g\<lparr>mh_ref := None, mh_handler := False, mh_callback := False\<rparr>"

definition hotkeyEventHandler :: "MacHotkey \<Rightarrow> nat" where
  "hotkeyEventHandler g = (if mh_callback g then 1 else 0)"

text \<open>No two keys share a code, and no two sets of modifiers a mask.\<close>

lemma mac_keys_distinct: "distinct (map fst mac_keys)" "distinct (map snd mac_keys)" "0xFFFF \<notin> set (map snd mac_keys)"
  by code_simp+

lemma toMacKeyCode_known: "toMacKeyCode vk \<noteq> 0xFFFF \<Longrightarrow> (vk, toMacKeyCode vk) \<in> set mac_keys"
  by (auto simp: toMacKeyCode_def split: option.splits dest: map_of_SomeD)

lemma toMacKeyCode_inj: "toMacKeyCode a = toMacKeyCode b \<Longrightarrow> toMacKeyCode a \<noteq> 0xFFFF \<Longrightarrow> a = b"
  using toMacKeyCode_known [of a] toMacKeyCode_known [of b] mac_keys_distinct(2)
  by (metis eq_key_imp_eq_value map_of_is_SomeI distinct_map inj_onD prod.inject snd_conv)

lemma mask_bits:
  "toCarbonModifiers m AND 0x1000 \<noteq> 0 \<longleftrightarrow> m AND 2 \<noteq> 0" "toCarbonModifiers m AND 0x0800 \<noteq> 0 \<longleftrightarrow> m AND 1 \<noteq> 0"
  "toCarbonModifiers m AND 0x0200 \<noteq> 0 \<longleftrightarrow> m AND 4 \<noteq> 0" "toCarbonModifiers m AND 0x0100 \<noteq> 0 \<longleftrightarrow> m AND 8 \<noteq> 0"
  by (auto simp: toCarbonModifiers_def Let_def)

text \<open>The keys the parser gives, but for F21 to F24, have a code.\<close>

lemma parsed_key_mapped:
  assumes "keyFor t = Some vk" "vk \<noteq> 0" "vk \<notin> {0x84, 0x85, 0x86, 0x87}"
  shows "toMacKeyCode vk \<noteq> 0xFFFF"
proof -
  have letters: "list_all (\<lambda>c. toMacKeyCode (word_of_nat (65 + (c - 97))) \<noteq> 0xFFFF) [97..<123]" by code_simp
  have digits: "list_all (\<lambda>c. toMacKeyCode (word_of_nat (48 + (c - 48))) \<noteq> 0xFFFF) [48..<58]" by code_simp
  have named: "list_all (\<lambda>p. toMacKeyCode (snd p) \<noteq> 0xFFFF) key_names" by code_simp
  have fkeys: "list_all (\<lambda>n. word_of_int (0x70 + (n - 1)) \<in> {0x84, 0x85, 0x86, 0x87 :: u16}
      \<or> toMacKeyCode (word_of_int (0x70 + (n - 1))) \<noteq> 0xFFFF) [1..24]" by code_simp
  consider "plain_key t = Some vk" | "map_of key_names t = Some vk"
    | n where "1 \<le> n" "n \<le> 24" "vk = word_of_int (0x70 + (n - 1))"
    using assms(1,2) by (auto simp: keyFor_def split: option.splits if_splits f_result.splits)
  then show ?thesis
  proof cases
    case 1
    define c where "c = (of_char (t ! 0) :: nat)"
    from 1 have "(97 \<le> c \<and> c < 123 \<and> vk = word_of_nat (65 + (c - 97))) \<or> (48 \<le> c \<and> c < 58 \<and> vk = word_of_nat (48 + (c - 48)))"
      unfolding plain_key_def c_def [symmetric] Let_def by (simp split: if_splits)
    then have "(c \<in> set [97..<123] \<and> vk = word_of_nat (65 + (c - 97))) \<or> (c \<in> set [48..<58] \<and> vk = word_of_nat (48 + (c - 48)))"
      by (simp only: set_upt atLeastLessThan_iff) blast
    then show ?thesis using letters digits unfolding list_all_iff by blast
  next
    case 2
    then show ?thesis using named map_of_SomeD by (fastforce simp: list_all_iff)
  next
    case 3
    then have "n \<in> set [1..24]" by (simp only: set_upto atLeastAtMost_iff)
    then have "vk \<in> {0x84, 0x85, 0x86, 0x87} \<or> toMacKeyCode vk \<noteq> 0xFFFF"
      using fkeys unfolding list_all_iff 3(3) by (rule bspec [rotated])
    then show ?thesis using assms(3) by blast
  qed
qed

text \<open>
  A hotkey the parser accepts can be registered on a Mac, when the combination is free, unless its
  key is one of F21 to F24, which the table does not have although it is said to cover the parser.
\<close>

theorem mac_hotkey_registers:
  assumes "hk_valid hk" "keyFor t = Some (hk_key hk)" "hk_key hk \<noteq> 0"
    and "free (toMacKeyCode (hk_key hk)) (toCarbonModifiers (hk_modifiers hk))"
  shows "fst (registerGlobalHotkey installs free hk g) \<longleftrightarrow> hk_key hk \<notin> {0x84, 0x85, 0x86, 0x87}"
proof -
  have "list_all (\<lambda>k. toMacKeyCode k = 0xFFFF) [0x84, 0x85, 0x86, 0x87]" by code_simp
  then have "toMacKeyCode (hk_key hk) = 0xFFFF \<longleftrightarrow> hk_key hk \<in> {0x84, 0x85, 0x86, 0x87}"
    using parsed_key_mapped [OF assms(2,3)] unfolding list_all_iff by (metis list.set(1,2))
  moreover have "fst (registerGlobalHotkey installs free hk g) \<longleftrightarrow> toMacKeyCode (hk_key hk) \<noteq> 0xFFFF"
    using assms(1,4) by (simp add: registerGlobalHotkey_def Let_def)
  ultimately show ?thesis by blast
qed

theorem mac_hotkey_registers_witness:
  "\<not> fst (registerGlobalHotkey True (\<lambda>_ _. True) \<lparr>hk_modifiers = 2, hk_key = 0x84, hk_valid = True\<rparr> hotkey_start)"
proof -
  have "keyFor ''f21'' = Some 0x84" by code_simp
  then show ?thesis
    using mac_hotkey_registers [of "\<lparr>hk_modifiers = 2, hk_key = 0x84, hk_valid = True\<rparr>" "''f21''" "\<lambda>_ _. True" True hotkey_start] by simp
qed

text \<open>
  The slots of the hotkey and those of the modifier translation are not the same: a hotkey puts Alt on
  Option and the Windows key on Command, \<open>translateModifier\<close> the Windows key on Option and Alt on Command.
\<close>

lemma slots_disagree:
  "toCarbonModifiers 1 = 0x0800 \<and> toCarbonModifiers 8 = 0x0100
   \<and> translateModifier Windows MacOS 0xA4 = 0x37 \<and> translateModifier Windows MacOS 0x5B = 0x3A"
  by (simp add: toCarbonModifiers_def translateModifier_def)

text \<open>A registration that fails has already given up the hotkey there was.\<close>

lemma failed_registration_loses:
  assumes "hk_valid hk" "toMacKeyCode (hk_key hk) \<noteq> 0xFFFF" "\<not> free (toMacKeyCode (hk_key hk)) (toCarbonModifiers (hk_modifiers hk))"
  shows "mh_ref (snd (registerGlobalHotkey installs free hk g)) = None"
  using assms by (simp add: registerGlobalHotkey_def Let_def)

section \<open>Capture\<close>

text \<open>The events a tap can be given; a moved pointer is a drag while a button is held.\<close>

datatype cg_event = CgMoved int int | CgDragged nat int int | CgButton nat bool | CgKeyEvent int bool | CgFlags int | CgScroll int

text \<open>The types in the mask.\<close>

fun in_mask :: "cg_event \<Rightarrow> bool" where
  "in_mask (CgMoved _ _) = True"
| "in_mask (CgButton _ _) = True"
| "in_mask (CgKeyEvent _ _) = True"
| "in_mask _ = False"

definition cg_button :: "nat \<Rightarrow> u8" where
  "cg_button b = (if b = 0 then 1 else if b = 1 then 2 else 3)"

fun mac_onEvent :: "cg_event \<Rightarrow> CapturedEvent option" where
  "mac_onEvent (CgMoved dx dy) = (if dx \<noteq> 0 \<or> dy \<noteq> 0 then Some (CMove dx dy) else None)"
| "mac_onEvent (CgKeyEvent code down) = Some (CKey (word_of_int code) down)"
| "mac_onEvent (CgButton b down) = Some (CButton (cg_button b) down)"
| "mac_onEvent _ = None"

record MacCapture =
  mc_tap :: bool
  mc_source :: bool

datatype tap_handle = Tap | RunSource

text \<open>The tap cannot be made without the user's permission.\<close>

definition mac_start :: "bool \<Rightarrow> MacCapture \<Rightarrow> bool \<times> MacCapture \<times> tap_handle event list" where
  "mac_start granted c =
     (if mc_tap c then (True, c, [])
      else if \<not> granted then (False, c, [])
      else (True, \<lparr>mc_tap = True, mc_source = True\<rparr>, [Got Tap, Got RunSource, Used RunSource, Used Tap]))"

definition mac_stop :: "MacCapture \<Rightarrow> MacCapture \<times> tap_handle event list" where
  "mac_stop c =
     (if mc_tap c then
        (\<lparr>mc_tap = False, mc_source = False\<rparr>, Used Tap # (if mc_source c then [Used RunSource, Freed RunSource] else []) @ [Freed Tap])
      else (c, []))"

text \<open>What the sink gets and whether the machine itself reacts to the event as well.\<close>

definition mac_tap :: "MacCapture \<Rightarrow> cg_event \<Rightarrow> CapturedEvent option \<times> bool" where
  "mac_tap c e = (if mc_tap c \<and> in_mask e then mac_onEvent e else None, True)"

text \<open>
  What the tap loses: it forwards a plain motion, the buttons and the keys, but nothing
  while a button is held, no modifier key and no wheel, and whatever it forwards the machine itself
  reacts to as well, as nothing is swallowed.
\<close>

theorem mac_capture_lossy:
  assumes "mc_tap c"
  shows "mac_tap c (CgDragged b dx dy) = (None, True) \<and> mac_tap c (CgFlags f) = (None, True) \<and> mac_tap c (CgScroll d) = (None, True)
    \<and> mac_tap c (CgKeyEvent code down) = (Some (CKey (word_of_int code) down), True)
    \<and> (dx \<noteq> 0 \<or> dy \<noteq> 0) = (fst (mac_tap c (CgMoved dx dy)) = Some (CMove dx dy))"
  using assms by (auto simp: mac_tap_def)

theorem mac_capture_lossy_witness:
  "mac_tap (fst (snd (mac_start True \<lparr>mc_tap = False, mc_source = False\<rparr>))) (CgDragged 0 4 2) = (None, True)"
  using mac_capture_lossy [of "\<lparr>mc_tap = True, mc_source = True\<rparr>" 0 4 2 0 0 0 True] by (simp add: mac_start_def)

text \<open>Starting and stopping in any order leaves nothing behind once it is stopped.\<close>

lemma tap_balanced: "well_used [] (snd (snd (mac_start True \<lparr>mc_tap = False, mc_source = False\<rparr>)) @ snd (mac_stop \<lparr>mc_tap = True, mc_source = True\<rparr>))"
  by (simp add: mac_start_def mac_stop_def)

section \<open>Injection\<close>

datatype cg_post = PostMoved int int | PostButton u8 bool int int | PostKey u8 bool

definition mac_inject :: "int \<times> int \<Rightarrow> injector_call \<Rightarrow> cg_post option" where
  "mac_inject at call = (case call of
       InjMouseMove dx dy \<Rightarrow> Some (PostMoved (fst at + sint dx) (snd at + sint dy))
     | InjMouseButton button down \<Rightarrow> if button = 1 \<or> button = 2 \<or> button = 3 then Some (PostButton button down (fst at) (snd at)) else None
     | InjKey code down \<Rightarrow> Some (PostKey code down))"

definition mac_mirror :: "int \<times> int \<Rightarrow> CapturedEvent \<Rightarrow> cg_post option" where
  "mac_mirror at e = mac_inject at (case e of
       CMove dx dy \<Rightarrow> InjMouseMove (to_i16 dx) (to_i16 dy) | CButton code down \<Rightarrow> InjMouseButton code down | CKey code down \<Rightarrow> InjKey code down)"

text \<open>
  The keys of the wire have no translation.  From one Mac to another a key arrives as itself; but
  every letter and digit typed on a Mac reaches a Windows machine as the code of a different key.
\<close>

definition typing_keys :: "u16 list" where
  "typing_keys = map word_of_nat ([65..<91] @ [48..<58])"

theorem mac_keys_mistyped:
  assumes "vk \<in> set typing_keys" "mc_tap c"
  shows "\<exists>code. fst (mac_tap c (CgKeyEvent (uint (toMacKeyCode vk)) down)) = Some (CKey code down)
    \<and> mac_mirror at (CKey code down) = Some (PostKey (ucast (toMacKeyCode vk)) down)
    \<and> mirror (CKey code down) = Some (KeyInput code (if down then 0 else KEYEVENTF_KEYUP)) \<and> code \<noteq> ucast vk"
proof -
  have "list_all (\<lambda>vk. (word_of_int (uint (toMacKeyCode vk)) :: u8) = ucast (toMacKeyCode vk)
      \<and> (word_of_int (uint (toMacKeyCode vk)) :: u8) \<noteq> ucast vk) typing_keys" by code_simp
  then have "(word_of_int (uint (toMacKeyCode vk)) :: u8) = ucast (toMacKeyCode vk)" "(word_of_int (uint (toMacKeyCode vk)) :: u8) \<noteq> ucast vk"
    using assms(1) unfolding list_all_iff by blast+
  then show ?thesis using assms(2) by (simp add: mac_tap_def mac_mirror_def mac_inject_def mirror_def)
qed

theorem mac_keys_mistyped_witness:
  "mirror (CKey 0 True) = Some (KeyInput 0 0)
   \<and> fst (mac_tap \<lparr>mc_tap = True, mc_source = True\<rparr> (CgKeyEvent (uint (toMacKeyCode 65)) True)) = Some (CKey 0 True)"
proof -
  have "(65 :: u16) \<in> set typing_keys" by code_simp
  from mac_keys_mistyped [OF this, of "\<lparr>mc_tap = True, mc_source = True\<rparr>" True]
  show ?thesis by (auto simp: mac_tap_def toMacKeyCode_def mac_keys_def)
qed

section \<open>The menu\<close>

text \<open>The methods of the delegate and the items of the menu with their actions.\<close>

definition delegate_methods :: "string list" where
  "delegate_methods = [''applicationDidFinishLaunching:'', ''openPicker'', ''openSettings'', ''quit:'']"

definition mac_menu :: "MenuItem list \<Rightarrow> (string \<times> string option) list" where
  "mac_menu items = (if items = [] then [(''No devices paired'', None)] else map (\<lambda>i. (mi_name i, None)) items)
     @ [(''Settings'', Some ''openSettings:''), (''Quit Skittermouse'', Some ''quit:'')]"

text \<open>An item does something when its target has a method of its action's name.\<close>

definition item_works :: "string \<times> string option \<Rightarrow> bool" where
  "item_works i = (case snd i of None \<Rightarrow> False | Some a \<Rightarrow> a \<in> set delegate_methods)"

text \<open>The item names \<open>openSettings:\<close>, the delegate has \<open>openSettings\<close>: the settings cannot be opened, and only Quit works.\<close>

lemma only_quit_works: "filter item_works (mac_menu items) = [(''Quit Skittermouse'', Some ''quit:'')]"
proof -
  have "filter item_works (map (\<lambda>i. (mi_name i, None)) xs) = []" for xs :: "MenuItem list"
    by (simp add: filter_empty_conv item_works_def)
  then show ?thesis by (simp add: mac_menu_def item_works_def delegate_methods_def)
qed

text \<open>The hotkey at launch is that of a fresh configuration; the file is read only by the settings.\<close>

definition mac_launch :: "bool \<Rightarrow> (u32 \<Rightarrow> u32 \<Rightarrow> bool) \<Rightarrow> MacHotkey option" where
  "mac_launch installs free =
     (case parseHotkey (st_hotkey (cfg_settings defaultConfig)) of None \<Rightarrow> None
      | Some hk \<Rightarrow>
          (case registerGlobalHotkey installs free hk hotkey_start of
             (True, g) \<Rightarrow> Some g
           | (False, g) \<Rightarrow>
               (case parseHotkey ''Ctrl+Shift+Alt+Space'' of None \<Rightarrow> None | Some fb \<Rightarrow> Some (snd (registerGlobalHotkey installs free fb g)))))"

lemma mac_launch_result:
  "map_option mh_ref (mac_launch installs free)
     = Some (if free 0x31 0x1800 then Some (0x31, 0x1800) else if free 0x31 0x1A00 then Some (0x31, 0x1A00) else None)"
proof -
  have d: "parseHotkey (st_hotkey (cfg_settings defaultConfig)) = Some \<lparr>hk_modifiers = 3, hk_key = 0x20, hk_valid = True\<rparr>"
    using default_hotkey by (simp add: defaultConfig_def defaultSettings_def)
  have k: "toMacKeyCode 0x20 = 0x31" by (simp add: toMacKeyCode_def mac_keys_def)
  have m: "toCarbonModifiers 3 = 0x1800" "toCarbonModifiers 7 = 0x1A00" by (simp_all add: toCarbonModifiers_def Let_def)
  show ?thesis by (simp add: mac_launch_def d second_hotkey registerGlobalHotkey_def k m)
qed

end
