(* ===== verification/SealedInterop.thy ===== *)
theory SealedInterop
  imports EncryptedTransport MacCrypto
begin

text \<open>
  The sealing layer of \<open>net/encrypted_transport.h\<close> over the three real ciphers: with the contracts of
  their libraries the backends of Windows, POSIX and macOS send the same frames and
  open the same frames, so that what is proved over an abstract cipher holds between the platforms.
\<close>

section \<open>The calls of the sealing layer\<close>

text \<open>The layer has no additional data; a decryption that fails gives nothing.\<close>

definition verdict :: "bool \<times> bytes \<Rightarrow> bytes option" where
  "verdict r = (if fst r then Some (snd r) else None)"

definition win_enc :: "'k cng \<Rightarrow> gcm_enc" where "win_enc N key nonce pt = win_aesGcmEncrypt N key nonce [] pt"
definition win_dec :: "'k cng \<Rightarrow> gcm_dec" where "win_dec N key nonce ct tag = verdict (win_aesGcmDecrypt N key nonce [] ct tag)"
definition posix_enc :: "'c evp \<Rightarrow> gcm_enc" where "posix_enc E key nonce pt = posix_aesGcmEncrypt E key nonce [] pt"
definition posix_dec :: "'c evp \<Rightarrow> gcm_dec" where "posix_dec D key nonce ct tag = verdict (posix_aesGcmDecrypt D key nonce [] ct tag)"
definition mac_enc :: "'c common_crypto \<Rightarrow> gcm_enc" where "mac_enc C key nonce pt = mac_aesGcmEncrypt C key nonce [] pt"
definition mac_dec :: "'c common_crypto \<Rightarrow> gcm_dec" where "mac_dec C key nonce ct tag = verdict (mac_aesGcmDecrypt C key nonce [] ct tag)"

text \<open>What a cipher of the layer does on texts shorter than two gigabytes.\<close>

definition seals :: "gcm \<Rightarrow> gcm_enc \<Rightarrow> bool" where
  "seals G enc \<longleftrightarrow> (\<forall>key nonce pt. length key = 32 \<and> length nonce = 12 \<and> short pt \<longrightarrow>
     enc key nonce pt = Some (g_crypt G key nonce pt, g_tag G key nonce [] (g_crypt G key nonce pt)))"

definition opens :: "gcm \<Rightarrow> gcm_dec \<Rightarrow> bool" where
  "opens G dec \<longleftrightarrow> (\<forall>key nonce ct tag. length key = 32 \<and> length nonce = 12 \<and> short ct \<and> length tag = 16 \<longrightarrow>
     dec key nonce ct tag = (if tag = g_tag G key nonce [] ct then Some (g_crypt G key nonce ct) else None))"

lemma win_cipher:
  assumes "cng_ok G keyOf N" "cng_works G keyOf N"
  shows "seals G (win_enc N)" "opens G (win_dec N)"
proof -
  show "seals G (win_enc N)" unfolding seals_def
  proof (intro allI impI, elim conjE)
    fix key nonce pt :: bytes
    assume a: "length key = 32" "length nonce = 12" "short pt"
    then have n: "short nonce" "short ([] :: bytes)" by simp_all
    obtain ct tag where e: "win_aesGcmEncrypt N key nonce [] pt = Some (ct, tag)" using win_encrypt_works [OF assms(2) a(1,2)] by blast
    show "win_enc N key nonce pt = Some (g_crypt G key nonce pt, g_tag G key nonce [] (g_crypt G key nonce pt))"
      using win_encrypts [OF assms(1) e n a(3)] e a(1) by (simp add: win_enc_def)
  qed
  show "opens G (win_dec N)" unfolding opens_def
    using win_decrypt_exact [OF assms, of _ _ "[]"] by (simp add: win_dec_def verdict_def)
qed

lemma posix_cipher:
  assumes "gcm_ok G"
  shows "evp_ok True G ve E \<Longrightarrow> evp_works True G ve E \<Longrightarrow> seals G (posix_enc E)"
    "evp_ok False G vd D \<Longrightarrow> evp_works False G vd D \<Longrightarrow> opens G (posix_dec D)"
proof -
  show "seals G (posix_enc E)" if ok: "evp_ok True G ve E" "evp_works True G ve E" unfolding seals_def
  proof (intro allI impI, elim conjE)
    fix key nonce pt :: bytes
    assume a: "length key = 32" "length nonce = 12" "short pt"
    then have n: "nonce \<noteq> []" "short nonce" "short ([] :: bytes)" by auto
    obtain ct tag where e: "posix_aesGcmEncrypt E key nonce [] pt = Some (ct, tag)" using posix_encrypt_works [OF ok(2) n a(3)] by blast
    show "posix_enc E key nonce pt = Some (g_crypt G key nonce pt, g_tag G key nonce [] (g_crypt G key nonce pt))"
      using posix_encrypts [OF ok(1) assms n(2,3) a(3) e] e a(1) by (simp add: posix_enc_def)
  qed
  show "opens G (posix_dec D)" if ok: "evp_ok False G vd D" "evp_works False G vd D" unfolding opens_def
  proof (intro allI impI, elim conjE)
    fix key nonce ct tag :: bytes
    assume a: "length key = 32" "length nonce = 12" "short ct" "length tag = 16"
    then have n: "nonce \<noteq> []" "short nonce" "short ([] :: bytes)" by auto
    show "posix_dec D key nonce ct tag = (if tag = g_tag G key nonce [] ct then Some (g_crypt G key nonce ct) else None)"
      using posix_decrypt_exact [OF ok assms n a(3,4), of key] a(1) by (simp add: posix_dec_def verdict_def)
  qed
qed

lemma mac_cipher:
  assumes "gcm_ok G" "cc_ok G v C" "cc_works C"
  shows "seals G (mac_enc C)" "opens G (mac_dec C)"
  using mac_gcm_exact [OF assms]
  by (simp_all add: seals_def opens_def mac_enc_def mac_dec_def mac_aesGcmEncrypt_def mac_aesGcmDecrypt_def verdict_def Let_def)

text \<open>
  The cipher without a limit on lengths: it is an AEAD in the sense of the sealing layer, and every backend is
  this cipher on texts shorter than two gigabytes.
\<close>

definition ideal_enc :: "gcm \<Rightarrow> gcm_enc" where
  "ideal_enc G key nonce pt = Some (g_crypt G key nonce pt, g_tag G key nonce [] (g_crypt G key nonce pt))"

definition ideal_dec :: "gcm \<Rightarrow> gcm_dec" where
  "ideal_dec G key nonce ct tag = (if tag = g_tag G key nonce [] ct then Some (g_crypt G key nonce ct) else None)"

lemma ideal_aead: "gcm_ok G \<Longrightarrow> aead_ok (ideal_enc G) (ideal_dec G)"
  by (simp add: aead_ok_def ideal_enc_def ideal_dec_def gcm_ok_def)

lemma backend_is_ideal:
  "seals G enc \<Longrightarrow> length key = 32 \<Longrightarrow> length nonce = 12 \<Longrightarrow> short pt \<Longrightarrow> enc key nonce pt = ideal_enc G key nonce pt"
  "opens G dec \<Longrightarrow> length key = 32 \<Longrightarrow> length nonce = 12 \<Longrightarrow> short ct \<Longrightarrow> length tag = 16 \<Longrightarrow> dec key nonce ct tag = ideal_dec G key nonce ct tag"
  by (simp_all add: seals_def opens_def ideal_enc_def ideal_dec_def)

section \<open>One link between two platforms\<close>

lemma sends_alike:
  assumes "seals G enc" "seals G enc'" "length (et_key e) = 32" "short m"
  shows "enc_send enc send m (e, t) = enc_send enc' send m (e, t)"
  using assms by (simp add: enc_send_def seals_def length_makeNonce)

lemma opens_alike:
  assumes "opens G dec" "opens G dec'" "length (et_key e) = 32" "short f"
  shows "open_frame dec cap f e = open_frame dec' cap f e"
proof (cases "length f < kOverhead")
  case False
  then have "length (take kNonceLen f) = 12" "length (take kTagLen (drop kNonceLen f)) = 16" "short (drop kOverhead f)"
    using assms(4) by (simp_all add: kNonceLen_def kTagLen_def kOverhead_def)
  then have "dec (et_key e) (take kNonceLen f) (drop kOverhead f) (take kTagLen (drop kNonceLen f))
      = dec' (et_key e) (take kNonceLen f) (drop kOverhead f) (take kTagLen (drop kNonceLen f))"
    using assms(1-3) by (simp add: opens_def)
  then show ?thesis by (simp add: open_frame_def Let_def)
qed (simp add: open_frame_def)

text \<open>The frame a send puts on the wire, and what opening it gives at the other end.\<close>

definition wire_frame :: "gcm_enc \<Rightarrow> bytes \<Rightarrow> EncryptedTransport \<Rightarrow> bytes option" where
  "wire_frame enc m e = (case enc_send enc (\<lambda>f t. (True, Some f)) m (e, None) of (ok, _, t) \<Rightarrow> if ok then t else None)"

lemma crosses:
  assumes "gcm_ok G" "seals G enc" "opens G dec" "length (et_key a) = 32" "et_key b = et_key a" "et_recvRole b = et_sendRole a"
    and "et_sendCtr a \<noteq> - 1" "et_haveRecv b \<longrightarrow> et_lastRecvCtr b < et_sendCtr a" "m \<noteq> []" "short m" "length m \<le> cap"
  shows "\<exists>f. wire_frame enc m a = Some f \<and> length f = length m + 28
    \<and> open_frame dec cap f b = (RecvMsg m, b\<lparr>et_haveRecv := True, et_lastRecvCtr := et_sendCtr a\<rparr>)"
proof -
  let ?n = "makeNonce (et_sendRole a) (et_sendCtr a)"
  let ?ct = "g_crypt G (et_key a) ?n m"
  let ?tag = "g_tag G (et_key a) ?n [] ?ct"
  let ?f = "?n @ ?tag @ ?ct"
  have g: "length ?ct = length m" "length ?tag = 16" "g_crypt G (et_key a) ?n ?ct = m"
    using assms(1) unfolding gcm_ok_def by blast+
  have n: "length ?n = 12" by (simp add: length_makeNonce)
  have e: "enc (et_key a) ?n m = Some (?ct, ?tag)" using assms(2,4,10) n unfolding seals_def by blast
  have sent: "wire_frame enc m a = Some ?f" using assms(7,9) e by (simp add: wire_frame_def enc_send_def Let_def)
  have parts: "take kNonceLen ?f = ?n" "take kTagLen (drop kNonceLen ?f) = ?tag" "drop kOverhead ?f = ?ct"
    using n g(2) by (simp_all add: kNonceLen_def kTagLen_def kOverhead_def)
  have d: "dec (et_key b) ?n ?ct ?tag = Some m"
    using assms(3,4,5,10) n g unfolding opens_def by simp
  have ctr: "readCounter ?n = et_sendCtr a" "?n ! 0 = et_sendRole a" by simp_all
  have "\<not> length ?f < kOverhead" using n g(2) by (simp add: kOverhead_def)
  moreover have "\<not> (et_haveRecv b \<and> et_sendCtr a \<le> et_lastRecvCtr b)" using assms(8) by auto
  ultimately have "open_frame dec cap ?f b = (RecvMsg m, b\<lparr>et_haveRecv := True, et_lastRecvCtr := et_sendCtr a\<rparr>)"
    unfolding open_frame_def parts Let_def ctr using assms(6,9,11) g(1) d by (simp add: recv_of_bytes_def)
  then show ?thesis using sent n g(1,2) by (intro exI [of _ ?f]) simp
qed

text \<open>
  C17. A frame crosses every pair of platforms.  Whichever of the three backends seals a message and
  whichever opens it, the frame is the same 28 bytes longer and the receiver gets the message and
  moves its counter; and any other frame, forged or damaged, has the same fate on all three.
\<close>

theorem frames_cross_platforms:
  assumes "gcm_ok G" "cng_ok G keyOf N" "cng_works G keyOf N" "evp_ok True G ve E" "evp_works True G ve E" "evp_ok False G vd D"
    "evp_works False G vd D" "cc_ok G vc C" "cc_works C"
    and "length (et_key a) = 32" "et_key b = et_key a" "et_recvRole b = et_sendRole a"
    and "et_sendCtr a \<noteq> - 1" "et_haveRecv b \<longrightarrow> et_lastRecvCtr b < et_sendCtr a" "m \<noteq> []" "length m < 2 ^ 31" "length m \<le> cap"
    and "enc \<in> {win_enc N, posix_enc E, mac_enc C}" "dec \<in> {win_dec N, posix_dec D, mac_dec C}" "dec' \<in> {win_dec N, posix_dec D, mac_dec C}"
    and "length f' < 2 ^ 31"
  shows "(\<exists>f. wire_frame enc m a = Some f \<and> wire_frame (win_enc N) m a = Some f \<and> length f = length m + 28
      \<and> open_frame dec cap f b = (RecvMsg m, b\<lparr>et_haveRecv := True, et_lastRecvCtr := et_sendCtr a\<rparr>))
    \<and> open_frame dec cap f' b = open_frame dec' cap f' b"
proof
  have seal: "seals G enc" "seals G (win_enc N)"
    using assms(18) win_cipher(1) [OF assms(2,3)] posix_cipher(1) [OF assms(1,4,5)] mac_cipher(1) [OF assms(1,8,9)] by auto
  have "opens G d" if "d \<in> {win_dec N, posix_dec D, mac_dec C}" for d
    using that win_cipher(2) [OF assms(2,3)] posix_cipher(2) [OF assms(1,6,7)] mac_cipher(2) [OF assms(1,8,9)] by auto
  then have op: "opens G dec" "opens G dec'" using assms(19,20) by blast+
  have "wire_frame enc m a = wire_frame (win_enc N) m a"
    unfolding wire_frame_def sends_alike [OF seal assms(10,16)] ..
  then show "\<exists>f. wire_frame enc m a = Some f \<and> wire_frame (win_enc N) m a = Some f \<and> length f = length m + 28
      \<and> open_frame dec cap f b = (RecvMsg m, b\<lparr>et_haveRecv := True, et_lastRecvCtr := et_sendCtr a\<rparr>)"
    using crosses [OF assms(1) seal(1) op(1) assms(10-17)] by auto
  have "length (et_key b) = 32" using assms(10,11) by simp
  then show "open_frame dec cap f' b = open_frame dec' cap f' b" using opens_alike [OF op _ assms(21)] by blast
qed

theorem frames_cross_platforms_witness:
  "\<exists>f. wire_frame (posix_enc (toy_evp True)) [1, 2, 3] (newEncrypted (replicate 32 7) Initiator) = Some f
    \<and> fst (open_frame (win_dec toy_cng) 64 f (newEncrypted (replicate 32 7) Responder)) = RecvMsg [1, 2, 3]"
proof -
  let ?a = "newEncrypted (replicate 32 7) Initiator" and ?b = "newEncrypted (replicate 32 7) Responder"
  have st: "length (et_key ?a) = 32" "et_key ?b = et_key ?a" "et_recvRole ?b = et_sendRole ?a" "et_sendCtr ?a \<noteq> - 1"
    "et_haveRecv ?b \<longrightarrow> et_lastRecvCtr ?b < et_sendCtr ?a"
    by (simp_all add: newEncrypted_def role_code_def)
  show ?thesis
    using frames_cross_platforms [OF toy_gcm_ok toy_cng_ok toy_evp_ok [of True] toy_evp_ok [of False] toy_cc_ok st, of "[1, 2, 3]" 64
        "posix_enc (toy_evp True)" "win_dec toy_cng" "mac_dec toy_cc" "[]"] by auto
qed

end
