(* ===== verification/Spec2Isabelle.thy ===== *)
theory Spec2Isabelle
  imports Pairing CryptoUtil Messages Ownership Election PeerCodecs FileCodecs Transport FileSession FileTransfer
    Liveness WakeFlow Clipboard Input Hotkey Config MeshNode MeshProps WebSocket EncryptedTransport KeyStore SecureLink Connections
    Handshake Capture LanSockets TrayApp FilePaste TrayNet SocketLayer Dialogs Shell CryptoBackends
    Handles CryptoCalls OsServices Tools ComObjects FileThreads LoginStart
    TlsContexts AppStart LanPlatforms MacCrypto MacInput SealedInterop
begin

text \<open>
  QQMouse (``Skittermouse'' in the sources) shares one mouse, keyboard and clipboard between
  machines of a local network.  Every machine runs the same program.  One machine at a time
  owns the input: it captures its devices and forwards the events to the machine its user drives;
  clipboard texts and copied files travel between all of them.  Machines find each
  other by datagram beacons, pair once by comparing a six-digit code, and then keep
  sealed links over WebSockets.  This library models the C++ code under src/src as functions,
  records and step relations and proves what makes it correct, and, where the code falls short, what
  happens instead.

  How the parts interact.  The network thread dials paired machines and accepts sockets,
  turns each socket into a sealed link and hands it to the UI thread.  The UI thread owns
  the connection manager, which names a link by its hello, and the mesh node, which
  decides who owns the input, forwards and injects, guards the clipboard and watches heartbeats.
  Captured input enters the mesh node from the hooks; its callbacks reach the injector, the
  clipboard, the toasts and the capture.  The discovery thread keeps the addresses of paired
  machines fresh; a pairing session adds a machine to the configuration and its key to the key
  store.  Copied files are announced over the mesh and pulled over a connection of their own when
  they are pasted.

  The theories, with the files they model (below src/src unless they say otherwise).

  Foundations.  Prelude: machine words, byte buffers, ordered maps and sets as sorted
  lists, runs of steps with outputs (\<open>run_steps\<close>), the collections \<open>wire_simps\<close> and
  \<open>omap_simps\<close>.  Texts: splitting, decimal printing and reading.  Codec: the contract of
  a codec, as the locales \<open>wire_codec\<close> and \<open>stream_codec\<close>.  Transport: net/transport.h and
  its contract, the locale \<open>fifo_transport\<close>, with the in-memory pair of the header.

  Wire formats.  Messages (core/event_types.h, net/message_codec), PeerCodecs (net/peer_hello,
  net/ownership_codec, net/discovery_beacon), FileCodecs (net/file_transfer,
  net/file_promise_announce): each encoder and decoder, their round trips through
  interpretations of the codec locales, and what the decoders reject.

  Decisions.  Ownership (core/ownership_state): claims, the order between them (locale
  \<open>strict_weak_order\<close>), convergence of all machines.  Election (core/server_election).  Liveness
  (core/heartbeat, net/discovery_table), both interpretations of the locale \<open>last_seen\<close>.
  WakeFlow (core/wake_flow).  Clipboard (core/clipboard_sync).  Input (core/input_tracker,
  core/input_pipeline).  Hotkey (core/hotkey, core/key_translation).  Config (core/config).

  The mesh.  MeshNode (app/mesh_node): every operation and message handler of a node.
  MeshProps: its invariant, what its callbacks report, the fail-safe, hand-over and forwarding
  between nodes.

  Links.  WebSocket (net/ws_frame, net/frame_assembler, the send and receive paths of
  platform/ws_transport_posix.cpp).  Handshake (net/ws_handshake and both platforms' sides).
  SocketLayer (platform/ws_transport_win.cpp and the dialling, accepting and closing of both
  platforms; locale \<open>socket_layer\<close>, interpreted once for each, macOS in MacCrypto).  TlsContexts
  (the TLS contexts of ws_transport_posix.cpp and why a POSIX and a Windows build never connect).  EncryptedTransport
  (net/encrypted_transport.h).  SecureLink (app/secure_link).  Connections
  (app/connection_manager, app/connection_service).  KeyStore (pairing/key_store).  CryptoUtil
  (crypto/base64, crypto/hkdf, crypto/x509_selfsigned).  CryptoBackends
  (platform/crypto_win.cpp and crypto_posix.cpp: random bytes, key exchange) and CryptoCalls
(their hashes and AES-GCM, and the handles every function makes and releases).  Pairing
  (pairing/verification_code, pairing/ecdh_handshake, pairing/pairing_exchange).

  Files.  FileSession (net/file_session, net/file_channel), FileTransfer (the transfer end to
  end over any \<open>fifo_transport\<close>), FilePaste (platform/filepromise_win.cpp and the file part of
  platform/tray_win.cpp; locale \<open>byte_source\<close>), ComObjects (the reference counts of the COM
  objects of filepromise_win.cpp), FileThreads (the files on the clipboard, the file server's pass
  and the OLE thread of tray_win.cpp).

  The application.  LanSockets (net/discovery_socket, net/wol_sender, net/session_token) and
  LanPlatforms (the platform-dependent parts of net/discovery_socket).
  Capture (platform/capture_win.cpp).  TrayApp (the UI thread of platform/tray_win.cpp,
  ui/menu_model).  TrayNet (its network, discovery and pairing threads).  Dialogs
  (ui/picker_window_win.cpp, ui/settings_window_win.cpp, the device picker of tray_win.cpp).
  Shell (platform/inject_win.cpp, platform/autostart_win.cpp, the commands, the hotkey
  registration, the pump ticker and the life of the threads in tray_win.cpp).  AppStart (the
  single-instance guard of runTrayApp).  LoginStart (the
  command lines and files behind the autostart of Shell).  OsServices (platform/clipboard_win.cpp,
  pairing/pairing_dialog_win.cpp, core/log.cpp, platform/wol_diag_win.cpp, platform/lock_win.cpp).
  Tools (the three command-line drivers under tools).  Handles: events that make, use and release
  system resources, shared by the theories of platform code.

  How code becomes definitions.  A class is a record of its members and an operation a function
  that returns the new record, its result and the calls it makes out (sends, callbacks, system
  calls) as a list of outputs.  A \<open>std::map\<close> or \<open>std::set\<close> keyed by ids is a list sorted by
  key.  Integers keep their width as words.  Exceptions, undefined behaviour the code can
  reach (an access out of bounds, a failed allocation) and refusals are values of
  a sum or option type.  What the operating system or the user answers is an argument: clock
  readings, socket results, scripts of incoming events.  Cryptographic functions, the elliptic
  curve and the UTF-8 conversions of the system are parameters; what is assumed of them is a named
  predicate (\<open>aead_ok\<close>, \<open>hmac_ok\<close>, \<open>curve_ok\<close>, \<open>bcrypt_ok\<close>,
  \<open>evp_ok\<close>, \<open>cng_ok\<close>, \<open>tls_ok\<close>, \<open>cc_ok\<close>, \<open>sec_ok\<close>) with an instance that satisfies it.
  Threads that share flags are inductive step relations whose steps are the single accesses.

  What the lemmas show.  The codec theories prove round trips and rejection; the decision
  theories prove invariants over every history of operations and convergence; MeshProps
  and TrayApp prove what the user sees: input is never stuck, hooks are installed exactly while
  driving, a lost machine gives the input back.  The link theories prove that message boundaries
  survive any cutting of the stream, that an attacker can only drop messages, that nonces never
  repeat in a session, that both platforms behave alike and leak nothing, and that pairing agrees and stores
  nothing the user did not confirm.  The file theories compose these into one statement:
  the property at the end of this theory sends files through the sealing layer over
  the WebSocket framing, and FilePaste carries them to the reader of the clipboard.  The theorems of kind
  ``error'' prove defects: inputs or orders of events on which the code does something it does
  not mean to.

  Bounds and fuel.  \<open>drainFiles\<close>, \<open>stream_loop\<close> and \<open>copy_loop\<close> are partial functions
  with the value \<open>None\<close> for a loop that goes on; the properties that use them state that they
  return.  The clock readings of a loop are a list, so a loop ends with its list; the properties say
  which lists are long enough.  Accepted sockets are polled at most 200 and 400 times
  as in the code.  \<open>mem\<close> in the file theories is the memory a receiver can allocate.  Sequence
  numbers and counters are 64 bits and their wrap-around is a hypothesis or a proved defect.

  macOS.  MacCrypto (platform/crypto_mac.mm, the dialling and accepting of
  platform/ws_transport_mac.mm) and MacInput (platform/capture_mac.mm, inject_mac.mm, hotkey_mac.mm
  and the menu of tray_mac.mm), compared with the Windows and POSIX code.  SealedInterop: the sealing
  layer over the three real ciphers, which send and open the same frames; the abstract \<open>aead_ok\<close>
  of the other theories holds of the cipher they share, on texts shorter than two gigabytes.

  Not modelled.  Drawing, layout and registration of windows; the windows, dialogs and services of
  macOS, its hashes and the making of its keychain identity; tests, packaging and
  documentation.  A blocking socket read that never returns is outside the model of the
  WebSocket handshake, where a read ends with data, the end of the stream or an error; data
  races between the UI thread and the others outside their mutexes are outside it too, as the shared state
  of the threads is modelled one pass or one atomic access at a time.
\<close>

section \<open>The whole file path\<close>

text \<open>A fresh WebSocket connection, seen in the direction from the dialling machine or to it.\<close>

definition ws_conn :: "bool \<Rightarrow> WsConn" where
  "ws_conn client = \<lparr>wc_connected = True, wc_client = client, wc_asm = asmInit, wc_in = [], wc_wr = [], wc_out = []\<rparr>"

definition ws_wire :: "bool \<Rightarrow> (nat \<Rightarrow> bytes) \<Rightarrow> ws_pipe" where
  "ws_wire client masks = \<lparr>wp_tx = ws_conn client, wp_rx = ws_conn (\<not> client), wp_rnd = masks, wp_sent = 0\<rparr>"

lemma ws_wire_fresh: "pipe_inv (ws_wire client masks)" "pipe_pending (ws_wire client masks) = []"
proof -
  have inc: "incoming client [] (ws_conn (\<not> client))"
    by (simp add: incoming_def ws_conn_def asmInit_def benign_def stream_ok_def)
  then have "\<exists>xs. incoming client xs (ws_conn (\<not> client))" ..
  then show "pipe_inv (ws_wire client masks)" by (simp add: pipe_inv_def ws_wire_def ws_conn_def)
  show "pipe_pending (ws_wire client masks) = []"
    using pipe_pending_incoming [of client "[]" "ws_wire client masks"] inc by (simp add: ws_wire_def ws_conn_def)
qed



end
